(* ===== verification/Prelude.thy ===== *)
theory Prelude
  imports Main "HOL-Library.Word" "HOL-Library.Monad_Syntax"
begin

text \<open>
  What every component of the development shares: the machine integer types of the
  kernel, the status codes, the outcome of a kernel routine, and the generic facts on
  options, lists, function updates and page arithmetic the component proofs rest on.

  A routine of the kernel that can stop the machine returns an \<open>option\<close>: \<open>None\<close> means
  that the CPU does not come back from the call (an \<open>ASSERT\<close> failed and the kernel halted,
  or the CPU spins for ever on a lock), \<open>Some (r, s)\<close> that it returned \<open>r\<close> in state \<open>s\<close>.
\<close>

unbundle bit_operations_syntax

named_theorems kernel_simps \<open>unfolding rules for kernel routines\<close>
named_theorems page_arith \<open>facts on page-aligned 64-bit addresses\<close>

subsection \<open>Machine integers and status codes\<close>

type_synonym byte = "8 word"
type_synonym dword = "32 word"
type_synonym qword = "64 word"

abbreviation MAX_DWORD :: dword where
  "MAX_DWORD \<equiv> - 1"

abbreviation MAX_BYTE :: byte where
  "MAX_BYTE \<equiv> - 1"

abbreviation PAGE_SIZE :: qword where
  "PAGE_SIZE \<equiv> 0x1000"

abbreviation MB_SIZE :: qword where
  "MB_SIZE \<equiv> 0x100000"

datatype status =
    STATUS_SUCCESS
  | STATUS_INVALID_PARAMETER1
  | STATUS_INVALID_PARAMETER2
  | STATUS_INVALID_PARAMETER3
  | STATUS_INVALID_PARAMETER4
  | STATUS_INVALID_PARAMETER5
  | STATUS_INVALID_PARAMETER6
  | STATUS_ELEMENT_NOT_FOUND
  | STATUS_UNSUPPORTED
  | STATUS_UNSUCCESSFUL
  | STATUS_JOB_INTERRUPTED
  | STATUS_INSUFFICIENT_MEMORY
  | STATUS_HEAP_INSUFFICIENT_RESOURCES
  | STATUS_PAT_LAYOUT_NOT_COMPATIBLE
  | STATUS_MEMORY_IS_NOT_RESERVED
  | STATUS_MEMORY_ALREADY_RESERVED
  | STATUS_MEMORY_CANNOT_BE_RESERVED
  | STATUS_MEMORY_CANNOT_BE_COMMITED
  | STATUS_MEMORY_IS_NOT_COMMITED
  | STATUS_MEMORY_CONFLICTING_ACCESS_RIGHTS
  | STATUS_MEMORY_CONFLICTING_CACHEABILITY
  | STATUS_MEMORY_PREVENTS_USERMODE_ACCESS
  | STATUS_MEMORY_INSUFFICIENT_ACCESS_RIGHTS
  | STATUS_MEMORY_CANNOT_BE_MAPPED
  | STATUS_ALREADY_INITIALIZED
  | STATUS_ALREADY_INITIALIZED_HINT
  | STATUS_HEAP_NO_MORE_MEMORY
  | STATUS_FILE_NOT_FOUND
  | STATUS_CPU_NO_MATCHES
  | STATUS_BUFFER_TOO_SMALL
  | STATUS_NO_MORE_OBJECTS
  | STATUS_INVALID_FILE_NAME
  | STATUS_DEVICE_NO_FILESYSTEM_MOUNTED
  | STATUS_DEVICE_NOT_CONNECTED
  | STATUS_DEVICE_SPACE_RANGE_EXCEEDED
  | STATUS_DEVICE_NO_MORE_DEVICES
  | AE_OK
  | AE_ERROR
  | AE_BAD_PARAMETER
  | AE_NOT_FOUND
  | AE_BAD_DATA
  | AE_NO_MEMORY
  | STATUS_PHYSICAL_MEMORY_NOT_AVAILABLE
  | STATUS_NOT_IMPLEMENTED
  | STATUS_IMAGE_NOT_FULLY_LOADED
  | STATUS_IMAGE_NOT_64_BIT
  | STATUS_IMAGE_SUBSYSTEM_NOT_NATIVE
  | STATUS_IMAGE_HAS_RELOCATIONS
  | STATUS_INCOMPATIBLE_INTERFACE
  | STATUS_DEVICE_DOES_NOT_EXIST
  | STATUS_DEVICE_TYPE_INVALID
  | STATUS_DEVICE_INVALID_OPERATION
  | STATUS_DEVICE_ALIGNMENT_NO_SATISFIED
  | STATUS_DEVICE_DRIVER_COULD_NOT_BE_CREATED
  | STATUS_DEVICE_INTERRUPT_NOT_AVAILABLE
  | STATUS_DEVICE_INTERRUPT_NOT_CONFIGURED
  | STATUS_DEVICE_INTERRUPT_PRIORITY_NOT_AVAILABLE

definition SUCCEEDED :: "status \<Rightarrow> bool" where
  "SUCCEEDED st \<longleftrightarrow> st = STATUS_SUCCESS"

lemma SUCCEEDED_SUCCESS [simp]: "SUCCEEDED STATUS_SUCCESS"
  by (simp add: SUCCEEDED_def)

subsection \<open>Assertions\<close>

definition ASSERT :: "bool \<Rightarrow> unit option" where
  "ASSERT b = (if b then Some () else None)"

lemma ASSERT_True [simp]: "ASSERT True = Some ()"
  by (simp add: ASSERT_def)

lemma ASSERT_False [simp]: "ASSERT False = None"
  by (simp add: ASSERT_def)

lemma ASSERT_eq_Some [simp]: "ASSERT b = Some u \<longleftrightarrow> b"
  by (simp add: ASSERT_def)

lemma ASSERT_bind_eq_Some [simp]: "(ASSERT b \<bind> f = Some r) \<longleftrightarrow> b \<and> f () = Some r"
  by (simp add: ASSERT_def)

lemma ASSERT_bind_eq_None: "(ASSERT b \<bind> f = None) \<longleftrightarrow> \<not> b \<or> f () = None"
  by (simp add: ASSERT_def)

lemma bind_Some_iff: "(m \<bind> f = Some r) \<longleftrightarrow> (\<exists>x. m = Some x \<and> f x = Some r)"
  by (cases m) auto

lemma bind_SomeE:
  assumes "m \<bind> f = Some r"
  obtains x where "m = Some x" and "f x = Some r"
  using assms by (cases m) auto

text \<open>What holds of the result of a routine if it returns; the rules follow its statements.\<close>

definition returns :: "('a \<Rightarrow> bool) \<Rightarrow> 'a option \<Rightarrow> bool" where
  "returns P m \<longleftrightarrow> (\<forall>x. m = Some x \<longrightarrow> P x)"

lemma returnsD: "returns P m \<Longrightarrow> m = Some x \<Longrightarrow> P x"
  by (simp add: returns_def)

lemma returnsI: "(\<And>x. m = Some x \<Longrightarrow> P x) \<Longrightarrow> returns P m"
  by (simp add: returns_def)

lemma returns_Some [simp]: "returns P (Some x) = P x"
  by (simp add: returns_def)

lemma returns_None [simp]: "returns P None"
  by (simp add: returns_def)

lemma returns_map [simp]: "returns P (map_option f m) = returns (P \<circ> f) m"
  by (auto simp: returns_def)

lemma returns_bind: "(\<And>x. m = Some x \<Longrightarrow> returns P (f x)) \<Longrightarrow> returns P (m \<bind> f)"
  by (cases m) simp_all

lemma returns_ASSERT: "(b \<Longrightarrow> returns P (f ())) \<Longrightarrow> returns P (ASSERT b \<bind> f)"
  by (cases b) simp_all

lemma returns_then: "returns Q m \<Longrightarrow> (\<And>x. Q x \<Longrightarrow> returns P (f x)) \<Longrightarrow> returns P (m \<bind> f)"
  by (cases m) simp_all

subsection \<open>Ranges of the machine integers\<close>

lemma unat_dword_less: "unat (x :: dword) < 2 ^ 32"
  using unsigned_less [of x, where ?'a = nat] by simp

lemma unat_qword_less: "unat (x :: qword) < 2 ^ 64"
  using unsigned_less [of x, where ?'a = nat] by simp

lemma unat_dword_le_MAX: "unat (x :: dword) \<le> 4294967295"
  using unat_dword_less [of x] by simp

lemma unat_ucast_dword_qword [simp]: "unat (ucast (x :: dword) :: qword) = unat x"
  by (simp add: unsigned_ucast_eq take_bit_nat_eq_self order_less_le_trans [OF unsigned_less])

lemma unat_ucast_qword_dword: "unat (ucast (x :: qword) :: dword) = unat x mod 2 ^ 32"
  by (simp add: unsigned_ucast_eq take_bit_eq_mod)

lemma unat_MAX_DWORD [simp]: "unat MAX_DWORD = 4294967295"
  by (simp add: unsigned_minus_1_eq_mask mask_eq_exp_minus_1)

lemma unat_ucast_MAX_DWORD [simp]: "unat (ucast MAX_DWORD :: qword) = 4294967295"
  by (simp only: unat_ucast_dword_qword unat_MAX_DWORD)

subsection \<open>Lists\<close>

lemma distinct_snoc [simp]: "distinct (xs @ [x]) \<longleftrightarrow> distinct xs \<and> x \<notin> set xs"
  by auto

lemma set_remove1_distinct [simp]: "distinct xs \<Longrightarrow> set (remove1 x xs) = set xs - {x}"
  by (simp add: set_remove1_eq)

subsection \<open>Page arithmetic\<close>

text \<open>
  Addresses are 64-bit words; their page arithmetic is carried out on the natural numbers
  they denote.
\<close>

definition page_aligned :: "qword \<Rightarrow> bool" where
  "page_aligned a \<longleftrightarrow> a mod PAGE_SIZE = 0"

lemma unat_PAGE_SIZE [simp]: "unat PAGE_SIZE = 4096"
  by simp

lemma unat_mod_page [page_arith]: "unat (a mod PAGE_SIZE) = unat a mod 4096"
  by (simp add: unat_mod)

lemma unat_div_page [page_arith]: "unat (a div PAGE_SIZE) = unat a div 4096"
  by (simp add: unat_div)

lemma page_aligned_unat [page_arith]: "page_aligned a \<longleftrightarrow> unat a mod 4096 = 0"
  by (metis page_aligned_def unat_0 unat_eq_zero unat_mod_page)

lemma unat_add_less: "unat a + unat b < 2 ^ 64 \<Longrightarrow> unat (a + b :: qword) = unat a + unat b"
  by (simp add: unat_word_ariths)

lemma unat_sub_le: "b \<le> a \<Longrightarrow> unat (a - b :: qword) = unat a - unat b"
  by (simp add: unat_sub)

definition page_floor :: "qword \<Rightarrow> qword" where
  "page_floor a = a - a mod PAGE_SIZE"

lemma unat_page_floor [page_arith]: "unat (page_floor a) = unat a - unat a mod 4096"
proof -
  have "a mod PAGE_SIZE \<le> a"
    by (simp add: word_le_nat_alt unat_mod)
  then show ?thesis
    by (simp add: page_floor_def unat_sub_le unat_mod_page)
qed

lemma page_floor_le: "page_floor a \<le> a"
  by (simp add: word_le_nat_alt unat_page_floor)

lemma page_aligned_floor [simp]: "page_aligned (page_floor a)"
  by (simp add: page_aligned_unat unat_page_floor flip: minus_mod_eq_mult_div)

lemma page_floor_aligned: "page_aligned a \<Longrightarrow> page_floor a = a"
  by (simp add: page_floor_def page_aligned_def)

lemma page_floor_offset: "unat a - unat (page_floor a) = unat a mod 4096"
  by (simp add: unat_page_floor)

lemma page_aligned_0 [simp]: "page_aligned 0"
  by (simp add: page_aligned_def)

lemma unat_frame_index:
  "a div PAGE_SIZE \<le> ucast MAX_DWORD \<Longrightarrow> unat (ucast (a div PAGE_SIZE) :: dword) = unat a div 4096"
  by (simp add: word_le_nat_alt unat_div_page unat_ucast_qword_dword)

lemma frame_index_bound:
  "a div PAGE_SIZE \<le> ucast MAX_DWORD \<longleftrightarrow> unat a div 4096 \<le> 4294967295"
  by (simp add: word_le_nat_alt unat_div_page)

end
