(* ===== verification/CommonLib.thy ===== *)
theory CommonLib
  imports Prelude
begin

text \<open>
  The kernel is linked against a common library (address macros, bitmaps, intrusive lists,
  spinlocks, reference counters) whose sources are not part of the repository. Each of its
  interfaces is a record of operations that the model takes as an argument, and a locale that
  states the documented behaviour the kernel relies on. The values the operations work on
  (the sequence of entries a list head links, the CPU that holds a lock, the bits of a bitmap)
  are fixed here; the operations are not.

  For each interface the theory also gives one concrete set of operations and interprets the
  locale on it, so that the hypotheses of the development are known to be satisfiable and the
  kernel routines can be run on concrete states.
\<close>

subsection \<open>Address macros\<close>

record addr_lib =
  AlignAddressLower :: "qword \<Rightarrow> qword \<Rightarrow> qword"
  AlignAddressUpper :: "qword \<Rightarrow> qword \<Rightarrow> qword"
  AddressOffset :: "qword \<Rightarrow> qword \<Rightarrow> qword"
  IsAddressAligned :: "qword \<Rightarrow> qword \<Rightarrow> bool"
  CHECK_BOUNDS :: "qword \<Rightarrow> qword \<Rightarrow> qword \<Rightarrow> qword \<Rightarrow> bool"
  CalculatePercentage :: "qword \<Rightarrow> qword \<Rightarrow> qword"
  PtrOffset :: "qword \<Rightarrow> qword \<Rightarrow> qword"
  PtrDiff :: "qword \<Rightarrow> qword \<Rightarrow> qword"

locale addr_contract =
  fixes A :: addr_lib
  assumes AlignAddressLower_page: "AlignAddressLower A a PAGE_SIZE = page_floor a"
    and AlignAddressUpper_page:
      "unat a + 4095 < 2 ^ 64 \<Longrightarrow> AlignAddressUpper A a PAGE_SIZE = page_floor (a + 4095)"
    and AddressOffset_page: "AddressOffset A a PAGE_SIZE = a mod PAGE_SIZE"
    and IsAddressAligned_page: "IsAddressAligned A a PAGE_SIZE \<longleftrightarrow> page_aligned a"
    and CHECK_BOUNDS_no_wrap:
      "unat a + unat n < 2 ^ 64 \<Longrightarrow> unat b + unat m < 2 ^ 64 \<Longrightarrow>
       CHECK_BOUNDS A a n b m \<longleftrightarrow> unat b \<le> unat a \<and> unat a + unat n \<le> unat b + unat m"
    and PtrOffset_add: "PtrOffset A a n = a + n"
    and PtrDiff_sub: "PtrDiff A a b = a - b"
begin

lemmas addr_simps = AlignAddressLower_page AddressOffset_page IsAddressAligned_page
  PtrOffset_add PtrDiff_sub

lemma unat_AlignAddressUpper:
  assumes "unat a + 4095 < 2 ^ 64"
  shows "unat (AlignAddressUpper A a PAGE_SIZE) = (unat a + 4095) - (unat a + 4095) mod 4096"
proof -
  have "unat (a + 4095) = unat a + 4095"
    using assms unat_add_less [of a 4095] by simp
  then show ?thesis
    using assms by (simp add: AlignAddressUpper_page unat_page_floor)
qed

lemma AlignAddressUpper_aligned:
  "unat a + 4095 < 2 ^ 64 \<Longrightarrow> page_aligned (AlignAddressUpper A a PAGE_SIZE)"
  by (simp add: AlignAddressUpper_page)

lemma AlignAddressUpper_ge:
  assumes "unat a + 4095 < 2 ^ 64"
  shows "unat a \<le> unat (AlignAddressUpper A a PAGE_SIZE)"
    and "unat (AlignAddressUpper A a PAGE_SIZE) \<le> unat a + 4095"
proof -
  have "(unat a + 4095) mod 4096 \<le> 4095"
    by (simp add: less_Suc_eq_le [symmetric])
  with unat_AlignAddressUpper [OF assms]
  show "unat a \<le> unat (AlignAddressUpper A a PAGE_SIZE)"
    and "unat (AlignAddressUpper A a PAGE_SIZE) \<le> unat a + 4095"
    by simp_all
qed

lemma AlignAddressUpper_id:
  assumes "page_aligned a" and "unat a + 4095 < 2 ^ 64"
  shows "AlignAddressUpper A a PAGE_SIZE = a"
proof -
  obtain k where k: "unat a = 4096 * k"
    using assms(1) by (auto simp: page_aligned_unat elim: dvdE)
  have "(4096 * k + 4095) mod 4096 = (4095 :: nat)"
    by simp
  then have "unat (AlignAddressUpper A a PAGE_SIZE) = unat a"
    using unat_AlignAddressUpper [OF assms(2)] by (simp add: k)
  then show ?thesis
    by (rule unsigned_word_eqI)
qed

end

definition addr_ops :: addr_lib where
  "addr_ops = \<lparr>AlignAddressLower = (\<lambda>a n. a - a mod n),
    AlignAddressUpper = (\<lambda>a n. (a + (n - 1)) - (a + (n - 1)) mod n),
    AddressOffset = (\<lambda>a n. a mod n),
    IsAddressAligned = (\<lambda>a n. a mod n = 0),
    CHECK_BOUNDS = (\<lambda>a n b m. unat b \<le> unat a \<and> unat a + unat n \<le> unat b + unat m),
    CalculatePercentage = (\<lambda>x p. word_of_nat (unat x * unat p div 10000)),
    PtrOffset = (+), PtrDiff = (-)\<rparr>"

interpretation addr: addr_contract addr_ops
  by unfold_locales (simp_all add: addr_ops_def page_floor_def page_aligned_def)

subsection \<open>Bitmaps\<close>

record bitmap =
  BitCount :: dword
  BufferSize :: dword
  BitmapBuffer :: qword
  Bits :: "nat \<Rightarrow> bool"

definition bits_set :: "nat \<Rightarrow> nat \<Rightarrow> bool \<Rightarrow> (nat \<Rightarrow> bool) \<Rightarrow> (nat \<Rightarrow> bool)" where
  "bits_set i n v f = (\<lambda>k. if i \<le> k \<and> k < i + n then v else f k)"

lemma bits_set_apply: "bits_set i n v f k = (if i \<le> k \<and> k < i + n then v else f k)"
  by (simp add: bits_set_def)

definition bits_run :: "(nat \<Rightarrow> bool) \<Rightarrow> nat \<Rightarrow> nat \<Rightarrow> bool \<Rightarrow> bool" where
  "bits_run f i n v \<longleftrightarrow> (\<forall>k \<in> {i..<i + n}. f k = v)"

record bitmap_lib =
  BitmapPreinit :: "bitmap \<Rightarrow> dword \<Rightarrow> dword \<times> bitmap"
  BitmapInit :: "bitmap \<Rightarrow> qword \<Rightarrow> bitmap"
  BitmapUninit :: "bitmap \<Rightarrow> bitmap"
  BitmapScanFromAndFlip :: "bitmap \<Rightarrow> dword \<Rightarrow> dword \<Rightarrow> bool \<Rightarrow> dword \<times> bitmap"
  BitmapScanAndFlip :: "bitmap \<Rightarrow> dword \<Rightarrow> bool \<Rightarrow> dword \<times> bitmap"
  BitmapSetBits :: "bitmap \<Rightarrow> dword \<Rightarrow> dword \<Rightarrow> bitmap"
  BitmapClearBits :: "bitmap \<Rightarrow> dword \<Rightarrow> dword \<Rightarrow> bitmap"
  BitmapSetBit :: "bitmap \<Rightarrow> dword \<Rightarrow> bitmap"
  BitmapClearBit :: "bitmap \<Rightarrow> dword \<Rightarrow> bitmap"
  BitmapGetBitValue :: "bitmap \<Rightarrow> dword \<Rightarrow> bool"
  BitmapGetMaxElementCount :: "bitmap \<Rightarrow> dword"

text \<open>
  The laws are what \<open>test_bitmap.c\<close> checks: the buffer needs one bit per element rounded up
  to bytes, an initialised bitmap is clear, a scan returns \<open>MAX_DWORD\<close> when there is no run
  of the asked value and otherwise the start of such a run, which it flips, and setting,
  clearing and reading bits inside the bitmap behave as named.
\<close>

locale bitmap_contract =
  fixes B :: bitmap_lib
  assumes BitmapPreinit_size:
      "n \<noteq> 0 \<Longrightarrow> unat (fst (BitmapPreinit B b n)) = (unat n + 7) div 8"
    and BitmapPreinit_count: "BitCount (snd (BitmapPreinit B b n)) = n"
    and BitmapPreinit_buffer_size:
      "BufferSize (snd (BitmapPreinit B b n)) = fst (BitmapPreinit B b n)"
    and BitmapInit_count: "BitCount (BitmapInit B b buf) = BitCount b"
    and BitmapInit_buffer: "BitmapBuffer (BitmapInit B b buf) = buf"
    and BitmapInit_buffer_size: "BufferSize (BitmapInit B b buf) = BufferSize b"
    and BitmapInit_clear: "k < unat (BitCount b) \<Longrightarrow> \<not> Bits (BitmapInit B b buf) k"
    and BitmapScan_found:
      "BitmapScanFromAndFlip B b i n v = (idx, b') \<Longrightarrow> n \<noteq> 0 \<Longrightarrow> idx \<noteq> MAX_DWORD \<Longrightarrow>
       unat i \<le> unat idx \<and> unat idx + unat n \<le> unat (BitCount b) \<and>
       bits_run (Bits b) (unat idx) (unat n) v \<and>
       b' = b\<lparr>Bits := bits_set (unat idx) (unat n) (\<not> v) (Bits b)\<rparr>"
    and BitmapScan_none:
      "BitmapScanFromAndFlip B b i n v = (MAX_DWORD, b') \<Longrightarrow> n \<noteq> 0 \<Longrightarrow>
       b' = b \<and> (\<forall>j. unat i \<le> j \<longrightarrow> j + unat n \<le> unat (BitCount b) \<longrightarrow>
         \<not> bits_run (Bits b) j (unat n) v)"
    and BitmapScanAndFlip_from: "BitmapScanAndFlip B b n v = BitmapScanFromAndFlip B b 0 n v"
    and BitmapSetBit_one: "BitmapSetBit B b i = BitmapSetBits B b i 1"
    and BitmapClearBit_one: "BitmapClearBit B b i = BitmapClearBits B b i 1"
    and BitmapSetBits_in:
      "unat i + unat n \<le> unat (BitCount b) \<Longrightarrow>
       BitmapSetBits B b i n = b\<lparr>Bits := bits_set (unat i) (unat n) True (Bits b)\<rparr>"
    and BitmapClearBits_in:
      "unat i + unat n \<le> unat (BitCount b) \<Longrightarrow>
       BitmapClearBits B b i n = b\<lparr>Bits := bits_set (unat i) (unat n) False (Bits b)\<rparr>"
    and BitmapGetBitValue_in:
      "unat p < unat (BitCount b) \<Longrightarrow> BitmapGetBitValue B b p = Bits b (unat p)"
    and BitmapGetMaxElementCount_count: "BitmapGetMaxElementCount B b = BitCount b"

text \<open>A first-fit scanner as concrete operations.\<close>

fun find_run :: "(nat \<Rightarrow> bool) \<Rightarrow> bool \<Rightarrow> nat \<Rightarrow> nat list \<Rightarrow> nat option" where
  "find_run f v n [] = None"
| "find_run f v n (j # js) =
     (if list_all (\<lambda>k. f k = v) [j..<j + n] then Some j else find_run f v n js)"

lemma find_run_Some: "find_run f v n js = Some j \<Longrightarrow> j \<in> set js \<and> bits_run f j n v"
  by (induction js) (auto simp: bits_run_def list_all_iff split: if_splits)

lemma find_run_None: "find_run f v n js = None \<Longrightarrow> j \<in> set js \<Longrightarrow> \<not> bits_run f j n v"
  by (induction js) (auto simp: bits_run_def list_all_iff split: if_splits)

definition bitmap_scan :: "bitmap \<Rightarrow> dword \<Rightarrow> dword \<Rightarrow> bool \<Rightarrow> dword \<times> bitmap" where
  "bitmap_scan b i n v =
     (case find_run (Bits b) v (unat n) [unat i..<Suc (unat (BitCount b)) - unat n] of
        None \<Rightarrow> (MAX_DWORD, b)
      | Some j \<Rightarrow> (word_of_nat j, b\<lparr>Bits := bits_set j (unat n) (\<not> v) (Bits b)\<rparr>))"

definition bitmap_ops :: bitmap_lib where
  "bitmap_ops = \<lparr>
    BitmapPreinit = (\<lambda>b n. let sz = word_of_nat ((unat n + 7) div 8)
                           in (sz, b\<lparr>BitCount := n, BufferSize := sz\<rparr>)),
    BitmapInit = (\<lambda>b buf. b\<lparr>BitmapBuffer := buf, Bits := (\<lambda>_. False)\<rparr>),
    BitmapUninit = (\<lambda>b. b\<lparr>BitCount := 0\<rparr>),
    BitmapScanFromAndFlip = bitmap_scan,
    BitmapScanAndFlip = (\<lambda>b. bitmap_scan b 0),
    BitmapSetBits = (\<lambda>b i n. b\<lparr>Bits := bits_set (unat i) (unat n) True (Bits b)\<rparr>),
    BitmapClearBits = (\<lambda>b i n. b\<lparr>Bits := bits_set (unat i) (unat n) False (Bits b)\<rparr>),
    BitmapSetBit = (\<lambda>b i. b\<lparr>Bits := bits_set (unat i) 1 True (Bits b)\<rparr>),
    BitmapClearBit = (\<lambda>b i. b\<lparr>Bits := bits_set (unat i) 1 False (Bits b)\<rparr>),
    BitmapGetBitValue = (\<lambda>b k. Bits b (unat k)),
    BitmapGetMaxElementCount = BitCount\<rparr>"

lemma unat_pos_dword: "n \<noteq> 0 \<Longrightarrow> 0 < unat (n :: dword)"
  by (simp add: unat_gt_0)

lemma unat_of_nat_dword: "j \<le> unat (x :: dword) \<Longrightarrow> unat (word_of_nat j :: dword) = j"
  using unat_dword_less [of x] by (simp add: unat_of_nat)

lemma bitmap_scan_found:
  assumes "bitmap_scan b i n v = (idx, b')" and "n \<noteq> 0" and "idx \<noteq> MAX_DWORD"
  shows "unat i \<le> unat idx \<and> unat idx + unat n \<le> unat (BitCount b) \<and>
    bits_run (Bits b) (unat idx) (unat n) v \<and>
    b' = b\<lparr>Bits := bits_set (unat idx) (unat n) (\<not> v) (Bits b)\<rparr>"
proof -
  from assms obtain j
    where j: "find_run (Bits b) v (unat n) [unat i..<Suc (unat (BitCount b)) - unat n] = Some j"
      and idx: "idx = word_of_nat j"
      and b': "b' = b\<lparr>Bits := bits_set j (unat n) (\<not> v) (Bits b)\<rparr>"
    by (auto simp: bitmap_scan_def split: option.splits)
  from find_run_Some [OF j] have in_range: "unat i \<le> j" "j < Suc (unat (BitCount b)) - unat n"
    and run: "bits_run (Bits b) j (unat n) v"
    by auto
  then have "unat idx = j"
    by (simp add: idx unat_of_nat_dword [of j "BitCount b"])
  with in_range run b' show ?thesis
    by auto
qed

lemma bitmap_scan_none:
  assumes "bitmap_scan b i n v = (MAX_DWORD, b')" and "n \<noteq> 0"
  shows "b' = b \<and> (\<forall>j. unat i \<le> j \<longrightarrow> j + unat n \<le> unat (BitCount b) \<longrightarrow>
    \<not> bits_run (Bits b) j (unat n) v)"
proof (cases "find_run (Bits b) v (unat n) [unat i..<Suc (unat (BitCount b)) - unat n]")
  case None
  then show ?thesis
    using assms by (auto simp: bitmap_scan_def dest!: find_run_None)
next
  case (Some j)
  with find_run_Some [OF Some] assms have "word_of_nat j = MAX_DWORD"
    and j: "j < Suc (unat (BitCount b)) - unat n"
    by (auto simp: bitmap_scan_def)
  moreover from j have "unat (word_of_nat j :: dword) = j"
    by (intro unat_of_nat_dword [of j "BitCount b"]) simp
  ultimately have "j = unat MAX_DWORD"
    by simp
  moreover have "unat (BitCount b) \<le> unat MAX_DWORD"
    using unat_dword_le_MAX by simp
  ultimately show ?thesis
    using j unat_pos_dword [OF \<open>n \<noteq> 0\<close>] by simp
qed

interpretation bm: bitmap_contract bitmap_ops
proof unfold_locales
  fix n :: dword and b :: bitmap
  have "(unat n + 7) div 8 < 2 ^ 32"
    using unat_dword_less [of n] by simp
  then show "unat (fst (BitmapPreinit bitmap_ops b n)) = (unat n + 7) div 8"
    by (simp add: bitmap_ops_def Let_def unat_of_nat)
next
  fix b i n v idx b'
  assume "BitmapScanFromAndFlip bitmap_ops b i n v = (idx, b')" and "n \<noteq> 0" and "idx \<noteq> MAX_DWORD"
  then show "unat i \<le> unat idx \<and> unat idx + unat n \<le> unat (BitCount b) \<and>
      bits_run (Bits b) (unat idx) (unat n) v \<and>
      b' = b\<lparr>Bits := bits_set (unat idx) (unat n) (\<not> v) (Bits b)\<rparr>"
    by (intro bitmap_scan_found) (simp_all add: bitmap_ops_def)
next
  fix b i n v b'
  assume "BitmapScanFromAndFlip bitmap_ops b i n v = (MAX_DWORD, b')" and "n \<noteq> 0"
  then show "b' = b \<and> (\<forall>j. unat i \<le> j \<longrightarrow> j + unat n \<le> unat (BitCount b) \<longrightarrow>
      \<not> bits_run (Bits b) j (unat n) v)"
    by (intro bitmap_scan_none) (simp_all add: bitmap_ops_def)
qed (simp_all add: bitmap_ops_def Let_def)

text \<open>The two interfaces the memory manager is built on.\<close>

locale mem_env = addr_contract A + bitmap_contract B
  for A :: addr_lib and B :: bitmap_lib

lemma mem_envI: "addr_contract A \<Longrightarrow> bitmap_contract B \<Longrightarrow> mem_env A B"
  by (rule mem_env.intro)

interpretation me: mem_env addr_ops bitmap_ops ..

lemmas contracts_hold = addr.addr_contract_axioms bm.bitmap_contract_axioms

subsection \<open>Lists, locks and reference counters\<close>

text \<open>
  A list head is the sequence of the objects it links, an object being named by a number.
  \<open>RemoveHeadList\<close> of an empty list hands back the head itself, here \<open>None\<close>, and \<open>RemoveEntryList\<close>
  of an entry that was initialised and is in no list changes no list.
\<close>

record list_lib =
  InsertTailList :: "nat list \<Rightarrow> nat \<Rightarrow> nat list"
  RemoveHeadList :: "nat list \<Rightarrow> nat option \<times> nat list"
  RemoveEntryList :: "nat list \<Rightarrow> nat \<Rightarrow> nat list"

locale list_contract =
  fixes L :: list_lib
  assumes InsertTailList_snoc: "InsertTailList L q x = q @ [x]"
    and RemoveHeadList_Nil: "RemoveHeadList L [] = (None, [])"
    and RemoveHeadList_Cons: "RemoveHeadList L (x # q) = (Some x, q)"
    and RemoveEntryList_member: "x \<in> set q \<Longrightarrow> distinct q \<Longrightarrow> RemoveEntryList L q x = remove1 x q"
    and RemoveEntryList_unlinked: "x \<notin> set q \<Longrightarrow> RemoveEntryList L q x = q"
begin

lemmas list_simps = InsertTailList_snoc RemoveHeadList_Nil RemoveHeadList_Cons

lemma RemoveHeadList_cases:
  obtains (empty) "q = []" and "RemoveHeadList L q = (None, [])"
  | (head) x q' where "q = x # q'" and "RemoveHeadList L q = (Some x, q')"
  using list_simps by (cases q) auto

end

definition list_ops :: list_lib where
  "list_ops = \<lparr>InsertTailList = (\<lambda>q x. q @ [x]),
    RemoveHeadList = (\<lambda>q. case q of [] \<Rightarrow> (None, []) | x # q' \<Rightarrow> (Some x, q')),
    RemoveEntryList = (\<lambda>q x. remove1 x q)\<rparr>"

interpretation li: list_contract list_ops
  by unfold_locales (simp_all add: list_ops_def remove1_idem)

text \<open>
  A lock is the CPU that holds it. \<open>LockAcquire\<close> spins while another CPU holds the lock:
  the call does not return in a state where nobody releases it.
\<close>

type_synonym lock = "nat option"

record lock_lib =
  LockInit :: lock
  LockAcquire :: "nat \<Rightarrow> lock \<Rightarrow> lock option"
  LockRelease :: "nat \<Rightarrow> lock \<Rightarrow> lock"
  LockIsOwner :: "nat \<Rightarrow> lock \<Rightarrow> bool"

locale lock_contract =
  fixes K :: lock_lib
  assumes LockInit_free: "LockInit K = None"
    and LockAcquire_free: "LockAcquire K c None = Some (Some c)"
    and LockAcquire_held: "LockAcquire K c (Some d) = None"
    and LockRelease_own: "LockRelease K c (Some c) = None"
    and LockIsOwner_iff: "LockIsOwner K c l \<longleftrightarrow> l = Some c"
begin

lemmas lock_simps = LockInit_free LockAcquire_free LockAcquire_held LockRelease_own LockIsOwner_iff

lemma LockAcquire_Some: "LockAcquire K c l = Some l' \<longleftrightarrow> l = None \<and> l' = Some c"
  by (cases l) (auto simp: lock_simps)

end

definition lock_ops :: lock_lib where
  "lock_ops = \<lparr>LockInit = None,
    LockAcquire = (\<lambda>c l. case l of None \<Rightarrow> Some (Some c) | Some _ \<Rightarrow> None),
    LockRelease = (\<lambda>c l. None), LockIsOwner = (\<lambda>c l. l = Some c)\<rparr>"

interpretation lk: lock_contract lock_ops
  by unfold_locales (simp_all add: lock_ops_def)

text \<open>
  A reference counter starts at one; the object is destroyed by the call of
  \<open>RfcDereference\<close> that brings it down to zero.
\<close>

record rfc_lib =
  RfcInit :: "status \<times> dword"
  RfcReference :: "dword \<Rightarrow> dword"
  RfcDereference :: "dword \<Rightarrow> dword"

locale rfc_contract =
  fixes R :: rfc_lib
  assumes RfcInit_one: "RfcInit R = (STATUS_SUCCESS, 1)"
    and RfcReference_inc: "RfcReference R n = n + 1"
    and RfcDereference_dec: "n \<noteq> 0 \<Longrightarrow> RfcDereference R n = n - 1"

definition rfc_ops :: rfc_lib where
  "rfc_ops = \<lparr>RfcInit = (STATUS_SUCCESS, 1), RfcReference = (\<lambda>n. n + 1),
    RfcDereference = (\<lambda>n. n - 1)\<rparr>"

interpretation rf: rfc_contract rfc_ops
  by unfold_locales (simp_all add: rfc_ops_def)

end
