(* ===== verification/Pmm.thy ===== *)
theory Pmm
  imports CommonLib
begin

text \<open>
  The physical memory manager, \<open>pmm.c\<close>: the limits computed from the firmware memory map,
  the bitmap of physical frames built from it, and the reservation and release of runs of
  frames. The routines run under \<open>AllocationLock\<close> and are one atomic step each. A physical
  address is a 64-bit word, \<open>NULL\<close> is 0.
\<close>

subsection \<open>State\<close>

text \<open>
  An entry of the BIOS memory map; \<open>EntryValid\<close> is the flag
  \<open>MEMORY_MAP_ENTRY_EA_VALID_ENTRY\<close> of its extended attributes. The numbering of the region
  types belongs to the firmware interface and is an argument of the model.
\<close>

record memory_map_entry =
  BaseAddress :: qword
  Length :: qword
  EntryType :: dword
  EntryValid :: bool

record int15_lib =
  MemoryMapTypeUsableRAM :: dword
  MemoryMapTypeMax :: dword

record memory_region_list =
  RegionType :: dword
  NumberOfEntries :: dword

record pmm_data =
  HighestPhysicalAddressAvailable :: qword
  HighestPhysicalAddressPresent :: qword
  PhysicalMemorySize :: qword
  MemoryRegionList :: "memory_region_list list"
  AllocationBitmap :: bitmap

subsection \<open>Operations\<close>

definition zero_bitmap :: bitmap where
  "zero_bitmap = \<lparr>BitCount = 0, BufferSize = 0, BitmapBuffer = 0, Bits = (\<lambda>_. False)\<rparr>"

definition PmmPreinitSystem :: "int15_lib \<Rightarrow> pmm_data" where
  "PmmPreinitSystem I =
     \<lparr>HighestPhysicalAddressAvailable = 0, HighestPhysicalAddressPresent = 0,
      PhysicalMemorySize = 0,
      MemoryRegionList =
        map (\<lambda>i. \<lparr>RegionType = (if unat (MemoryMapTypeUsableRAM I) \<le> i then word_of_nat i else 0),
                  NumberOfEntries = 0\<rparr>) [0..<unat (MemoryMapTypeMax I)],
      AllocationBitmap = zero_bitmap\<rparr>"

text \<open>
  The loop of \<open>_PmmDetermineMemoryLimits\<close> over the entries, with its accumulators. Counting
  an entry writes \<open>MemoryRegions[memoryType]\<close> with no check of the index: a type past the
  end of the array is a write outside of it, \<open>None\<close> here.
\<close>

record pmm_limits =
  sizeOfAvailableMemory :: qword
  highestMemoryAddressPresent :: qword
  highestMemoryAddressAvailable :: qword
  regions :: "memory_region_list list"

definition PmmDetermineMemoryLimits_entry ::
  "int15_lib \<Rightarrow> memory_map_entry \<Rightarrow> pmm_limits \<Rightarrow> pmm_limits option" where
  "PmmDetermineMemoryLimits_entry I e l =
     (let hi = BaseAddress e + Length e;
          ty = unat (EntryType e);
          l1 = (if hi > highestMemoryAddressPresent l
                then l\<lparr>highestMemoryAddressPresent := hi\<rparr> else l)
      in if \<not> EntryValid e then Some l1
         else if length (regions l1) \<le> ty then None
         else
           let r = regions l1 ! ty;
               l2 = l1\<lparr>regions := (regions l1)[ty := r\<lparr>NumberOfEntries := NumberOfEntries r + 1\<rparr>]\<rparr>
           in if EntryType e \<noteq> MemoryMapTypeUsableRAM I then Some l2
              else
                let l3 = (if hi > highestMemoryAddressAvailable l2
                          then l2\<lparr>highestMemoryAddressAvailable := hi\<rparr> else l2)
                in Some (l3\<lparr>sizeOfAvailableMemory := sizeOfAvailableMemory l3 + Length e\<rparr>))"

fun PmmDetermineMemoryLimits_loop ::
  "int15_lib \<Rightarrow> memory_map_entry list \<Rightarrow> pmm_limits \<Rightarrow> pmm_limits option" where
  "PmmDetermineMemoryLimits_loop I [] l = Some l"
| "PmmDetermineMemoryLimits_loop I (e # es) l = do {
     l \<leftarrow> PmmDetermineMemoryLimits_entry I e l;
     PmmDetermineMemoryLimits_loop I es l
   }"

definition PmmDetermineMemoryLimits ::
  "int15_lib \<Rightarrow> memory_map_entry list \<Rightarrow> pmm_data \<Rightarrow> pmm_data option" where
  "PmmDetermineMemoryLimits I MemoryMap d = do {
     ASSERT (MemoryMap \<noteq> []);
     l \<leftarrow> PmmDetermineMemoryLimits_loop I MemoryMap
            \<lparr>sizeOfAvailableMemory = 0, highestMemoryAddressPresent = 0,
             highestMemoryAddressAvailable = 0, regions = MemoryRegionList d\<rparr>;
     Some (d\<lparr>PhysicalMemorySize := sizeOfAvailableMemory l,
             HighestPhysicalAddressPresent := highestMemoryAddressPresent l,
             HighestPhysicalAddressAvailable := highestMemoryAddressAvailable l,
             MemoryRegionList := regions l\<rparr>)
   }"

definition PmmReserveMemoryEx ::
  "addr_lib \<Rightarrow> bitmap_lib \<Rightarrow> pmm_data \<Rightarrow> dword \<Rightarrow> qword \<Rightarrow> qword \<times> pmm_data" where
  "PmmReserveMemoryEx A B d NoOfFrames MinPhysAddr =
     (if NoOfFrames = 0 then (0, d)
      else if \<not> IsAddressAligned A MinPhysAddr PAGE_SIZE then (0, d)
      else
        let startIdx = MinPhysAddr div PAGE_SIZE
        in if startIdx > ucast MAX_DWORD then (0, d)
           else
             let (idx, bm) =
                   BitmapScanFromAndFlip B (AllocationBitmap d) (ucast startIdx) NoOfFrames False
             in if idx = MAX_DWORD then (0, d\<lparr>AllocationBitmap := bm\<rparr>)
                else (ucast idx * PAGE_SIZE, d\<lparr>AllocationBitmap := bm\<rparr>))"

definition PmmReserveMemory :: "addr_lib \<Rightarrow> bitmap_lib \<Rightarrow> pmm_data \<Rightarrow> dword \<Rightarrow> qword \<times> pmm_data" where
  "PmmReserveMemory A B d Frames = PmmReserveMemoryEx A B d Frames 0"

definition PmmReleaseMemory ::
  "addr_lib \<Rightarrow> bitmap_lib \<Rightarrow> pmm_data \<Rightarrow> qword \<Rightarrow> dword \<Rightarrow> pmm_data option" where
  "PmmReleaseMemory A B d PhysicalAddr NoOfFrames = do {
     ASSERT (IsAddressAligned A PhysicalAddr PAGE_SIZE);
     let index = PhysicalAddr div PAGE_SIZE;
     ASSERT (index \<le> ucast MAX_DWORD);
     Some (d\<lparr>AllocationBitmap := BitmapClearBits B (AllocationBitmap d) (ucast index) NoOfFrames\<rparr>)
   }"

definition PmmGetTotalSystemMemory :: "pmm_data \<Rightarrow> qword" where
  "PmmGetTotalSystemMemory d = PhysicalMemorySize d"

definition PmmGetHighestPhysicalMemoryAddressPresent :: "pmm_data \<Rightarrow> qword" where
  "PmmGetHighestPhysicalMemoryAddressPresent d = HighestPhysicalAddressPresent d"

definition PmmGetHighestPhysicalMemoryAddressAvailable :: "pmm_data \<Rightarrow> qword" where
  "PmmGetHighestPhysicalMemoryAddressAvailable d = HighestPhysicalAddressAvailable d"

text \<open>The loop of \<open>_PmmInitializeAllocationBitmap\<close> that releases the usable RAM.\<close>

fun PmmReleaseUsable_loop ::
  "addr_lib \<Rightarrow> bitmap_lib \<Rightarrow> int15_lib \<Rightarrow> memory_map_entry list \<Rightarrow> pmm_data \<Rightarrow> pmm_data option" where
  "PmmReleaseUsable_loop A B I [] d = Some d"
| "PmmReleaseUsable_loop A B I (e # es) d =
     (if \<not> EntryValid e then PmmReleaseUsable_loop A B I es d
      else if MemoryMapTypeUsableRAM I \<noteq> EntryType e then PmmReleaseUsable_loop A B I es d
      else if BaseAddress e < 1 * MB_SIZE then PmmReleaseUsable_loop A B I es d
      else do {
        let physAddr = AlignAddressUpper A (BaseAddress e) PAGE_SIZE;
        let noOfFrames = Length e div PAGE_SIZE;
        ASSERT (noOfFrames \<le> ucast MAX_DWORD);
        d' \<leftarrow> PmmReleaseMemory A B d physAddr (ucast noOfFrames);
        PmmReleaseUsable_loop A B I es d'
      })"

definition PmmInitializeAllocationBitmap ::
  "addr_lib \<Rightarrow> bitmap_lib \<Rightarrow> int15_lib \<Rightarrow> qword \<Rightarrow> qword \<Rightarrow> memory_map_entry list \<Rightarrow> pmm_data \<Rightarrow>
   (dword \<times> pmm_data) option" where
  "PmmInitializeAllocationBitmap A B I CurrentVirtualAddress HighestMemoryAddress MemoryEntries d = do {
     ASSERT (CurrentVirtualAddress \<noteq> 0);
     ASSERT (HighestMemoryAddress \<noteq> 0);
     let noOfPhysicalFrames = HighestMemoryAddress div PAGE_SIZE;
     ASSERT (noOfPhysicalFrames \<le> ucast MAX_DWORD);
     let (bitmapSize, bm) = BitmapPreinit B (AllocationBitmap d) (ucast noOfPhysicalFrames);
     let bm = BitmapInit B bm CurrentVirtualAddress;
     let (_, d) = PmmReserveMemory A B (d\<lparr>AllocationBitmap := bm\<rparr>) (BitmapGetMaxElementCount B bm);
     d \<leftarrow> PmmReleaseUsable_loop A B I MemoryEntries d;
     Some (bitmapSize, d)
   }"

text \<open>
  \<open>MemoryEntries\<close> is the array the pointer refers to, \<open>None\<close> the null pointer; reading past
  the array is outside of the model. The result carries what is stored through \<open>SizeReserved\<close>
  (whose argument says whether it is non-null).
\<close>

definition PmmInitSystem ::
  "addr_lib \<Rightarrow> bitmap_lib \<Rightarrow> int15_lib \<Rightarrow> pmm_data \<Rightarrow> qword \<Rightarrow> memory_map_entry list option \<Rightarrow> dword \<Rightarrow>
   bool \<Rightarrow> (status \<times> qword option \<times> pmm_data) option" where
  "PmmInitSystem A B I d Base MemoryEntries NumberOfMemoryEntries SizeReserved =
     (if Base = 0 then Some (STATUS_INVALID_PARAMETER1, None, d)
      else case MemoryEntries of
        None \<Rightarrow> Some (STATUS_INVALID_PARAMETER2, None, d)
      | Some entries \<Rightarrow>
          if NumberOfMemoryEntries = 0 then Some (STATUS_INVALID_PARAMETER3, None, d)
          else if \<not> SizeReserved then Some (STATUS_INVALID_PARAMETER4, None, d)
          else if length entries < unat NumberOfMemoryEntries then None
          else do {
            let es = take (unat NumberOfMemoryEntries) entries;
            d \<leftarrow> PmmDetermineMemoryLimits I es d;
            (sizeReserved, d) \<leftarrow>
              PmmInitializeAllocationBitmap A B I Base (HighestPhysicalAddressPresent d) es d;
            Some (STATUS_SUCCESS, Some (AlignAddressUpper A (ucast sizeReserved) PAGE_SIZE), d)
          })"

subsection \<open>Reserving and releasing frames\<close>

text \<open>
  The abstract view: the set of reserved frame numbers, and the frames of an allocation
  given by its physical address and frame count.
\<close>

definition frame_count :: "pmm_data \<Rightarrow> nat" where
  "frame_count d = unat (BitCount (AllocationBitmap d))"

definition reserved_frames :: "pmm_data \<Rightarrow> nat set" where
  "reserved_frames d = {k. k < frame_count d \<and> Bits (AllocationBitmap d) k}"

definition frames_of :: "qword \<Rightarrow> dword \<Rightarrow> nat set" where
  "frames_of pa n = {unat pa div 4096..<unat pa div 4096 + unat n}"

lemma unat_frame_address: "unat (ucast (idx :: dword) * PAGE_SIZE) = unat idx * 4096"
proof -
  have "unat (ucast idx :: qword) = unat idx"
    by simp
  moreover have "unat idx * 4096 < 2 ^ 64"
    using unat_dword_less [of idx] by simp
  ultimately show ?thesis
    by (simp add: unat_word_ariths)
qed

context mem_env
begin

lemma PmmReserveMemoryEx_success:
  assumes "PmmReserveMemoryEx A B d n m = (pa, d')" and "pa \<noteq> 0"
  shows "n \<noteq> 0" and "page_aligned pa" and "unat m \<le> unat pa"
    and "unat pa div 4096 + unat n \<le> frame_count d"
    and "bits_run (Bits (AllocationBitmap d)) (unat pa div 4096) (unat n) False"
    and "d' = d\<lparr>AllocationBitmap := (AllocationBitmap d)
          \<lparr>Bits := bits_set (unat pa div 4096) (unat n) True (Bits (AllocationBitmap d))\<rparr>\<rparr>"
proof -
  obtain idx bm where
      scan: "BitmapScanFromAndFlip B (AllocationBitmap d) (ucast (m div PAGE_SIZE)) n False = (idx, bm)"
    and n: "n \<noteq> 0" and m: "page_aligned m" and le: "m div PAGE_SIZE \<le> ucast MAX_DWORD"
    and idx: "idx \<noteq> MAX_DWORD"
    and pa: "pa = ucast idx * PAGE_SIZE" and d': "d' = d\<lparr>AllocationBitmap := bm\<rparr>"
    using assms by (auto simp: PmmReserveMemoryEx_def addr_simps Let_def not_le [symmetric]
        split: if_splits prod.splits)
  have pai: "unat pa div 4096 = unat idx" and "unat pa = unat idx * 4096"
    by (simp_all add: pa unat_frame_address)
  note found = BitmapScan_found [OF scan n idx]
  show "n \<noteq> 0" by (rule n)
  show "page_aligned pa"
    using \<open>unat pa = unat idx * 4096\<close> by (simp add: page_aligned_unat)
  have "unat m = unat m div 4096 * 4096"
    using m by (auto simp: page_aligned_unat)
  then show "unat m \<le> unat pa"
    using found \<open>unat pa = _\<close> unat_frame_index [OF le]
    by (metis mult_le_mono1)
  show "unat pa div 4096 + unat n \<le> frame_count d"
    using found pai by (simp add: frame_count_def)
  show "bits_run (Bits (AllocationBitmap d)) (unat pa div 4096) (unat n) False"
    using found pai by simp
  show "d' = d\<lparr>AllocationBitmap := (AllocationBitmap d)
          \<lparr>Bits := bits_set (unat pa div 4096) (unat n) True (Bits (AllocationBitmap d))\<rparr>\<rparr>"
    using found pai d' by simp
qed

lemma PmmReserveMemoryEx_frames:
  assumes "PmmReserveMemoryEx A B d n m = (pa, d')" and "pa \<noteq> 0"
  shows "frames_of pa n \<subseteq> {..<frame_count d}"
    and "frames_of pa n \<inter> reserved_frames d = {}"
    and "reserved_frames d' = reserved_frames d \<union> frames_of pa n"
    and "frame_count d' = frame_count d"
    and "frames_of pa n \<noteq> {}"
proof -
  note succ = PmmReserveMemoryEx_success [OF assms]
  show "frames_of pa n \<subseteq> {..<frame_count d}"
    using succ(4) by (auto simp: frames_of_def)
  show "frames_of pa n \<inter> reserved_frames d = {}"
    using succ(5) by (auto simp: frames_of_def reserved_frames_def bits_run_def)
  show "frame_count d' = frame_count d"
    using succ(6) by (simp add: frame_count_def)
  show "reserved_frames d' = reserved_frames d \<union> frames_of pa n"
    using succ(4,6) by (auto simp: reserved_frames_def frames_of_def frame_count_def bits_set_apply)
  show "frames_of pa n \<noteq> {}"
    using unat_pos_dword [OF succ(1)] by (simp add: frames_of_def)
qed

lemma PmmReserveMemoryEx_fail:
  assumes "PmmReserveMemoryEx A B d n m = (0, d')" and "n \<noteq> 0" and "page_aligned m"
    and "unat m div 4096 \<le> 4294967295"
  shows "(d' = d \<and> (\<forall>i. unat m div 4096 \<le> i \<longrightarrow> i + unat n \<le> frame_count d \<longrightarrow>
            {i..<i + unat n} \<inter> reserved_frames d \<noteq> {})) \<or>
         (m = 0 \<and> reserved_frames d \<inter> {..<unat n} = {} \<and>
          reserved_frames d' = reserved_frames d \<union> {..<unat n} \<and> unat n \<le> frame_count d)"
proof -
  have le: "m div PAGE_SIZE \<le> ucast MAX_DWORD"
    using assms(4) by (simp only: frame_index_bound)
  obtain idx bm where
      scan: "BitmapScanFromAndFlip B (AllocationBitmap d) (ucast (m div PAGE_SIZE)) n False = (idx, bm)"
    and res: "idx = MAX_DWORD \<and> d' = d\<lparr>AllocationBitmap := bm\<rparr> \<or>
      idx \<noteq> MAX_DWORD \<and> ucast idx * PAGE_SIZE = 0 \<and> d' = d\<lparr>AllocationBitmap := bm\<rparr>"
    using assms(1-3) le
    by (auto simp: PmmReserveMemoryEx_def addr_simps Let_def not_less
        split: if_splits prod.splits)
  from res show ?thesis
  proof
    assume r: "idx = MAX_DWORD \<and> d' = d\<lparr>AllocationBitmap := bm\<rparr>"
    with BitmapScan_none [of "AllocationBitmap d" _ n False bm] scan assms(2)
    have bm: "bm = AllocationBitmap d"
      and none: "\<And>i. unat m div 4096 \<le> i \<Longrightarrow> i + unat n \<le> frame_count d \<Longrightarrow>
        \<not> bits_run (Bits (AllocationBitmap d)) i (unat n) False"
      by (auto simp: unat_frame_index [OF le] frame_count_def)
    have "{i..<i + unat n} \<inter> reserved_frames d \<noteq> {}"
      if "unat m div 4096 \<le> i" "i + unat n \<le> frame_count d" for i
      using none [OF that] that(2) by (auto simp: bits_run_def reserved_frames_def)
    with r bm show ?thesis by simp
  next
    assume r: "idx \<noteq> MAX_DWORD \<and> ucast idx * PAGE_SIZE = 0 \<and> d' = d\<lparr>AllocationBitmap := bm\<rparr>"
    then have idx: "unat idx = 0"
      using unat_frame_address [of idx] by simp
    note found = BitmapScan_found [OF scan assms(2)] r
    have "unat m div 4096 = 0"
      using found idx unat_frame_index [OF le] by simp
    then have "unat m = 0"
      using assms(3) by (simp add: page_aligned_unat)
    then have "m = 0"
      by (simp add: unat_eq_zero)
    moreover have "reserved_frames d \<inter> {..<unat n} = {}" and le_n: "unat n \<le> frame_count d"
      using found idx by (auto simp: reserved_frames_def bits_run_def frame_count_def)
    moreover have "reserved_frames d' = reserved_frames d \<union> {..<unat n}"
      using found idx le_n by (auto simp: reserved_frames_def bits_set_apply frame_count_def)
    ultimately show ?thesis by simp
  qed
qed

lemma PmmReleaseMemory_frames:
  assumes "page_aligned pa" and bound: "unat pa div 4096 + unat n \<le> frame_count d"
  obtains d' where "PmmReleaseMemory A B d pa n = Some d'"
    and "d' = d\<lparr>AllocationBitmap := (AllocationBitmap d)
          \<lparr>Bits := bits_set (unat pa div 4096) (unat n) False (Bits (AllocationBitmap d))\<rparr>\<rparr>"
    and "reserved_frames d' = reserved_frames d - frames_of pa n"
    and "frame_count d' = frame_count d"
proof -
  have "unat pa div 4096 \<le> 4294967295"
    using bound unat_dword_le_MAX [of "BitCount (AllocationBitmap d)"] by (simp add: frame_count_def)
  then have le: "pa div PAGE_SIZE \<le> ucast MAX_DWORD"
    by (simp only: frame_index_bound)
  define d' where "d' = d\<lparr>AllocationBitmap := (AllocationBitmap d)
          \<lparr>Bits := bits_set (unat pa div 4096) (unat n) False (Bits (AllocationBitmap d))\<rparr>\<rparr>"
  have "PmmReleaseMemory A B d pa n = Some d'"
    using assms(1) le bound
    by (simp add: PmmReleaseMemory_def addr_simps Let_def d'_def unat_frame_index [OF le]
        BitmapClearBits_in frame_count_def)
  moreover have "reserved_frames d' = reserved_frames d - frames_of pa n"
    by (auto simp: d'_def reserved_frames_def frames_of_def frame_count_def bits_set_apply)
  moreover have "frame_count d' = frame_count d"
    by (simp add: d'_def frame_count_def)
  ultimately show thesis
    using that d'_def by blast
qed

lemma Pmm_reserve_release:
  assumes "PmmReserveMemoryEx A B d n m = (pa, d')" and "pa \<noteq> 0"
  shows "PmmReleaseMemory A B d' pa n = Some d"
proof -
  note succ = PmmReserveMemoryEx_success [OF assms]
  have bound: "unat pa div 4096 + unat n \<le> frame_count d'"
    using succ(4,6) by (simp add: frame_count_def)
  from PmmReleaseMemory_frames [OF succ(2) bound] obtain d'' where
      rel: "PmmReleaseMemory A B d' pa n = Some d''"
    and d'': "d'' = d'\<lparr>AllocationBitmap := (AllocationBitmap d')
          \<lparr>Bits := bits_set (unat pa div 4096) (unat n) False (Bits (AllocationBitmap d'))\<rparr>\<rparr>"
    by blast
  have "bits_set (unat pa div 4096) (unat n) False
      (bits_set (unat pa div 4096) (unat n) True (Bits (AllocationBitmap d))) = Bits (AllocationBitmap d)"
    using succ(5) by (auto simp: fun_eq_iff bits_set_apply bits_run_def)
  then have "d'' = d"
    unfolding d'' succ(6) by simp
  with rel show ?thesis by simp
qed

end

subsection \<open>Allocation histories\<close>

text \<open>
  A client of the manager holds a list of allocations. A step is one call: a reservation
  that succeeds adds an allocation, one that returns \<open>NULL\<close> adds none, and a release gives
  back an allocation the client holds.
\<close>

inductive pmm_step ::
  "addr_lib \<Rightarrow> bitmap_lib \<Rightarrow> pmm_data \<times> (qword \<times> dword) list \<Rightarrow> pmm_data \<times> (qword \<times> dword) list \<Rightarrow> bool"
  for A :: addr_lib and B :: bitmap_lib where
  reserve: "PmmReserveMemoryEx A B d n m = (pa, d') \<Longrightarrow> pa \<noteq> 0 \<Longrightarrow>
     pmm_step A B (d, out) (d', (pa, n) # out)"
| reserve_null: "PmmReserveMemoryEx A B d n m = (0, d') \<Longrightarrow> n \<noteq> 0 \<Longrightarrow> page_aligned m \<Longrightarrow>
     unat m div 4096 \<le> 4294967295 \<Longrightarrow> pmm_step A B (d, out) (d', out)"
| release: "(pa, n) \<in> set out \<Longrightarrow> PmmReleaseMemory A B d pa n = Some d' \<Longrightarrow>
     pmm_step A B (d, out) (d', remove1 (pa, n) out)"

inductive_cases pmm_stepE: "pmm_step A B s t"

definition alloc_disjoint :: "qword \<times> dword \<Rightarrow> qword \<times> dword \<Rightarrow> bool" where
  "alloc_disjoint x y \<longleftrightarrow> frames_of (fst x) (snd x) \<inter> frames_of (fst y) (snd y) = {}"

lemma alloc_disjoint_sym: "alloc_disjoint x y \<Longrightarrow> alloc_disjoint y x"
  by (auto simp: alloc_disjoint_def)

definition allocations_ok :: "pmm_data \<Rightarrow> (qword \<times> dword) list \<Rightarrow> bool" where
  "allocations_ok d out \<longleftrightarrow>
     sorted_wrt alloc_disjoint out \<and>
     (\<forall>(pa, n) \<in> set out. page_aligned pa \<and> unat pa div 4096 + unat n \<le> frame_count d \<and>
        n \<noteq> 0 \<and> frames_of pa n \<subseteq> reserved_frames d)"

lemma sorted_wrt_remove1: "sorted_wrt P xs \<Longrightarrow> sorted_wrt P (remove1 x xs)"
proof (induction xs)
  case (Cons a xs)
  then show ?case
    using set_remove1_subset [of x xs] by auto
qed simp

lemma sorted_wrt_remove1_other:
  assumes "sorted_wrt P xs" and "\<And>a b. P a b \<Longrightarrow> P b a"
    and "x \<in> set xs" and "y \<in> set (remove1 x xs)"
  shows "P x y"
  using assms
proof (induction xs)
  case (Cons a xs)
  show ?case
  proof (cases "a = x")
    case True
    with Cons.prems show ?thesis by auto
  next
    case False
    with Cons.prems have x: "x \<in> set xs" and y: "y = a \<or> y \<in> set (remove1 x xs)"
      by auto
    show ?thesis
    proof (cases "y = a")
      case True
      with x Cons.prems(1,2) show ?thesis by auto
    next
      case False
      with y x Cons show ?thesis by auto
    qed
  qed
qed simp

context mem_env
begin

lemma pmm_step_allocations_ok:
  assumes "pmm_step A B s t" and "allocations_ok (fst s) (snd s)"
  shows "allocations_ok (fst t) (snd t)"
  using assms
proof (cases rule: pmm_step.cases)
  case (reserve d n m pa d' out)
  note fr = PmmReserveMemoryEx_frames [OF reserve(3,4)]
    and su = PmmReserveMemoryEx_success [OF reserve(3,4)]
  from reserve assms(2) fr(2) have
    "\<forall>y \<in> set out. alloc_disjoint (pa, n) y"
    by (fastforce simp: allocations_ok_def alloc_disjoint_def)
  with reserve assms(2) fr su show ?thesis
    by (auto simp: allocations_ok_def)
next
  case (reserve_null d n m d' out)
  have "reserved_frames d \<subseteq> reserved_frames d'" and "frame_count d' = frame_count d"
    using PmmReserveMemoryEx_fail [OF reserve_null(3-6)] reserve_null(3)
    by (auto simp: PmmReserveMemoryEx_def frame_count_def Let_def split: if_splits prod.splits
        dest!: BitmapScan_none BitmapScan_found)
  with reserve_null assms(2) show ?thesis
    by (fastforce simp: allocations_ok_def)
next
  case (release pa n out d d')
  have inv: "allocations_ok d out"
    using assms(2) release(1) by simp
  have al: "page_aligned pa" "unat pa div 4096 + unat n \<le> frame_count d"
    using inv release(3) by (auto simp: allocations_ok_def)
  have d': "reserved_frames d' = reserved_frames d - frames_of pa n" "frame_count d' = frame_count d"
    using PmmReleaseMemory_frames [OF al] release(4) by (metis option.inject)+
  have disj: "alloc_disjoint (pa, n) y" if "y \<in> set (remove1 (pa, n) out)" for y
    using sorted_wrt_remove1_other [of alloc_disjoint out "(pa, n)" y] alloc_disjoint_sym
      inv release(3) that
    by (auto simp: allocations_ok_def)
  have "allocations_ok d' (remove1 (pa, n) out)"
    using inv d' disj sorted_wrt_remove1 set_remove1_subset [of "(pa, n)" out]
    by (fastforce simp: allocations_ok_def alloc_disjoint_def)
  with release(2) show ?thesis by simp
qed

lemma pmm_steps_allocations_ok:
  assumes "(pmm_step A B)\<^sup>*\<^sup>* s t" and "allocations_ok (fst s) (snd s)"
  shows "allocations_ok (fst t) (snd t)"
  using assms by (induction rule: rtranclp_induct) (auto intro: pmm_step_allocations_ok)

end

subsection \<open>Building the frame bitmap from the memory map\<close>

definition usable_entry :: "int15_lib \<Rightarrow> memory_map_entry \<Rightarrow> bool" where
  "usable_entry I e \<longleftrightarrow>
     EntryValid e \<and> EntryType e = MemoryMapTypeUsableRAM I \<and> MB_SIZE \<le> BaseAddress e"

definition entry_frames :: "memory_map_entry \<Rightarrow> nat set" where
  "entry_frames e = {unat (BaseAddress e) div 4096..<
     unat (BaseAddress e) div 4096 + unat (Length e) div 4096}"

definition entry_fits :: "memory_map_entry \<Rightarrow> nat \<Rightarrow> bool" where
  "entry_fits e count \<longleftrightarrow> page_aligned (BaseAddress e) \<and> unat (BaseAddress e) < 2 ^ 44 \<and>
     unat (BaseAddress e) div 4096 + unat (Length e) div 4096 \<le> count"

lemma entry_fits_top:
  assumes "page_aligned (BaseAddress e)" and "unat (BaseAddress e) + unat (Length e) \<le> hi"
    and "hi < 2 ^ 44"
  shows "entry_fits e (hi div 4096)"
proof -
  obtain k where "unat (BaseAddress e) = 4096 * k"
    using assms(1) by (auto simp: page_aligned_unat elim: dvdE)
  with assms show ?thesis
    by (auto simp: entry_fits_def dest: div_le_mono [of _ hi 4096])
qed

lemma PmmDetermineMemoryLimits_entry_present:
  assumes "EntryValid e \<longrightarrow> unat (EntryType e) < length (regions l)"
  shows "\<exists>l'. PmmDetermineMemoryLimits_entry I e l = Some l' \<and>
    length (regions l') = length (regions l) \<and>
    highestMemoryAddressPresent l' = max (BaseAddress e + Length e) (highestMemoryAddressPresent l)"
proof -
  have "max (BaseAddress e + Length e) (highestMemoryAddressPresent l) =
      (if highestMemoryAddressPresent l < BaseAddress e + Length e then BaseAddress e + Length e
       else highestMemoryAddressPresent l)"
    by (auto simp: max_def)
  then show ?thesis
    using assms by (auto simp: PmmDetermineMemoryLimits_entry_def Let_def)
qed

lemma PmmDetermineMemoryLimits_loop_total:
  assumes "\<forall>e \<in> set es. EntryValid e \<longrightarrow> unat (EntryType e) < length (regions l)"
  shows "\<exists>l'. PmmDetermineMemoryLimits_loop I es l = Some l' \<and>
    highestMemoryAddressPresent l' =
      Max (insert (highestMemoryAddressPresent l) ((\<lambda>e. BaseAddress e + Length e) ` set es))"
proof -
  have "\<exists>l'. PmmDetermineMemoryLimits_loop I es l = Some l' \<and> highestMemoryAddressPresent l' =
      fold max (map (\<lambda>e. BaseAddress e + Length e) es) (highestMemoryAddressPresent l)"
    using assms
  proof (induction es arbitrary: l)
    case (Cons e es)
    then obtain l1 where l1: "PmmDetermineMemoryLimits_entry I e l = Some l1"
      "length (regions l1) = length (regions l)"
      "highestMemoryAddressPresent l1 = max (BaseAddress e + Length e) (highestMemoryAddressPresent l)"
      using PmmDetermineMemoryLimits_entry_present [of e l I] by auto
    show ?case
      using Cons.IH [of l1] Cons.prems l1 by auto
  qed simp
  then show ?thesis
    by (simp flip: Max.set_eq_fold)
qed

context mem_env
begin

lemma PmmReleaseUsable_loop_frees:
  assumes "\<forall>e \<in> set es. usable_entry I e \<longrightarrow> entry_fits e (frame_count d)"
  shows "\<exists>d'. PmmReleaseUsable_loop A B I es d = Some d' \<and> frame_count d' = frame_count d \<and>
    reserved_frames d' = reserved_frames d - (\<Union>e \<in> {e \<in> set es. usable_entry I e}. entry_frames e)"
  using assms
proof (induction es arbitrary: d)
  case (Cons e es)
  show ?case
  proof (cases "usable_entry I e")
    case False
    then have "PmmReleaseUsable_loop A B I (e # es) d = PmmReleaseUsable_loop A B I es d"
      by (auto simp: usable_entry_def not_le)
    moreover have "{x \<in> set (e # es). usable_entry I x} = {x \<in> set es. usable_entry I x}"
      using False by auto
    ultimately show ?thesis
      using Cons by simp
  next
    case True
    then have fits: "entry_fits e (frame_count d)"
      using Cons.prems by simp
    let ?pa = "AlignAddressUpper A (BaseAddress e) PAGE_SIZE"
    let ?n = "ucast (Length e div PAGE_SIZE) :: dword"
    have pa: "?pa = BaseAddress e"
      using fits by (intro AlignAddressUpper_id) (auto simp: entry_fits_def)
    have "unat (Length e) div 4096 \<le> 4294967295"
      using fits unat_dword_le_MAX [of "BitCount (AllocationBitmap d)"]
      by (simp add: entry_fits_def frame_count_def)
    then have le: "Length e div PAGE_SIZE \<le> ucast MAX_DWORD"
      by (simp only: frame_index_bound)
    note n = unat_frame_index [OF le]
    have bound: "unat (BaseAddress e) div 4096 + unat ?n \<le> frame_count d"
      using fits by (simp add: n entry_fits_def)
    have al: "page_aligned (BaseAddress e)"
      using fits by (simp add: entry_fits_def)
    from PmmReleaseMemory_frames [OF al bound] obtain d1 where
        rel: "PmmReleaseMemory A B d (BaseAddress e) ?n = Some d1"
      and d1: "reserved_frames d1 = reserved_frames d - frames_of (BaseAddress e) ?n"
        "frame_count d1 = frame_count d"
      by blast
    have ef: "frames_of (BaseAddress e) ?n = entry_frames e"
      by (simp add: frames_of_def entry_frames_def n)
    from Cons.IH [of d1] Cons.prems d1(2) obtain d' where
        d': "PmmReleaseUsable_loop A B I es d1 = Some d'" "frame_count d' = frame_count d1"
        "reserved_frames d' = reserved_frames d1 -
          (\<Union>e \<in> {e \<in> set es. usable_entry I e}. entry_frames e)"
      by auto
    have "PmmReleaseUsable_loop A B I (e # es) d = Some d'"
      using True le rel d'(1) pa by (simp add: usable_entry_def Let_def not_less [symmetric])
    moreover have "{x \<in> set (e # es). usable_entry I x} = insert e {x \<in> set es. usable_entry I x}"
      using True by auto
    ultimately show ?thesis
      using d' d1 ef by auto
  qed
qed auto

lemma PmmReserveMemory_all:
  assumes "\<forall>k < frame_count d. \<not> Bits (AllocationBitmap d) k" and "frame_count d \<noteq> 0"
  shows "reserved_frames (snd (PmmReserveMemory A B d (BitCount (AllocationBitmap d)))) = {..<frame_count d}"
    and "frame_count (snd (PmmReserveMemory A B d (BitCount (AllocationBitmap d)))) = frame_count d"
proof -
  obtain pa d' where call: "PmmReserveMemory A B d (BitCount (AllocationBitmap d)) = (pa, d')"
    by fastforce
  let ?n = "BitCount (AllocationBitmap d)"
  have n: "?n \<noteq> 0"
    using assms(2) by (auto simp: frame_count_def)
  obtain idx bm where scan: "BitmapScanFromAndFlip B (AllocationBitmap d) 0 ?n False = (idx, bm)"
    and d': "d' = d\<lparr>AllocationBitmap := bm\<rparr>"
    using call n by (auto simp: PmmReserveMemory_def PmmReserveMemoryEx_def addr_simps
        split: if_splits prod.splits)
  have "idx \<noteq> MAX_DWORD"
  proof
    assume "idx = MAX_DWORD"
    with scan BitmapScan_none [of "AllocationBitmap d" 0 ?n False bm] n
    have "\<not> bits_run (Bits (AllocationBitmap d)) 0 (unat ?n) False"
      by simp
    with assms(1) show False
      by (auto simp: bits_run_def frame_count_def)
  qed
  from BitmapScan_found [OF scan n this] have
    bm: "bm = (AllocationBitmap d)\<lparr>Bits := bits_set 0 (unat ?n) True (Bits (AllocationBitmap d))\<rparr>"
    by simp
  show "reserved_frames (snd (PmmReserveMemory A B d ?n)) = {..<frame_count d}"
    and "frame_count (snd (PmmReserveMemory A B d ?n)) = frame_count d"
    by (auto simp: call d' bm reserved_frames_def frame_count_def bits_set_apply)
qed

lemma PmmInitializeAllocationBitmap_frees:
  assumes "base \<noteq> 0" and "4096 \<le> unat hi" and "unat hi < 2 ^ 44"
    and fits: "\<forall>e \<in> set es. usable_entry I e \<longrightarrow> entry_fits e (unat hi div 4096)"
  shows "\<exists>sz d'. PmmInitializeAllocationBitmap A B I base hi es d = Some (sz, d') \<and>
    frame_count d' = unat hi div 4096 \<and>
    reserved_frames d' = {..<unat hi div 4096} - (\<Union>e \<in> {e \<in> set es. usable_entry I e}. entry_frames e)"
proof -
  have "unat hi div 4096 \<le> 4294967295"
    using assms(3) by simp
  then have le: "hi div PAGE_SIZE \<le> ucast MAX_DWORD"
    by (simp only: frame_index_bound)
  define n where "n = (ucast (hi div PAGE_SIZE) :: dword)"
  have n: "unat n = unat hi div 4096"
    by (simp add: n_def unat_frame_index [OF le])
  define bm where "bm = BitmapInit B (snd (BitmapPreinit B (AllocationBitmap d) n)) base"
  define d0 where "d0 = d\<lparr>AllocationBitmap := bm\<rparr>"
  have d0: "frame_count d0 = unat hi div 4096" "BitCount (AllocationBitmap d0) = n"
    "\<forall>k < frame_count d0. \<not> Bits (AllocationBitmap d0) k"
    by (simp_all add: d0_def bm_def frame_count_def BitmapInit_count BitmapPreinit_count n
        BitmapInit_clear)
  define d1 where "d1 = snd (PmmReserveMemory A B d0 n)"
  have d1: "reserved_frames d1 = {..<unat hi div 4096}" "frame_count d1 = unat hi div 4096"
    using PmmReserveMemory_all [OF d0(3)] d0(1,2) assms(2) by (simp_all add: d1_def)
  obtain d' where d': "PmmReleaseUsable_loop A B I es d1 = Some d'" "frame_count d' = frame_count d1"
      "reserved_frames d' = reserved_frames d1 -
        (\<Union>e \<in> {e \<in> set es. usable_entry I e}. entry_frames e)"
    using PmmReleaseUsable_loop_frees [of es I d1] fits d1(2) by auto
  have "hi \<noteq> 0"
    using assms(2) by auto
  moreover have "BitmapGetMaxElementCount B bm = n"
    using d0(2) by (simp add: BitmapGetMaxElementCount_count d0_def)
  ultimately have "PmmInitializeAllocationBitmap A B I base hi es d =
      Some (fst (BitmapPreinit B (AllocationBitmap d) n), d')"
    using assms(1) le d'(1)
    by (simp add: PmmInitializeAllocationBitmap_def Let_def n_def [symmetric] bm_def [symmetric]
        d0_def d1_def case_prod_unfold)
  then show ?thesis
    using d' d1 by simp
qed

end


lemma PmmReleaseUsable_loop_present:
  "PmmReleaseUsable_loop A B I es d = Some d' \<Longrightarrow>
   HighestPhysicalAddressPresent d' = HighestPhysicalAddressPresent d"
  by (induction es arbitrary: d)
    (fastforce simp: PmmReleaseMemory_def Let_def bind_Some_iff split: if_splits)+

lemma PmmInitializeAllocationBitmap_present:
  "PmmInitializeAllocationBitmap A B I base hi es d = Some (sz, d') \<Longrightarrow>
   HighestPhysicalAddressPresent d' = HighestPhysicalAddressPresent d"
  by (auto simp: PmmInitializeAllocationBitmap_def PmmReserveMemory_def PmmReserveMemoryEx_def Let_def
      bind_Some_iff dest!: PmmReleaseUsable_loop_present split: prod.splits if_splits)

text \<open>
  The hypotheses of the initialisation theorem: the map as the firmware hands it over, with
  region types inside the table, addresses below the 16 TB a bitmap of \<open>MAX_DWORD\<close> frames
  covers, at least one frame, and usable regions that start on a page boundary.
\<close>

definition memory_map_ok :: "int15_lib \<Rightarrow> memory_map_entry list \<Rightarrow> bool" where
  "memory_map_ok I es \<longleftrightarrow>
     list_all (\<lambda>e. EntryValid e \<longrightarrow> EntryType e < MemoryMapTypeMax I) es \<and>
     list_all (\<lambda>e. unat (BaseAddress e) + unat (Length e) < 2 ^ 44) es \<and>
     list_ex (\<lambda>e. 4096 \<le> unat (BaseAddress e) + unat (Length e)) es \<and>
     list_all (\<lambda>e. usable_entry I e \<longrightarrow> page_aligned (BaseAddress e)) es"

lemma memory_map_top:
  assumes "unat (BaseAddress e) + unat (Length e) < 2 ^ 44"
  shows "unat (BaseAddress e + Length e) = unat (BaseAddress e) + unat (Length e)"
  using assms by (intro unat_add_less) simp

lemma memory_map_ok_highest:
  assumes "memory_map_ok I es"
  defines "hi \<equiv> Max (insert 0 ((\<lambda>e. BaseAddress e + Length e) ` set es))"
  shows "4096 \<le> unat hi" and "unat hi < 2 ^ 44"
    and "\<forall>e \<in> set es. unat (BaseAddress e) + unat (Length e) \<le> unat hi"
proof -
  have ge: "unat (BaseAddress e) + unat (Length e) \<le> unat hi" if "e \<in> set es" for e
  proof -
    have "BaseAddress e + Length e \<le> hi"
      unfolding hi_def by (rule Max_ge) (use that in auto)
    then show ?thesis
      using assms(1) that memory_map_top [of e]
      by (simp add: memory_map_ok_def list_all_iff word_le_nat_alt)
  qed
  then show "\<forall>e \<in> set es. unat (BaseAddress e) + unat (Length e) \<le> unat hi"
    by blast
  then show "4096 \<le> unat hi"
    using assms(1) by (auto simp: memory_map_ok_def list_ex_iff)
  have "hi \<in> insert 0 ((\<lambda>e. BaseAddress e + Length e) ` set es)"
    unfolding hi_def by (rule Max_in) auto
  then consider "hi = 0" | e where "e \<in> set es" and "hi = BaseAddress e + Length e"
    by auto
  then show "unat hi < 2 ^ 44"
  proof cases
    case (2 e)
    then show ?thesis
      using assms(1) memory_map_top [of e] by (simp add: memory_map_ok_def list_all_iff)
  qed simp
qed

subsection \<open>Properties\<close>

text \<open>
  C1 (safety). A reservation that returns an address hands out a page-aligned run of frames at or
  above the asked minimum, inside the bitmap, none of which was reserved; afterwards exactly
  these frames are reserved in addition. No frame is ever given out twice.
\<close>

theorem PmmReserveMemoryEx_exclusive:
  assumes "addr_contract A" and "bitmap_contract B"
    and "PmmReserveMemoryEx A B d NoOfFrames MinPhysAddr = (pa, d')" and "pa \<noteq> 0"
  shows "page_aligned pa \<and> MinPhysAddr \<le> pa \<and>
    frames_of pa NoOfFrames \<subseteq> {..<frame_count d} - reserved_frames d \<and>
    frames_of pa NoOfFrames \<noteq> {} \<and>
    reserved_frames d' = reserved_frames d \<union> frames_of pa NoOfFrames"
proof -
  have env: "mem_env A B"
    using assms(1,2) by (rule mem_envI)
  show ?thesis
    using mem_env.PmmReserveMemoryEx_success [OF env assms(3,4)]
      mem_env.PmmReserveMemoryEx_frames [OF env assms(3,4)]
    by (auto simp: word_le_nat_alt)
qed

definition pmm_example :: pmm_data where
  "pmm_example = \<lparr>HighestPhysicalAddressAvailable = 0x8000, HighestPhysicalAddressPresent = 0x8000,
    PhysicalMemorySize = 0x8000, MemoryRegionList = [],
    AllocationBitmap = \<lparr>BitCount = 8, BufferSize = 1, BitmapBuffer = 0x9000,
      Bits = (\<lambda>k. k = 0 \<or> k = 3)\<rparr>\<rparr>"

theorem PmmReserveMemoryEx_exclusive_witness:
  "fst (PmmReserveMemoryEx addr_ops bitmap_ops pmm_example 2 0x2000) = 0x4000 \<and>
   reserved_frames (snd (PmmReserveMemoryEx addr_ops bitmap_ops pmm_example 2 0x2000)) =
     reserved_frames pmm_example \<union> frames_of 0x4000 2"
proof -
  have "fst (PmmReserveMemoryEx addr_ops bitmap_ops pmm_example 2 0x2000) = 0x4000"
    by code_simp
  then obtain d' where
    "PmmReserveMemoryEx addr_ops bitmap_ops pmm_example 2 0x2000 = (0x4000, d')"
    by (metis prod.collapse)
  then show ?thesis
    using PmmReserveMemoryEx_exclusive [OF contracts_hold, of pmm_example 2 "0x2000" "0x4000" d'] by simp
qed

text \<open>
  C2 (invariant). In any history of reservations and releases that starts with no allocation held, the
  allocations a client holds are pairwise disjoint runs of frames, all inside the bitmap and
  all still marked as reserved.
\<close>

theorem pmm_history_disjoint:
  assumes "addr_contract A" and "bitmap_contract B"
    and "(pmm_step A B)\<^sup>*\<^sup>* (d, []) (d', out)"
  shows "sorted_wrt alloc_disjoint out \<and>
    (\<forall>(pa, n) \<in> set out. frames_of pa n \<noteq> {} \<and> frames_of pa n \<subseteq> reserved_frames d')"
proof -
  have env: "mem_env A B"
    using assms(1,2) by (rule mem_envI)
  have "allocations_ok d' out"
    using mem_env.pmm_steps_allocations_ok [OF env assms(3)] by (simp add: allocations_ok_def)
  then show ?thesis
    by (auto simp: allocations_ok_def frames_of_def unat_pos_dword)
qed

theorem pmm_history_disjoint_witness:
  "\<exists>d' pa1 pa2. (pmm_step addr_ops bitmap_ops)\<^sup>*\<^sup>* (pmm_example, []) (d', [(pa2, 2), (pa1, 1)]) \<and>
     sorted_wrt alloc_disjoint [(pa2, 2), (pa1, 1)]"
proof -
  let ?r1 = "PmmReserveMemoryEx addr_ops bitmap_ops pmm_example 1 0"
  let ?r2 = "PmmReserveMemoryEx addr_ops bitmap_ops (snd ?r1) 2 0"
  have nz: "fst ?r1 \<noteq> 0" "fst ?r2 \<noteq> 0"
    by code_simp+
  have "pmm_step addr_ops bitmap_ops (pmm_example, []) (snd ?r1, [(fst ?r1, 1)])"
    by (rule pmm_step.reserve [of _ _ _ 1 0]) (use nz in auto)
  moreover have "pmm_step addr_ops bitmap_ops (snd ?r1, [(fst ?r1, 1)])
      (snd ?r2, [(fst ?r2, 2), (fst ?r1, 1)])"
    by (rule pmm_step.reserve [of _ _ _ 2 0]) (use nz in auto)
  ultimately have "(pmm_step addr_ops bitmap_ops)\<^sup>*\<^sup>* (pmm_example, []) (snd ?r2, [(fst ?r2, 2), (fst ?r1, 1)])"
    by (meson r_into_rtranclp rtranclp.rtrancl_into_rtrancl)
  then show ?thesis
    using pmm_history_disjoint [OF contracts_hold] by blast
qed

text \<open>
  Releasing what a reservation handed out restores the state of the manager exactly as
  it was before the reservation.
\<close>

theorem Pmm_reserve_release_roundtrip:
  assumes "addr_contract A" and "bitmap_contract B"
    and "PmmReserveMemoryEx A B d NoOfFrames MinPhysAddr = (pa, d')" and "pa \<noteq> 0"
  shows "PmmReleaseMemory A B d' pa NoOfFrames = Some d"
  by (rule mem_env.Pmm_reserve_release [OF mem_envI [OF assms(1,2)] assms(3,4)])

theorem Pmm_reserve_release_roundtrip_witness:
  "PmmReleaseMemory addr_ops bitmap_ops
     (snd (PmmReserveMemoryEx addr_ops bitmap_ops pmm_example 2 0x2000)) 0x4000 2 = Some pmm_example"
proof -
  have "fst (PmmReserveMemoryEx addr_ops bitmap_ops pmm_example 2 0x2000) = 0x4000"
    by code_simp
  then obtain d' where
    "PmmReserveMemoryEx addr_ops bitmap_ops pmm_example 2 0x2000 = (0x4000, d')"
    by (metis prod.collapse)
  then show ?thesis
    using Pmm_reserve_release_roundtrip [OF contracts_hold, of pmm_example 2 "0x2000" "0x4000" d'] by simp
qed

text \<open>
  \<open>NULL\<close> from a well-formed request means one of two things: no run of free frames of
  the asked length starts at or above the minimum, and nothing changed; or the search began
  at address 0 and the run it reserved is the one that starts at frame 0, whose address
  cannot be told from \<open>NULL\<close>.
\<close>

theorem PmmReserveMemoryEx_null:
  assumes "addr_contract A" and "bitmap_contract B"
    and "PmmReserveMemoryEx A B d NoOfFrames MinPhysAddr = (0, d')"
    and "NoOfFrames \<noteq> 0" and "page_aligned MinPhysAddr" and "unat MinPhysAddr div 4096 \<le> 4294967295"
  shows "(d' = d \<and> (\<forall>i. unat MinPhysAddr div 4096 \<le> i \<longrightarrow> i + unat NoOfFrames \<le> frame_count d \<longrightarrow>
            {i..<i + unat NoOfFrames} \<inter> reserved_frames d \<noteq> {})) \<or>
         (MinPhysAddr = 0 \<and> reserved_frames d \<inter> {..<unat NoOfFrames} = {} \<and>
          reserved_frames d' = reserved_frames d \<union> {..<unat NoOfFrames} \<and>
          unat NoOfFrames \<le> frame_count d)"
  by (rule mem_env.PmmReserveMemoryEx_fail [OF mem_envI [OF assms(1,2)] assms(3-6)])

theorem PmmReserveMemoryEx_null_witness:
  "fst (PmmReserveMemoryEx addr_ops bitmap_ops pmm_example 5 0x1000) = 0 \<and>
   snd (PmmReserveMemoryEx addr_ops bitmap_ops pmm_example 5 0x1000) = pmm_example"
proof -
  have "fst (PmmReserveMemoryEx addr_ops bitmap_ops pmm_example 5 0x1000) = 0"
    by code_simp
  then obtain d' where r: "PmmReserveMemoryEx addr_ops bitmap_ops pmm_example 5 0x1000 = (0, d')"
    by (metis prod.collapse)
  have "page_aligned 0x1000"
    by code_simp
  with PmmReserveMemoryEx_null [OF contracts_hold r] r show ?thesis
    by simp
qed


definition int15_example :: int15_lib where
  "int15_example = \<lparr>MemoryMapTypeUsableRAM = 1, MemoryMapTypeMax = 6\<rparr>"

text \<open>A map with a low RAM entry, one usable megabyte-range entry and a reserved one.\<close>

definition memory_map_example :: "memory_map_entry list" where
  "memory_map_example =
    [\<lparr>BaseAddress = 0, Length = 0x9F000, EntryType = 1, EntryValid = True\<rparr>,
     \<lparr>BaseAddress = 0x100000, Length = 0x4000, EntryType = 1, EntryValid = True\<rparr>,
     \<lparr>BaseAddress = 0x104000, Length = 0x1000, EntryType = 2, EntryValid = True\<rparr>]"


text \<open>
  Page alignment of the usable entries is needed: the start of an entry is rounded up
  but its length is not shortened, so an entry of one page that starts in the middle of a
  page frees a frame that is only half inside it. Here 0x100800..0x101800 is usable and
  0x101800..0x102000 is not, and frame 0x101 ends up free.
\<close>

definition memory_map_unaligned :: "memory_map_entry list" where
  "memory_map_unaligned =
    [\<lparr>BaseAddress = 0x100800, Length = 0x1000, EntryType = 1, EntryValid = True\<rparr>,
     \<lparr>BaseAddress = 0x101800, Length = 0x1800, EntryType = 2, EntryValid = True\<rparr>]"

theorem PmmInitSystem_unaligned_frees_reserved:
  "case PmmInitSystem addr_ops bitmap_ops int15_example (PmmPreinitSystem int15_example) 0x200000
      (Some memory_map_unaligned) 2 True of
     None \<Rightarrow> False
   | Some (st, sz, d) \<Rightarrow> st = STATUS_SUCCESS \<and> frame_count d = 0x103 \<and>
       \<not> Bits (AllocationBitmap d) 0x101 \<and>
       list_all (\<lambda>e. BaseAddress e + Length e < 0x102 * PAGE_SIZE)
         (filter (usable_entry int15_example) memory_map_unaligned)"
  by code_simp

end
