(* ===== verification/VmReservation.thy ===== *)
theory VmReservation
  imports CommonLib
begin

text \<open>
  Virtual address reservations, \<open>vm_reservation_space.c\<close>: the table of reservations of an
  address space, with a commit bitmap for each, and the routines that reserve, commit, release
  and query address ranges. The routines run under \<open>ReservationLock\<close> and are one atomic step
  each; \<open>VmmMemoryAccess\<close>, which they raise on their CPU for the duration of the call, is an
  argument of the one routine that reads it.

  The table lives at the start of the metadata area, up to \<open>BitmapAddressStart\<close>; it is the
  list \<open>ReservationList\<close> here, so that \<open>pCurrentReservation < BitmapAddressStart\<close> is
  an index inside the list. Access rights and allocation types are masks in the code and
  sets of flags here: \<open>IsBooleanFlagOn (x, f)\<close> is \<open>f \<subseteq> x\<close>.
\<close>

subsection \<open>Data\<close>

datatype page_right = PAGE_RIGHTS_READ | PAGE_RIGHTS_WRITE | PAGE_RIGHTS_EXECUTE

type_synonym page_rights = "page_right set"

abbreviation PAGE_RIGHTS_READWRITE :: page_rights where
  "PAGE_RIGHTS_READWRITE \<equiv> {PAGE_RIGHTS_READ, PAGE_RIGHTS_WRITE}"

datatype vmm_alloc_type =
    VMM_ALLOC_TYPE_RESERVE | VMM_ALLOC_TYPE_COMMIT | VMM_ALLOC_TYPE_NOT_LAZY | VMM_ALLOC_TYPE_ZERO

datatype vmm_free_type = VMM_FREE_TYPE_RELEASE | VMM_FREE_TYPE_DECOMMIT

datatype vmm_reservation_state =
    VmmReservationStateFree | VmmReservationStateUsed | VmmReservationStateLast

type_synonym file_object = nat

record vmm_reservation =
  StartVa :: qword
  ResSize :: qword
  ResPageRights :: page_rights
  ResState :: vmm_reservation_state
  ResUncacheable :: bool
  BackingFile :: "file_object option"
  CommitBitmap :: bitmap

record vmm_reservation_space =
  FreeVirtualAddressPointer :: qword
  StartOfVirtualAddressSpace :: qword
  BitmapAddressStart :: qword
  ReservedAreaSize :: qword
  FreeBitmapAddress :: qword
  ReservationListAddress :: qword
  ReservationList :: "vmm_reservation list"

definition zero_reservation :: vmm_reservation where
  "zero_reservation = \<lparr>StartVa = 0, ResSize = 0, ResPageRights = {},
     ResState = VmmReservationStateFree, ResUncacheable = False, BackingFile = None,
     CommitBitmap = \<lparr>BitCount = 0, BufferSize = 0, BitmapBuffer = 0, Bits = (\<lambda>_. False)\<rparr>\<rparr>"

subsection \<open>Initialisation\<close>

definition RESERVATION_LIST_PERCENTAGE_IN_HUNDREDS :: qword where
  "RESERVATION_LIST_PERCENTAGE_IN_HUNDREDS = 20 * 100"

text \<open>\<open>slots\<close> is what the table's part of the metadata area holds at the time of the call.\<close>

definition VmReservationSpaceInit ::
  "addr_lib \<Rightarrow> qword \<Rightarrow> qword \<Rightarrow> qword \<Rightarrow> vmm_reservation list \<Rightarrow> vmm_reservation_space option" where
  "VmReservationSpaceInit A ReservationMetadataBaseAddress ReservationBaseAddress ReservationMetadataSize slots = do {
     ASSERT (ReservationMetadataBaseAddress \<noteq> 0);
     ASSERT (IsAddressAligned A ReservationMetadataBaseAddress PAGE_SIZE);
     ASSERT (ReservationMetadataSize \<noteq> 0);
     let sizeForReservationList =
       CalculatePercentage A ReservationMetadataSize RESERVATION_LIST_PERCENTAGE_IN_HUNDREDS;
     let bitmapAddressStart = PtrOffset A ReservationMetadataBaseAddress sizeForReservationList;
     let free = (if ReservationBaseAddress = 0
                 then PtrOffset A ReservationMetadataBaseAddress ReservationMetadataSize
                 else ReservationBaseAddress);
     Some \<lparr>FreeVirtualAddressPointer = free, StartOfVirtualAddressSpace = free,
           BitmapAddressStart = bitmapAddressStart, ReservedAreaSize = ReservationMetadataSize,
           FreeBitmapAddress = bitmapAddressStart,
           ReservationListAddress = ReservationMetadataBaseAddress, ReservationList = slots\<rparr>
   }"

definition VmReservationSpaceFinishInit :: "vmm_reservation_space \<Rightarrow> vmm_reservation_space option" where
  "VmReservationSpaceFinishInit s =
     (case ReservationList s of
        [] \<Rightarrow> None
      | r # rs \<Rightarrow> Some (s\<lparr>ReservationList := r\<lparr>ResState := VmmReservationStateLast\<rparr> # rs\<rparr>))"

definition VmReservationSpaceDetermineNextFreeVirtualAddress ::
  "vmm_reservation_space \<Rightarrow> qword \<Rightarrow> qword \<times> vmm_reservation_space" where
  "VmReservationSpaceDetermineNextFreeVirtualAddress s n =
     (FreeVirtualAddressPointer s, s\<lparr>FreeVirtualAddressPointer := FreeVirtualAddressPointer s + n\<rparr>)"

subsection \<open>Looking up reservations\<close>

fun VmFindReservation_loop :: "addr_lib \<Rightarrow> qword \<Rightarrow> qword \<Rightarrow> vmm_reservation list \<Rightarrow> nat option" where
  "VmFindReservation_loop A a n [] = None"
| "VmFindReservation_loop A a n (r # rs) =
     (if ResState r = VmmReservationStateLast then None
      else if ResState r = VmmReservationStateFree then map_option Suc (VmFindReservation_loop A a n rs)
      else if CHECK_BOUNDS A a n (StartVa r) (ResSize r) then Some 0
      else map_option Suc (VmFindReservation_loop A a n rs))"

definition VmFindReservation ::
  "addr_lib \<Rightarrow> vmm_reservation_space \<Rightarrow> qword \<Rightarrow> qword \<Rightarrow> (status \<times> nat option) option" where
  "VmFindReservation A s Address n = do {
     ASSERT (Address \<noteq> 0);
     ASSERT (n \<noteq> 0);
     (case VmFindReservation_loop A Address n (ReservationList s) of
        None \<Rightarrow> Some (STATUS_ELEMENT_NOT_FOUND, None)
      | Some i \<Rightarrow> Some (STATUS_SUCCESS, Some i))
   }"

text \<open>
  The search for a slot: the first free one, or the one that carries the end marker, which
  then moves one slot further. When the marker is in the last slot of the table it would be
  written past the table: \<open>None\<close>. \<open>Some (None, rs)\<close> is the result \<open>NULL\<close>.
\<close>

fun VmFindFirstFreeReservation_loop ::
  "vmm_reservation list \<Rightarrow> (nat option \<times> vmm_reservation list) option" where
  "VmFindFirstFreeReservation_loop [] = Some (None, [])"
| "VmFindFirstFreeReservation_loop (r # rs) =
     (if ResState r = VmmReservationStateFree then Some (Some 0, r # rs)
      else if ResState r = VmmReservationStateLast then
        (case rs of
           [] \<Rightarrow> None
         | r' # rs' \<Rightarrow> Some (Some 0, r\<lparr>ResState := VmmReservationStateFree\<rparr> #
                                   r'\<lparr>ResState := VmmReservationStateLast\<rparr> # rs'))
      else map_option (\<lambda>(i, rs'). (map_option Suc i, r # rs')) (VmFindFirstFreeReservation_loop rs))"

definition VmFindFirstFreeReservation ::
  "vmm_reservation_space \<Rightarrow> (nat option \<times> vmm_reservation_space) option" where
  "VmFindFirstFreeReservation s =
     map_option (\<lambda>(i, rs). (i, s\<lparr>ReservationList := rs\<rparr>))
       (VmFindFirstFreeReservation_loop (ReservationList s))"

subsection \<open>Setting up, committing and tearing down one reservation\<close>

definition VmInitializeReservation ::
  "addr_lib \<Rightarrow> bitmap_lib \<Rightarrow> vmm_reservation_space \<Rightarrow> qword \<Rightarrow> qword \<Rightarrow> page_rights \<Rightarrow> bool \<Rightarrow>
   file_object option \<Rightarrow> nat \<Rightarrow> vmm_reservation_space option" where
  "VmInitializeReservation A B s Address n PageRights Uncacheable FileObject i = do {
     ASSERT (Address \<noteq> 0);
     ASSERT (n \<noteq> 0);
     ASSERT (IsAddressAligned A Address PAGE_SIZE);
     ASSERT (IsAddressAligned A n PAGE_SIZE);
     let noOfPages = n div PAGE_SIZE;
     ASSERT (noOfPages \<le> ucast MAX_DWORD);
     let (bitmapSize, bm) = BitmapPreinit B (CommitBitmap (ReservationList s ! i)) (ucast noOfPages);
     ASSERT (bitmapSize \<noteq> 0);
     ASSERT (IsAddressAligned A (FreeBitmapAddress s) PAGE_SIZE);
     let bm = BitmapInit B bm (FreeBitmapAddress s);
     let bufferSize = AlignAddressUpper A (ucast bitmapSize) PAGE_SIZE;
     ASSERT (CHECK_BOUNDS A (FreeBitmapAddress s) bufferSize (ReservationListAddress s) (ReservedAreaSize s));
     Some (s\<lparr>ReservationList := (ReservationList s)[i :=
              \<lparr>StartVa = Address, ResSize = n, ResPageRights = PageRights,
               ResState = VmmReservationStateUsed, ResUncacheable = Uncacheable,
               BackingFile = FileObject, CommitBitmap = bm\<rparr>],
             FreeBitmapAddress := FreeBitmapAddress s + bufferSize\<rparr>)
   }"

definition VmCommitReservation ::
  "addr_lib \<Rightarrow> bitmap_lib \<Rightarrow> qword \<Rightarrow> qword \<Rightarrow> vmm_reservation \<Rightarrow> vmm_reservation option" where
  "VmCommitReservation A B Address n r = do {
     ASSERT (Address \<noteq> 0);
     ASSERT (n \<noteq> 0);
     ASSERT (IsAddressAligned A Address PAGE_SIZE);
     ASSERT (IsAddressAligned A n PAGE_SIZE);
     let noOfPages = n div PAGE_SIZE;
     let startIndex = PtrDiff A Address (StartVa r) div PAGE_SIZE;
     ASSERT (noOfPages \<le> ucast MAX_DWORD);
     ASSERT (startIndex \<le> ucast MAX_DWORD);
     Some (r\<lparr>CommitBitmap := BitmapSetBits B (CommitBitmap r) (ucast startIndex) (ucast noOfPages)\<rparr>)
   }"

definition VmDecommitReservation ::
  "addr_lib \<Rightarrow> bitmap_lib \<Rightarrow> qword \<Rightarrow> qword \<Rightarrow> vmm_reservation \<Rightarrow> vmm_reservation option" where
  "VmDecommitReservation A B Address n r = do {
     ASSERT (Address \<noteq> 0);
     ASSERT (n \<noteq> 0);
     ASSERT (IsAddressAligned A Address PAGE_SIZE);
     ASSERT (IsAddressAligned A n PAGE_SIZE);
     let noOfPages = n div PAGE_SIZE;
     let startIndex = PtrDiff A Address (StartVa r) div PAGE_SIZE;
     ASSERT (noOfPages \<le> ucast MAX_DWORD);
     ASSERT (startIndex \<le> ucast MAX_DWORD);
     Some (r\<lparr>CommitBitmap := BitmapClearBits B (CommitBitmap r) (ucast startIndex) (ucast noOfPages)\<rparr>)
   }"

definition VmIsVaCommited :: "addr_lib \<Rightarrow> bitmap_lib \<Rightarrow> vmm_reservation \<Rightarrow> qword \<Rightarrow> bool option" where
  "VmIsVaCommited A B r Address = do {
     ASSERT (Address \<noteq> 0);
     let pageNo = PtrDiff A Address (StartVa r) div PAGE_SIZE;
     ASSERT (pageNo \<le> ucast MAX_DWORD);
     Some (BitmapGetBitValue B (CommitBitmap r) (ucast pageNo))
   }"

text \<open>
  What \<open>_VmUninitializeReservation\<close> asks other components to do: unmap the bitmap's buffer
  and close the backing file, in this order. It works on a copy of the reservation.
\<close>

datatype vm_call =
    CallMmuUnmapMemoryEx qword qword bool
  | CallIoCloseFile file_object

definition VmUninitializeReservation ::
  "addr_lib \<Rightarrow> vmm_reservation \<Rightarrow> vm_call list option" where
  "VmUninitializeReservation A r = do {
     let pBitmapBuffer = BitmapBuffer (CommitBitmap r);
     ASSERT (IsAddressAligned A pBitmapBuffer PAGE_SIZE);
     let bitmapSize = BufferSize (CommitBitmap r);
     Some (CallMmuUnmapMemoryEx pBitmapBuffer (ucast bitmapSize) True #
       (case BackingFile r of None \<Rightarrow> [] | Some f \<Rightarrow> [CallIoCloseFile f]))
   }"

definition VmChangeVaReservationState ::
  "addr_lib \<Rightarrow> bitmap_lib \<Rightarrow> vmm_reservation_space \<Rightarrow> qword \<Rightarrow> qword \<Rightarrow> vmm_alloc_type \<Rightarrow> page_rights \<Rightarrow>
   bool \<Rightarrow> file_object option \<Rightarrow> (status \<times> vmm_reservation_space) option" where
  "VmChangeVaReservationState A B s Address n AllocationType PageRights Uncacheable FileObject = do {
     ASSERT (Address \<noteq> 0);
     ASSERT (n \<noteq> 0);
     ASSERT ((AllocationType = VMM_ALLOC_TYPE_RESERVE) \<noteq> (AllocationType = VMM_ALLOC_TYPE_COMMIT));
     ASSERT (IsAddressAligned A Address PAGE_SIZE);
     ASSERT (IsAddressAligned A n PAGE_SIZE);
     (status, found) \<leftarrow> VmFindReservation A s Address n;
     if status = STATUS_ELEMENT_NOT_FOUND \<and> AllocationType \<noteq> VMM_ALLOC_TYPE_RESERVE
     then Some (STATUS_MEMORY_IS_NOT_RESERVED, s)
     else if status \<noteq> STATUS_ELEMENT_NOT_FOUND \<and> AllocationType = VMM_ALLOC_TYPE_RESERVE
     then Some (STATUS_MEMORY_ALREADY_RESERVED, s)
     else if AllocationType = VMM_ALLOC_TYPE_RESERVE then do {
       (slot, s) \<leftarrow> VmFindFirstFreeReservation s;
       (case slot of
          None \<Rightarrow> None
        | Some i \<Rightarrow> do {
            s \<leftarrow> VmInitializeReservation A B s Address n PageRights Uncacheable FileObject i;
            Some (STATUS_SUCCESS, s)
          })
     }
     else
       (case found of
          None \<Rightarrow> None
        | Some i \<Rightarrow>
            (let r = ReservationList s ! i in
             if ResPageRights r \<noteq> PageRights then Some (STATUS_MEMORY_CONFLICTING_ACCESS_RIGHTS, s)
             else if ResUncacheable r \<noteq> Uncacheable then Some (STATUS_MEMORY_CONFLICTING_CACHEABILITY, s)
             else do {
               r' \<leftarrow> VmCommitReservation A B Address n r;
               Some (STATUS_SUCCESS, s\<lparr>ReservationList := (ReservationList s)[i := r']\<rparr>)
             }))
   }"

subsection \<open>The interface\<close>

text \<open>The result carries what is stored through \<open>MappedAddress\<close> and \<open>MappedSize\<close>.\<close>

definition VmReservationSpaceAllocRegion ::
  "addr_lib \<Rightarrow> bitmap_lib \<Rightarrow> vmm_reservation_space \<Rightarrow> qword \<Rightarrow> qword \<Rightarrow> vmm_alloc_type set \<Rightarrow>
   page_rights \<Rightarrow> bool \<Rightarrow> file_object option \<Rightarrow>
   (status \<times> (qword \<times> qword) option \<times> vmm_reservation_space) option" where
  "VmReservationSpaceAllocRegion A B s Base n AllocType Rights Uncacheable FileObject = do {
     ASSERT (n \<noteq> 0);
     ASSERT (VMM_ALLOC_TYPE_COMMIT \<in> AllocType \<or> VMM_ALLOC_TYPE_RESERVE \<in> AllocType);
     let pBaseAligned = AlignAddressLower A Base PAGE_SIZE;
     if Base \<noteq> 0 \<and> pBaseAligned < StartOfVirtualAddressSpace s
     then Some (STATUS_MEMORY_CANNOT_BE_RESERVED, None, s)
     else do {
       let (pBaseAddress, alignedSize, s) =
         (if Base \<noteq> 0
          then (pBaseAligned, AlignAddressUpper A (n + PtrDiff A Base pBaseAligned) PAGE_SIZE, s)
          else let alignedSize = AlignAddressUpper A n PAGE_SIZE;
                   (p, s') = VmReservationSpaceDetermineNextFreeVirtualAddress s alignedSize
               in (p, alignedSize, s'));
       (st1, s) \<leftarrow>
         (if VMM_ALLOC_TYPE_RESERVE \<in> AllocType
          then VmChangeVaReservationState A B s pBaseAddress alignedSize VMM_ALLOC_TYPE_RESERVE
                 Rights Uncacheable FileObject
          else Some (STATUS_SUCCESS, s));
       if \<not> SUCCEEDED st1 then Some (st1, None, s)
       else do {
         (st2, s) \<leftarrow>
           (if VMM_ALLOC_TYPE_COMMIT \<in> AllocType
            then VmChangeVaReservationState A B s pBaseAddress alignedSize VMM_ALLOC_TYPE_COMMIT
                   Rights Uncacheable FileObject
            else Some (STATUS_SUCCESS, s));
         if \<not> SUCCEEDED st2 then Some (st2, None, s)
         else Some (st2, Some (pBaseAddress, alignedSize), s)
       }
     }
   }"

definition VmReservationSpaceFreeRegion ::
  "addr_lib \<Rightarrow> bitmap_lib \<Rightarrow> vmm_reservation_space \<Rightarrow> qword \<Rightarrow> qword \<Rightarrow> vmm_free_type set \<Rightarrow>
   (qword \<times> qword \<times> vm_call list \<times> vmm_reservation_space) option" where
  "VmReservationSpaceFreeRegion A B s Address n FreeType = do {
     ASSERT (Address \<noteq> 0);
     ASSERT ((VMM_FREE_TYPE_RELEASE \<in> FreeType \<and> n = 0) \<or> (VMM_FREE_TYPE_DECOMMIT \<in> FreeType \<and> n \<noteq> 0));
     ASSERT ((VMM_FREE_TYPE_RELEASE \<in> FreeType) \<noteq> (VMM_FREE_TYPE_DECOMMIT \<in> FreeType));
     (status, found) \<leftarrow> VmFindReservation A s Address 1;
     ASSERT (SUCCEEDED status);
     (case found of
        None \<Rightarrow> None
      | Some i \<Rightarrow>
          (let r = ReservationList s ! i in
           if VMM_FREE_TYPE_RELEASE \<in> FreeType then do {
             let s' = s\<lparr>ReservationList := (ReservationList s)[i := zero_reservation]\<rparr>;
             calls \<leftarrow> VmUninitializeReservation A r;
             Some (StartVa r, ResSize r, calls, s')
           }
           else do {
             let alignedAddress = AlignAddressLower A Address PAGE_SIZE;
             let alignedSize = AlignAddressUpper A (n + (Address - alignedAddress)) PAGE_SIZE;
             r' \<leftarrow> VmDecommitReservation A B alignedAddress alignedSize r;
             Some (alignedAddress, alignedSize, [], s\<lparr>ReservationList := (ReservationList s)[i := r']\<rparr>)
           }))
   }"

text \<open>
  The check behind a page fault. \<open>pCpu\<close> is the \<open>VmmMemoryAccess\<close> flag of the CPU, \<open>None\<close>
  before the CPU structures exist. The result is \<open>None\<close> inside for \<open>FALSE\<close>, otherwise what
  is stored through the output parameters: rights, cacheability, backing file and offset.
\<close>

definition VmReservationCanAddressBeAccessed ::
  "addr_lib \<Rightarrow> bitmap_lib \<Rightarrow> bool option \<Rightarrow> vmm_reservation_space \<Rightarrow> qword \<Rightarrow> page_rights \<Rightarrow>
   (page_rights \<times> bool \<times> file_object option \<times> qword) option option" where
  "VmReservationCanAddressBeAccessed A B pCpu s FaultingAddress RightsRequested =
     (if FaultingAddress = 0 then Some None
      else if CHECK_BOUNDS A FaultingAddress 1 (ReservationListAddress s) (ReservedAreaSize s) then
        (if pCpu = None \<or> pCpu = Some True
         then if PAGE_RIGHTS_EXECUTE \<in> RightsRequested then Some None
              else Some (Some (PAGE_RIGHTS_READWRITE, False, None, 0))
         else Some None)
      else do {
        (status, found) \<leftarrow> VmFindReservation A s FaultingAddress 1;
        (case found of
           None \<Rightarrow> Some None
         | Some i \<Rightarrow> do {
             let r = ReservationList s ! i;
             bIsVaCommited \<leftarrow> VmIsVaCommited A B r FaultingAddress;
             let fileOffset =
               (if BackingFile r \<noteq> None
                then AlignAddressLower A (PtrDiff A FaultingAddress (StartVa r)) PAGE_SIZE else 0);
             if bIsVaCommited \<and> RightsRequested \<subseteq> ResPageRights r
             then Some (Some (ResPageRights r, ResUncacheable r, BackingFile r, fileOffset))
             else Some None
           })
      })"

text \<open>
  The loop over the pages of a range, \<open>i\<close> counting the bytes passed so far. The counter of
  the code is a 64-bit word; it does not wrap for ranges of at most \<open>2 ^ 64 - 4096\<close> bytes.
\<close>

function VmPagesCommited_loop ::
  "addr_lib \<Rightarrow> bitmap_lib \<Rightarrow> vmm_reservation \<Rightarrow> qword \<Rightarrow> nat \<Rightarrow> nat \<Rightarrow> bool option" where
  "VmPagesCommited_loop A B r Address n i =
     (if n \<le> i then Some True
      else do {
        c \<leftarrow> VmIsVaCommited A B r (PtrOffset A Address (word_of_nat i));
        if c then VmPagesCommited_loop A B r Address n (i + 4096) else Some False
      })"
  by pat_completeness auto
termination
  by (relation "measure (\<lambda>(A, B, r, a, n, i). n - i)") auto

declare VmPagesCommited_loop.simps [simp del]

text \<open>The result carries the rights stored through \<open>Rights\<close>, if any were stored.\<close>

definition VmReservationReturnRightsForAddress ::
  "addr_lib \<Rightarrow> bitmap_lib \<Rightarrow> vmm_reservation_space \<Rightarrow> qword \<Rightarrow> qword \<Rightarrow>
   (status \<times> page_rights option) option" where
  "VmReservationReturnRightsForAddress A B s Address n = do {
     ASSERT (Address \<noteq> 0);
     ASSERT (n \<noteq> 0);
     (status, found) \<leftarrow> VmFindReservation A s Address n;
     (case found of
        None \<Rightarrow> Some (STATUS_MEMORY_IS_NOT_COMMITED, None)
      | Some i \<Rightarrow> do {
          let r = ReservationList s ! i;
          bFullyCommited \<leftarrow> VmPagesCommited_loop A B r Address (unat n) 0;
          Some (if bFullyCommited then STATUS_SUCCESS else STATUS_MEMORY_IS_NOT_COMMITED,
                Some (ResPageRights r))
        })
   }"

subsection \<open>The table of reservations\<close>

definition used :: "vmm_reservation \<Rightarrow> bool" where
  "used r \<longleftrightarrow> ResState r = VmmReservationStateUsed"

text \<open>The part of the table before the end marker; the loops never look past it.\<close>

definition live :: "vmm_reservation list \<Rightarrow> nat" where
  "live rs = length (takeWhile (\<lambda>r. ResState r \<noteq> VmmReservationStateLast) rs)"

lemma live_Nil [simp]: "live [] = 0"
  by (simp add: live_def)

lemma live_Cons [simp]:
  "live (r # rs) = (if ResState r = VmmReservationStateLast then 0 else Suc (live rs))"
  by (simp add: live_def)

lemma live_le: "live rs \<le> length rs"
  by (simp add: live_def length_takeWhile_le)

lemma live_update:
  "i < live rs \<Longrightarrow> ResState r \<noteq> VmmReservationStateLast \<Longrightarrow> live (rs[i := r]) = live rs"
proof (induction rs arbitrary: i)
  case (Cons a rs)
  then show ?case by (cases i) (auto split: if_splits)
qed simp

lemma VmFindReservation_loop_Some:
  "VmFindReservation_loop A a n rs = Some i \<Longrightarrow>
   i < live rs \<and> used (rs ! i) \<and> CHECK_BOUNDS A a n (StartVa (rs ! i)) (ResSize (rs ! i))"
proof (induction rs arbitrary: i)
  case (Cons r rs)
  then show ?case
    by (cases "ResState r") (auto simp: used_def split: if_splits)
qed simp

lemma VmFindReservation_loop_None:
  "VmFindReservation_loop A a n rs = None \<Longrightarrow> i < live rs \<Longrightarrow> used (rs ! i) \<Longrightarrow>
   \<not> CHECK_BOUNDS A a n (StartVa (rs ! i)) (ResSize (rs ! i))"
proof (induction rs arbitrary: i)
  case (Cons r rs)
  then show ?case
    by (cases i) (auto simp: used_def split: if_splits)
qed simp

lemma VmFindFirstFreeReservation_loop_Some:
  "VmFindFirstFreeReservation_loop rs = Some (Some i, rs') \<Longrightarrow>
   length rs' = length rs \<and> i < live rs' \<and> live rs \<le> live rs' \<and>
   (live rs < length rs \<longrightarrow> live rs' < length rs') \<and>
   ResState (rs' ! i) = VmmReservationStateFree \<and>
   (i < live rs \<longrightarrow> \<not> used (rs ! i)) \<and>
   (\<forall>j < live rs'. j \<noteq> i \<longrightarrow> j < live rs \<and> rs' ! j = rs ! j)"
proof (induction rs arbitrary: i rs')
  case (Cons r rs)
  show ?case
  proof (cases "ResState r")
    case VmmReservationStateUsed
    with Cons.prems obtain i0 rs0 where eq: "VmFindFirstFreeReservation_loop rs = Some (Some i0, rs0)"
      "i = Suc i0" "rs' = r # rs0"
      by (auto split: option.splits)
    show ?thesis
      using Cons.IH [OF eq(1)] VmmReservationStateUsed
      by (auto simp: eq(2,3) All_less_Suc2)
  qed (use Cons.prems in \<open>auto simp: used_def nth_Cons split: list.splits nat.splits\<close>)
qed simp

lemma VmFindFirstFreeReservation_loop_total:
  "Suc (live rs) < length rs \<Longrightarrow> \<exists>i rs'. VmFindFirstFreeReservation_loop rs = Some (Some i, rs')"
proof (induction rs)
  case (Cons r rs)
  then show ?case
    by (cases "ResState r") (auto split: list.splits)
qed simp

subsection \<open>Well-formed address spaces\<close>

definition covers :: "vmm_reservation \<Rightarrow> nat \<Rightarrow> nat \<Rightarrow> bool" where
  "covers r a n \<longleftrightarrow> unat (StartVa r) \<le> a \<and> a + n \<le> unat (StartVa r) + unat (ResSize r)"

definition reservation_ok :: "vmm_reservation \<Rightarrow> bool" where
  "reservation_ok r \<longleftrightarrow> page_aligned (StartVa r) \<and> page_aligned (ResSize r) \<and>
     StartVa r \<noteq> 0 \<and> ResSize r \<noteq> 0 \<and> unat (StartVa r) + unat (ResSize r) < 2 ^ 64 \<and>
     unat (BitCount (CommitBitmap r)) = unat (ResSize r) div 4096 \<and>
     page_aligned (BitmapBuffer (CommitBitmap r))"

definition space_ok :: "vmm_reservation_space \<Rightarrow> bool" where
  "space_ok s \<longleftrightarrow> live (ReservationList s) < length (ReservationList s) \<and>
     page_aligned (FreeBitmapAddress s) \<and>
     (\<forall>i < live (ReservationList s). used (ReservationList s ! i) \<longrightarrow>
        reservation_ok (ReservationList s ! i))"

definition page_committed :: "vmm_reservation \<Rightarrow> nat \<Rightarrow> bool" where
  "page_committed r a \<longleftrightarrow> Bits (CommitBitmap r) ((a - unat (StartVa r)) div 4096)"

lemma covers_sub: "covers r a n \<Longrightarrow> a \<le> b \<Longrightarrow> b + m \<le> a + n \<Longrightarrow> covers r b m"
  by (auto simp: covers_def)

lemma reservation_page_bound:
  assumes "reservation_ok r" and "covers r a 1"
  shows "(a - unat (StartVa r)) div 4096 < unat (BitCount (CommitBitmap r))"
proof -
  have "a - unat (StartVa r) < unat (ResSize r)" and "4096 dvd unat (ResSize r)"
    using assms by (auto simp: reservation_ok_def covers_def page_aligned_unat)
  then show ?thesis
    using assms(1) by (auto simp: reservation_ok_def div_less_iff_less_mult)
qed

lemma unat_offset: "unat (StartVa r) \<le> unat a \<Longrightarrow> unat (a - StartVa r) = unat a - unat (StartVa r)"
  by (simp add: unat_sub word_le_nat_alt)

context mem_env
begin

lemma VmIsVaCommited_ok:
  assumes "reservation_ok r" and "covers r (unat a) 1" and "a \<noteq> 0"
  shows "VmIsVaCommited A B r a = Some (page_committed r (unat a))"
proof -
  let ?p = "(a - StartVa r) div PAGE_SIZE"
  have p: "unat ?p = (unat a - unat (StartVa r)) div 4096"
    using assms(2) by (simp add: unat_div_page unat_offset covers_def)
  note bound = reservation_page_bound [OF assms(1,2)]
  then have le: "?p \<le> ucast MAX_DWORD"
    using unat_dword_le_MAX [of "BitCount (CommitBitmap r)"] by (simp add: word_le_nat_alt p)
  have "unat (ucast ?p :: dword) = (unat a - unat (StartVa r)) div 4096"
    using unat_frame_index [OF le] assms(2) by (simp add: unat_offset covers_def)
  with bound le assms(3) show ?thesis
    by (simp add: VmIsVaCommited_def addr_simps Let_def BitmapGetBitValue_in page_committed_def)
qed

lemma VmPagesCommited_loop_ok:
  assumes "reservation_ok r" and "covers r (unat a) n" and "a \<noteq> 0"
  shows "VmPagesCommited_loop A B r a n i =
    Some (\<forall>k. i + k * 4096 < n \<longrightarrow> page_committed r (unat a + i + k * 4096))"
proof (induction "n - i" arbitrary: i rule: less_induct)
  case less
  show ?case
  proof (cases "n \<le> i")
    case True
    then show ?thesis by (simp add: VmPagesCommited_loop.simps [of A B r a n i])
  next
    case False
    let ?b = "a + word_of_nat i"
    have top: "unat a + n < 2 ^ 64"
      using assms by (auto simp: covers_def reservation_ok_def)
    then have b: "unat ?b = unat a + i"
      using False by (subst unat_add_less) (simp_all add: unat_of_nat)
    then have "?b \<noteq> 0"
      using assms(3) by (metis add_is_0 unat_0 unat_eq_zero)
    then have com: "VmIsVaCommited A B r ?b = Some (page_committed r (unat a + i))"
      using VmIsVaCommited_ok [OF assms(1), of ?b] covers_sub [OF assms(2)] b False by simp
    have split: "(\<forall>k. i + k * 4096 < n \<longrightarrow> page_committed r (unat a + i + k * 4096)) \<longleftrightarrow>
        page_committed r (unat a + i) \<and>
        (\<forall>k. (i + 4096) + k * 4096 < n \<longrightarrow> page_committed r (unat a + (i + 4096) + k * 4096))"
      (is "?L \<longleftrightarrow> ?R")
    proof
      assume L: ?L
      have "page_committed r (unat a + (i + 4096) + k * 4096)" if "(i + 4096) + k * 4096 < n" for k
        using L [rule_format, of "Suc k"] that by (simp add: ac_simps)
      with L [rule_format, of 0] False show ?R by simp
    next
      assume R: ?R
      show ?L
      proof (intro allI impI)
        fix k assume "i + k * 4096 < n"
        with R show "page_committed r (unat a + i + k * 4096)"
          by (cases k) (auto simp: ac_simps)
      qed
    qed
    show ?thesis
      using less [of "i + 4096"] False com split
      by (simp add: VmPagesCommited_loop.simps [of A B r a n i] PtrOffset_add)
  qed
qed

lemma CHECK_BOUNDS_covers:
  assumes "reservation_ok r" and "unat a + unat n < 2 ^ 64"
  shows "CHECK_BOUNDS A a n (StartVa r) (ResSize r) \<longleftrightarrow> covers r (unat a) (unat n)"
  using assms by (simp add: CHECK_BOUNDS_no_wrap reservation_ok_def covers_def)

lemma VmFindReservation_cases:
  assumes "space_ok s" and "unat a + unat n < 2 ^ 64" and "a \<noteq> 0" and "n \<noteq> 0"
  obtains (found) i where "VmFindReservation A s a n = Some (STATUS_SUCCESS, Some i)"
      and "i < live (ReservationList s)" and "used (ReservationList s ! i)"
      and "reservation_ok (ReservationList s ! i)"
      and "covers (ReservationList s ! i) (unat a) (unat n)"
  | (missing) "VmFindReservation A s a n = Some (STATUS_ELEMENT_NOT_FOUND, None)"
      and "\<forall>i < live (ReservationList s). used (ReservationList s ! i) \<longrightarrow>
            \<not> covers (ReservationList s ! i) (unat a) (unat n)"
proof (cases "VmFindReservation_loop A a n (ReservationList s)")
  case None
  have "\<not> covers (ReservationList s ! i) (unat a) (unat n)"
    if "i < live (ReservationList s)" "used (ReservationList s ! i)" for i
    using VmFindReservation_loop_None [OF None that] CHECK_BOUNDS_covers [OF _ assms(2)] assms(1) that
    by (auto simp: space_ok_def)
  then show ?thesis
    using missing None assms(3,4) by (simp add: VmFindReservation_def)
next
  case (Some i)
  note i = VmFindReservation_loop_Some [OF Some]
  then have ok: "reservation_ok (ReservationList s ! i)"
    using assms(1) by (simp add: space_ok_def)
  show ?thesis
    using found [of i] Some i ok CHECK_BOUNDS_covers [OF ok assms(2)] assms(3,4)
    by (simp add: VmFindReservation_def)
qed

lemma VmFindReservation_at:
  assumes "space_ok s" and "a \<noteq> 0" and "n \<noteq> 0" and "i < live (ReservationList s)"
    and "used (ReservationList s ! i)" and "covers (ReservationList s ! i) (unat a) (unat n)"
    and others: "\<forall>j < live (ReservationList s). j \<noteq> i \<longrightarrow> used (ReservationList s ! j) \<longrightarrow>
      \<not> covers (ReservationList s ! j) (unat a) (unat n)"
  shows "VmFindReservation A s a n = Some (STATUS_SUCCESS, Some i)"
proof -
  have "reservation_ok (ReservationList s ! i)"
    using assms(1,4,5) by (simp add: space_ok_def)
  then have "unat a + unat n < 2 ^ 64"
    using assms(6) by (auto simp: covers_def reservation_ok_def)
  from assms(1) this assms(2,3) show ?thesis
    by (cases rule: VmFindReservation_cases) (use assms in auto)
qed

lemma bitmap_range_ok:
  assumes "reservation_ok r" and "covers r (unat a) (unat n)" and "page_aligned a" and "page_aligned n"
    and "n \<noteq> 0"
  shows "n div PAGE_SIZE \<le> ucast MAX_DWORD" and "(a - StartVa r) div PAGE_SIZE \<le> ucast MAX_DWORD"
    and "unat (ucast ((a - StartVa r) div PAGE_SIZE) :: dword) = (unat a - unat (StartVa r)) div 4096"
    and "(unat a - unat (StartVa r)) div 4096 + unat n div 4096 \<le> unat (BitCount (CommitBitmap r))"
proof -
  have off: "unat (a - StartVa r) = unat a - unat (StartVa r)"
    using assms(2) by (simp add: unat_offset covers_def)
  obtain x y z where x: "unat a = 4096 * x" and y: "unat n = 4096 * y" and z: "unat (StartVa r) = 4096 * z"
    using assms(1,3,4) by (auto simp: page_aligned_unat reservation_ok_def elim!: dvdE)
  have "4096 * (x - z + y) \<le> unat (ResSize r)"
    using assms(2) x y z by (auto simp: covers_def)
  then have "x - z + y \<le> unat (ResSize r) div 4096"
    by (simp add: less_eq_div_iff_mult_less_eq)
  then show bound: "(unat a - unat (StartVa r)) div 4096 + unat n div 4096 \<le> unat (BitCount (CommitBitmap r))"
    using assms(1) x y z by (simp add: reservation_ok_def flip: right_diff_distrib')
  have "unat (BitCount (CommitBitmap r)) \<le> 4294967295"
    by (rule unat_dword_le_MAX)
  with bound show "n div PAGE_SIZE \<le> ucast MAX_DWORD"
    and le: "(a - StartVa r) div PAGE_SIZE \<le> ucast MAX_DWORD"
    unfolding frame_index_bound off by simp_all
  show "unat (ucast ((a - StartVa r) div PAGE_SIZE) :: dword) = (unat a - unat (StartVa r)) div 4096"
    using unat_frame_index [OF le] off by simp
qed

lemma VmCommitReservation_ok:
  assumes "reservation_ok r" and "covers r (unat a) (unat n)" and "page_aligned a" and "page_aligned n"
    and "a \<noteq> 0" and "n \<noteq> 0"
  shows "VmCommitReservation A B a n r = Some (r\<lparr>CommitBitmap := (CommitBitmap r)\<lparr>Bits :=
    bits_set ((unat a - unat (StartVa r)) div 4096) (unat n div 4096) True (Bits (CommitBitmap r))\<rparr>\<rparr>)"
  using bitmap_range_ok [OF assms(1-4,6)] assms(3-6)
  by (simp add: VmCommitReservation_def addr_simps Let_def BitmapSetBits_in unat_frame_index)

lemma VmDecommitReservation_ok:
  assumes "reservation_ok r" and "covers r (unat a) (unat n)" and "page_aligned a" and "page_aligned n"
    and "a \<noteq> 0" and "n \<noteq> 0"
  shows "VmDecommitReservation A B a n r = Some (r\<lparr>CommitBitmap := (CommitBitmap r)\<lparr>Bits :=
    bits_set ((unat a - unat (StartVa r)) div 4096) (unat n div 4096) False (Bits (CommitBitmap r))\<rparr>\<rparr>)"
  using bitmap_range_ok [OF assms(1-4,6)] assms(3-6)
  by (simp add: VmDecommitReservation_def addr_simps Let_def BitmapClearBits_in unat_frame_index)

end

subsection \<open>Reserving a range\<close>

text \<open>
  What a successful reservation does to the table: one slot, which held no used reservation,
  now holds \<open>r\<close>; every other slot before the end marker is as it was.
\<close>

definition reserved_at ::
  "vmm_reservation list \<Rightarrow> vmm_reservation list \<Rightarrow> nat \<Rightarrow> vmm_reservation \<Rightarrow> bool" where
  "reserved_at rs rs' i r \<longleftrightarrow> i < live rs' \<and> rs' ! i = r \<and> used r \<and> live rs \<le> live rs' \<and>
     (i < live rs \<longrightarrow> \<not> used (rs ! i)) \<and>
     (\<forall>j < live rs'. j \<noteq> i \<longrightarrow> j < live rs \<and> rs' ! j = rs ! j)"

definition fresh_reservation ::
  "qword \<Rightarrow> qword \<Rightarrow> page_rights \<Rightarrow> bool \<Rightarrow> file_object option \<Rightarrow> vmm_reservation \<Rightarrow> bool" where
  "fresh_reservation a n rights uc f r \<longleftrightarrow> used r \<and> StartVa r = a \<and> ResSize r = n \<and>
     ResPageRights r = rights \<and> ResUncacheable r = uc \<and> BackingFile r = f"

definition reserve_request :: "qword \<Rightarrow> qword \<Rightarrow> bool" where
  "reserve_request a n \<longleftrightarrow> page_aligned a \<and> page_aligned n \<and> a \<noteq> 0 \<and> n \<noteq> 0 \<and>
     unat a + unat n < 2 ^ 64 \<and> unat n div 4096 \<le> 4294967295"

definition bitmap_room :: "vmm_reservation_space \<Rightarrow> qword \<Rightarrow> bool" where
  "bitmap_room s n \<longleftrightarrow>
     unat (ReservationListAddress s) \<le> unat (FreeBitmapAddress s) \<and>
     unat (ReservationListAddress s) + unat (ReservedAreaSize s) < 2 ^ 64 \<and>
     unat (FreeBitmapAddress s) + (unat n div 4096 + 7) div 8 + 4095 \<le>
       unat (ReservationListAddress s) + unat (ReservedAreaSize s)"

context mem_env
begin

lemma bitmap_buffer_size:
  fixes b :: bitmap
  assumes "reserve_request a n"
  defines "bs \<equiv> fst (BitmapPreinit B b (ucast (n div PAGE_SIZE)))"
  shows "bs \<noteq> 0" and "page_aligned (AlignAddressUpper A (ucast bs) PAGE_SIZE)"
    and "unat (AlignAddressUpper A (ucast bs) PAGE_SIZE) \<le> (unat n div 4096 + 7) div 8 + 4095"
    and "unat (ucast (n div PAGE_SIZE) :: dword) = unat n div 4096"
proof -
  have le: "n div PAGE_SIZE \<le> ucast MAX_DWORD"
    using assms(1) unfolding frame_index_bound reserve_request_def by simp
  show pages: "unat (ucast (n div PAGE_SIZE) :: dword) = unat n div 4096"
    by (rule unat_frame_index [OF le])
  have "unat n \<noteq> 0" and "4096 dvd unat n"
    using assms(1) by (auto simp: reserve_request_def page_aligned_unat unat_eq_zero)
  then have pos: "unat n div 4096 \<noteq> 0"
    by (auto elim!: dvdE)
  then have "ucast (n div PAGE_SIZE) \<noteq> (0 :: dword)"
    using pages by (metis unat_0)
  then have bs: "unat bs = (unat n div 4096 + 7) div 8"
    using BitmapPreinit_size pages by (simp add: bs_def)
  show "bs \<noteq> 0"
  proof
    assume "bs = 0"
    with bs have "unat n div 4096 + 7 < 8"
      by (simp add: div_eq_0_iff)
    with pos show False by simp
  qed
  have small: "unat (ucast bs :: qword) + 4095 < 2 ^ 64"
    using unat_dword_less [of bs] by simp
  show "page_aligned (AlignAddressUpper A (ucast bs) PAGE_SIZE)"
    by (rule AlignAddressUpper_aligned [OF small])
  show "unat (AlignAddressUpper A (ucast bs) PAGE_SIZE) \<le> (unat n div 4096 + 7) div 8 + 4095"
    using AlignAddressUpper_ge(2) [OF small] bs by simp
qed

lemma VmInitializeReservation_ok:
  assumes req: "reserve_request a n" and "page_aligned (FreeBitmapAddress s)"
    and "i < live (ReservationList s)"
    and "VmInitializeReservation A B s a n rights uc f i = Some s'"
  obtains r where "fresh_reservation a n rights uc f r" and "reservation_ok r"
    and "\<forall>k < unat n div 4096. \<not> Bits (CommitBitmap r) k"
    and "ReservationList s' = (ReservationList s)[i := r]"
    and "page_aligned (FreeBitmapAddress s')"
    and "FreeVirtualAddressPointer s' = FreeVirtualAddressPointer s"
proof -
  define pre where
    "pre = BitmapPreinit B (CommitBitmap (ReservationList s ! i)) (ucast (n div PAGE_SIZE))"
  define r where "r = \<lparr>StartVa = a, ResSize = n, ResPageRights = rights,
    ResState = VmmReservationStateUsed, ResUncacheable = uc, BackingFile = f,
    CommitBitmap = BitmapInit B (snd pre) (FreeBitmapAddress s)\<rparr>"
  have s': "s' = s\<lparr>ReservationList := (ReservationList s)[i := r], FreeBitmapAddress :=
      FreeBitmapAddress s + AlignAddressUpper A (ucast (fst pre)) PAGE_SIZE\<rparr>"
    using assms(4) by (simp add: VmInitializeReservation_def Let_def case_prod_unfold
        pre_def [symmetric] r_def)
  note buf = bitmap_buffer_size(1-3) [OF req, where b = "CommitBitmap (ReservationList s ! i)",
      folded pre_def]
  have bm: "unat (BitCount (CommitBitmap r)) = unat n div 4096"
    "\<forall>k < unat n div 4096. \<not> Bits (CommitBitmap r) k"
    "BitmapBuffer (CommitBitmap r) = FreeBitmapAddress s"
    using bitmap_buffer_size(4) [OF req]
    by (simp_all add: r_def pre_def BitmapInit_count BitmapPreinit_count
        BitmapInit_buffer BitmapInit_clear)
  have "reservation_ok r"
    using req bm assms(2) by (simp add: reservation_ok_def reserve_request_def r_def)
  moreover have "page_aligned (FreeBitmapAddress s')"
    using assms(2) buf(2) by (simp add: s' page_aligned_unat unat_word_ariths mod_mod_cancel
        mod_add_eq [symmetric, of _ _ 4096])
  ultimately show thesis
    using that [of r] bm(2) by (simp add: s' fresh_reservation_def r_def used_def)
qed

lemma VmReserve_effect:
  assumes ok: "space_ok s" and req: "reserve_request a n"
    and call: "VmChangeVaReservationState A B s a n VMM_ALLOC_TYPE_RESERVE rights uc f =
      Some (STATUS_SUCCESS, s')"
  shows "\<exists>i r. reserved_at (ReservationList s) (ReservationList s') i r \<and>
    fresh_reservation a n rights uc f r \<and> reservation_ok r \<and> space_ok s' \<and>
    FreeVirtualAddressPointer s' = FreeVirtualAddressPointer s"
proof -
  have nw: "unat a + unat n < 2 ^ 64" and nz: "a \<noteq> 0" "n \<noteq> 0"
    using req by (auto simp: reserve_request_def)
  from ok nw nz show ?thesis
  proof (cases rule: VmFindReservation_cases)
    case (found i)
    with call show ?thesis
      by (simp add: VmChangeVaReservationState_def)
  next
    case missing
    with call obtain i rs1 where
        free: "VmFindFirstFreeReservation_loop (ReservationList s) = Some (Some i, rs1)"
      and init: "VmInitializeReservation A B (s\<lparr>ReservationList := rs1\<rparr>) a n rights uc f i = Some s'"
      by (auto simp: VmChangeVaReservationState_def VmFindFirstFreeReservation_def bind_Some_iff
          split: option.splits)
    note fr = VmFindFirstFreeReservation_loop_Some [OF free]
    have al: "page_aligned (FreeBitmapAddress (s\<lparr>ReservationList := rs1\<rparr>))"
      using ok by (simp add: space_ok_def)
    have il: "i < live (ReservationList (s\<lparr>ReservationList := rs1\<rparr>))"
      using fr by simp
    from VmInitializeReservation_ok [OF req al il init] obtain r where
        r: "fresh_reservation a n rights uc f r" "reservation_ok r"
      and s': "ReservationList s' = rs1[i := r]" "page_aligned (FreeBitmapAddress s')"
        "FreeVirtualAddressPointer s' = FreeVirtualAddressPointer s"
      by auto
    have used: "used r"
      using r(1) by (simp add: fresh_reservation_def)
    then have live': "live (rs1[i := r]) = live rs1"
      using fr by (intro live_update) (auto simp: used_def)
    have il1: "i < length rs1"
      using fr live_le [of rs1] by linarith
    have at: "reserved_at (ReservationList s) (ReservationList s') i r"
      using fr used live' il1 by (auto simp: reserved_at_def s')
    have "space_ok s'"
      using ok fr r(2) s' live' il1 by (auto simp: space_ok_def nth_list_update)
    with at r s'(3) show ?thesis
      by blast
  qed
qed

end

subsection \<open>Committing, and allocating at an address the kernel chooses\<close>

definition commit_range :: "vmm_reservation \<Rightarrow> nat \<Rightarrow> nat \<Rightarrow> bool \<Rightarrow> vmm_reservation" where
  "commit_range r a n v = r\<lparr>CommitBitmap := (CommitBitmap r)\<lparr>Bits :=
     bits_set ((a - unat (StartVa r)) div 4096) (n div 4096) v (Bits (CommitBitmap r))\<rparr>\<rparr>"

lemma commit_range_simps [simp]:
  "StartVa (commit_range r a n v) = StartVa r" "ResSize (commit_range r a n v) = ResSize r"
  "ResPageRights (commit_range r a n v) = ResPageRights r"
  "ResUncacheable (commit_range r a n v) = ResUncacheable r"
  "BackingFile (commit_range r a n v) = BackingFile r"
  "ResState (commit_range r a n v) = ResState r" "used (commit_range r a n v) = used r"
  "reservation_ok (commit_range r a n v) = reservation_ok r"
  "covers (commit_range r a n v) b m = covers r b m"
  by (simp_all add: commit_range_def reservation_ok_def covers_def used_def)

lemma page_committed_commit_range:
  assumes "reservation_ok r" and "4096 dvd a" and "4096 dvd n" and "unat (StartVa r) \<le> a"
    and "unat (StartVa r) \<le> b"
  shows "page_committed (commit_range r a n v) b =
    (if a \<le> b \<and> b < a + n then v else page_committed r b)"
proof -
  obtain x y z where x: "a = 4096 * x" and y: "n = 4096 * y" and z: "unat (StartVa r) = 4096 * z"
    using assms(1-3) by (auto simp: reservation_ok_def page_aligned_unat elim!: dvdE)
  obtain w where w: "b = 4096 * z + w"
    using assms(5) z by (metis le_Suc_ex)
  have b: "(b - unat (StartVa r)) div 4096 = b div 4096 - z" and zb: "z \<le> b div 4096"
    by (simp_all add: z w)
  have a: "(a - unat (StartVa r)) div 4096 = x - z" and n: "n div 4096 = y" and zx: "z \<le> x"
    using assms(4) by (simp_all add: x y z flip: right_diff_distrib')
  have "a \<le> b \<longleftrightarrow> x \<le> b div 4096" and "b < a + n \<longleftrightarrow> b div 4096 < x + y"
    by (simp_all add: x y less_eq_div_iff_mult_less_eq div_less_iff_less_mult algebra_simps)
  with zb zx have "x - z \<le> b div 4096 - z \<and> b div 4096 - z < x - z + y \<longleftrightarrow> a \<le> b \<and> b < a + n"
    by linarith
  then show ?thesis
    by (simp add: commit_range_def page_committed_def bits_set_apply a b n)
qed

definition below_pointer :: "vmm_reservation_space \<Rightarrow> bool" where
  "below_pointer s \<longleftrightarrow> page_aligned (FreeVirtualAddressPointer s) \<and> FreeVirtualAddressPointer s \<noteq> 0 \<and>
     (\<forall>i < live (ReservationList s). used (ReservationList s ! i) \<longrightarrow>
        unat (StartVa (ReservationList s ! i)) + unat (ResSize (ReservationList s ! i)) \<le>
          unat (FreeVirtualAddressPointer s))"

text \<open>
  A request the kernel can place: the rounded size fits below the end of the address space
  and in a bitmap; and, for the call to return, a slot of the table is left and the metadata
  area has room for the bitmap.
\<close>

definition alloc_sane :: "vmm_reservation_space \<Rightarrow> qword \<Rightarrow> bool" where
  "alloc_sane s n \<longleftrightarrow> n \<noteq> 0 \<and> unat (FreeVirtualAddressPointer s) + unat n + 4096 < 2 ^ 64 \<and>
     (unat n + 4095) div 4096 \<le> 4294967295"

definition alloc_fits :: "vmm_reservation_space \<Rightarrow> qword \<Rightarrow> bool" where
  "alloc_fits s n \<longleftrightarrow> alloc_sane s n \<and>
     Suc (live (ReservationList s)) < length (ReservationList s) \<and>
     unat (ReservationListAddress s) \<le> unat (FreeBitmapAddress s) \<and>
     unat (ReservationListAddress s) + unat (ReservedAreaSize s) < 2 ^ 64 \<and>
     unat (FreeBitmapAddress s) + (((unat n + 4095) div 4096 + 7) div 8) + 4095 \<le>
       unat (ReservationListAddress s) + unat (ReservedAreaSize s)"

context mem_env
begin

lemma VmCommit_at:
  assumes ok: "space_ok s" and req: "reserve_request a n" and i: "i < live (ReservationList s)"
    and r: "ReservationList s ! i = r" "used r" "covers r (unat a) (unat n)"
    and others: "\<forall>j < live (ReservationList s). j \<noteq> i \<longrightarrow> used (ReservationList s ! j) \<longrightarrow>
      \<not> covers (ReservationList s ! j) (unat a) (unat n)"
  shows "VmChangeVaReservationState A B s a n VMM_ALLOC_TYPE_COMMIT rights uc f =
    (if ResPageRights r \<noteq> rights then Some (STATUS_MEMORY_CONFLICTING_ACCESS_RIGHTS, s)
     else if ResUncacheable r \<noteq> uc then Some (STATUS_MEMORY_CONFLICTING_CACHEABILITY, s)
     else Some (STATUS_SUCCESS, s\<lparr>ReservationList := (ReservationList s)
            [i := commit_range r (unat a) (unat n) True]\<rparr>))"
proof -
  have find: "VmFindReservation A s a n = Some (STATUS_SUCCESS, Some i)"
    using VmFindReservation_at [OF ok _ _ i] r others req by (simp add: reserve_request_def)
  have "reservation_ok r"
    using ok i r(1,2) by (auto simp: space_ok_def)
  then have "VmCommitReservation A B a n r = Some (commit_range r (unat a) (unat n) True)"
    using VmCommitReservation_ok [of r a n] r(3) req by (simp add: reserve_request_def commit_range_def)
  then show ?thesis
    using find req r(1)
    by (simp add: VmChangeVaReservationState_def addr_simps reserve_request_def Let_def)
qed

lemma VmReserve_total:
  assumes ok: "space_ok s" and req: "reserve_request a n"
    and free: "\<forall>j < live (ReservationList s). used (ReservationList s ! j) \<longrightarrow>
      \<not> covers (ReservationList s ! j) (unat a) (unat n)"
    and room: "Suc (live (ReservationList s)) < length (ReservationList s)" "bitmap_room s n"
  shows "\<exists>s'. VmChangeVaReservationState A B s a n VMM_ALLOC_TYPE_RESERVE rights uc f =
    Some (STATUS_SUCCESS, s')"
proof -
  have nw: "unat a + unat n < 2 ^ 64" and nz: "a \<noteq> 0" "n \<noteq> 0"
    using req by (auto simp: reserve_request_def)
  from ok nw nz have find: "VmFindReservation A s a n = Some (STATUS_ELEMENT_NOT_FOUND, None)"
    by (cases rule: VmFindReservation_cases) (use free in auto)
  obtain i rs where slot: "VmFindFirstFreeReservation_loop (ReservationList s) = Some (Some i, rs)"
    using VmFindFirstFreeReservation_loop_total [OF room(1)] by blast
  let ?pre = "BitmapPreinit B (CommitBitmap (rs ! i)) (ucast (n div PAGE_SIZE))"
  note buf = bitmap_buffer_size(1-3) [OF req, where b = "CommitBitmap (rs ! i)"]
  have le: "n div PAGE_SIZE \<le> ucast MAX_DWORD"
    using req unfolding frame_index_bound reserve_request_def by simp
  have "CHECK_BOUNDS A (FreeBitmapAddress s) (AlignAddressUpper A (ucast (fst ?pre)) PAGE_SIZE)
      (ReservationListAddress s) (ReservedAreaSize s)"
    using buf(3) room(2) by (subst CHECK_BOUNDS_no_wrap) (auto simp: bitmap_room_def)
  moreover have "page_aligned (FreeBitmapAddress s)"
    using ok by (simp add: space_ok_def)
  ultimately have "\<exists>s'. VmInitializeReservation A B (s\<lparr>ReservationList := rs\<rparr>) a n rights uc f i = Some s'"
    using req buf(1) le
    by (simp add: VmInitializeReservation_def addr_simps Let_def case_prod_unfold reserve_request_def)
  then show ?thesis
    using find slot req
    by (auto simp: VmChangeVaReservationState_def VmFindFirstFreeReservation_def addr_simps
        reserve_request_def)
qed

end

lemma space_ok_update:
  assumes "space_ok s" and "i < live (ReservationList s)"
    and "ResState r \<noteq> VmmReservationStateLast" and "used r \<longrightarrow> reservation_ok r"
  shows "space_ok (s\<lparr>ReservationList := (ReservationList s)[i := r]\<rparr>)"
  using assms live_update [OF assms(2,3)] by (auto simp: space_ok_def nth_list_update)

lemma below_pointer_update:
  assumes "below_pointer s" and "i < live (ReservationList s)"
    and "ResState r \<noteq> VmmReservationStateLast"
    and "used r \<longrightarrow> unat (StartVa r) + unat (ResSize r) \<le> unat (FreeVirtualAddressPointer s)"
  shows "below_pointer (s\<lparr>ReservationList := (ReservationList s)[i := r]\<rparr>)"
  using assms live_update [OF assms(2,3)] live_le [of "ReservationList s"]
  by (auto simp: below_pointer_def nth_list_update)

lemma reserved_at_update:
  assumes "reserved_at rs rs' i r" and "used r'"
  shows "reserved_at rs (rs'[i := r']) i r'"
proof -
  have "i < live rs'" and "ResState r' \<noteq> VmmReservationStateLast"
    using assms by (auto simp: reserved_at_def used_def)
  then show ?thesis
    using assms live_update [of i rs' r'] live_le [of rs'] by (auto simp: reserved_at_def)
qed

lemma below_pointer_reserved:
  assumes bp: "below_pointer s" and at: "reserved_at (ReservationList s) (ReservationList s') i r"
    and r: "fresh_reservation (FreeVirtualAddressPointer s) sz rights uc f r"
    and ptr: "FreeVirtualAddressPointer s' = FreeVirtualAddressPointer s + sz"
    and "page_aligned sz" and "unat (FreeVirtualAddressPointer s) + unat sz < 2 ^ 64"
  shows "below_pointer s'"
proof -
  have u: "unat (FreeVirtualAddressPointer s') = unat (FreeVirtualAddressPointer s) + unat sz"
    unfolding ptr by (rule unat_add_less [OF assms(6)])
  have "unat (StartVa (ReservationList s' ! j)) + unat (ResSize (ReservationList s' ! j))
      \<le> unat (FreeVirtualAddressPointer s')"
    if "j < live (ReservationList s')" "used (ReservationList s' ! j)" for j
  proof (cases "j = i")
    case True
    then show ?thesis
      using at r u by (simp add: reserved_at_def fresh_reservation_def)
  next
    case False
    then have "j < live (ReservationList s)" and "ReservationList s' ! j = ReservationList s ! j"
      using at that(1) by (auto simp: reserved_at_def)
    then have "unat (StartVa (ReservationList s' ! j)) + unat (ResSize (ReservationList s' ! j))
        \<le> unat (FreeVirtualAddressPointer s)"
      using bp that(2) by (simp add: below_pointer_def)
    then show ?thesis
      using u by simp
  qed
  moreover have "page_aligned (FreeVirtualAddressPointer s')"
    using bp u assms(5) by (simp add: below_pointer_def page_aligned_unat mod_add_eq [symmetric])
  moreover have "FreeVirtualAddressPointer s' \<noteq> 0"
    using bp u by (metis add_is_0 below_pointer_def unat_0 unat_eq_zero)
  ultimately show ?thesis
    by (simp add: below_pointer_def)
qed

lemma below_pointer_not_covers:
  assumes "below_pointer s" and "i < live (ReservationList s)" and "used (ReservationList s ! i)"
    and "unat (FreeVirtualAddressPointer s) \<le> a" and "0 < n"
  shows "\<not> covers (ReservationList s ! i) a n"
  using assms by (fastforce simp: below_pointer_def covers_def)

text \<open>
  The state after a region was reserved at the free address pointer, and committed when \<open>c\<close>.
\<close>

definition allocated_at ::
  "vmm_reservation_space \<Rightarrow> vmm_reservation_space \<Rightarrow> qword \<Rightarrow> page_rights \<Rightarrow> bool \<Rightarrow> file_object option \<Rightarrow>
   bool \<Rightarrow> nat \<Rightarrow> vmm_reservation \<Rightarrow> bool" where
  "allocated_at s s' sz rights uc f c i r \<longleftrightarrow>
     reserved_at (ReservationList s) (ReservationList s') i r \<and>
     fresh_reservation (FreeVirtualAddressPointer s) sz rights uc f r \<and> reservation_ok r \<and>
     (c \<longrightarrow> (\<forall>b. covers r b 1 \<longrightarrow> page_committed r b)) \<and>
     FreeVirtualAddressPointer s' = FreeVirtualAddressPointer s + sz"

text \<open>Reserving at the free address pointer, and the commit that may follow.\<close>

definition pointer_moved :: "vmm_reservation_space \<Rightarrow> qword \<Rightarrow> vmm_reservation_space" where
  "pointer_moved s sz = s\<lparr>FreeVirtualAddressPointer := FreeVirtualAddressPointer s + sz\<rparr>"

lemma pointer_moved_simps [simp]:
  "ReservationList (pointer_moved s sz) = ReservationList s"
  "space_ok (pointer_moved s sz) = space_ok s"
  "bitmap_room (pointer_moved s sz) n = bitmap_room s n"
  "FreeVirtualAddressPointer (pointer_moved s sz) = FreeVirtualAddressPointer s + sz"
  by (simp_all add: pointer_moved_def space_ok_def bitmap_room_def)

context mem_env
begin

lemma alloc_size:
  assumes "alloc_sane s n" and "below_pointer s"
  defines "sz \<equiv> AlignAddressUpper A n PAGE_SIZE"
  shows "reserve_request (FreeVirtualAddressPointer s) sz"
    and "unat n \<le> unat sz" and "unat sz < unat n + 4096"
    and "unat (FreeVirtualAddressPointer s) + unat sz < 2 ^ 64"
    and "unat sz div 4096 = (unat n + 4095) div 4096"
proof -
  have small: "unat n + 4095 < 2 ^ 64"
    using assms(1) by (simp add: alloc_sane_def)
  have eq: "unat sz = 4096 * ((unat n + 4095) div 4096)"
    unfolding sz_def unat_AlignAddressUpper [OF small] by (simp add: minus_mod_eq_mult_div)
  then show "unat sz div 4096 = (unat n + 4095) div 4096"
    by simp
  have bounds: "unat n \<le> unat sz" "unat sz \<le> unat n + 4095"
    using AlignAddressUpper_ge [OF small] by (simp_all add: sz_def)
  then show "unat n \<le> unat sz" and "unat sz < unat n + 4096"
    and "unat (FreeVirtualAddressPointer s) + unat sz < 2 ^ 64"
    using assms(1) by (auto simp: alloc_sane_def)
  have "sz \<noteq> 0"
    using bounds(1) assms(1) by (auto simp: alloc_sane_def unat_eq_zero)
  then show "reserve_request (FreeVirtualAddressPointer s) sz"
    using assms(1,2) bounds eq AlignAddressUpper_aligned [OF small, folded sz_def]
    by (auto simp: reserve_request_def alloc_sane_def below_pointer_def)
qed

lemma below_pointer_free:
  assumes "below_pointer s" and "reserve_request (FreeVirtualAddressPointer s) sz"
  shows "\<forall>j < live (ReservationList s). used (ReservationList s ! j) \<longrightarrow>
    \<not> covers (ReservationList s ! j) (unat (FreeVirtualAddressPointer s)) (unat sz)"
  using below_pointer_not_covers [OF assms(1)] assms(2) by (simp add: reserve_request_def unat_gt_0)

lemma VmReserve_at_pointer:
  assumes ok: "space_ok s" and bp: "below_pointer s"
    and req: "reserve_request (FreeVirtualAddressPointer s) sz"
    and res: "VmChangeVaReservationState A B (pointer_moved s sz) (FreeVirtualAddressPointer s) sz
      VMM_ALLOC_TYPE_RESERVE rights uc f = Some (st, s1)"
  shows "st = STATUS_SUCCESS \<and> space_ok s1 \<and> below_pointer s1 \<and>
    (\<exists>i r. allocated_at s s1 sz rights uc f False i r)"
proof -
  let ?va = "FreeVirtualAddressPointer s"
  have ok0: "space_ok (pointer_moved s sz)"
    using ok by simp
  have nw: "unat ?va + unat sz < 2 ^ 64" "?va \<noteq> 0" "sz \<noteq> 0"
    using req by (auto simp: reserve_request_def)
  from ok0 nw have "VmFindReservation A (pointer_moved s sz) ?va sz = Some (STATUS_ELEMENT_NOT_FOUND, None)"
    by (cases rule: VmFindReservation_cases) (use below_pointer_free [OF bp req] in auto)
  with res have st: "st = STATUS_SUCCESS"
    by (auto simp: VmChangeVaReservationState_def bind_Some_iff split: option.splits)
  from VmReserve_effect [OF ok0 req res [unfolded st]] obtain i r where
      at: "reserved_at (ReservationList s) (ReservationList s1) i r"
      and r: "fresh_reservation ?va sz rights uc f r" "reservation_ok r"
      and ok1: "space_ok s1" and ptr: "FreeVirtualAddressPointer s1 = ?va + sz"
    by auto
  have "below_pointer s1"
    using below_pointer_reserved [OF bp at r(1) ptr _ nw(1)] req by (simp add: reserve_request_def)
  with st ok1 at r ptr show ?thesis
    by (auto simp: allocated_at_def)
qed

lemma VmCommit_at_pointer:
  assumes bp: "below_pointer s" and req: "reserve_request (FreeVirtualAddressPointer s) sz"
    and at: "allocated_at s s1 sz rights uc f False i r" and ok1: "space_ok s1" and bp1: "below_pointer s1"
  shows "\<exists>s2 r2. VmChangeVaReservationState A B s1 (FreeVirtualAddressPointer s) sz VMM_ALLOC_TYPE_COMMIT
      rights uc f = Some (STATUS_SUCCESS, s2) \<and> space_ok s2 \<and> below_pointer s2 \<and>
    allocated_at s s2 sz rights uc f True i r2"
proof -
  let ?va = "FreeVirtualAddressPointer s"
  let ?r = "commit_range r (unat ?va) (unat sz) True"
  let ?s2 = "s1\<lparr>ReservationList := (ReservationList s1)[i := ?r]\<rparr>"
  have r: "fresh_reservation ?va sz rights uc f r" "reservation_ok r"
    and i: "i < live (ReservationList s1)" "ReservationList s1 ! i = r" "used r"
    using at by (auto simp: allocated_at_def reserved_at_def)
  have cov: "covers r (unat ?va) (unat sz)"
    using r(1) by (simp add: fresh_reservation_def covers_def)
  have others: "\<forall>j < live (ReservationList s1). j \<noteq> i \<longrightarrow> used (ReservationList s1 ! j) \<longrightarrow>
      \<not> covers (ReservationList s1 ! j) (unat ?va) (unat sz)"
    using below_pointer_free [OF bp req] at by (simp add: allocated_at_def reserved_at_def)
  have com: "VmChangeVaReservationState A B s1 ?va sz VMM_ALLOC_TYPE_COMMIT rights uc f =
      Some (STATUS_SUCCESS, ?s2)"
    using VmCommit_at [OF ok1 req i cov others] r(1) by (simp add: fresh_reservation_def)
  have "page_committed ?r b" if "covers r b 1" for b
    using that r req page_committed_commit_range [OF r(2), of "unat ?va" "unat sz" b True]
    by (auto simp: fresh_reservation_def covers_def reserve_request_def page_aligned_unat)
  then have "allocated_at s ?s2 sz rights uc f True i ?r"
    using reserved_at_update [of _ _ i r ?r] i(3) r at
    by (simp add: allocated_at_def fresh_reservation_def)
  moreover have "space_ok ?s2"
    using i(3) r(2) by (intro space_ok_update [OF ok1 i(1)]) (simp_all add: used_def)
  moreover have "below_pointer ?s2"
    using i bp1 by (intro below_pointer_update) (auto simp: below_pointer_def used_def)
  ultimately show ?thesis
    using com by blast
qed

lemma VmAllocRegion_effect:
  assumes ok: "space_ok s" and bp: "below_pointer s" and sane: "alloc_sane s n"
    and T: "VMM_ALLOC_TYPE_RESERVE \<in> T"
    and call: "VmReservationSpaceAllocRegion A B s 0 n T rights uc f = Some (st, m, s')"
  shows "st = STATUS_SUCCESS \<and> m = Some (FreeVirtualAddressPointer s, AlignAddressUpper A n PAGE_SIZE) \<and>
    space_ok s' \<and> below_pointer s' \<and>
    (\<exists>i r. allocated_at s s' (AlignAddressUpper A n PAGE_SIZE) rights uc f (VMM_ALLOC_TYPE_COMMIT \<in> T) i r)"
proof -
  let ?sz = "AlignAddressUpper A n PAGE_SIZE"
  note req = alloc_size(1) [OF sane bp]
  obtain st1 s1 where res: "VmChangeVaReservationState A B (pointer_moved s ?sz) (FreeVirtualAddressPointer s)
      ?sz VMM_ALLOC_TYPE_RESERVE rights uc f = Some (st1, s1)"
    using call T by (auto simp: VmReservationSpaceAllocRegion_def Let_def pointer_moved_def
        VmReservationSpaceDetermineNextFreeVirtualAddress_def bind_Some_iff)
  note r1 = VmReserve_at_pointer [OF ok bp req res]
  then obtain i r where at: "allocated_at s s1 ?sz rights uc f False i r"
    by blast
  from VmCommit_at_pointer [OF bp req at] r1 obtain s2 r2 where
    com: "VmChangeVaReservationState A B s1 (FreeVirtualAddressPointer s) ?sz VMM_ALLOC_TYPE_COMMIT
      rights uc f = Some (STATUS_SUCCESS, s2)" "space_ok s2" "below_pointer s2"
      "allocated_at s s2 ?sz rights uc f True i r2"
    by blast
  show ?thesis
    using call T res r1 at com
    by (auto simp: VmReservationSpaceAllocRegion_def Let_def pointer_moved_def
        VmReservationSpaceDetermineNextFreeVirtualAddress_def split: if_splits)
qed

lemma VmAllocRegion_total:
  assumes ok: "space_ok s" and bp: "below_pointer s" and fits: "alloc_fits s n"
    and T: "VMM_ALLOC_TYPE_RESERVE \<in> T"
  shows "\<exists>r. VmReservationSpaceAllocRegion A B s 0 n T rights uc f = Some r"
proof -
  let ?sz = "AlignAddressUpper A n PAGE_SIZE"
  have sane: "alloc_sane s n"
    using fits by (simp add: alloc_fits_def)
  note size = alloc_size [OF sane bp]
  have "bitmap_room s ?sz"
    using fits size(5) by (simp add: bitmap_room_def alloc_fits_def)
  then obtain s1 where res: "VmChangeVaReservationState A B (pointer_moved s ?sz)
      (FreeVirtualAddressPointer s) ?sz VMM_ALLOC_TYPE_RESERVE rights uc f = Some (STATUS_SUCCESS, s1)"
    using VmReserve_total [OF _ size(1), of "pointer_moved s ?sz" rights uc f]
      below_pointer_free [OF bp size(1)] ok fits
    by (auto simp: alloc_fits_def)
  note r1 = VmReserve_at_pointer [OF ok bp size(1) res]
  then obtain i r where at: "allocated_at s s1 ?sz rights uc f False i r"
    by blast
  from VmCommit_at_pointer [OF bp size(1) at] r1 obtain s2 where
    "VmChangeVaReservationState A B s1 (FreeVirtualAddressPointer s) ?sz VMM_ALLOC_TYPE_COMMIT
      rights uc f = Some (STATUS_SUCCESS, s2)"
    by blast
  with res sane T show ?thesis
    by (auto simp: VmReservationSpaceAllocRegion_def Let_def pointer_moved_def alloc_sane_def
        VmReservationSpaceDetermineNextFreeVirtualAddress_def)
qed

end

subsection \<open>Histories of an address space\<close>

definition va_disjoint :: "vmm_reservation \<Rightarrow> vmm_reservation \<Rightarrow> bool" where
  "va_disjoint r r' \<longleftrightarrow> unat (StartVa r) + unat (ResSize r) \<le> unat (StartVa r') \<or>
     unat (StartVa r') + unat (ResSize r') \<le> unat (StartVa r)"

definition reservations_disjoint :: "vmm_reservation list \<Rightarrow> bool" where
  "reservations_disjoint rs \<longleftrightarrow> (\<forall>i < live rs. \<forall>j < live rs. i \<noteq> j \<longrightarrow> used (rs ! i) \<longrightarrow> used (rs ! j) \<longrightarrow>
     va_disjoint (rs ! i) (rs ! j))"

definition vm_inv :: "vmm_reservation_space \<Rightarrow> bool" where
  "vm_inv s \<longleftrightarrow> space_ok s \<and> below_pointer s \<and> reservations_disjoint (ReservationList s)"

lemma va_disjoint_sym: "va_disjoint r r' \<longleftrightarrow> va_disjoint r' r"
  by (auto simp: va_disjoint_def)

lemma va_disjoint_not_covers: "va_disjoint r r' \<Longrightarrow> covers r a n \<Longrightarrow> 0 < n \<Longrightarrow> \<not> covers r' a n"
  by (auto simp: va_disjoint_def covers_def)

lemma vm_inv_others:
  assumes "vm_inv s" and "i < live (ReservationList s)" and "used (ReservationList s ! i)"
    and "covers (ReservationList s ! i) a n" and "0 < n"
  shows "\<forall>j < live (ReservationList s). j \<noteq> i \<longrightarrow> used (ReservationList s ! j) \<longrightarrow>
    \<not> covers (ReservationList s ! j) a n"
  using assms va_disjoint_not_covers by (fastforce simp: vm_inv_def reservations_disjoint_def)

lemma vm_inv_update:
  assumes inv: "vm_inv s" and i: "i < live (ReservationList s)"
    and r: "ResState r \<noteq> VmmReservationStateLast"
      "used r \<longrightarrow> reservation_ok r \<and> used (ReservationList s ! i) \<and>
        StartVa r = StartVa (ReservationList s ! i) \<and> ResSize r = ResSize (ReservationList s ! i)"
  shows "vm_inv (s\<lparr>ReservationList := (ReservationList s)[i := r]\<rparr>)"
proof -
  have "i < length (ReservationList s)"
    using i live_le [of "ReservationList s"] by simp
  then have "reservations_disjoint ((ReservationList s)[i := r])"
    using inv i r live_update [OF i r(1)]
    by (auto simp: vm_inv_def reservations_disjoint_def va_disjoint_def nth_list_update)
  moreover have "below_pointer (s\<lparr>ReservationList := (ReservationList s)[i := r]\<rparr>)"
    using inv i r by (intro below_pointer_update) (auto simp: vm_inv_def below_pointer_def)
  moreover have "space_ok (s\<lparr>ReservationList := (ReservationList s)[i := r]\<rparr>)"
    using inv i r by (intro space_ok_update) (auto simp: vm_inv_def)
  ultimately show ?thesis
    by (simp add: vm_inv_def)
qed

lemma vm_inv_allocated:
  assumes inv: "vm_inv s" and at: "allocated_at s s' sz rights uc f c i r"
    and s': "space_ok s'" "below_pointer s'"
  shows "vm_inv s'"
proof -
  have r: "reserved_at (ReservationList s) (ReservationList s') i r" "StartVa r = FreeVirtualAddressPointer s"
    using at by (auto simp: allocated_at_def fresh_reservation_def)
  have old: "j < live (ReservationList s)" "ReservationList s' ! j = ReservationList s ! j"
    if "j < live (ReservationList s')" "j \<noteq> i" for j
    using r(1) that by (auto simp: reserved_at_def)
  have new: "va_disjoint (ReservationList s' ! j) r"
    if "j < live (ReservationList s')" "j \<noteq> i" "used (ReservationList s' ! j)" for j
    using inv r(2) old [OF that(1,2)] that(3) by (simp add: vm_inv_def below_pointer_def va_disjoint_def)
  have "va_disjoint (ReservationList s' ! j) (ReservationList s' ! k)"
    if "j < live (ReservationList s')" "k < live (ReservationList s')" "j \<noteq> k"
      "used (ReservationList s' ! j)" "used (ReservationList s' ! k)" for j k
  proof (cases "j = i \<or> k = i")
    case True
    then show ?thesis
      using that new r(1) by (auto simp: reserved_at_def va_disjoint_sym)
  next
    case False
    then show ?thesis
      using that old inv by (simp add: vm_inv_def reservations_disjoint_def)
  qed
  with s' show ?thesis
    by (auto simp: vm_inv_def reservations_disjoint_def)
qed

text \<open>
  What the clients of an address space do: allocate where the kernel chooses, commit parts of
  reserved regions, decommit parts of them, release them.
\<close>

inductive vm_step ::
  "addr_lib \<Rightarrow> bitmap_lib \<Rightarrow> vmm_reservation_space \<Rightarrow> vmm_reservation_space \<Rightarrow> bool" for A B where
  alloc: "alloc_sane s n \<Longrightarrow> VMM_ALLOC_TYPE_RESERVE \<in> T \<Longrightarrow>
    VmReservationSpaceAllocRegion A B s 0 n T rights uc f = Some (st, m, s') \<Longrightarrow> vm_step A B s s'"
| commit: "Base \<noteq> 0 \<Longrightarrow> unat Base + unat n + 4096 < 2 ^ 64 \<Longrightarrow>
    VmReservationSpaceAllocRegion A B s Base n {VMM_ALLOC_TYPE_COMMIT} rights uc f = Some (st, m, s') \<Longrightarrow>
    vm_step A B s s'"
| release: "unat a + 1 < 2 ^ 64 \<Longrightarrow> VmReservationSpaceFreeRegion A B s a 0 {VMM_FREE_TYPE_RELEASE} = Some (va, sz, calls, s') \<Longrightarrow>
    vm_step A B s s'"
| decommit: "i < live (ReservationList s) \<Longrightarrow> used (ReservationList s ! i) \<Longrightarrow>
    covers (ReservationList s ! i) (unat a) (unat n) \<Longrightarrow> unat a + unat n + 4096 < 2 ^ 64 \<Longrightarrow>
    VmReservationSpaceFreeRegion A B s a n {VMM_FREE_TYPE_DECOMMIT} = Some (va, sz, calls, s') \<Longrightarrow>
    vm_step A B s s'"

context mem_env
begin

text \<open>The page-aligned hull of a range, as the routines round it.\<close>

lemma page_hull:
  assumes "unat a + unat n + 4096 < 2 ^ 64" and "n \<noteq> 0"
  defines "a' \<equiv> AlignAddressLower A a PAGE_SIZE"
  defines "n' \<equiv> AlignAddressUpper A (n + (a - a')) PAGE_SIZE"
  shows "page_aligned a'" and "page_aligned n'" and "n' \<noteq> 0" and "unat a' \<le> unat a"
    and "unat a + unat n \<le> unat a' + unat n'"
    and "unat a' + unat n' < 2 ^ 64"
    and "unat a' = unat a - unat a mod 4096"
    and "unat n' = 4096 * ((unat n + unat a mod 4096 + 4095) div 4096)"
proof -
  show "page_aligned a'"
    by (simp add: a'_def AlignAddressLower_page)
  show a': "unat a' = unat a - unat a mod 4096"
    by (simp add: a'_def AlignAddressLower_page unat_page_floor)
  then show le: "unat a' \<le> unat a"
    by simp
  have off: "unat (a - a') = unat a mod 4096"
    using le a' by (simp add: unat_sub word_le_nat_alt)
  have m: "unat a mod 4096 < 4096" "unat a mod 4096 \<le> unat a"
    by simp_all
  have sum: "unat (n + (a - a')) = unat n + unat a mod 4096"
    using assms(1) m by (subst unat_add_less) (auto simp: off)
  have small: "unat (n + (a - a')) + 4095 < 2 ^ 64"
    using assms(1) m sum by linarith
  show "page_aligned n'"
    unfolding n'_def by (rule AlignAddressUpper_aligned [OF small])
  show "unat n' = 4096 * ((unat n + unat a mod 4096 + 4095) div 4096)"
    unfolding n'_def unat_AlignAddressUpper [OF small] sum by (simp add: minus_mod_eq_mult_div)
  have b: "unat n + unat a mod 4096 \<le> unat n'" "unat n' \<le> unat n + unat a mod 4096 + 4095"
    using AlignAddressUpper_ge [OF small] by (simp_all add: n'_def sum)
  then show "unat a + unat n \<le> unat a' + unat n'" and "unat a' + unat n' < 2 ^ 64"
    using a' m assms(1) by linarith+
  have "0 < unat n"
    using assms(2) by (simp add: unat_gt_0)
  with b show "n' \<noteq> 0"
    by (metis add_is_0 le_zero_eq less_irrefl unat_0)
qed

lemma page_hull_covered:
  assumes "reservation_ok r" and "covers r (unat a) (unat n)"
    and "unat a + unat n + 4096 < 2 ^ 64" and "n \<noteq> 0"
  defines "a' \<equiv> AlignAddressLower A a PAGE_SIZE"
  shows "covers r (unat a') (unat (AlignAddressUpper A (n + (a - a')) PAGE_SIZE))"
proof -
  note h = page_hull(7,8) [OF assms(3,4), folded a'_def]
  obtain x z where x: "unat (StartVa r) = 4096 * x" and z: "unat (ResSize r) = 4096 * z"
    using assms(1) by (auto simp: reservation_ok_def page_aligned_unat elim!: dvdE)
  define q m where "q = unat a div 4096" and "m = unat a mod 4096"
  have a: "unat a = 4096 * q + m" and m: "m < 4096"
    by (simp_all add: q_def m_def)
  have "4096 * x \<le> 4096 * q + m" and top: "4096 * q + m + unat n \<le> 4096 * x + 4096 * z"
    using assms(2) by (simp_all add: covers_def x z a)
  then have "x \<le> q"
    using m by linarith
  moreover have "(unat n + m + 4095) div 4096 \<le> x + z - q"
  proof -
    have "unat n + m + 4095 < Suc (x + z - q) * 4096"
      using top \<open>x \<le> q\<close> m by (simp add: algebra_simps)
    then show ?thesis
      by (simp add: div_less_iff_less_mult less_Suc_eq_le [symmetric] del: mult_Suc)
  qed
  moreover have "q \<le> x + z"
    using top by linarith
  ultimately have "4096 * (q + (unat n + m + 4095) div 4096) \<le> 4096 * (x + z)"
    by (intro mult_le_mono2) linarith
  with \<open>x \<le> q\<close> show ?thesis
    using h m by (simp add: covers_def x z m_def [symmetric] a)
qed

lemma VmCommit_cases:
  assumes "space_ok s" and "reserve_request a n"
    and "VmChangeVaReservationState A B s a n VMM_ALLOC_TYPE_COMMIT rights uc f = Some (st, s')"
  obtains (refused) "s' = s" and "st \<noteq> STATUS_SUCCESS"
  | (committed) i where "st = STATUS_SUCCESS" and "i < live (ReservationList s)"
      and "used (ReservationList s ! i)" and "reservation_ok (ReservationList s ! i)"
      and "covers (ReservationList s ! i) (unat a) (unat n)"
      and "ResPageRights (ReservationList s ! i) = rights" and "ResUncacheable (ReservationList s ! i) = uc"
      and "s' = s\<lparr>ReservationList := (ReservationList s)
            [i := commit_range (ReservationList s ! i) (unat a) (unat n) True]\<rparr>"
proof -
  have req: "page_aligned a" "page_aligned n" "a \<noteq> 0" "n \<noteq> 0" "unat a + unat n < 2 ^ 64"
    using assms(2) by (auto simp: reserve_request_def)
  from assms(1) req(5,3,4) show thesis
  proof (cases rule: VmFindReservation_cases)
    case (found i)
    let ?r = "ReservationList s ! i"
    have com: "VmCommitReservation A B a n ?r = Some (commit_range ?r (unat a) (unat n) True)"
      using VmCommitReservation_ok [OF found(4,5)] req by (simp add: commit_range_def)
    show thesis
    proof (cases "ResPageRights ?r = rights \<and> ResUncacheable ?r = uc")
      case True
      then show thesis
        using assms(3) found com by (intro committed [of i]) (simp_all add: VmChangeVaReservationState_def Let_def)
    next
      case False
      then show thesis
        using assms(3) found
        by (intro refused) (auto simp: VmChangeVaReservationState_def Let_def split: if_splits)
    qed
  next
    case missing
    then show thesis
      using assms(3) by (intro refused) (auto simp: VmChangeVaReservationState_def)
  qed
qed

lemma VmRelease_effect:
  assumes "space_ok s" and "unat a + 1 < 2 ^ 64"
    and "VmReservationSpaceFreeRegion A B s a 0 {VMM_FREE_TYPE_RELEASE} = Some (va, sz, calls, s')"
  obtains i where "i < live (ReservationList s)" and "used (ReservationList s ! i)"
    and "covers (ReservationList s ! i) (unat a) 1"
    and "va = StartVa (ReservationList s ! i)" and "sz = ResSize (ReservationList s ! i)"
    and "s' = s\<lparr>ReservationList := (ReservationList s)[i := zero_reservation]\<rparr>"
proof -
  have a: "a \<noteq> 0"
    using assms(3) by (simp add: VmReservationSpaceFreeRegion_def)
  have "unat a + unat (1 :: qword) < 2 ^ 64" "(1 :: qword) \<noteq> 0"
    using assms(2) by simp_all
  from assms(1) this(1) a this(2) show thesis
  proof (cases rule: VmFindReservation_cases)
    case (found i)
    then show thesis
      using assms(3) by (intro that [of i])
        (auto simp: VmReservationSpaceFreeRegion_def Let_def bind_Some_iff)
  next
    case missing
    then show thesis
      using assms(3) by (simp add: VmReservationSpaceFreeRegion_def SUCCEEDED_def)
  qed
qed

lemma VmRelease_total:
  assumes "vm_inv s" and "i < live (ReservationList s)" and "used (ReservationList s ! i)"
    and "covers (ReservationList s ! i) (unat a) 1"
  shows "\<exists>calls. VmReservationSpaceFreeRegion A B s a 0 {VMM_FREE_TYPE_RELEASE} =
    Some (StartVa (ReservationList s ! i), ResSize (ReservationList s ! i), calls,
      s\<lparr>ReservationList := (ReservationList s)[i := zero_reservation]\<rparr>)"
proof -
  have ok: "space_ok s" "reservation_ok (ReservationList s ! i)"
    using assms(1-3) by (auto simp: vm_inv_def space_ok_def)
  then have "a \<noteq> 0"
    using assms(4) by (auto simp: covers_def reservation_ok_def unat_eq_zero)
  then have "VmFindReservation A s a 1 = Some (STATUS_SUCCESS, Some i)"
    using VmFindReservation_at [OF ok(1) _ _ assms(2,3), of a 1] assms(4) vm_inv_others [OF assms(1-4)]
    by simp
  then show ?thesis
    using ok(2) \<open>a \<noteq> 0\<close>
    by (simp add: VmReservationSpaceFreeRegion_def VmUninitializeReservation_def Let_def addr_simps
        reservation_ok_def)
qed

lemma VmDecommit_at:
  assumes inv: "vm_inv s" and i: "i < live (ReservationList s)" "used (ReservationList s ! i)"
    and cov: "covers (ReservationList s ! i) (unat a) (unat n)" and "n \<noteq> 0"
    and nw: "unat a + unat n + 4096 < 2 ^ 64"
  defines "a' \<equiv> AlignAddressLower A a PAGE_SIZE"
  defines "n' \<equiv> AlignAddressUpper A (n + (a - a')) PAGE_SIZE"
  shows "VmReservationSpaceFreeRegion A B s a n {VMM_FREE_TYPE_DECOMMIT} =
    Some (a', n', [], s\<lparr>ReservationList := (ReservationList s)
      [i := commit_range (ReservationList s ! i) (unat a') (unat n') False]\<rparr>)"
proof -
  let ?r = "ReservationList s ! i"
  have ok: "space_ok s" "reservation_ok ?r"
    using inv i by (auto simp: vm_inv_def space_ok_def)
  note hull = page_hull [OF nw \<open>n \<noteq> 0\<close>, folded a'_def, folded n'_def]
  have cov': "covers ?r (unat a') (unat n')"
    using page_hull_covered [OF ok(2) cov nw \<open>n \<noteq> 0\<close>] by (simp add: a'_def n'_def)
  have "0 < unat n" "unat (StartVa ?r) \<noteq> 0"
    using ok(2) \<open>n \<noteq> 0\<close> by (auto simp: reservation_ok_def unat_eq_zero unat_gt_0)
  then have nz: "a \<noteq> 0" "a' \<noteq> 0" and cov1: "covers ?r (unat a) 1"
    using cov cov' by (auto simp: covers_def)
  have "VmFindReservation A s a 1 = Some (STATUS_SUCCESS, Some i)"
    using VmFindReservation_at [OF ok(1) nz(1) _ i] cov1 vm_inv_others [OF inv i cov1] by simp
  moreover have "VmDecommitReservation A B a' n' ?r = Some (commit_range ?r (unat a') (unat n') False)"
    using VmDecommitReservation_ok [OF ok(2) cov' hull(1,2) nz(2) hull(3)] by (simp add: commit_range_def)
  ultimately show ?thesis
    using nz \<open>n \<noteq> 0\<close>
    by (simp add: VmReservationSpaceFreeRegion_def Let_def a'_def [symmetric] n'_def [symmetric])
qed

lemma VmCommitRegion_inv:
  assumes inv: "vm_inv s" and "Base \<noteq> 0" and nw: "unat Base + unat n + 4096 < 2 ^ 64"
    and call: "VmReservationSpaceAllocRegion A B s Base n {VMM_ALLOC_TYPE_COMMIT} rights uc f = Some (st, m, s')"
  shows "vm_inv s'"
proof (cases "AlignAddressLower A Base PAGE_SIZE < StartOfVirtualAddressSpace s")
  case True
  then show ?thesis
    using inv call \<open>Base \<noteq> 0\<close> by (auto simp: VmReservationSpaceAllocRegion_def Let_def)
next
  case False
  let ?a = "AlignAddressLower A Base PAGE_SIZE"
  let ?n = "AlignAddressUpper A (n + (Base - ?a)) PAGE_SIZE"
  have "n \<noteq> 0"
    using call by (simp add: VmReservationSpaceAllocRegion_def)
  note hull = page_hull [OF nw \<open>n \<noteq> 0\<close>]
  obtain st' where ch: "VmChangeVaReservationState A B s ?a ?n VMM_ALLOC_TYPE_COMMIT rights uc f = Some (st', s')"
    using call False \<open>Base \<noteq> 0\<close>
    by (auto simp: VmReservationSpaceAllocRegion_def Let_def PtrDiff_sub bind_Some_iff split: if_splits)
  show ?thesis
  proof (cases "VmFindReservation_loop A ?a ?n (ReservationList s)")
    case None
    then show ?thesis
      using ch inv by (auto simp: VmChangeVaReservationState_def VmFindReservation_def)
  next
    case (Some i)
    note i = VmFindReservation_loop_Some [OF Some]
    have ok: "space_ok s" "reservation_ok (ReservationList s ! i)"
      using inv i by (auto simp: vm_inv_def space_ok_def)
    have cov: "covers (ReservationList s ! i) (unat ?a) (unat ?n)"
      using i CHECK_BOUNDS_covers [OF ok(2) hull(6)] by simp
    then have "?a \<noteq> 0"
      using ok(2) by (auto simp: covers_def reservation_ok_def unat_eq_zero)
    then have req: "reserve_request ?a ?n"
      using hull bitmap_range_ok(1) [OF ok(2) cov hull(1-3)] unfolding frame_index_bound
      by (simp add: reserve_request_def)
    from ok(1) req ch show ?thesis
    proof (cases rule: VmCommit_cases)
      case (committed j)
      then show ?thesis
        using vm_inv_update [OF inv committed(2)] by (simp add: used_def)
    qed (use inv in simp)
  qed
qed

lemma vm_step_inv: "vm_step A B s s' \<Longrightarrow> vm_inv s \<Longrightarrow> vm_inv s'"
proof (induction rule: vm_step.induct)
  case (alloc s n T rights uc f st m s')
  have ok: "space_ok s" "below_pointer s"
    using alloc(4) by (simp_all add: vm_inv_def)
  note e = VmAllocRegion_effect [OF ok alloc(1-3)]
  then show ?case
    using vm_inv_allocated [OF alloc(4)] by blast
next
  case (commit Base n s rights uc f st m s')
  then show ?case
    using VmCommitRegion_inv by blast
next
  case (release a s va sz calls s')
  have "space_ok s"
    using release(3) by (simp add: vm_inv_def)
  from this release(1,2) show ?case
  proof (cases rule: VmRelease_effect)
    case (1 i)
    then show ?thesis
      using vm_inv_update [OF release(3) 1(1), of zero_reservation] by (simp add: zero_reservation_def used_def)
  qed
next
  case (decommit i s a n va sz calls s')
  have "n \<noteq> 0"
    using decommit(5) by (auto simp: VmReservationSpaceFreeRegion_def)
  from VmDecommit_at [OF decommit(6,1-3) this decommit(4)] decommit(5)
  obtain a' n' where s': "s' = s\<lparr>ReservationList := (ReservationList s)
      [i := commit_range (ReservationList s ! i) a' n' False]\<rparr>"
    by simp
  have "reservation_ok (ReservationList s ! i)"
    using decommit(6,1,2) by (simp add: vm_inv_def space_ok_def)
  then show ?case
    unfolding s' using decommit(2) by (intro vm_inv_update [OF decommit(6,1)]) (simp_all add: used_def)
qed

lemma vm_steps_inv: "(vm_step A B)\<^sup>*\<^sup>* s s' \<Longrightarrow> vm_inv s \<Longrightarrow> vm_inv s'"
  by (induction rule: rtranclp_induct) (auto intro: vm_step_inv)

end

subsection \<open>Queries\<close>

definition metadata_ok :: "vmm_reservation_space \<Rightarrow> bool" where
  "metadata_ok s \<longleftrightarrow> unat (ReservationListAddress s) + unat (ReservedAreaSize s) < 2 ^ 64"

definition in_metadata :: "vmm_reservation_space \<Rightarrow> qword \<Rightarrow> bool" where
  "in_metadata s a \<longleftrightarrow> unat (ReservationListAddress s) \<le> unat a \<and>
     unat a < unat (ReservationListAddress s) + unat (ReservedAreaSize s)"

text \<open>No operation moves or resizes the metadata area.\<close>

definition same_metadata :: "vmm_reservation_space \<Rightarrow> vmm_reservation_space \<Rightarrow> bool" where
  "same_metadata s s' \<longleftrightarrow> ReservationListAddress s' = ReservationListAddress s \<and>
     ReservedAreaSize s' = ReservedAreaSize s"

lemma same_metadata_cong:
  "same_metadata s s' \<Longrightarrow> metadata_ok s' = metadata_ok s"
  "same_metadata s s' \<Longrightarrow> in_metadata s' a = in_metadata s a"
  by (simp_all add: same_metadata_def metadata_ok_def in_metadata_def)

lemma VmChange_metadata:
  "VmChangeVaReservationState A B s a n T rights uc f = Some (st, s') \<Longrightarrow> same_metadata s s'"
  by (auto simp: VmChangeVaReservationState_def VmFindFirstFreeReservation_def VmInitializeReservation_def
      same_metadata_def Let_def case_prod_unfold bind_Some_iff split: if_splits option.splits)

lemma VmAllocRegion_metadata:
  assumes "VmReservationSpaceAllocRegion A B s 0 n T rights uc f = Some (st, m, s')"
  shows "same_metadata s s'"
proof -
  define s0 where "s0 = pointer_moved s (AlignAddressUpper A n PAGE_SIZE)"
  have s0: "same_metadata s s0"
    by (simp add: s0_def pointer_moved_def same_metadata_def)
  have "same_metadata s0 s'"
    using assms
    by (auto simp: VmReservationSpaceAllocRegion_def VmReservationSpaceDetermineNextFreeVirtualAddress_def
        pointer_moved_def [symmetric] s0_def [symmetric] Let_def bind_Some_iff same_metadata_def
        split: if_splits dest!: VmChange_metadata)
  then show ?thesis
    using s0 by (simp add: same_metadata_def)
qed

definition file_offset :: "vmm_reservation \<Rightarrow> qword \<Rightarrow> qword" where
  "file_offset r a = (if BackingFile r = None then 0 else page_floor (a - StartVa r))"

context mem_env
begin

lemma CHECK_BOUNDS_metadata:
  "metadata_ok s \<Longrightarrow> unat a + 1 < 2 ^ 64 \<Longrightarrow>
   CHECK_BOUNDS A a 1 (ReservationListAddress s) (ReservedAreaSize s) \<longleftrightarrow> in_metadata s a"
  by (auto simp: CHECK_BOUNDS_no_wrap metadata_ok_def in_metadata_def)

lemma VmFind_inv:
  assumes "vm_inv s" and "i < live (ReservationList s)" and "used (ReservationList s ! i)"
    and "covers (ReservationList s ! i) (unat a) (unat n)" and "n \<noteq> 0"
  shows "VmFindReservation A s a n = Some (STATUS_SUCCESS, Some i)" and "a \<noteq> 0"
    and "reservation_ok (ReservationList s ! i)"
proof -
  show ok: "reservation_ok (ReservationList s ! i)"
    using assms(1-3) by (simp add: vm_inv_def space_ok_def)
  then show "a \<noteq> 0"
    using assms(4) by (auto simp: covers_def reservation_ok_def unat_eq_zero)
  with assms show "VmFindReservation A s a n = Some (STATUS_SUCCESS, Some i)"
    using vm_inv_others [OF assms(1-4)]
    by (intro VmFindReservation_at) (auto simp: vm_inv_def unat_gt_0)
qed

lemma VmAccess_at:
  assumes "vm_inv s" and "metadata_ok s" and "i < live (ReservationList s)"
    and "used (ReservationList s ! i)" and "covers (ReservationList s ! i) (unat a) 1"
    and "\<not> in_metadata s a"
  defines "r \<equiv> ReservationList s ! i"
  shows "VmReservationCanAddressBeAccessed A B pCpu s a req =
    Some (if page_committed r (unat a) \<and> req \<subseteq> ResPageRights r
          then Some (ResPageRights r, ResUncacheable r, BackingFile r, file_offset r a) else None)"
proof -
  have cov: "covers (ReservationList s ! i) (unat a) (unat (1 :: qword))"
    using assms(5) by simp
  note find = VmFind_inv [OF assms(1,3,4) cov one_neq_zero]
  have "unat a + 1 < 2 ^ 64"
    using find(3) assms(5) by (auto simp: covers_def reservation_ok_def)
  with assms(2,6) have "\<not> CHECK_BOUNDS A a 1 (ReservationListAddress s) (ReservedAreaSize s)"
    by (simp add: CHECK_BOUNDS_metadata)
  with find VmIsVaCommited_ok [OF find(3) assms(5) find(2)] show ?thesis
    by (simp add: VmReservationCanAddressBeAccessed_def Let_def addr_simps file_offset_def r_def)
qed

lemma VmAccess_missing:
  assumes "space_ok s" and "metadata_ok s" and "\<not> in_metadata s a" and "unat a + 1 < 2 ^ 64"
    and "\<forall>i < live (ReservationList s). used (ReservationList s ! i) \<longrightarrow>
      \<not> covers (ReservationList s ! i) (unat a) 1"
  shows "VmReservationCanAddressBeAccessed A B pCpu s a req = Some None"
proof (cases "a = 0")
  case False
  have nw: "unat a + unat (1 :: qword) < 2 ^ 64" "(1 :: qword) \<noteq> 0"
    using assms(4) by simp_all
  from assms(1) nw(1) False nw(2) have "VmFindReservation A s a 1 = Some (STATUS_ELEMENT_NOT_FOUND, None)"
    by (cases rule: VmFindReservation_cases) (use assms(5) in auto)
  then show ?thesis
    using assms(2-4) by (simp add: VmReservationCanAddressBeAccessed_def CHECK_BOUNDS_metadata)
qed (simp add: VmReservationCanAddressBeAccessed_def)

lemma VmAccess_granted_slot:
  assumes inv: "vm_inv s" and meta: "metadata_ok s" and nm: "\<not> in_metadata s a" and nw: "unat a + 1 < 2 ^ 64"
    and granted: "VmReservationCanAddressBeAccessed A B pCpu s a req = Some (Some (rights, uc, f, off))"
  shows "list_ex (\<lambda>r. used r \<and> covers r (unat a) 1 \<and> page_committed r (unat a) \<and> req \<subseteq> rights \<and>
      ResPageRights r = rights \<and> ResUncacheable r = uc \<and> BackingFile r = f) (ReservationList s)"
proof -
  have "\<exists>i < live (ReservationList s). used (ReservationList s ! i) \<and> covers (ReservationList s ! i) (unat a) 1"
    using VmAccess_missing [OF _ meta nm nw, of pCpu req] inv granted
    by (force simp: vm_inv_def)
  then obtain i where i: "i < live (ReservationList s)" "used (ReservationList s ! i)"
      "covers (ReservationList s ! i) (unat a) 1"
    by blast
  have "ReservationList s ! i \<in> set (ReservationList s)"
    using i(1) live_le [of "ReservationList s"] by simp
  then show ?thesis
    using i granted VmAccess_at [OF inv meta i nm, of pCpu req]
    by (auto simp: list_ex_iff split: if_splits)
qed

lemma VmReturnRights_at:
  assumes "vm_inv s" and "i < live (ReservationList s)" and "used (ReservationList s ! i)"
    and "covers (ReservationList s ! i) (unat a) (unat n)" and "n \<noteq> 0"
  defines "r \<equiv> ReservationList s ! i"
  shows "VmReservationReturnRightsForAddress A B s a n =
    Some (if \<forall>k. k * 4096 < unat n \<longrightarrow> page_committed r (unat a + k * 4096)
          then STATUS_SUCCESS else STATUS_MEMORY_IS_NOT_COMMITED, Some (ResPageRights r))"
proof -
  note find = VmFind_inv [OF assms(1-5)]
  show ?thesis
    using find(1,2) assms(5) VmPagesCommited_loop_ok [OF find(3) assms(4) find(2), of 0]
    by (simp add: VmReservationReturnRightsForAddress_def r_def Let_def)
qed

end

lemma page_committed_same_page:
  assumes "reservation_ok r" and "unat (StartVa r) \<le> a" and "a div 4096 = b div 4096"
  shows "page_committed r a = page_committed r b"
proof -
  obtain z where z: "unat (StartVa r) = 4096 * z"
    using assms(1) by (auto simp: reservation_ok_def page_aligned_unat elim!: dvdE)
  have idx: "(c - 4096 * z) div 4096 = c div 4096 - z" if "4096 * z \<le> c" for c
    using le_Suc_ex [OF that] by auto
  have "4096 * z \<le> a" and "z \<le> b div 4096"
    using assms(2,3) z by (simp_all add: less_eq_div_iff_mult_less_eq flip: assms(3))
  moreover have "4096 * z \<le> b"
    using \<open>z \<le> b div 4096\<close> by (simp add: less_eq_div_iff_mult_less_eq mult.commute)
  ultimately show ?thesis
    using assms(3) idx by (simp add: page_committed_def z)
qed

text \<open>For a page-aligned address the loop's test is about every byte of the range.\<close>

lemma pages_committed_bytes:
  assumes "reservation_ok r" and "covers r a n" and "4096 dvd a"
  shows "(\<forall>k. k * 4096 < n \<longrightarrow> page_committed r (a + k * 4096)) \<longleftrightarrow>
    (\<forall>b. a \<le> b \<and> b < a + n \<longrightarrow> page_committed r b)" (is "?L \<longleftrightarrow> ?R")
proof
  assume L: ?L
  show ?R
  proof (intro allI impI)
    fix b assume b: "a \<le> b \<and> b < a + n"
    define k where "k = (b - a) div 4096"
    obtain x where x: "a = 4096 * x"
      using assms(3) by blast
    have le: "k * 4096 \<le> b - a" and "b - a < k * 4096 + 4096"
      by (simp_all add: k_def div_times_less_eq_dividend flip: mult_Suc)
    then have "b div 4096 = x + k"
      using b x by (intro div_nat_eqI) auto
    then have "b div 4096 = (a + k * 4096) div 4096"
      by (simp add: x)
    moreover have "k * 4096 < n"
      using b le by linarith
    ultimately show "page_committed r b"
      using L page_committed_same_page [OF assms(1), of b "a + k * 4096"] b assms(2)
      by (simp add: covers_def)
  qed
qed auto

context mem_env
begin

lemma VmAllocRegion_access:
  assumes inv: "vm_inv s" and "metadata_ok s"
    and fits: "alloc_fits s n"
  defines "va \<equiv> FreeVirtualAddressPointer s"
  shows "\<exists>sz s'. VmReservationSpaceAllocRegion A B s 0 n {VMM_ALLOC_TYPE_RESERVE, VMM_ALLOC_TYPE_COMMIT}
        rights uc f = Some (STATUS_SUCCESS, Some (va, sz), s') \<and>
    unat n \<le> unat sz \<and> vm_inv s' \<and>
    (\<forall>a m. m \<noteq> 0 \<longrightarrow> unat va \<le> unat a \<longrightarrow> unat a + unat m \<le> unat va + unat sz \<longrightarrow>
       VmReservationReturnRightsForAddress A B s' a m = Some (STATUS_SUCCESS, Some rights)) \<and>
    (\<forall>a pCpu req. unat va \<le> unat a \<longrightarrow> unat a < unat va + unat sz \<longrightarrow> \<not> in_metadata s a \<longrightarrow>
       VmReservationCanAddressBeAccessed A B pCpu s' a req =
         Some (if req \<subseteq> rights then Some (rights, uc, f, if f = None then 0 else page_floor (a - va))
               else None))"
proof -
  let ?T = "{VMM_ALLOC_TYPE_RESERVE, VMM_ALLOC_TYPE_COMMIT}"
  let ?sz = "AlignAddressUpper A n PAGE_SIZE"
  have s: "space_ok s" "below_pointer s" "alloc_sane s n" "VMM_ALLOC_TYPE_RESERVE \<in> ?T"
    using inv fits by (simp_all add: vm_inv_def alloc_fits_def)
  obtain st m s' where call: "VmReservationSpaceAllocRegion A B s 0 n ?T rights uc f = Some (st, m, s')"
    using VmAllocRegion_total [OF s(1,2) fits s(4)] by fastforce
  note eff = VmAllocRegion_effect [OF s call]
  then obtain i r where at: "allocated_at s s' ?sz rights uc f True i r"
    by auto
  have inv': "vm_inv s'"
    using vm_inv_allocated [OF inv at] eff by blast
  have i: "i < live (ReservationList s')" "ReservationList s' ! i = r" "used r"
    and r: "StartVa r = va" "ResSize r = ?sz" "ResPageRights r = rights" "ResUncacheable r = uc"
      "BackingFile r = f" and com: "\<forall>b. covers r b 1 \<longrightarrow> page_committed r b"
    using at by (auto simp: allocated_at_def reserved_at_def fresh_reservation_def va_def)
  have "VmReservationReturnRightsForAddress A B s' a m = Some (STATUS_SUCCESS, Some rights)"
    if "m \<noteq> 0" "unat va \<le> unat a" "unat a + unat m \<le> unat va + unat ?sz" for a m
  proof -
    have "covers (ReservationList s' ! i) (unat a) (unat m)"
      using that r i by (simp add: covers_def)
    moreover have "page_committed r (unat a + k * 4096)" if "k * 4096 < unat m" for k
      using com r that \<open>unat va \<le> unat a\<close> \<open>unat a + unat m \<le> unat va + unat ?sz\<close>
      by (simp add: covers_def)
    ultimately show ?thesis
      using VmReturnRights_at [OF inv' i(1)] i r that(1) by simp
  qed
  moreover have "VmReservationCanAddressBeAccessed A B pCpu s' a req =
      Some (if req \<subseteq> rights then Some (rights, uc, f, if f = None then 0 else page_floor (a - va)) else None)"
    if "unat va \<le> unat a" "unat a < unat va + unat ?sz" "\<not> in_metadata s a" for a pCpu req
  proof -
    note meta = same_metadata_cong [OF VmAllocRegion_metadata [OF call]]
    have cov: "covers (ReservationList s' ! i) (unat a) 1"
      using that r i by (simp add: covers_def)
    then show ?thesis
      using VmAccess_at [OF inv' _ i(1) _ cov] assms(2) that(3) i r com meta
      by (simp add: file_offset_def)
  qed
  ultimately show ?thesis
    using call eff inv' alloc_size(2) [OF s(3,2)]
    by (intro exI [of _ ?sz] exI [of _ s']) (simp add: va_def)
qed

lemma VmReturnRights_cases:
  assumes inv: "vm_inv s" and "a \<noteq> 0" and "n \<noteq> 0" and al: "page_aligned a"
    and nw: "unat a + unat n < 2 ^ 64"
  shows "(\<exists>i < live (ReservationList s). used (ReservationList s ! i) \<and>
      covers (ReservationList s ! i) (unat a) (unat n) \<and>
      VmReservationReturnRightsForAddress A B s a n =
        Some (if \<forall>b. unat a \<le> b \<and> b < unat a + unat n \<longrightarrow> page_committed (ReservationList s ! i) b
              then STATUS_SUCCESS else STATUS_MEMORY_IS_NOT_COMMITED,
              Some (ResPageRights (ReservationList s ! i)))) \<or>
    (\<forall>i < live (ReservationList s). used (ReservationList s ! i) \<longrightarrow>
      \<not> covers (ReservationList s ! i) (unat a) (unat n)) \<and>
      VmReservationReturnRightsForAddress A B s a n = Some (STATUS_MEMORY_IS_NOT_COMMITED, None)"
proof -
  have ok: "space_ok s"
    using inv by (simp add: vm_inv_def)
  from ok nw assms(2,3) show ?thesis
  proof (cases rule: VmFindReservation_cases)
    case (found i)
    have "4096 dvd unat a"
      using al by (simp add: page_aligned_unat mod_eq_0_iff_dvd)
    note bytes = pages_committed_bytes [OF found(4,5) this]
    show ?thesis
      using VmReturnRights_at [OF inv found(2,3,5) \<open>n \<noteq> 0\<close>] found unfolding bytes by blast
  next
    case missing
    then show ?thesis
      using assms(2,3) by (simp add: VmReservationReturnRightsForAddress_def)
  qed
qed

lemma VmCommitRegion_aligned:
  assumes "reserve_request a n" and "StartOfVirtualAddressSpace s \<le> a" and "unat n + 4095 < 2 ^ 64"
  shows "VmReservationSpaceAllocRegion A B s a n {VMM_ALLOC_TYPE_COMMIT} rights uc f =
    map_option (\<lambda>(st, s'). (st, if SUCCEEDED st then Some (a, n) else None, s'))
      (VmChangeVaReservationState A B s a n VMM_ALLOC_TYPE_COMMIT rights uc f)"
proof -
  have "AlignAddressLower A a PAGE_SIZE = a" "AlignAddressUpper A n PAGE_SIZE = n" "a \<noteq> 0" "n \<noteq> 0"
    using assms by (auto simp: reserve_request_def AlignAddressLower_page page_floor_aligned
        AlignAddressUpper_id)
  with assms(2) show ?thesis
    by (cases "VmChangeVaReservationState A B s a n VMM_ALLOC_TYPE_COMMIT rights uc f")
      (auto simp: VmReservationSpaceAllocRegion_def Let_def PtrDiff_sub SUCCEEDED_def)
qed

lemma VmCommit_missing:
  assumes "space_ok s" and "reserve_request a n"
    and "\<forall>i < live (ReservationList s). used (ReservationList s ! i) \<longrightarrow>
      \<not> covers (ReservationList s ! i) (unat a) (unat n)"
  shows "VmChangeVaReservationState A B s a n VMM_ALLOC_TYPE_COMMIT rights uc f =
    Some (STATUS_MEMORY_IS_NOT_RESERVED, s)"
proof -
  have req: "unat a + unat n < 2 ^ 64" "a \<noteq> 0" "n \<noteq> 0" "page_aligned a" "page_aligned n"
    using assms(2) by (auto simp: reserve_request_def)
  from assms(1) req(1-3) show ?thesis
    by (cases rule: VmFindReservation_cases)
      (use assms(3) req in \<open>auto simp: VmChangeVaReservationState_def addr_simps\<close>)
qed

end

subsection \<open>Properties\<close>

text \<open>An address space with nothing allocated, and one with a region of three pages.\<close>

definition vm_empty :: vmm_reservation_space where
  "vm_empty = \<lparr>FreeVirtualAddressPointer = 0x600000, StartOfVirtualAddressSpace = 0x600000,
     BitmapAddressStart = 0x200000, ReservedAreaSize = 0x500000, FreeBitmapAddress = 0x200000,
     ReservationListAddress = 0x100000,
     ReservationList = [zero_reservation\<lparr>ResState := VmmReservationStateLast\<rparr>,
       zero_reservation, zero_reservation, zero_reservation]\<rparr>"

definition vm_region :: vmm_reservation where
  "vm_region = \<lparr>StartVa = 0x600000, ResSize = 0x3000, ResPageRights = PAGE_RIGHTS_READWRITE,
     ResState = VmmReservationStateUsed, ResUncacheable = False, BackingFile = None,
     CommitBitmap = \<lparr>BitCount = 3, BufferSize = 1, BitmapBuffer = 0x200000, Bits = (\<lambda>k. k < 2)\<rparr>\<rparr>"

definition vm_one :: vmm_reservation_space where
  "vm_one = vm_empty\<lparr>FreeVirtualAddressPointer := 0x603000, FreeBitmapAddress := 0x201000,
     ReservationList := [vm_region, zero_reservation\<lparr>ResState := VmmReservationStateLast\<rparr>,
       zero_reservation, zero_reservation]\<rparr>"

lemmas vm_example_defs = vm_empty_def vm_one_def vm_region_def zero_reservation_def

lemma vm_empty_inv: "vm_inv vm_empty" "metadata_ok vm_empty" "alloc_fits vm_empty 0x2800"
  by (simp_all add: vm_inv_def space_ok_def below_pointer_def reservations_disjoint_def vm_empty_def
      page_aligned_def metadata_ok_def alloc_fits_def alloc_sane_def)

lemma vm_one_inv: "vm_inv vm_one" "metadata_ok vm_one"
  by (simp_all add: vm_inv_def space_ok_def below_pointer_def reservations_disjoint_def vm_example_defs
      page_aligned_def metadata_ok_def used_def reservation_ok_def)

lemma vm_one_slot: "live (ReservationList vm_one) = 1" "ReservationList vm_one ! 0 = vm_region"
    "used vm_region"
  by (simp_all add: vm_example_defs used_def)

text \<open>
  C4 (functional). When the kernel chooses the address and there is room, reserving and committing a region
  succeeds, at least the asked size is mapped, the address space stays well-formed, and the
  whole region is usable with the asked rights from then on: every sub-range is reported as
  committed with these rights, and an access to any of its bytes is granted exactly when it
  asks for no more than them.
\<close>

theorem VmAllocRegion_usable:
  assumes "addr_contract A" and "bitmap_contract B" and inv: "vm_inv s" and "metadata_ok s"
    and fits: "alloc_fits s n"
  defines "va \<equiv> FreeVirtualAddressPointer s"
  shows "\<exists>sz s'. VmReservationSpaceAllocRegion A B s 0 n {VMM_ALLOC_TYPE_RESERVE, VMM_ALLOC_TYPE_COMMIT}
        rights uc f = Some (STATUS_SUCCESS, Some (va, sz), s') \<and>
    unat n \<le> unat sz \<and> vm_inv s' \<and>
    (\<forall>a m. m \<noteq> 0 \<longrightarrow> unat va \<le> unat a \<longrightarrow> unat a + unat m \<le> unat va + unat sz \<longrightarrow>
       VmReservationReturnRightsForAddress A B s' a m = Some (STATUS_SUCCESS, Some rights)) \<and>
    (\<forall>a pCpu req. unat va \<le> unat a \<longrightarrow> unat a < unat va + unat sz \<longrightarrow> \<not> in_metadata s a \<longrightarrow>
       VmReservationCanAddressBeAccessed A B pCpu s' a req =
         Some (if req \<subseteq> rights then Some (rights, uc, f, if f = None then 0 else page_floor (a - va))
               else None))"
  unfolding va_def
  by (rule mem_env.VmAllocRegion_access [OF mem_envI [OF assms(1,2)] assms(3-5)])

theorem VmAllocRegion_usable_witness:
  "\<exists>sz s'. VmReservationSpaceAllocRegion addr_ops bitmap_ops vm_empty 0 0x2800
      {VMM_ALLOC_TYPE_RESERVE, VMM_ALLOC_TYPE_COMMIT} PAGE_RIGHTS_READWRITE False None =
        Some (STATUS_SUCCESS, Some (0x600000, sz), s') \<and> 0x2800 \<le> unat sz \<and>
    VmReservationReturnRightsForAddress addr_ops bitmap_ops s' 0x600100 0x2000 =
      Some (STATUS_SUCCESS, Some PAGE_RIGHTS_READWRITE)"
proof -
  have va: "FreeVirtualAddressPointer vm_empty = 0x600000"
    by (simp add: vm_empty_def)
  obtain sz s' where *: "VmReservationSpaceAllocRegion addr_ops bitmap_ops vm_empty 0 0x2800
      {VMM_ALLOC_TYPE_RESERVE, VMM_ALLOC_TYPE_COMMIT} PAGE_RIGHTS_READWRITE False None =
        Some (STATUS_SUCCESS, Some (0x600000, sz), s')" "unat (0x2800 :: qword) \<le> unat sz"
    and rights: "\<And>a m. m \<noteq> 0 \<Longrightarrow> unat (0x600000 :: qword) \<le> unat a \<Longrightarrow>
      unat a + unat m \<le> unat (0x600000 :: qword) + unat sz \<Longrightarrow>
      VmReservationReturnRightsForAddress addr_ops bitmap_ops s' a m =
        Some (STATUS_SUCCESS, Some PAGE_RIGHTS_READWRITE)"
    using VmAllocRegion_usable [OF contracts_hold vm_empty_inv, where rights = PAGE_RIGHTS_READWRITE and
        uc = False and f = None] unfolding va by blast
  show ?thesis
    using * rights [of "0x2000" "0x600100"] by (intro exI [of _ sz] exI [of _ s']) simp
qed



text \<open>
  C6 (functional). Releasing any address of a used reservation gives the whole reservation back: the call
  returns its start and size, asks for the bitmap's buffer to be unmapped and the backing file
  to be closed, touches no other reservation, and no access to the region is granted any more.
\<close>

theorem VmRelease_revokes:
  assumes "addr_contract A" and "bitmap_contract B" and inv: "vm_inv s" and "metadata_ok s"
    and i: "i < live (ReservationList s)" "used (ReservationList s ! i)"
    and cov: "covers (ReservationList s ! i) (unat a) 1"
  defines "r \<equiv> ReservationList s ! i"
  shows "\<exists>calls s'. VmReservationSpaceFreeRegion A B s a 0 {VMM_FREE_TYPE_RELEASE} =
      Some (StartVa r, ResSize r, calls, s') \<and> vm_inv s' \<and>
    calls = CallMmuUnmapMemoryEx (BitmapBuffer (CommitBitmap r)) (ucast (BufferSize (CommitBitmap r))) True #
      map CallIoCloseFile (case BackingFile r of None \<Rightarrow> [] | Some f \<Rightarrow> [f]) \<and>
    (\<forall>j < live (ReservationList s). j \<noteq> i \<longrightarrow> ReservationList s' ! j = ReservationList s ! j) \<and>
    (\<forall>b pCpu req. covers r (unat b) 1 \<longrightarrow> \<not> in_metadata s b \<longrightarrow>
       VmReservationCanAddressBeAccessed A B pCpu s' b req = Some None)"
proof -
  have env: "mem_env A B"
    using assms(1,2) by (rule mem_envI)
  let ?s' = "s\<lparr>ReservationList := (ReservationList s)[i := zero_reservation]\<rparr>"
  have zero: "ResState zero_reservation \<noteq> VmmReservationStateLast" "\<not> used zero_reservation"
    by (simp_all add: zero_reservation_def used_def)
  have inv': "vm_inv ?s'"
    using vm_inv_update [OF inv i(1) zero(1)] zero(2) by simp
  have ok: "space_ok s" "reservation_ok r"
    using inv i by (auto simp: vm_inv_def space_ok_def r_def)
  have find: "VmFindReservation A s a 1 = Some (STATUS_SUCCESS, Some i)" "a \<noteq> 0"
    using mem_env.VmFind_inv [OF env inv i, of a 1] cov by simp_all
  have call: "VmReservationSpaceFreeRegion A B s a 0 {VMM_FREE_TYPE_RELEASE} =
      Some (StartVa r, ResSize r, CallMmuUnmapMemoryEx (BitmapBuffer (CommitBitmap r))
        (ucast (BufferSize (CommitBitmap r))) True #
        map CallIoCloseFile (case BackingFile r of None \<Rightarrow> [] | Some f \<Rightarrow> [f]), ?s')"
    using find ok(2) assms(1) by (auto simp: VmReservationSpaceFreeRegion_def VmUninitializeReservation_def
        Let_def addr_contract.IsAddressAligned_page reservation_ok_def r_def [symmetric] split: option.splits)
  have "VmReservationCanAddressBeAccessed A B pCpu ?s' b req = Some None"
    if "covers r (unat b) 1" "\<not> in_metadata s b" for b pCpu req
  proof (rule mem_env.VmAccess_missing [OF env])
    show "\<forall>j < live (ReservationList ?s'). used (ReservationList ?s' ! j) \<longrightarrow>
        \<not> covers (ReservationList ?s' ! j) (unat b) 1"
      using vm_inv_others [OF inv i, of "unat b" 1] that(1) zero live_update [OF i(1) zero(1)]
        i(1) live_le [of "ReservationList s"]
      by (simp add: r_def nth_list_update)
    show "unat b + 1 < 2 ^ 64"
      using that(1) ok(2) by (auto simp: covers_def reservation_ok_def)
  qed (use inv' assms(4) that(2) in \<open>auto simp: vm_inv_def metadata_ok_def in_metadata_def\<close>)
  then show ?thesis
    using call inv' by (intro exI conjI) auto
qed

theorem VmRelease_revokes_witness:
  "\<exists>calls s'. VmReservationSpaceFreeRegion addr_ops bitmap_ops vm_one 0x601234 0 {VMM_FREE_TYPE_RELEASE} =
      Some (0x600000, 0x3000, calls, s') \<and> vm_inv s' \<and> calls = [CallMmuUnmapMemoryEx 0x200000 1 True] \<and>
    VmReservationCanAddressBeAccessed addr_ops bitmap_ops (Some False) s' 0x601000 {} = Some None"
proof -
  have cov: "covers (ReservationList vm_one ! 0) (unat (0x601234 :: qword)) 1"
    by (simp add: vm_one_slot(2)) (simp add: covers_def vm_region_def)
  have slot: "0 < live (ReservationList vm_one)" "used (ReservationList vm_one ! 0)"
    by (simp_all add: vm_one_slot)
  have "covers vm_region (unat (0x601000 :: qword)) 1" "\<not> in_metadata vm_one 0x601000"
    by (simp_all add: covers_def in_metadata_def vm_example_defs)
  then show ?thesis
    using VmRelease_revokes [OF contracts_hold vm_one_inv slot cov] unfolding vm_one_slot(2)
    by (fastforce simp: vm_region_def)
qed

text \<open>
  C7 (functional). Decommitting a range inside a used reservation clears the commit state of exactly the
  pages the range touches and changes nothing else of the address space.
\<close>

theorem VmDecommit_exact:
  assumes "addr_contract A" and "bitmap_contract B" and inv: "vm_inv s"
    and i: "i < live (ReservationList s)" "used (ReservationList s ! i)"
    and cov: "covers (ReservationList s ! i) (unat a) (unat n)" and "n \<noteq> 0"
    and nw: "unat a + unat n + 4096 < 2 ^ 64"
  shows "\<exists>va sz r. VmReservationSpaceFreeRegion A B s a n {VMM_FREE_TYPE_DECOMMIT} =
      Some (va, sz, [], s\<lparr>ReservationList := (ReservationList s)[i := r]\<rparr>) \<and>
    r = (ReservationList s ! i)\<lparr>CommitBitmap := CommitBitmap r\<rparr> \<and>
    unat va = unat a - unat a mod 4096 \<and>
    unat sz = 4096 * ((unat n + unat a mod 4096 + 4095) div 4096) \<and>
    (\<forall>b. covers r b 1 \<longrightarrow> page_committed r b =
       (page_committed (ReservationList s ! i) b \<and> \<not> (unat va \<le> b \<and> b < unat va + unat sz)))"
proof -
  have env: "mem_env A B"
    using assms(1,2) by (rule mem_envI)
  let ?r = "ReservationList s ! i"
  let ?va = "AlignAddressLower A a PAGE_SIZE"
  let ?sz = "AlignAddressUpper A (n + (a - ?va)) PAGE_SIZE"
  let ?r' = "commit_range ?r (unat ?va) (unat ?sz) False"
  note hull = mem_env.page_hull [OF env nw \<open>n \<noteq> 0\<close>]
  have ok: "reservation_ok ?r"
    using inv i by (simp add: vm_inv_def space_ok_def)
  note in_r = mem_env.page_hull_covered [OF env ok cov nw \<open>n \<noteq> 0\<close>]
  have "page_committed ?r' b = (page_committed ?r b \<and> \<not> (unat ?va \<le> b \<and> b < unat ?va + unat ?sz))"
    if "covers ?r b 1" for b
    using that in_r hull(1,2) page_committed_commit_range [OF ok, of "unat ?va" "unat ?sz" b False]
    by (simp add: covers_def page_aligned_unat mod_eq_0_iff_dvd)
  moreover have "?r' = ?r\<lparr>CommitBitmap := CommitBitmap ?r'\<rparr>"
    by (simp add: commit_range_def)
  ultimately show ?thesis
    using mem_env.VmDecommit_at [OF env inv i cov \<open>n \<noteq> 0\<close> nw] hull(7,8)
    by (intro exI [of _ ?va] exI [of _ ?sz] exI [of _ ?r']) simp
qed

theorem VmDecommit_exact_witness:
  "\<exists>r. VmReservationSpaceFreeRegion addr_ops bitmap_ops vm_one 0x601234 0x10 {VMM_FREE_TYPE_DECOMMIT} =
      Some (0x601000, 0x1000, [], vm_one\<lparr>ReservationList := (ReservationList vm_one)[0 := r]\<rparr>) \<and>
    page_committed r 0x600000 \<and> \<not> page_committed r 0x601000"
proof -
  have slot: "0 < live (ReservationList vm_one)" "used (ReservationList vm_one ! 0)"
    by (simp_all add: vm_one_slot)
  have cov: "covers (ReservationList vm_one ! 0) (unat (0x601234 :: qword)) (unat (0x10 :: qword))"
    by (simp add: vm_one_slot(2)) (simp add: covers_def vm_region_def)
  obtain va sz r where c: "VmReservationSpaceFreeRegion addr_ops bitmap_ops vm_one 0x601234 0x10
        {VMM_FREE_TYPE_DECOMMIT} = Some (va, sz, [], vm_one\<lparr>ReservationList := (ReservationList vm_one)[0 := r]\<rparr>)"
      "r = vm_region\<lparr>CommitBitmap := CommitBitmap r\<rparr>" "unat va = 0x601000" "unat sz = 0x1000"
    and b: "\<And>b. covers r b 1 \<Longrightarrow> page_committed r b =
       (page_committed vm_region b \<and> \<not> (unat va \<le> b \<and> b < unat va + unat sz))"
    using VmDecommit_exact [OF contracts_hold vm_one_inv(1) slot cov] unfolding vm_one_slot(2) by auto
  have "va = 0x601000" "sz = 0x1000"
    using c(3,4) by (simp_all add: word_unat_eq_iff)
  moreover have "covers r 0x600000 1" "covers r 0x601000 1"
    by (subst c(2), simp add: covers_def vm_region_def)+
  moreover have "page_committed vm_region 0x600000"
    by (simp add: page_committed_def vm_region_def)
  ultimately show ?thesis
    using c b by (intro exI [of _ r]) simp
qed

text \<open>
  C8 (safety). A fault is never solved without a reason. When access to an address is granted, either
  the address lies in the metadata area, the CPU is inside a reservation routine (or has no
  structure yet) and no execution is asked for; or a used reservation covers the address, its
  page is committed and the reservation's rights, which are the ones handed back, include the
  rights asked for.
\<close>

theorem VmAccess_granted_only_if:
  assumes "addr_contract A" and "bitmap_contract B" and inv: "vm_inv s" and meta: "metadata_ok s"
    and nw: "unat a + 1 < 2 ^ 64"
    and granted: "VmReservationCanAddressBeAccessed A B pCpu s a req = Some (Some (rights, uc, f, off))"
  shows "if in_metadata s a
    then pCpu \<noteq> Some False \<and> PAGE_RIGHTS_EXECUTE \<notin> req \<and> rights = PAGE_RIGHTS_READWRITE \<and> f = None
    else list_ex (\<lambda>r. used r \<and> covers r (unat a) 1 \<and> page_committed r (unat a) \<and> req \<subseteq> rights \<and>
      ResPageRights r = rights \<and> ResUncacheable r = uc \<and> BackingFile r = f) (ReservationList s)"
proof (cases "in_metadata s a")
  case True
  then show ?thesis
    using granted mem_env.CHECK_BOUNDS_metadata [OF mem_envI [OF assms(1,2)] meta nw]
    by (auto simp: VmReservationCanAddressBeAccessed_def split: if_splits)
next
  case False
  then show ?thesis
    using mem_env.VmAccess_granted_slot [OF mem_envI [OF assms(1,2)] inv meta False nw granted] by simp
qed

theorem VmAccess_granted_only_if_witness:
  "VmReservationCanAddressBeAccessed addr_ops bitmap_ops (Some False) vm_one 0x601234 {PAGE_RIGHTS_WRITE} =
     Some (Some (PAGE_RIGHTS_READWRITE, False, None, 0)) \<and>
   list_ex (\<lambda>r. used r \<and> covers r 0x601234 1 \<and> page_committed r 0x601234 \<and>
     ResPageRights r = PAGE_RIGHTS_READWRITE) (ReservationList vm_one)"
proof -
  have nm: "\<not> in_metadata vm_one 0x601234"
    by (simp add: in_metadata_def vm_example_defs)
  have slot: "0 < live (ReservationList vm_one)" "used (ReservationList vm_one ! 0)"
    "covers (ReservationList vm_one ! 0) (unat (0x601234 :: qword)) 1"
    by (simp_all only: vm_one_slot) (simp_all add: covers_def vm_region_def)
  have "page_committed vm_region (unat (0x601234 :: qword))"
    by (simp add: page_committed_def vm_region_def)
  then have g: "VmReservationCanAddressBeAccessed addr_ops bitmap_ops (Some False) vm_one 0x601234
      {PAGE_RIGHTS_WRITE} = Some (Some (PAGE_RIGHTS_READWRITE, False, None, 0))"
    using me.VmAccess_at [OF vm_one_inv slot nm, of "Some False" "{PAGE_RIGHTS_WRITE}"]
    unfolding vm_one_slot(2) by (simp add: vm_region_def file_offset_def)
  then show ?thesis
    using VmAccess_granted_only_if [OF contracts_hold vm_one_inv _ g] nm
    by (auto simp: list_ex_iff)
qed

text \<open>
  For a page-aligned address \<open>VmReservationReturnRightsForAddress\<close> answers exactly: with
  success and the rights of the reservation when every byte of the range is committed, with
  "not committed" and the same rights when some byte of a reserved range is not, and with
  "not committed" and no rights when no reservation covers the range.
\<close>

theorem VmReturnRights_exact:
  assumes "addr_contract A" and "bitmap_contract B" and inv: "vm_inv s"
    and "a \<noteq> 0" and "n \<noteq> 0" and al: "page_aligned a" and nw: "unat a + unat n < 2 ^ 64"
  shows "(\<exists>i < live (ReservationList s). used (ReservationList s ! i) \<and>
      covers (ReservationList s ! i) (unat a) (unat n) \<and>
      VmReservationReturnRightsForAddress A B s a n =
        Some (if \<forall>b. unat a \<le> b \<and> b < unat a + unat n \<longrightarrow> page_committed (ReservationList s ! i) b
              then STATUS_SUCCESS else STATUS_MEMORY_IS_NOT_COMMITED,
              Some (ResPageRights (ReservationList s ! i)))) \<or>
    (\<forall>i < live (ReservationList s). used (ReservationList s ! i) \<longrightarrow>
      \<not> covers (ReservationList s ! i) (unat a) (unat n)) \<and>
      VmReservationReturnRightsForAddress A B s a n = Some (STATUS_MEMORY_IS_NOT_COMMITED, None)"
  by (rule mem_env.VmReturnRights_cases [OF mem_envI [OF assms(1,2)] assms(3-7)])

theorem VmReturnRights_exact_witness:
  "VmReservationReturnRightsForAddress addr_ops bitmap_ops vm_one 0x600000 0x2000 =
     Some (STATUS_SUCCESS, Some PAGE_RIGHTS_READWRITE)"
proof -
  have a: "page_aligned 0x600000" "unat (0x600000 :: qword) + unat (0x2000 :: qword) < 2 ^ 64"
    by (simp_all add: page_aligned_def)
  have cov: "covers vm_region (unat (0x600000 :: qword)) (unat (0x2000 :: qword))"
    by (simp add: covers_def vm_region_def)
  have "page_committed vm_region b" if "unat (0x600000 :: qword) \<le> b" "b < 0x602000" for b
    using that by (simp add: page_committed_def vm_region_def div_less_iff_less_mult)
  moreover have "ResPageRights vm_region = PAGE_RIGHTS_READWRITE"
    by (simp add: vm_region_def)
  ultimately show ?thesis
    using VmReturnRights_exact [OF contracts_hold vm_one_inv(1) _ _ a] cov
    by (simp add: vm_one_slot)
qed

text \<open>
  Committing a range answers for exactly the stated reasons, and when it fails nothing
  has changed: the range is not inside one reservation, the rights differ from the reserved
  ones, or the cacheability differs. Otherwise exactly the pages of the range are committed
  in addition.
\<close>

theorem VmCommit_outcome:
  fixes rights :: page_rights and uc :: bool and f :: "file_object option"
  assumes "addr_contract A" and "bitmap_contract B" and inv: "vm_inv s"
    and req: "reserve_request a n" and start: "StartOfVirtualAddressSpace s \<le> a" "unat n + 4095 < 2 ^ 64"
  defines "call \<equiv> VmReservationSpaceAllocRegion A B s a n {VMM_ALLOC_TYPE_COMMIT} rights uc f"
  shows "((\<forall>i < live (ReservationList s). used (ReservationList s ! i) \<longrightarrow>
        \<not> covers (ReservationList s ! i) (unat a) (unat n)) \<longrightarrow>
      call = Some (STATUS_MEMORY_IS_NOT_RESERVED, None, s)) \<and>
    (\<forall>i < live (ReservationList s). \<forall>r. r = ReservationList s ! i \<and> used r \<and> covers r (unat a) (unat n) \<longrightarrow>
      (if ResPageRights r \<noteq> rights then call = Some (STATUS_MEMORY_CONFLICTING_ACCESS_RIGHTS, None, s)
       else if ResUncacheable r \<noteq> uc then call = Some (STATUS_MEMORY_CONFLICTING_CACHEABILITY, None, s)
       else \<exists>r'. call = Some (STATUS_SUCCESS, Some (a, n), s\<lparr>ReservationList := (ReservationList s)[i := r']\<rparr>) \<and>
         r' = r\<lparr>CommitBitmap := CommitBitmap r'\<rparr> \<and>
         (\<forall>b. covers r b 1 \<longrightarrow> page_committed r' b =
           (page_committed r b \<or> (unat a \<le> b \<and> b < unat a + unat n)))))"
proof -
  have env: "mem_env A B" and ok: "space_ok s"
    using mem_envI [OF assms(1,2)] inv by (simp_all add: vm_inv_def)
  note call = mem_env.VmCommitRegion_aligned [OF env req start, where rights = rights and uc = uc and f = f]
  have nz: "0 < unat n"
    using req by (simp add: reserve_request_def unat_gt_0)
  have bits: "page_committed (commit_range r (unat a) (unat n) True) b =
      (page_committed r b \<or> (unat a \<le> b \<and> b < unat a + unat n))"
    if "reservation_ok r" "covers r (unat a) (unat n)" "covers r b 1" for r b
    using that req page_committed_commit_range [OF that(1), of "unat a" "unat n" b True]
    by (auto simp: covers_def reserve_request_def page_aligned_unat mod_eq_0_iff_dvd split: if_splits)
  have form: "commit_range r x y True = r\<lparr>CommitBitmap := CommitBitmap (commit_range r x y True)\<rparr>" for r x y
    by (simp add: commit_range_def)
  show ?thesis
  proof (intro conjI impI allI, goal_cases)
    case 1
    then show ?case
      using mem_env.VmCommit_missing [OF env ok req] by (simp add: call_def call SUCCEEDED_def)
  next
    case (2 i r)
    then have r: "ReservationList s ! i = r" "used r" "covers r (unat a) (unat n)"
      by auto
    have "reservation_ok r"
      using ok 2(1) r by (auto simp: space_ok_def)
    moreover note mem_env.VmCommit_at [OF env ok req 2(1) r, where rights = rights and uc = uc and f = f]
      vm_inv_others [OF inv 2(1), of "unat a" "unat n"] nz
    ultimately show ?case
      using r bits form by (auto simp: call_def call SUCCEEDED_def)
  qed
qed

theorem VmCommit_outcome_witness:
  "VmReservationSpaceAllocRegion addr_ops bitmap_ops vm_one 0x602000 0x1000 {VMM_ALLOC_TYPE_COMMIT}
     {PAGE_RIGHTS_EXECUTE} False None = Some (STATUS_MEMORY_CONFLICTING_ACCESS_RIGHTS, None, vm_one)"
proof -
  have req: "reserve_request 0x602000 0x1000" "StartOfVirtualAddressSpace vm_one \<le> 0x602000"
    "unat (0x1000 :: qword) + 4095 < 2 ^ 64"
    by (simp_all add: reserve_request_def page_aligned_def vm_example_defs)
  have "covers vm_region (unat (0x602000 :: qword)) (unat (0x1000 :: qword))"
    by (simp add: covers_def vm_region_def)
  moreover have "ResPageRights vm_region \<noteq> {PAGE_RIGHTS_EXECUTE}"
    by (simp add: vm_region_def)
  ultimately show ?thesis
    using VmCommit_outcome [OF contracts_hold vm_one_inv(1) req, where rights = "{PAGE_RIGHTS_EXECUTE}" and
        uc = False and f = None] by (simp add: vm_one_slot)
qed

text \<open>
  The check for an existing reservation only finds one that contains the whole asked
  range: with an explicit base address, a region that overlaps a used reservation without
  being inside it is reserved too, and the two reservations share pages.
\<close>

theorem VmReserve_overlap_accepted:
  "case VmReservationSpaceAllocRegion addr_ops bitmap_ops vm_one 0x602000 0x2000 {VMM_ALLOC_TYPE_RESERVE}
      PAGE_RIGHTS_READWRITE False None of
     None \<Rightarrow> False
   | Some (st, m, s) \<Rightarrow> st = STATUS_SUCCESS \<and> m = Some (0x602000, 0x2000) \<and>
       used (ReservationList s ! 0) \<and> covers (ReservationList s ! 0) 0x602000 0x1000 \<and>
       used (ReservationList s ! 1) \<and> covers (ReservationList s ! 1) 0x602000 0x1000 \<and>
       \<not> va_disjoint (ReservationList s ! 0) (ReservationList s ! 1)"
  by (simp add: VmReservationSpaceAllocRegion_def VmChangeVaReservationState_def VmFindReservation_def
      VmFindFirstFreeReservation_def VmInitializeReservation_def vm_example_defs addr_ops_def bitmap_ops_def
      Let_def used_def covers_def va_disjoint_def word_le_nat_alt)

text \<open>
  The page loop of \<open>VmReservationReturnRightsForAddress\<close> starts at the address it is
  given, so for an unaligned address the last page of the range can be missed: two bytes that
  straddle from a committed page into an uncommitted one are reported as fully committed.
\<close>

theorem VmReturnRights_straddle_missed:
  "VmReservationReturnRightsForAddress addr_ops bitmap_ops vm_one 0x601FFF 2 =
     Some (STATUS_SUCCESS, Some PAGE_RIGHTS_READWRITE) \<and>
   \<not> page_committed (ReservationList vm_one ! 0) 0x602000"
  by (simp add: VmReservationReturnRightsForAddress_def VmFindReservation_def VmPagesCommited_loop.simps
      VmIsVaCommited_def vm_example_defs addr_ops_def bitmap_ops_def page_committed_def Let_def word_le_nat_alt)

end
