(* ===== verification/PageTables.thy ===== *)
theory PageTables
  imports Pmm VmReservation
begin

text \<open>
  The paging part of \<open>vmm.c\<close>: the walk over the four levels of the page tables and its three
  callbacks, which map a page, unmap a page and read a translation, with the routines built on
  them. Paging structures are reached through \<open>PA2VA\<close>, so the model works on physical memory:
  \<open>Phys\<close> gives the 8-byte entry at a physical address. The layout of an entry and of a virtual
  address comes from a header outside the repository and is the parameter \<open>pte_lib\<close>.

  The routines run under the lock of the paging data they work on. \<open>PageInvalidateTlb\<close> and
  \<open>MmuReleaseMemory\<close> are recorded: \<open>Invalidated\<close> is the sequence of the flushed addresses (most
  recent first), \<open>PagesToZeroList\<close> the queue of the zero worker thread.
\<close>

subsection \<open>Entries of the paging structures\<close>

record pte_map_flags =
  Executable :: bool
  Writable :: bool
  UserAccess :: bool
  GlobalPage :: bool
  PagingStructure :: bool
  PatIndex :: byte

definition zero_flags :: pte_map_flags where
  "zero_flags = \<lparr>Executable = False, Writable = False, UserAccess = False, GlobalPage = False,
     PagingStructure = False, PatIndex = 0\<rparr>"

record pte_lib =
  PteMap :: "qword \<Rightarrow> qword \<Rightarrow> pte_map_flags \<Rightarrow> qword"
  PteUnmap :: "qword \<Rightarrow> qword"
  PteIsPresent :: "qword \<Rightarrow> bool"
  PteGetPhysicalAddress :: "qword \<Rightarrow> qword"
  PteLargePageGetPhysicalAddress :: "qword \<Rightarrow> qword"
  PtePageSize :: "qword \<Rightarrow> bool"
  PteAccessed :: "qword \<Rightarrow> bool"
  PteDirty :: "qword \<Rightarrow> bool"
  PteClearAccessed :: "qword \<Rightarrow> qword"
  PteClearDirty :: "qword \<Rightarrow> qword"
  Cr3PhysicalAddress :: "qword \<Rightarrow> qword"
  MASK_PML4_OFFSET :: "qword \<Rightarrow> nat"
  MASK_PDPTE_OFFSET :: "qword \<Rightarrow> nat"
  MASK_PDE_OFFSET :: "qword \<Rightarrow> nat"
  MASK_PTE_OFFSET :: "qword \<Rightarrow> nat"
  LargePageSize :: qword
  VaHighestValidBit :: nat

text \<open>
  What the code relies on: a mapped entry is present and gives the page-aligned 52-bit address
  back, an entry that refers to a paging structure has the page-size bit clear, a zero entry is
  not present, clearing the accessed and dirty bits keeps the rest, and the four offsets are
  the 9-bit fields of a virtual address from bit 39 down to bit 12.
\<close>

locale pte_contract =
  fixes P :: pte_lib
  assumes PteMap_present: "PteIsPresent P (PteMap P e pa fl)"
    and PteMap_address: "page_aligned pa \<Longrightarrow> unat pa < 2 ^ 52 \<Longrightarrow> PteGetPhysicalAddress P (PteMap P e pa fl) = pa"
    and PteMap_structure: "PagingStructure fl \<Longrightarrow> \<not> PtePageSize P (PteMap P e pa fl)"
    and PteGetPhysicalAddress_aligned: "page_aligned (PteGetPhysicalAddress P e)"
    and PteUnmap_absent: "\<not> PteIsPresent P (PteUnmap P e)"
    and zero_absent: "\<not> PteIsPresent P 0"
    and PteClearAccessed_keeps: "PteIsPresent P (PteClearAccessed P e) = PteIsPresent P e"
      "PteGetPhysicalAddress P (PteClearAccessed P e) = PteGetPhysicalAddress P e"
      "PtePageSize P (PteClearAccessed P e) = PtePageSize P e"
    and PteClearDirty_keeps: "PteIsPresent P (PteClearDirty P e) = PteIsPresent P e"
      "PteGetPhysicalAddress P (PteClearDirty P e) = PteGetPhysicalAddress P e"
      "PtePageSize P (PteClearDirty P e) = PtePageSize P e"
    and Cr3PhysicalAddress_aligned: "page_aligned pa \<Longrightarrow> unat pa < 2 ^ 52 \<Longrightarrow> Cr3PhysicalAddress P pa = pa"
    and MASK_offsets: "MASK_PML4_OFFSET P va = unat va div 2 ^ 39 mod 512"
      "MASK_PDPTE_OFFSET P va = unat va div 2 ^ 30 mod 512"
      "MASK_PDE_OFFSET P va = unat va div 2 ^ 21 mod 512"
      "MASK_PTE_OFFSET P va = unat va div 2 ^ 12 mod 512"

subsection \<open>Data\<close>

record paging_data =
  BasePhysicalAddress :: qword
  NumberOfFrames :: dword
  CurrentIndex :: dword
  KernelSpace :: bool

record vmm_data =
  VmmReservationSpace :: vmm_reservation_space
  WriteBackIndex :: byte
  UncacheableIndex :: byte

record pt_mem =
  Phys :: "qword \<Rightarrow> qword"
  Invalidated :: "qword list"
  PagesToZeroList :: "(qword \<times> dword) list"

definition write_entry :: "qword \<Rightarrow> qword \<Rightarrow> pt_mem \<Rightarrow> pt_mem" where
  "write_entry a v m = m\<lparr>Phys := (Phys m)(a := v)\<rparr>"

definition PageInvalidateTlb :: "qword \<Rightarrow> pt_mem \<Rightarrow> pt_mem" where
  "PageInvalidateTlb va m = m\<lparr>Invalidated := va # Invalidated m\<rparr>"

definition memzero_page :: "qword \<Rightarrow> pt_mem \<Rightarrow> pt_mem" where
  "memzero_page pa m = m\<lparr>Phys := (\<lambda>a. if unat pa \<le> unat a \<and> unat a < unat pa + 4096 then 0 else Phys m a)\<rparr>"

record map_context =
  PhysicalAddressBase :: qword
  VirtualAddressBase :: qword
  CtxPageRights :: page_rights
  Invalidate :: bool
  CtxUncacheable :: bool

record phys_access_context =
  CtxPhysicalAddress :: qword
  Accessed :: bool
  Dirty :: bool
  ClearAccessed :: bool
  ClearDirty :: bool

subsection \<open>Setting up a paging structure\<close>

definition VmRetrieveNextPhysicalAddressForPagingStructure ::
  "paging_data \<Rightarrow> (qword \<times> paging_data) option" where
  "VmRetrieveNextPhysicalAddressForPagingStructure pd = do {
     let currentIndex = CurrentIndex pd;
     ASSERT (currentIndex < NumberOfFrames pd);
     Some (BasePhysicalAddress pd + ucast currentIndex * PAGE_SIZE, pd\<lparr>CurrentIndex := CurrentIndex pd + 1\<rparr>)
   }"

text \<open>
  \<open>PA2VA\<close> is \<open>pa2va\<close>; it only matters for the address that is flushed. The entry is at the
  physical address \<open>e\<close>.
\<close>

definition VmSetupPagingStructure ::
  "pte_lib \<Rightarrow> (qword \<Rightarrow> qword) \<Rightarrow> qword \<Rightarrow> paging_data \<times> pt_mem \<Rightarrow> (paging_data \<times> pt_mem) option" where
  "VmSetupPagingStructure P pa2va e = (\<lambda>(pd, m). do {
     (physicalAddr, pd) \<leftarrow> VmRetrieveNextPhysicalAddressForPagingStructure pd;
     let flags = zero_flags\<lparr>Writable := True, Executable := True, PagingStructure := True,
                   UserAccess := \<not> KernelSpace pd\<rparr>;
     let m = write_entry e (PteMap P (Phys m e) physicalAddr flags) m;
     let m = PageInvalidateTlb (pa2va physicalAddr) m;
     Some (pd, memzero_page physicalAddr m)
   })"

subsection \<open>The walk\<close>

abbreviation PAGING_TABLES_FIRST_LEVEL :: nat where
  "PAGING_TABLES_FIRST_LEVEL \<equiv> 1"

abbreviation PAGING_TABLES_LAST_LEVEL :: nat where
  "PAGING_TABLES_LAST_LEVEL \<equiv> 4"

text \<open>
  A callback gets the physical address of the entry, the virtual address and the level, and
  works on its context and the memory; its first result says whether to go on.
\<close>

type_synonym 'c walk_callback =
  "qword \<Rightarrow> qword \<Rightarrow> nat \<Rightarrow> 'c \<times> pt_mem \<Rightarrow> (bool \<times> 'c \<times> pt_mem) option"

definition va_offsets :: "pte_lib \<Rightarrow> qword \<Rightarrow> nat list" where
  "va_offsets P va = [MASK_PML4_OFFSET P va, MASK_PDPTE_OFFSET P va, MASK_PDE_OFFSET P va, MASK_PTE_OFFSET P va]"

definition entry_at :: "qword \<Rightarrow> nat \<Rightarrow> qword" where
  "entry_at structPa offset = structPa + 8 * word_of_nat offset"

fun VmWalkPagingTables_levels ::
  "pte_lib \<Rightarrow> 'c walk_callback \<Rightarrow> qword \<Rightarrow> nat list \<Rightarrow> nat \<Rightarrow> qword \<Rightarrow> 'c \<times> pt_mem \<Rightarrow> ('c \<times> pt_mem) option" where
  "VmWalkPagingTables_levels P WalkCallback va [] i curStructPa st = Some st"
| "VmWalkPagingTables_levels P WalkCallback va (offset # offsets) i curStructPa st = do {
     let pCurrentEntry = entry_at curStructPa offset;
     (continue, st) \<leftarrow> WalkCallback pCurrentEntry va i st;
     if \<not> continue then Some st
     else do {
       let entry = Phys (snd st) pCurrentEntry;
       ASSERT (i \<noteq> PAGING_TABLES_LAST_LEVEL \<longrightarrow> \<not> PtePageSize P entry);
       VmWalkPagingTables_levels P WalkCallback va offsets (i + 1) (PteGetPhysicalAddress P entry) st
     }
   }"

text \<open>
  The loop over the pages, \<open>offset\<close> counting the bytes passed. The 64-bit counter of the code
  does not wrap as sizes are multiples of the page size.
\<close>

function VmWalkPagingTables_pages ::
  "pte_lib \<Rightarrow> 'c walk_callback \<Rightarrow> qword \<Rightarrow> qword \<Rightarrow> nat \<Rightarrow> nat \<Rightarrow> 'c \<times> pt_mem \<Rightarrow> ('c \<times> pt_mem) option" where
  "VmWalkPagingTables_pages P WalkCallback Cr3 Base Size offset st =
     (if Size \<le> offset then Some st
      else do {
        let currentVa = Base + word_of_nat offset;
        st \<leftarrow> VmWalkPagingTables_levels P WalkCallback currentVa (va_offsets P currentVa)
                PAGING_TABLES_FIRST_LEVEL (Cr3PhysicalAddress P Cr3) st;
        VmWalkPagingTables_pages P WalkCallback Cr3 Base Size (offset + 4096) st
      })"
  by pat_completeness auto
termination
  by (relation "measure (\<lambda>(P, cb, cr3, base, size, offset, st). size - offset)") auto

declare VmWalkPagingTables_pages.simps [simp del]

lemma VmWalkPagingTables_pages_done: "VmWalkPagingTables_pages P cb cr3 base n n = Some"
  by (rule ext) (simp add: VmWalkPagingTables_pages.simps)

definition VmWalkPagingTables ::
  "pte_lib \<Rightarrow> 'c walk_callback \<Rightarrow> qword \<Rightarrow> qword \<Rightarrow> qword \<Rightarrow> 'c \<times> pt_mem \<Rightarrow> ('c \<times> pt_mem) option" where
  "VmWalkPagingTables P WalkCallback Cr3 Base Size st =
     VmWalkPagingTables_pages P WalkCallback Cr3 Base (unat Size) 0 st"

subsection \<open>The callbacks\<close>

definition VmMapPage ::
  "pte_lib \<Rightarrow> (qword \<Rightarrow> qword) \<Rightarrow> vmm_data \<Rightarrow> map_context \<Rightarrow> paging_data walk_callback" where
  "VmMapPage P pa2va vd ctx e va PageLevel = (\<lambda>(pd, m). do {
     ASSERT (va \<noteq> 0);
     ASSERT (PAGING_TABLES_FIRST_LEVEL \<le> PageLevel \<and> PageLevel \<le> PAGING_TABLES_LAST_LEVEL);
     if PteIsPresent P (Phys m e) \<and> \<not> (PageLevel = PAGING_TABLES_LAST_LEVEL \<and> Invalidate ctx)
     then Some (True, pd, m)
     else if PageLevel = PAGING_TABLES_LAST_LEVEL then
       (let physAddr = PhysicalAddressBase ctx + (va - VirtualAddressBase ctx);
            flags = zero_flags\<lparr>Executable := PAGE_RIGHTS_EXECUTE \<in> CtxPageRights ctx,
                      Writable := PAGE_RIGHTS_WRITE \<in> CtxPageRights ctx,
                      PatIndex := if CtxUncacheable ctx then UncacheableIndex vd else WriteBackIndex vd,
                      GlobalPage := KernelSpace pd, UserAccess := \<not> KernelSpace pd\<rparr>;
            m = write_entry e (PteMap P (Phys m e) physAddr flags) m
        in Some (True, pd, PageInvalidateTlb va m))
     else do {
       (pd, m) \<leftarrow> VmSetupPagingStructure P pa2va e (pd, m);
       Some (True, pd, m)
     }
   })"

text \<open>\<open>MmuReleaseMemory\<close> of \<open>mmu.c\<close> queues the frames for the zero worker thread.\<close>

definition MmuReleaseMemory :: "addr_lib \<Rightarrow> qword \<Rightarrow> dword \<Rightarrow> pt_mem \<Rightarrow> pt_mem option" where
  "MmuReleaseMemory A PhysicalAddr NoOfFrames m = do {
     ASSERT (IsAddressAligned A PhysicalAddr PAGE_SIZE);
     ASSERT (NoOfFrames \<noteq> 0);
     Some (m\<lparr>PagesToZeroList := PagesToZeroList m @ [(PhysicalAddr, NoOfFrames)]\<rparr>)
   }"

definition VmUnmapPage :: "addr_lib \<Rightarrow> pte_lib \<Rightarrow> bool \<Rightarrow> unit walk_callback" where
  "VmUnmapPage A P ReleaseMemory e va PageLevel = (\<lambda>(_, m). do {
     ASSERT (va \<noteq> 0);
     ASSERT (PAGING_TABLES_FIRST_LEVEL \<le> PageLevel \<and> PageLevel \<le> PAGING_TABLES_LAST_LEVEL);
     if \<not> PteIsPresent P (Phys m e) then Some (False, (), m)
     else if PageLevel = PAGING_TABLES_LAST_LEVEL then do {
       let pa = PteGetPhysicalAddress P (Phys m e);
       let m = write_entry e (PteUnmap P (Phys m e)) m;
       let m = PageInvalidateTlb va m;
       m \<leftarrow> (if ReleaseMemory then MmuReleaseMemory A pa 1 m else Some m);
       Some (True, (), m)
     }
     else Some (True, (), m)
   })"

definition VmRetrievePhyAccess :: "addr_lib \<Rightarrow> pte_lib \<Rightarrow> phys_access_context walk_callback" where
  "VmRetrievePhyAccess A P e va PageLevel = (\<lambda>(ctx, m). do {
     ASSERT (va \<noteq> 0);
     ASSERT (PAGING_TABLES_FIRST_LEVEL \<le> PageLevel \<and> PageLevel \<le> PAGING_TABLES_LAST_LEVEL);
     if \<not> PteIsPresent P (Phys m e) then Some (False, ctx\<lparr>CtxPhysicalAddress := 0\<rparr>, m)
     else if PageLevel < PAGING_TABLES_LAST_LEVEL - 1 then Some (True, ctx, m)
     else if PageLevel = PAGING_TABLES_LAST_LEVEL - 1 \<and> \<not> PtePageSize P (Phys m e) then Some (True, ctx, m)
     else do {
       let pa = (if PageLevel = PAGING_TABLES_LAST_LEVEL - 1
                 then PtrOffset A (PteLargePageGetPhysicalAddress P (Phys m e)) (AddressOffset A va (LargePageSize P))
                 else PteGetPhysicalAddress P (Phys m e));
       let ctx = ctx\<lparr>CtxPhysicalAddress := pa, Accessed := PteAccessed P (Phys m e), Dirty := PteDirty P (Phys m e)\<rparr>;
       let m' = (if ClearAccessed ctx then write_entry e (PteClearAccessed P (Phys m e)) m else m);
       let m' = (if ClearDirty ctx then write_entry e (PteClearDirty P (Phys m' e)) m' else m');
       Some (False, ctx, if ClearAccessed ctx \<or> ClearDirty ctx then PageInvalidateTlb va m' else m')
     }
   })"

subsection \<open>Mapping, unmapping and translating\<close>

definition VmmMapMemoryInternal ::
  "addr_lib \<Rightarrow> pte_lib \<Rightarrow> (qword \<Rightarrow> qword) \<Rightarrow> vmm_data \<Rightarrow> qword \<Rightarrow> qword \<Rightarrow> qword \<Rightarrow> page_rights \<Rightarrow> bool \<Rightarrow> bool \<Rightarrow>
   paging_data \<times> pt_mem \<Rightarrow> (paging_data \<times> pt_mem) option" where
  "VmmMapMemoryInternal A P pa2va vd PhysicalAddress Size Base PageRights Inv Uncacheable st = do {
     ASSERT (IsAddressAligned A PhysicalAddress PAGE_SIZE);
     ASSERT (Size \<noteq> 0 \<and> IsAddressAligned A Size PAGE_SIZE);
     let ctx = \<lparr>PhysicalAddressBase = PhysicalAddress, VirtualAddressBase = Base, CtxPageRights = PageRights,
                Invalidate = Inv, CtxUncacheable = Uncacheable\<rparr>;
     VmWalkPagingTables P (VmMapPage P pa2va vd ctx) (BasePhysicalAddress (fst st)) Base Size st
   }"

text \<open>\<open>NULL\<close> paging data is \<open>None\<close>; the result \<open>NULL\<close> is 0.\<close>

definition VmmMapMemoryEx ::
  "addr_lib \<Rightarrow> pte_lib \<Rightarrow> (qword \<Rightarrow> qword) \<Rightarrow> vmm_data \<Rightarrow> paging_data option \<Rightarrow> qword \<Rightarrow> qword \<Rightarrow> page_rights \<Rightarrow>
   bool \<Rightarrow> bool \<Rightarrow> pt_mem \<Rightarrow> (qword \<times> vmm_data \<times> paging_data option \<times> pt_mem) option" where
  "VmmMapMemoryEx A P pa2va vd PagingData PhysicalAddress Size PageRights Inv Uncacheable m =
     (case PagingData of
        None \<Rightarrow> Some (0, vd, None, m)
      | Some pd \<Rightarrow>
          if \<not> IsAddressAligned A PhysicalAddress PAGE_SIZE then Some (0, vd, Some pd, m)
          else if Size = 0 \<or> \<not> IsAddressAligned A Size PAGE_SIZE then Some (0, vd, Some pd, m)
          else do {
            let (va, space) = VmReservationSpaceDetermineNextFreeVirtualAddress (VmmReservationSpace vd) Size;
            let vd = vd\<lparr>VmmReservationSpace := space\<rparr>;
            ASSERT (IsAddressAligned A va PAGE_SIZE);
            (pd, m) \<leftarrow> VmmMapMemoryInternal A P pa2va vd PhysicalAddress Size va PageRights Inv Uncacheable (pd, m);
            Some (va, vd, Some pd, m)
          })"

definition VmmUnmapMemoryEx ::
  "addr_lib \<Rightarrow> pte_lib \<Rightarrow> qword \<Rightarrow> qword \<Rightarrow> qword \<Rightarrow> bool \<Rightarrow> pt_mem \<Rightarrow> pt_mem option" where
  "VmmUnmapMemoryEx A P Cr3 va Size ReleaseMemory m =
     (if va = 0 \<or> \<not> IsAddressAligned A va PAGE_SIZE then Some m
      else if Size = 0 \<or> \<not> IsAddressAligned A Size PAGE_SIZE then Some m
      else map_option snd (VmWalkPagingTables P (VmUnmapPage A P ReleaseMemory) Cr3 va Size ((), m)))"

text \<open>The flags say whether the caller passed pointers for the accessed and the dirty bit.\<close>

definition VmmGetPhysicalAddressEx ::
  "addr_lib \<Rightarrow> pte_lib \<Rightarrow> qword \<Rightarrow> qword \<Rightarrow> bool \<Rightarrow> bool \<Rightarrow> pt_mem \<Rightarrow> (qword \<times> bool \<times> bool \<times> pt_mem) option" where
  "VmmGetPhysicalAddressEx A P Cr3 va wantAccessed wantDirty m = do {
     ASSERT (va \<noteq> 0);
     ASSERT (IsAddressAligned A va PAGE_SIZE);
     let ctx = \<lparr>CtxPhysicalAddress = 0, Accessed = False, Dirty = False,
                ClearAccessed = wantAccessed, ClearDirty = wantDirty\<rparr>;
     (ctx, m) \<leftarrow> VmWalkPagingTables P (VmRetrievePhyAccess A P) Cr3 va PAGE_SIZE (ctx, m);
     Some (CtxPhysicalAddress ctx, Accessed ctx, Dirty ctx, m)
   }"

subsection \<open>A concrete layout of the entries\<close>

text \<open>The x86-64 layout without the no-execute bit, for running the routines.\<close>

definition pte_ops :: pte_lib where
  "pte_ops = \<lparr>
    PteMap = (\<lambda>_ pa fl. (pa AND NOT (mask 12)) OR 1 OR (if Writable fl then push_bit 1 1 else 0) OR
      (if UserAccess fl then push_bit 2 1 else 0)),
    PteUnmap = (\<lambda>_. 0),
    PteIsPresent = (\<lambda>e. bit e 0),
    PteGetPhysicalAddress = (\<lambda>e. e AND NOT (mask 12)),
    PteLargePageGetPhysicalAddress = (\<lambda>e. e AND NOT (mask 21)),
    PtePageSize = (\<lambda>e. bit e 7),
    PteAccessed = (\<lambda>e. bit e 5),
    PteDirty = (\<lambda>e. bit e 6),
    PteClearAccessed = (\<lambda>e. e AND NOT (push_bit 5 1)),
    PteClearDirty = (\<lambda>e. e AND NOT (push_bit 6 1)),
    Cr3PhysicalAddress = (\<lambda>c. c AND NOT (mask 12)),
    MASK_PML4_OFFSET = (\<lambda>va. unat va div 2 ^ 39 mod 512),
    MASK_PDPTE_OFFSET = (\<lambda>va. unat va div 2 ^ 30 mod 512),
    MASK_PDE_OFFSET = (\<lambda>va. unat va div 2 ^ 21 mod 512),
    MASK_PTE_OFFSET = (\<lambda>va. unat va div 2 ^ 12 mod 512),
    LargePageSize = 0x200000, VaHighestValidBit = 47\<rparr>"

lemma page_aligned_bits:
  assumes "page_aligned a" and "bit a n"
  shows "12 \<le> n"
proof (rule ccontr)
  assume "\<not> 12 \<le> n"
  have "take_bit 12 a = 0"
    using assms(1) by (simp add: page_aligned_def take_bit_eq_mod)
  then have "\<not> bit (take_bit 12 a) n"
    by simp
  then show False
    using assms(2) \<open>\<not> 12 \<le> n\<close> by (simp add: bit_take_bit_iff)
qed

lemma bit_flag_iff:
  "bit (4 :: int) n \<longleftrightarrow> n = 2" "bit (32 :: int) n \<longleftrightarrow> n = 5" "bit (64 :: int) n \<longleftrightarrow> n = 6"
proof -
  have "push_bit 2 1 = (4 :: int)" "push_bit 5 1 = (32 :: int)" "push_bit 6 1 = (64 :: int)"
    by simp_all
  then show "bit (4 :: int) n \<longleftrightarrow> n = 2" "bit (32 :: int) n \<longleftrightarrow> n = 5" "bit (64 :: int) n \<longleftrightarrow> n = 6"
    using bit_push_bit_iff [of 2 "1 :: int" n] bit_push_bit_iff [of 5 "1 :: int" n]
      bit_push_bit_iff [of 6 "1 :: int" n] by (auto simp: bit_1_iff)
qed

interpretation pte: pte_contract pte_ops
proof unfold_locales
  fix pa e fl
  assume "page_aligned pa" and "unat pa < 2 ^ 52"
  then show "PteGetPhysicalAddress pte_ops (PteMap pte_ops e pa fl) = pa"
    by (intro bit_word_eqI) (auto simp: pte_ops_def bit_simps bit_flag_iff dest: page_aligned_bits)
next
  fix pa
  assume "page_aligned pa" and "unat pa < 2 ^ 52"
  then show "Cr3PhysicalAddress pte_ops pa = pa"
    by (intro bit_word_eqI) (auto simp: pte_ops_def bit_simps dest: page_aligned_bits)
next
  fix e :: qword
  have "take_bit 12 (e AND NOT (mask 12)) = 0"
    by (rule bit_word_eqI) (auto simp: bit_simps)
  then show "page_aligned (PteGetPhysicalAddress pte_ops e)"
    by (simp add: pte_ops_def page_aligned_def take_bit_eq_mod)
next
  fix e
  show "PteGetPhysicalAddress pte_ops (PteClearAccessed pte_ops e) = PteGetPhysicalAddress pte_ops e"
    "PteGetPhysicalAddress pte_ops (PteClearDirty pte_ops e) = PteGetPhysicalAddress pte_ops e"
    by (rule bit_word_eqI, auto simp: pte_ops_def bit_simps bit_flag_iff)+
qed (auto simp: pte_ops_def bit_simps bit_flag_iff)

subsection \<open>The tree of paging structures\<close>

text \<open>
  \<open>tbl\<close> names the frames that hold paging structures and gives each its path, the offsets
  that lead to it from the root. The tree is well-formed when a present entry of the upper
  three levels leads to the structure one offset further, every structure is reached that way,
  no path is used twice, and the frames not yet handed out hold no structure. Structures of
  other paging data may be part of the tree: a process shares those of the kernel half.
\<close>

definition frame_at :: "paging_data \<Rightarrow> nat \<Rightarrow> qword" where
  "frame_at pd k = BasePhysicalAddress pd + word_of_nat k * PAGE_SIZE"

definition tables_wf ::
  "pte_lib \<Rightarrow> (qword \<Rightarrow> nat list option) \<Rightarrow> (qword \<Rightarrow> qword) \<Rightarrow> paging_data \<Rightarrow> bool" where
  "tables_wf P tbl ph pd \<longleftrightarrow>
     page_aligned (BasePhysicalAddress pd) \<and>
     unat (BasePhysicalAddress pd) + 4096 * unat (NumberOfFrames pd) \<le> 2 ^ 52 \<and>
     unat (NumberOfFrames pd) < 2 ^ 20 \<and> 0 < NumberOfFrames pd \<and>
     tbl (BasePhysicalAddress pd) = Some [] \<and>
     (\<forall>a p. tbl a = Some p \<longrightarrow> page_aligned a \<and> unat a < 2 ^ 52 \<and> length p \<le> 3) \<and>
     (\<forall>a b p. tbl a = Some p \<longrightarrow> tbl b = Some p \<longrightarrow> a = b) \<and>
     (\<forall>a p j. tbl a = Some p \<longrightarrow> length p < 3 \<longrightarrow> j < 512 \<longrightarrow> PteIsPresent P (ph (entry_at a j)) \<longrightarrow>
        \<not> PtePageSize P (ph (entry_at a j)) \<and> tbl (PteGetPhysicalAddress P (ph (entry_at a j))) = Some (p @ [j])) \<and>
     (\<forall>b p j. tbl b = Some (p @ [j]) \<longrightarrow> j < 512 \<and>
        (\<exists>a. tbl a = Some p \<and> PteIsPresent P (ph (entry_at a j)) \<and> PteGetPhysicalAddress P (ph (entry_at a j)) = b)) \<and>
     (\<forall>k. unat (CurrentIndex pd) \<le> k \<longrightarrow> k < unat (NumberOfFrames pd) \<longrightarrow> tbl (frame_at pd k) = None)"

lemma tables_wfD:
  assumes "tables_wf P tbl ph pd"
  shows "page_aligned (BasePhysicalAddress pd)"
    and "unat (BasePhysicalAddress pd) + 4096 * unat (NumberOfFrames pd) \<le> 2 ^ 52"
    and "unat (NumberOfFrames pd) < 2 ^ 20" and "0 < NumberOfFrames pd"
    and "tbl (BasePhysicalAddress pd) = Some []"
    and "\<And>a p. tbl a = Some p \<Longrightarrow> page_aligned a \<and> unat a < 2 ^ 52 \<and> length p \<le> 3"
    and "\<And>a b p. tbl a = Some p \<Longrightarrow> tbl b = Some p \<Longrightarrow> a = b"
    and "\<And>a p j. tbl a = Some p \<Longrightarrow> length p < 3 \<Longrightarrow> j < 512 \<Longrightarrow> PteIsPresent P (ph (entry_at a j)) \<Longrightarrow>
      \<not> PtePageSize P (ph (entry_at a j)) \<and> tbl (PteGetPhysicalAddress P (ph (entry_at a j))) = Some (p @ [j])"
    and "\<And>b p j. tbl b = Some (p @ [j]) \<Longrightarrow> j < 512 \<and>
      (\<exists>a. tbl a = Some p \<and> PteIsPresent P (ph (entry_at a j)) \<and> PteGetPhysicalAddress P (ph (entry_at a j)) = b)"
    and "\<And>k. unat (CurrentIndex pd) \<le> k \<Longrightarrow> k < unat (NumberOfFrames pd) \<Longrightarrow> tbl (frame_at pd k) = None"
  using assms unfolding tables_wf_def by blast+

text \<open>Entries of different structures, or at different offsets, are different.\<close>

lemma unat_entry_at:
  assumes "unat a < 2 ^ 52" and "j < 512"
  shows "unat (entry_at a j) = unat a + 8 * j"
proof -
  have j: "unat (8 * word_of_nat j :: qword) = 8 * j"
    using assms(2) by (simp add: unat_word_ariths unat_of_nat)
  show ?thesis
    unfolding entry_at_def using assms by (subst unat_add_less) (simp_all add: j)
qed

lemma entry_at_inj:
  assumes "page_aligned a" and "page_aligned b" and "unat a < 2 ^ 52" and "unat b < 2 ^ 52"
    and "j < 512" and "k < 512" and "entry_at a j = entry_at b k"
  shows "a = b \<and> j = k"
proof -
  obtain x y where x: "unat a = 4096 * x" and y: "unat b = 4096 * y"
    using assms(1,2) by (auto simp: page_aligned_unat elim!: dvdE)
  have eq: "4096 * x + 8 * j = 4096 * y + 8 * k"
    using arg_cong [OF assms(7), of unat] unat_entry_at [OF assms(3,5)] unat_entry_at [OF assms(4,6)] x y
    by simp
  have "(4096 * x + 8 * j) div 4096 = x" and "(4096 * y + 8 * k) div 4096 = y"
    using assms(5,6) by simp_all
  then have "x = y"
    using eq by simp
  with eq have "x = y \<and> j = k"
    by simp
  then show ?thesis
    using x y by (metis unsigned_word_eqI)
qed

lemma entry_at_in_page:
  assumes "page_aligned a" and "page_aligned b" and "unat b < 2 ^ 52" and "j < 512"
  shows "unat a \<le> unat (entry_at b j) \<and> unat (entry_at b j) < unat a + 4096 \<longleftrightarrow> a = b"
proof -
  obtain x y where x: "unat a = 4096 * x" and y: "unat b = 4096 * y"
    using assms(1,2) by (auto simp: page_aligned_unat elim!: dvdE)
  have "unat a \<le> unat (entry_at b j) \<and> unat (entry_at b j) < unat a + 4096 \<longleftrightarrow> x = y"
    using assms(4) unfolding unat_entry_at [OF assms(3,4)] x y by auto
  also have "\<dots> \<longleftrightarrow> unat a = unat b"
    by (simp add: x y)
  also have "\<dots> \<longleftrightarrow> a = b"
    by (simp add: word_unat_eq_iff)
  finally show ?thesis .
qed

lemma unat_frame_at:
  assumes "unat (BasePhysicalAddress pd) + 4096 * unat (NumberOfFrames pd) \<le> 2 ^ 52"
    and "k < unat (NumberOfFrames pd)"
  shows "unat (frame_at pd k) = unat (BasePhysicalAddress pd) + 4096 * k"
proof -
  have k: "k < 2 ^ 52" "4096 * k < 2 ^ 52"
    using assms by linarith+
  then have "unat (word_of_nat k * PAGE_SIZE :: qword) = 4096 * k"
    by (simp add: unat_word_ariths unat_of_nat mult.commute)
  then show ?thesis
    unfolding frame_at_def using assms by (subst unat_add_less) simp_all
qed

lemma frame_at_wf:
  assumes "tables_wf P tbl ph pd" and "k < unat (NumberOfFrames pd)"
  shows "page_aligned (frame_at pd k)" and "unat (frame_at pd k) < 2 ^ 52"
proof -
  note base = tables_wfD(1,2) [OF assms(1)]
  note u = unat_frame_at [OF base(2) assms(2)]
  show "page_aligned (frame_at pd k)"
    using base(1) u by (simp add: page_aligned_unat mod_eq_0_iff_dvd)
  show "unat (frame_at pd k) < 2 ^ 52"
    using base(2) assms(2) u by linarith
qed

lemma frame_at_inj:
  assumes "tables_wf P tbl ph pd" and "k < unat (NumberOfFrames pd)" and "l < unat (NumberOfFrames pd)"
    and "frame_at pd k = frame_at pd l"
  shows "k = l"
  using arg_cong [OF assms(4), of unat] unat_frame_at [OF tables_wfD(2) [OF assms(1)] assms(2)]
    unat_frame_at [OF tables_wfD(2) [OF assms(1)] assms(3)] by simp

text \<open>
  How the tree grows while mapping: old structures stay, their last-level entries keep their
  contents, new structures are in the frames \<open>F\<close>, and their last-level entries are not present.
\<close>

definition own_frames :: "paging_data \<Rightarrow> qword set" where
  "own_frames pd = frame_at pd ` {..<unat (NumberOfFrames pd)}"

definition tables_ext ::
  "pte_lib \<Rightarrow> qword set \<Rightarrow> (qword \<Rightarrow> nat list option) \<Rightarrow> (qword \<Rightarrow> qword) \<Rightarrow> (qword \<Rightarrow> nat list option) \<Rightarrow> (qword \<Rightarrow> qword) \<Rightarrow> bool" where
  "tables_ext P F tbl ph tbl' ph' \<longleftrightarrow> tbl \<subseteq>\<^sub>m tbl' \<and> dom tbl' \<subseteq> dom tbl \<union> F \<and>
     (\<forall>c q j. tbl' c = Some q \<longrightarrow> length q = 3 \<longrightarrow> j < 512 \<longrightarrow>
        (if tbl c = Some q then ph' (entry_at c j) = ph (entry_at c j)
         else \<not> PteIsPresent P (ph' (entry_at c j))))"

lemma tables_ext_refl: "tables_ext P F tbl ph tbl ph"
  by (simp add: tables_ext_def)

lemma map_le_Some: "f \<subseteq>\<^sub>m g \<Longrightarrow> f x = Some y \<Longrightarrow> g x = Some y"
  by (metis domI map_le_def)

lemma tables_ext_trans:
  assumes "tables_ext P F tbl ph tbl1 ph1" and "tables_ext P F tbl1 ph1 tbl2 ph2"
  shows "tables_ext P F tbl ph tbl2 ph2"
proof -
  have le: "tbl \<subseteq>\<^sub>m tbl1" "tbl1 \<subseteq>\<^sub>m tbl2"
    using assms by (simp_all add: tables_ext_def)
  have "if tbl c = Some q then ph2 (entry_at c j) = ph (entry_at c j) else \<not> PteIsPresent P (ph2 (entry_at c j))"
    if c: "tbl2 c = Some q" and q: "length q = 3" "j < 512" for c q j
  proof (cases "tbl1 c = Some q")
    case True
    then show ?thesis
      using assms c q unfolding tables_ext_def by (metis (full_types))
  next
    case False
    then have "tbl c \<noteq> Some q"
      using map_le_Some [OF le(1)] by blast
    then show ?thesis
      using assms(2) c q False unfolding tables_ext_def by simp
  qed
  moreover have "dom tbl2 \<subseteq> dom tbl \<union> F"
    using assms unfolding tables_ext_def by blast
  ultimately show ?thesis
    using map_le_trans [OF le] unfolding tables_ext_def by blast
qed

definition paging_grown :: "paging_data \<Rightarrow> paging_data \<Rightarrow> nat \<Rightarrow> bool" where
  "paging_grown pd pd' n \<longleftrightarrow> BasePhysicalAddress pd' = BasePhysicalAddress pd \<and>
     NumberOfFrames pd' = NumberOfFrames pd \<and> KernelSpace pd' = KernelSpace pd \<and>
     unat (CurrentIndex pd) \<le> unat (CurrentIndex pd') \<and>
     unat (CurrentIndex pd') \<le> unat (CurrentIndex pd) + n"

lemma paging_grown_own: "paging_grown pd pd' n \<Longrightarrow> own_frames pd' = own_frames pd"
  by (simp add: paging_grown_def own_frames_def frame_at_def)

lemma paging_grown_refl: "paging_grown pd pd n"
  by (simp add: paging_grown_def)

lemma paging_grown_trans: "paging_grown pd pd1 m \<Longrightarrow> paging_grown pd1 pd2 n \<Longrightarrow> paging_grown pd pd2 (m + n)"
  by (simp add: paging_grown_def)

lemma Phys_simps [simp]:
  "Phys (write_entry a v m) = (Phys m)(a := v)" "Phys (PageInvalidateTlb va m) = Phys m"
  "PagesToZeroList (write_entry a v m) = PagesToZeroList m"
  "PagesToZeroList (PageInvalidateTlb va m) = PagesToZeroList m"
  "Invalidated (PageInvalidateTlb va m) = va # Invalidated m"
  "Invalidated (write_entry a v m) = Invalidated m"
  by (simp_all add: write_entry_def PageInvalidateTlb_def)

text \<open>
  Linking a zeroed frame \<open>f\<close> into the structure \<open>a\<close> at offset \<open>j\<close>, in three steps: entries
  lead to their structures, structures are reached by their entries, the whole invariant.
\<close>

definition linked ::
  "(qword \<Rightarrow> nat list option) \<Rightarrow> (qword \<Rightarrow> qword) \<Rightarrow> qword \<Rightarrow> nat \<Rightarrow> qword \<Rightarrow> qword \<Rightarrow> (qword \<Rightarrow> qword) \<Rightarrow> bool" where
  "linked tbl ph a j f e ph' \<longleftrightarrow> tbl f = None \<and> (\<forall>l < 512. ph' (entry_at f l) = 0) \<and>
     (\<forall>b q l. tbl b = Some q \<longrightarrow> l < 512 \<longrightarrow>
        ph' (entry_at b l) = (if b = a \<and> l = j then e else ph (entry_at b l)))"

lemma linkedD:
  assumes "linked tbl ph a j f e ph'"
  shows "tbl f = None" and "l < 512 \<Longrightarrow> ph' (entry_at f l) = 0"
    and "tbl b = Some q \<Longrightarrow> l < 512 \<Longrightarrow> ph' (entry_at b l) = (if b = a \<and> l = j then e else ph (entry_at b l))"
  using assms by (auto simp: linked_def)

context pte_contract
begin

lemma linked_child:
  assumes wf: "tables_wf P tbl ph pd" and a: "tbl a = Some p" and link: "linked tbl ph a j f e ph'"
    and e: "PteGetPhysicalAddress P e = f" "\<not> PtePageSize P e"
    and b: "(tbl(f \<mapsto> p @ [j])) b = Some q" "length q < 3" "l < 512" "PteIsPresent P (ph' (entry_at b l))"
  shows "\<not> PtePageSize P (ph' (entry_at b l)) \<and>
    (tbl(f \<mapsto> p @ [j])) (PteGetPhysicalAddress P (ph' (entry_at b l))) = Some (q @ [l])"
proof (cases "b = f")
  case True
  then show ?thesis
    using b linkedD(2) [OF link b(3)] zero_absent by simp
next
  case False
  then have q: "tbl b = Some q"
    using b(1) by simp
  show ?thesis
  proof (cases "b = a \<and> l = j")
    case True
    then show ?thesis
      using linkedD(3) [OF link q b(3)] e a q by simp
  next
    case False
    then show ?thesis
      using linkedD(3) [OF link q b(3)] b(4) tables_wfD(8) [OF wf q b(2,3)] linkedD(1) [OF link] by auto
  qed
qed

lemma linked_parent:
  assumes wf: "tables_wf P tbl ph pd" and a: "tbl a = Some p" and j: "j < 512"
    and absent: "\<not> PteIsPresent P (ph (entry_at a j))" and link: "linked tbl ph a j f e ph'"
    and e: "PteIsPresent P e" "PteGetPhysicalAddress P e = f"
    and b: "(tbl(f \<mapsto> p @ [j])) b = Some (q @ [l])"
  shows "l < 512 \<and> (\<exists>c. (tbl(f \<mapsto> p @ [j])) c = Some q \<and> PteIsPresent P (ph' (entry_at c l)) \<and>
    PteGetPhysicalAddress P (ph' (entry_at c l)) = b)"
proof (cases "b = f")
  case True
  then have "q = p" "l = j" "a \<noteq> f"
    using b a linkedD(1) [OF link] by auto
  then show ?thesis
    using True a j e linkedD(3) [OF link a j] by (auto intro!: exI [of _ a])
next
  case False
  then have "tbl b = Some (q @ [l])"
    using b by simp
  from tables_wfD(9) [OF wf this] obtain c where c: "l < 512" "tbl c = Some q"
      "PteIsPresent P (ph (entry_at c l))" "PteGetPhysicalAddress P (ph (entry_at c l)) = b"
    by blast
  then have "\<not> (c = a \<and> l = j)"
    using absent by blast
  then have "ph' (entry_at c l) = ph (entry_at c l)"
    using linkedD(3) [OF link c(2,1)] by auto
  then show ?thesis
    using c linkedD(1) [OF link] by (intro conjI exI [of _ c]) auto
qed

lemma linked_wf:
  assumes wf: "tables_wf P tbl ph pd" and a: "tbl a = Some p" "length p < 3" and j: "j < 512"
    and absent: "\<not> PteIsPresent P (ph (entry_at a j))" and link: "linked tbl ph a j f e ph'"
    and e: "PteIsPresent P e" "PteGetPhysicalAddress P e = f" "\<not> PtePageSize P e"
    and k: "unat (CurrentIndex pd) < unat (NumberOfFrames pd)" and f: "f = frame_at pd (unat (CurrentIndex pd))"
  shows "tables_wf P (tbl(f \<mapsto> p @ [j])) ph' (pd\<lparr>CurrentIndex := CurrentIndex pd + 1\<rparr>)"
proof -
  let ?tbl = "tbl(f \<mapsto> p @ [j])" and ?pd = "pd\<lparr>CurrentIndex := CurrentIndex pd + 1\<rparr>"
  note wfD = tables_wfD [OF wf]
  have no_child: "tbl c \<noteq> Some (p @ [j])" for c
    using wfD(9) [of c p j] wfD(7) [OF _ a(1)] absent by blast
  have ci: "unat (CurrentIndex pd + 1) = Suc (unat (CurrentIndex pd))"
    using k unat_dword_less [of "NumberOfFrames pd"] by (simp add: unat_word_ariths)
  have frame: "frame_at ?pd i = frame_at pd i" for i
    by (simp add: frame_at_def)
  show ?thesis
    unfolding tables_wf_def
  proof (intro conjI)
    show "\<forall>b c q. ?tbl b = Some q \<longrightarrow> ?tbl c = Some q \<longrightarrow> b = c"
      using wfD(7) no_child by (auto split: if_splits)
    show "\<forall>i. unat (CurrentIndex ?pd) \<le> i \<longrightarrow> i < unat (NumberOfFrames ?pd) \<longrightarrow> ?tbl (frame_at ?pd i) = None"
    proof (intro allI impI)
      fix i
      assume i: "unat (CurrentIndex ?pd) \<le> i" "i < unat (NumberOfFrames ?pd)"
      then have "frame_at pd i \<noteq> f"
        using frame_at_inj [OF wf k, of i] ci by (auto simp: f)
      then show "?tbl (frame_at ?pd i) = None"
        using wfD(10) [of i] i ci by (simp add: frame)
    qed
    show "\<forall>b q. ?tbl b = Some q \<longrightarrow> page_aligned b \<and> unat b < 2 ^ 52 \<and> length q \<le> 3"
      using wfD(6) frame_at_wf [OF wf k] a(2) by (auto simp: f)
    show "\<forall>b q l. ?tbl b = Some q \<longrightarrow> length q < 3 \<longrightarrow> l < 512 \<longrightarrow> PteIsPresent P (ph' (entry_at b l)) \<longrightarrow>
        \<not> PtePageSize P (ph' (entry_at b l)) \<and> ?tbl (PteGetPhysicalAddress P (ph' (entry_at b l))) = Some (q @ [l])"
      using linked_child [OF wf a(1) link e(2,3)] by blast
    show "\<forall>b q l. ?tbl b = Some (q @ [l]) \<longrightarrow> l < 512 \<and> (\<exists>c. ?tbl c = Some q \<and>
        PteIsPresent P (ph' (entry_at c l)) \<and> PteGetPhysicalAddress P (ph' (entry_at c l)) = b)"
      using linked_parent [OF wf a(1) j absent link e(1,2)] by blast
    show "?tbl (BasePhysicalAddress ?pd) = Some []"
      using wfD(5) linkedD(1) [OF link] by auto
  qed (use wfD(1-4) in simp_all)
qed

lemma linked_ext:
  assumes "tbl a = Some p" "length p < 3" and link: "linked tbl ph a j f e ph'" and "f \<in> F"
  shows "tables_ext P F tbl ph (tbl(f \<mapsto> p @ [j])) ph'"
  unfolding tables_ext_def
proof (intro conjI allI impI)
  show "tbl \<subseteq>\<^sub>m tbl(f \<mapsto> p @ [j])"
    using linkedD(1) [OF link] by (auto simp: map_le_def)
  show "dom (tbl(f \<mapsto> p @ [j])) \<subseteq> dom tbl \<union> F"
    using assms(4) by auto
next
  fix c q and l :: nat
  assume c: "(tbl(f \<mapsto> p @ [j])) c = Some q" "length q = 3" "l < 512"
  show "if tbl c = Some q then ph' (entry_at c l) = ph (entry_at c l) else \<not> PteIsPresent P (ph' (entry_at c l))"
  proof (cases "c = f")
    case True
    then show ?thesis
      using c linkedD(1,2) [OF link] zero_absent by simp
  next
    case False
    then have "tbl c = Some q" and "c \<noteq> a"
      using c assms(1,2) by auto
    then show ?thesis
      using linkedD(3) [OF link, of c q l] c(3) by simp
  qed
qed

lemma VmSetupPagingStructure_wf:
  assumes wf: "tables_wf P tbl (Phys m) pd" and a: "tbl a = Some p" "length p < 3" and j: "j < 512"
    and absent: "\<not> PteIsPresent P (Phys m (entry_at a j))" and room: "CurrentIndex pd < NumberOfFrames pd"
  obtains pd' m' tbl' where "VmSetupPagingStructure P pa2va (entry_at a j) (pd, m) = Some (pd', m')"
    and "tables_wf P tbl' (Phys m') pd'" and "tables_ext P (own_frames pd) tbl (Phys m) tbl' (Phys m')"
    and "paging_grown pd pd' 1" and "PteIsPresent P (Phys m' (entry_at a j))"
    and "PagesToZeroList m' = PagesToZeroList m"
proof -
  let ?k = "unat (CurrentIndex pd)"
  define f where "f = frame_at pd ?k"
  define pd' where "pd' = pd\<lparr>CurrentIndex := CurrentIndex pd + 1\<rparr>"
  define e where "e = PteMap P (Phys m (entry_at a j)) f
    (zero_flags\<lparr>Writable := True, Executable := True, PagingStructure := True, UserAccess := \<not> KernelSpace pd\<rparr>)"
  define m' where "m' = memzero_page f (PageInvalidateTlb (pa2va f) (write_entry (entry_at a j) e m))"
  have k: "?k < unat (NumberOfFrames pd)"
    using room by (simp add: word_less_nat_alt)
  note wfD = tables_wfD [OF wf]
  have f: "page_aligned f" "unat f < 2 ^ 52" "tbl f = None"
    using frame_at_wf [OF wf k] wfD(10) [OF _ k] by (simp_all add: f_def)
  have own: "f \<in> own_frames pd"
    using k by (auto simp: own_frames_def f_def)
  have f_eq: "BasePhysicalAddress pd + ucast (CurrentIndex pd) * PAGE_SIZE = f"
    by (simp add: f_def frame_at_def)
  have call: "VmSetupPagingStructure P pa2va (entry_at a j) (pd, m) = Some (pd', m')"
    using room by (simp add: VmSetupPagingStructure_def VmRetrieveNextPhysicalAddressForPagingStructure_def
        Let_def f_eq e_def [symmetric] m'_def pd'_def)
  have al: "page_aligned b" "unat b < 2 ^ 52" "b \<noteq> f" if "tbl b = Some q" for b q
    using wfD(6) [OF that] f(3) that by auto
  have in_f: "unat f \<le> unat (entry_at b l) \<and> unat (entry_at b l) < unat f + 4096 \<longleftrightarrow> b = f"
    if "page_aligned b" "unat b < 2 ^ 52" "l < 512" for b l
    using entry_at_in_page [OF f(1) that(1,2,3)] by auto
  have same: "entry_at b l = entry_at a j \<longleftrightarrow> b = a \<and> l = j" if "page_aligned b" "unat b < 2 ^ 52" "l < 512" for b l
    using entry_at_inj [of b a l j] al(1,2) [OF a(1)] that j by blast
  have zero: "Phys m' (entry_at f l) = 0" if "l < 512" for l
    using in_f [OF f(1,2) that] by (simp add: m'_def memzero_page_def)
  have old: "Phys m' (entry_at b l) = (if b = a \<and> l = j then e else Phys m (entry_at b l))"
    if "tbl b = Some q" "l < 512" for b q l
  proof -
    note b = al [OF that(1)]
    have "Phys m' (entry_at b l) = (if entry_at b l = entry_at a j then e else Phys m (entry_at b l))"
      using in_f [OF b(1,2) that(2)] b(3) unfolding m'_def memzero_page_def by auto
    then show ?thesis
      unfolding same [OF b(1,2) that(2)] .
  qed
  have link: "linked tbl (Phys m) a j f e (Phys m')"
    using f(3) zero old unfolding linked_def by blast
  have e: "PteIsPresent P e" "PteGetPhysicalAddress P e = f" "\<not> PtePageSize P e"
    using f by (simp_all add: e_def PteMap_present PteMap_address PteMap_structure)
  have "unat (CurrentIndex pd + 1) = Suc ?k"
    using k unat_dword_less [of "NumberOfFrames pd"] by (simp add: unat_word_ariths)
  then show thesis
    using that [OF call] linked_wf [OF wf a j absent link e k f_def] linked_ext [OF a link own] old [OF a(1) j] e(1)
    by (simp add: paging_grown_def pd'_def m'_def memzero_page_def)
qed

text \<open>One level of the map walk: afterwards the entry leads to a structure.\<close>

lemma VmMapPage_upper:
  assumes wf: "tables_wf P tbl (Phys m) pd" and a: "tbl a = Some p" "length p < 3" and j: "j < 512"
    and "va \<noteq> 0" and room: "unat (CurrentIndex pd) < unat (NumberOfFrames pd) \<or> PteIsPresent P (Phys m (entry_at a j))"
  obtains pd' m' tbl' b where
    "VmMapPage P pa2va vd ctx (entry_at a j) va (Suc (length p)) (pd, m) = Some (True, pd', m')"
    and "tables_wf P tbl' (Phys m') pd'" and "tables_ext P (own_frames pd) tbl (Phys m) tbl' (Phys m')"
    and "paging_grown pd pd' (if PteIsPresent P (Phys m (entry_at a j)) then 0 else 1)" and "PagesToZeroList m' = PagesToZeroList m"
    and "PteGetPhysicalAddress P (Phys m' (entry_at a j)) = b" and "\<not> PtePageSize P (Phys m' (entry_at a j))"
    and "tbl' b = Some (p @ [j])"
proof (cases "PteIsPresent P (Phys m (entry_at a j))")
  case True
  have "VmMapPage P pa2va vd ctx (entry_at a j) va (Suc (length p)) (pd, m) = Some (True, pd, m)"
    using True a(2) \<open>va \<noteq> 0\<close> by (simp add: VmMapPage_def)
  then show thesis
    using that [OF _ wf tables_ext_refl paging_grown_refl] tables_wfD(8) [OF wf a j True] True by simp
next
  case False
  have "CurrentIndex pd < NumberOfFrames pd"
    using room False by (simp add: word_less_nat_alt)
  then obtain pd' m' tbl' where st: "VmSetupPagingStructure P pa2va (entry_at a j) (pd, m) = Some (pd', m')"
      "tables_wf P tbl' (Phys m') pd'" "tables_ext P (own_frames pd) tbl (Phys m) tbl' (Phys m')"
      "paging_grown pd pd' 1" "PteIsPresent P (Phys m' (entry_at a j))" "PagesToZeroList m' = PagesToZeroList m"
    using VmSetupPagingStructure_wf [OF wf a j False] by blast
  have "VmMapPage P pa2va vd ctx (entry_at a j) va (Suc (length p)) (pd, m) = Some (True, pd', m')"
    using False a(2) \<open>va \<noteq> 0\<close> st(1) by (simp add: VmMapPage_def)
  moreover have "tbl' a = Some p"
    using st(3) a(1) map_le_Some by (auto simp: tables_ext_def)
  ultimately show thesis
    using that [OF _ st(2,3) _ st(6)] st(4) tables_wfD(8) [OF st(2) _ a(2) j st(5)] False by simp
qed

end

definition leaf_address :: "map_context \<Rightarrow> qword \<Rightarrow> qword" where
  "leaf_address ctx va = PhysicalAddressBase ctx + (va - VirtualAddressBase ctx)"

definition leaf_flags :: "vmm_data \<Rightarrow> map_context \<Rightarrow> bool \<Rightarrow> pte_map_flags" where
  "leaf_flags vd ctx ks = zero_flags\<lparr>Executable := PAGE_RIGHTS_EXECUTE \<in> CtxPageRights ctx,
     Writable := PAGE_RIGHTS_WRITE \<in> CtxPageRights ctx,
     PatIndex := if CtxUncacheable ctx then UncacheableIndex vd else WriteBackIndex vd,
     GlobalPage := ks, UserAccess := \<not> ks\<rparr>"

definition map_leaf :: "pte_lib \<Rightarrow> vmm_data \<Rightarrow> map_context \<Rightarrow> bool \<Rightarrow> qword \<Rightarrow> qword \<Rightarrow> pt_mem \<Rightarrow> pt_mem" where
  "map_leaf P vd ctx ks va x m =
     (if PteIsPresent P (Phys m x) \<and> \<not> Invalidate ctx then m
      else PageInvalidateTlb va
        (write_entry x (PteMap P (Phys m x) (leaf_address ctx va) (leaf_flags vd ctx ks)) m))"

lemma VmMapPage_leaf:
  "va \<noteq> 0 \<Longrightarrow> VmMapPage P pa2va vd ctx x va 4 (pd, m) = Some (True, pd, map_leaf P vd ctx (KernelSpace pd) va x m)"
  by (simp add: VmMapPage_def map_leaf_def leaf_address_def leaf_flags_def)

lemma tables_prefix:
  assumes "tables_wf P tbl ph pd"
  shows "tbl c = Some (q @ r) \<Longrightarrow> \<exists>b. tbl b = Some q"
proof (induction r arbitrary: c rule: rev_induct)
  case Nil
  then show ?case by auto
next
  case (snoc j r)
  then show ?case
    using tables_wfD(9) [OF assms, of c "q @ r" j] by auto
qed

lemma child_present:
  assumes wf: "tables_wf P tbl ph pd" and a: "tbl a = Some p" and c: "tbl c = Some (p @ j # q)"
  shows "PteIsPresent P (ph (entry_at a j))" and "tbl (PteGetPhysicalAddress P (ph (entry_at a j))) = Some (p @ [j])"
proof -
  obtain b where b: "tbl b = Some (p @ [j])"
    using tables_prefix [OF wf, of c "p @ [j]" q] c by auto
  then show "PteIsPresent P (ph (entry_at a j))" "tbl (PteGetPhysicalAddress P (ph (entry_at a j))) = Some (p @ [j])"
    using tables_wfD(9) [OF wf b] tables_wfD(7) [OF wf _ a] by blast+
qed

text \<open>\<open>missing_levels\<close> is how many structures the walk may have to set up: none if the last one is there.\<close>

definition missing_levels :: "(qword \<Rightarrow> nat list option) \<Rightarrow> nat list \<Rightarrow> nat list \<Rightarrow> nat" where
  "missing_levels tbl p js = (if \<exists>c. tbl c = Some (p @ butlast js) then 0 else length js - 1)"

context pte_contract
begin

lemma map_walk:
  assumes "tables_wf P tbl (Phys m) pd" and "tbl a = Some p" and "length p + length js = 4" and "js \<noteq> []"
    and "set js \<subseteq> {..<512}" and "va \<noteq> 0"
    and "unat (CurrentIndex pd) + missing_levels tbl p js \<le> unat (NumberOfFrames pd)"
  shows "\<exists>pd' m' tbl' c. VmWalkPagingTables_levels P (VmMapPage P pa2va vd ctx) va js (Suc (length p)) a (pd, m) =
      Some (pd', map_leaf P vd ctx (KernelSpace pd) va (entry_at c (last js)) m') \<and>
    tables_wf P tbl' (Phys m') pd' \<and> tables_ext P (own_frames pd) tbl (Phys m) tbl' (Phys m') \<and>
    paging_grown pd pd' (missing_levels tbl p js) \<and> PagesToZeroList m' = PagesToZeroList m \<and>
    tbl' c = Some (p @ butlast js)"
  using assms
proof (induction js arbitrary: a p pd m tbl)
  case Nil
  then show ?case by simp
next
  case (Cons j js)
  show ?case
  proof (cases "js = []")
    case True
    then have "length p = 3"
      using Cons.prems(3) by simp
    with True Cons.prems show ?thesis
      by (intro exI [of _ pd] exI [of _ m] exI [of _ tbl] exI [of _ a])
        (simp add: VmMapPage_leaf tables_ext_refl paging_grown_refl)
  next
    case False
    then have p: "length p < 3" and j: "j < 512" and js: "0 < length js" "set js \<subseteq> {..<512}"
      using Cons.prems(3,5) by (cases js; auto)+
    have one: "unat (CurrentIndex pd) < unat (NumberOfFrames pd) \<or> PteIsPresent P (Phys m (entry_at a j))"
    proof (cases "\<exists>c. tbl c = Some (p @ butlast (j # js))")
      case True
      then show ?thesis
        using child_present(1) [OF Cons.prems(1,2), of _ j "butlast js"] False by auto
    next
      case False
      then show ?thesis
        using Cons.prems(7) js(1) by (cases js) (simp_all add: missing_levels_def)
    qed
    obtain pd1 m1 tbl1 b where
      step: "VmMapPage P pa2va vd ctx (entry_at a j) va (Suc (length p)) (pd, m) = Some (True, pd1, m1)"
        "tables_wf P tbl1 (Phys m1) pd1" "tables_ext P (own_frames pd) tbl (Phys m) tbl1 (Phys m1)"
        "paging_grown pd pd1 (if PteIsPresent P (Phys m (entry_at a j)) then 0 else 1)" "PagesToZeroList m1 = PagesToZeroList m"
        "PteGetPhysicalAddress P (Phys m1 (entry_at a j)) = b" "\<not> PtePageSize P (Phys m1 (entry_at a j))"
        "tbl1 b = Some (p @ [j])"
      using VmMapPage_upper [OF Cons.prems(1,2) p j Cons.prems(6) one] by metis
    have less: "(if PteIsPresent P (Phys m (entry_at a j)) then 0 else 1) + missing_levels tbl1 (p @ [j]) js \<le>
        missing_levels tbl p (j # js)"
    proof (cases "\<exists>c. tbl c = Some (p @ butlast (j # js))")
      case True
      then obtain c where c: "tbl c = Some (p @ j # butlast js)"
        using False by auto
      then have "tbl1 c = Some ((p @ [j]) @ butlast js)"
        using step(3) map_le_Some by (auto simp: tables_ext_def)
      then show ?thesis
        using child_present(1) [OF Cons.prems(1,2) c] by (auto simp: missing_levels_def)
    next
      case False
      then show ?thesis
        using js(1) by (cases js) (auto simp: missing_levels_def)
    qed
    then have "unat (CurrentIndex pd1) + missing_levels tbl1 (p @ [j]) js \<le> unat (NumberOfFrames pd1)"
      using step(4) Cons.prems(7) unfolding paging_grown_def by (simp split: if_splits)
    from Cons.IH [OF step(2,8) _ False js(2) Cons.prems(6) this]
    obtain pd2 m2 tbl2 c where
      rest: "VmWalkPagingTables_levels P (VmMapPage P pa2va vd ctx) va js (Suc (length (p @ [j]))) b (pd1, m1) =
          Some (pd2, map_leaf P vd ctx (KernelSpace pd1) va (entry_at c (last js)) m2)"
        "tables_wf P tbl2 (Phys m2) pd2" "tables_ext P (own_frames pd1) tbl1 (Phys m1) tbl2 (Phys m2)"
        "paging_grown pd1 pd2 (missing_levels tbl1 (p @ [j]) js)" "PagesToZeroList m2 = PagesToZeroList m1"
        "tbl2 c = Some ((p @ [j]) @ butlast js)"
      using Cons.prems(3) by auto
    have "paging_grown pd pd2 (missing_levels tbl p (j # js))"
      using paging_grown_trans [OF step(4) rest(4)] less by (auto simp: paging_grown_def)
    moreover have "KernelSpace pd1 = KernelSpace pd"
      using step(4) by (simp add: paging_grown_def)
    ultimately show ?thesis
      using step rest False tables_ext_trans [OF step(3) rest(3) [unfolded paging_grown_own [OF step(4)]]]
      by (intro exI [of _ pd2] exI [of _ m2] exI [of _ tbl2] exI [of _ c]) simp
  qed
qed

end

subsection \<open>Looking up a page\<close>

fun pt_lookup :: "pte_lib \<Rightarrow> (qword \<Rightarrow> qword) \<Rightarrow> qword \<Rightarrow> nat list \<Rightarrow> qword option" where
  "pt_lookup P ph a [] = None"
| "pt_lookup P ph a (j # js) =
     (let e = ph (entry_at a j) in
      if \<not> PteIsPresent P e then None
      else if js = [] then Some e else pt_lookup P ph (PteGetPhysicalAddress P e) js)"

definition live_entry :: "pte_lib \<Rightarrow> qword \<Rightarrow> qword option" where
  "live_entry P e = (if PteIsPresent P e then Some e else None)"

lemma pt_lookup_table:
  assumes wf: "tables_wf P tbl ph pd"
  shows "tbl a = Some p \<Longrightarrow> length p + length js = 4 \<Longrightarrow> js \<noteq> [] \<Longrightarrow> set js \<subseteq> {..<512} \<Longrightarrow>
    (\<exists>c. tbl c = Some (p @ butlast js) \<and> pt_lookup P ph a js =
       live_entry P (ph (entry_at c (last js)))) \<or>
    (\<forall>c. tbl c \<noteq> Some (p @ butlast js)) \<and> pt_lookup P ph a js = None"
proof (induction js arbitrary: a p)
  case (Cons j js)
  show ?case
  proof (cases "js = []")
    case True
    then show ?thesis
      using Cons.prems by (auto simp: Let_def live_entry_def)
  next
    case False
    then have p: "length p < 3" and j: "j < 512" and js: "set js \<subseteq> {..<512}"
      using Cons.prems by (cases js; auto)+
    show ?thesis
    proof (cases "PteIsPresent P (ph (entry_at a j))")
      case True
      note b = tables_wfD(8) [OF wf Cons.prems(1) p j True]
      then have "tbl (PteGetPhysicalAddress P (ph (entry_at a j))) = Some (p @ [j])"
        by blast
      from Cons.IH [OF this _ False js] Cons.prems(2) False True show ?thesis
        by (simp add: Let_def)
    next
      case absent: False
      have "tbl c \<noteq> Some (p @ butlast (j # js))" for c
      proof
        assume "tbl c = Some (p @ butlast (j # js))"
        then have "tbl c = Some ((p @ [j]) @ butlast js)"
          using False by simp
        from tables_prefix [OF wf this] obtain b where "tbl b = Some (p @ [j])" ..
        then show False
          using tables_wfD(9) [OF wf, of b p j] tables_wfD(7) [OF wf _ Cons.prems(1)] absent by blast
      qed
      then show ?thesis
        using absent by (simp add: Let_def)
    qed
  qed
qed simp

definition path_ok :: "nat list \<Rightarrow> bool" where
  "path_ok js \<longleftrightarrow> length js = 4 \<and> set js \<subseteq> {..<512}"

abbreviation lookup :: "pte_lib \<Rightarrow> (qword \<Rightarrow> qword) \<Rightarrow> paging_data \<Rightarrow> nat list \<Rightarrow> qword option" where
  "lookup P ph pd js \<equiv> pt_lookup P ph (BasePhysicalAddress pd) js"

lemma lookup_cases:
  assumes "tables_wf P tbl ph pd" and "path_ok js"
  obtains (table) c where "tbl c = Some (butlast js)" and "lookup P ph pd js = live_entry P (ph (entry_at c (last js)))"
  | (none) "\<forall>c. tbl c \<noteq> Some (butlast js)" and "lookup P ph pd js = None"
proof -
  have "js \<noteq> []" "length ([] :: nat list) + length js = 4" "set js \<subseteq> {..<512}"
    using assms(2) by (auto simp: path_ok_def)
  then show thesis
    using pt_lookup_table [OF assms(1) tables_wfD(5) [OF assms(1)], of js] table none by auto
qed

lemma lookup_at:
  assumes "tables_wf P tbl ph pd" and "path_ok js" and "tbl c = Some (butlast js)"
  shows "lookup P ph pd js = live_entry P (ph (entry_at c (last js)))"
  using assms(1,2)
proof (cases rule: lookup_cases)
  case (table d)
  then show ?thesis
    using tables_wfD(7) [OF assms(1,3) table(1)] by simp
qed (use assms(3) in blast)

lemma lookup_none:
  assumes "tables_wf P tbl ph pd" and "path_ok js" and "\<forall>c. tbl c \<noteq> Some (butlast js)"
  shows "lookup P ph pd js = None"
  using assms(1,2) by (cases rule: lookup_cases) (use assms(3) in auto)

lemma lookup_ext:
  assumes wf: "tables_wf P tbl ph pd" and wf': "tables_wf P tbl' ph' pd'"
    and ext: "tables_ext P F tbl ph tbl' ph'" and base: "BasePhysicalAddress pd' = BasePhysicalAddress pd"
    and js: "path_ok js"
  shows "lookup P ph' pd' js = lookup P ph pd js"
  using wf' js
proof (cases rule: lookup_cases)
  case (table c)
  have len: "length (butlast js) = 3" and last: "last js < 512"
    using js by (auto simp: path_ok_def) (metis last_in_set lessThan_iff list.size(3) numeral_eq_iff subsetD zero_neq_numeral)
  show ?thesis
  proof (cases "tbl c = Some (butlast js)")
    case True
    then show ?thesis
      using table ext len last lookup_at [OF wf js True] unfolding tables_ext_def by (metis (full_types))
  next
    case False
    have "tbl d \<noteq> Some (butlast js)" for d
      using False ext tables_wfD(7) [OF wf' table(1)] map_le_Some unfolding tables_ext_def by metis
    moreover have "\<not> PteIsPresent P (ph' (entry_at c (last js)))"
      using False table(1) ext len last unfolding tables_ext_def by metis
    ultimately show ?thesis
      using table(2) lookup_none [OF wf js] by (simp add: live_entry_def)
  qed
next
  case none
  then have "tbl d \<noteq> Some (butlast js)" for d
    using ext map_le_Some unfolding tables_ext_def by metis
  then show ?thesis
    using none lookup_none [OF wf js] by simp
qed

lemma path_ok_snoc: "length q = 3 \<Longrightarrow> path_ok js \<Longrightarrow> butlast js = q \<and> last js = j \<longleftrightarrow> js = q @ [j]"
  by (cases js rule: rev_cases) (auto simp: path_ok_def)

lemma leaf_write_wf:
  assumes wf: "tables_wf P tbl ph pd" and c: "tbl c = Some q" "length q = 3" and j: "j < 512"
  shows "tables_wf P tbl (ph(entry_at c j := v)) pd"
proof -
  have same: "(ph(entry_at c j := v)) (entry_at b l) = ph (entry_at b l)"
    if "tbl b = Some r" "length r < 3" "l < 512" for b r l
  proof -
    have "b \<noteq> c"
      using that c by auto
    then show ?thesis
      using entry_at_inj [of b c l j] tables_wfD(6) [OF wf that(1)] tables_wfD(6) [OF wf c(1)] that(3) j by auto
  qed
  have parent: "\<exists>a. tbl a = Some r \<and> PteIsPresent P ((ph(entry_at c j := v)) (entry_at a l)) \<and>
      PteGetPhysicalAddress P ((ph(entry_at c j := v)) (entry_at a l)) = b"
    if b: "tbl b = Some (r @ [l])" for b r l
  proof -
    have "length r < 3"
      using tables_wfD(6) [OF wf b] by simp
    then show ?thesis
      using tables_wfD(9) [OF wf b] same by metis
  qed
  show ?thesis
    unfolding tables_wf_def
  proof (intro conjI)
    show "\<forall>a p l. tbl a = Some p \<longrightarrow> length p < 3 \<longrightarrow> l < 512 \<longrightarrow>
        PteIsPresent P ((ph(entry_at c j := v)) (entry_at a l)) \<longrightarrow>
        \<not> PtePageSize P ((ph(entry_at c j := v)) (entry_at a l)) \<and>
        tbl (PteGetPhysicalAddress P ((ph(entry_at c j := v)) (entry_at a l))) = Some (p @ [l])"
      using tables_wfD(8) [OF wf] same by metis
    show "\<forall>b p l. tbl b = Some (p @ [l]) \<longrightarrow> l < 512 \<and> (\<exists>a. tbl a = Some p \<and>
        PteIsPresent P ((ph(entry_at c j := v)) (entry_at a l)) \<and>
        PteGetPhysicalAddress P ((ph(entry_at c j := v)) (entry_at a l)) = b)"
      using tables_wfD(9) [OF wf] parent by blast
    show "\<forall>a b p. tbl a = Some p \<longrightarrow> tbl b = Some p \<longrightarrow> a = b"
      using tables_wfD(7) [OF wf] by blast
    show "\<forall>a p. tbl a = Some p \<longrightarrow> page_aligned a \<and> unat a < 2 ^ 52 \<and> length p \<le> 3"
      using tables_wfD(6) [OF wf] by blast
    show "\<forall>k. unat (CurrentIndex pd) \<le> k \<longrightarrow> k < unat (NumberOfFrames pd) \<longrightarrow> tbl (frame_at pd k) = None"
      using tables_wfD(10) [OF wf] by blast
  qed (use tables_wfD(1-5) [OF wf] in auto)
qed

lemma leaf_write_lookup:
  assumes wf: "tables_wf P tbl ph pd" and c: "tbl c = Some q" "length q = 3" and j: "j < 512" and js: "path_ok js"
  shows "lookup P (ph(entry_at c j := v)) pd js = (if js = q @ [j] then live_entry P v else lookup P ph pd js)"
  using leaf_write_wf [OF wf c j, of v] js
proof (cases rule: lookup_cases)
  case (table d)
  have last: "last js < 512"
    using js by (cases js rule: rev_cases) (auto simp: path_ok_def)
  have "entry_at d (last js) = entry_at c j \<longleftrightarrow> js = q @ [j]"
  proof
    assume "entry_at d (last js) = entry_at c j"
    then have "d = c" "last js = j"
      using entry_at_inj [of d c "last js" j] tables_wfD(6) [OF wf table(1)] tables_wfD(6) [OF wf c(1)] last j
      by blast+
    then show "js = q @ [j]"
      using table(1) c(1) path_ok_snoc [OF c(2) js, of j] by simp
  next
    assume "js = q @ [j]"
    then show "entry_at d (last js) = entry_at c j"
      using tables_wfD(7) [OF wf _ c(1)] table(1) by simp
  qed
  then show ?thesis
    using table(2) lookup_at [OF wf js table(1)] by auto
next
  case none
  then have "js \<noteq> q @ [j]"
    using c(1) by auto
  then show ?thesis
    using none lookup_none [OF wf js] by simp
qed

subsection \<open>One page\<close>

text \<open>The paging data and the memory form a well-formed tree of paging structures.\<close>

definition paging_ok :: "pte_lib \<Rightarrow> paging_data \<Rightarrow> pt_mem \<Rightarrow> bool" where
  "paging_ok P pd m \<longleftrightarrow> (\<exists>tbl. tables_wf P tbl (Phys m) pd)"

text \<open>The same, with all structures in the frames \<open>F\<close>.\<close>

definition paging_within :: "pte_lib \<Rightarrow> qword set \<Rightarrow> paging_data \<Rightarrow> pt_mem \<Rightarrow> bool" where
  "paging_within P F pd m \<longleftrightarrow> (\<exists>tbl. tables_wf P tbl (Phys m) pd \<and> dom tbl \<subseteq> F)"

lemma paging_within_ok: "paging_within P F pd m \<Longrightarrow> paging_ok P pd m"
  by (auto simp: paging_within_def paging_ok_def)

lemma paging_ok_within: "paging_ok P pd m \<longleftrightarrow> paging_within P UNIV pd m"
  by (auto simp: paging_within_def paging_ok_def)

text \<open>The entry that translates a virtual address, if it is mapped.\<close>

definition va_entry :: "pte_lib \<Rightarrow> paging_data \<Rightarrow> pt_mem \<Rightarrow> qword \<Rightarrow> qword option" where
  "va_entry P pd m va = lookup P (Phys m) pd (va_offsets P va)"

text \<open>Unmapping clears the entry of the page, or does nothing when the page is not mapped.\<close>

definition unmap_leaf :: "addr_lib \<Rightarrow> pte_lib \<Rightarrow> bool \<Rightarrow> qword \<Rightarrow> qword \<Rightarrow> pt_mem \<Rightarrow> pt_mem" where
  "unmap_leaf A P release va x m =
     (let m' = PageInvalidateTlb va (write_entry x (PteUnmap P (Phys m x)) m) in
      if release then m'\<lparr>PagesToZeroList := PagesToZeroList m' @ [(PteGetPhysicalAddress P (Phys m x), 1)]\<rparr> else m')"

text \<open>The frames behind the mapped ones of a list of pages, in order, as they are queued for release.\<close>

definition mapped_frames ::
  "pte_lib \<Rightarrow> paging_data \<Rightarrow> pt_mem \<Rightarrow> bool \<Rightarrow> qword list \<Rightarrow> (qword \<times> dword) list" where
  "mapped_frames P pd m release vas = concat (map (\<lambda>va. case va_entry P pd m va of
     Some e \<Rightarrow> if release then [(PteGetPhysicalAddress P e, 1)] else [] | None \<Rightarrow> []) vas)"

lemma va_offsets_nonempty [simp]: "va_offsets P va \<noteq> []"
  by (simp add: va_offsets_def)

context pte_contract
begin

lemma path_ok_va_offsets: "path_ok (va_offsets P va)"
  by (simp add: path_ok_def va_offsets_def MASK_offsets)

lemma Cr3_base: "tables_wf P tbl ph pd \<Longrightarrow> Cr3PhysicalAddress P (BasePhysicalAddress pd) = BasePhysicalAddress pd"
  using tables_wfD(5,6) [of P tbl ph pd] by (intro Cr3PhysicalAddress_aligned) blast+

lemma map_page:
  assumes "paging_within P F pd m" and "va \<noteq> 0"
    and "unat (CurrentIndex pd) + k \<le> unat (NumberOfFrames pd)" and own: "own_frames pd \<subseteq> F"
    and k: "3 \<le> k \<or> (\<exists>va'. va_entry P pd m va' \<noteq> None \<and> butlast (va_offsets P va') = butlast (va_offsets P va))"
  shows "\<exists>pd' m'. VmWalkPagingTables_levels P (VmMapPage P pa2va vd ctx) va (va_offsets P va) 1
      (Cr3PhysicalAddress P (BasePhysicalAddress pd)) (pd, m) = Some (pd', m') \<and>
    paging_within P F pd' m' \<and> paging_grown pd pd' k \<and> PagesToZeroList m' = PagesToZeroList m \<and>
    (\<forall>js. path_ok js \<longrightarrow> js \<noteq> va_offsets P va \<longrightarrow> lookup P (Phys m') pd js = lookup P (Phys m) pd js) \<and>
    (if Invalidate ctx \<or> va_entry P pd m va = None
     then (\<exists>e. va_entry P pd m' va = Some (PteMap P e (leaf_address ctx va) (leaf_flags vd ctx (KernelSpace pd))))
       \<and> va \<in> set (Invalidated m')
     else va_entry P pd m' va = va_entry P pd m va)"
proof -
  obtain tbl where wf: "tables_wf P tbl (Phys m) pd" and dom: "dom tbl \<subseteq> F"
    using assms(1) by (auto simp: paging_within_def)
  let ?js = "va_offsets P va"
  have js: "length ?js = 4" "?js \<noteq> []" "set ?js \<subseteq> {..<512}" "path_ok ?js"
    using path_ok_va_offsets [of va] by (auto simp: path_ok_def)
  have missing: "missing_levels tbl [] ?js \<le> k"
    using k
  proof (elim disjE exE conjE)
    fix va'
    assume va': "va_entry P pd m va' \<noteq> None" "butlast (va_offsets P va') = butlast ?js"
    from wf path_ok_va_offsets [of va'] show ?thesis
      by (cases rule: lookup_cases) (use va' in \<open>auto simp: va_entry_def missing_levels_def\<close>)
  qed (simp add: missing_levels_def js)
  from map_walk [OF wf tables_wfD(5) [OF wf], of ?js va pa2va vd ctx] js assms(2,3) missing
  obtain pd' m1 tbl' c where
    walk: "VmWalkPagingTables_levels P (VmMapPage P pa2va vd ctx) va ?js 1 (BasePhysicalAddress pd) (pd, m) =
        Some (pd', map_leaf P vd ctx (KernelSpace pd) va (entry_at c (last ?js)) m1)"
      "tables_wf P tbl' (Phys m1) pd'" "tables_ext P (own_frames pd) tbl (Phys m) tbl' (Phys m1)"
      "paging_grown pd pd' (missing_levels tbl [] ?js)" "PagesToZeroList m1 = PagesToZeroList m" "tbl' c = Some (butlast ?js)"
    by auto
  have grown: "paging_grown pd pd' k"
    using walk(4) missing by (simp add: paging_grown_def)
  let ?x = "entry_at c (last ?js)"
  let ?m' = "map_leaf P vd ctx (KernelSpace pd) va ?x m1"
  let ?v = "PteMap P (Phys m1 ?x) (leaf_address ctx va) (leaf_flags vd ctx (KernelSpace pd))"
  have base: "BasePhysicalAddress pd' = BasePhysicalAddress pd"
    using walk(4) by (simp add: paging_grown_def)
  have len: "length (butlast ?js) = 3" "last ?js < 512"
    using js by (auto simp: va_offsets_def)
  have ext: "lookup P (Phys m1) pd js = lookup P (Phys m) pd js" if "path_ok js" for js
    using lookup_ext [OF wf walk(2,3) base that] base by simp
  have at: "va_entry P pd m va = live_entry P (Phys m1 ?x)"
    using ext [OF js(4)] lookup_at [OF walk(2) js(4) walk(6)] base by (simp add: va_entry_def)
  have upd: "lookup P ((Phys m1)(?x := ?v)) pd js = (if js = ?js then Some ?v else lookup P (Phys m) pd js)"
    if "path_ok js" for js
    using leaf_write_lookup [OF walk(2,6) len that, of ?v] base ext [OF that] js(2) append_butlast_last_id [of ?js]
    by (simp add: live_entry_def PteMap_present)
  have "dom tbl' \<subseteq> F"
    using walk(3) dom own unfolding tables_ext_def by blast
  then have ok: "paging_within P F pd' ?m'"
    using walk(2) leaf_write_wf [OF walk(2,6) len] by (auto simp: paging_within_def map_leaf_def)
  show ?thesis
    using walk(1,5) grown ok ext upd at js(4)
    by (intro exI [of _ pd'] exI [of _ ?m'])
      (auto simp: Cr3_base [OF wf] map_leaf_def va_entry_def live_entry_def)
qed

lemma get_walk:
  assumes wf: "tables_wf P tbl (Phys m) pd" and "va \<noteq> 0" and "\<not> ClearAccessed ctx" and "\<not> ClearDirty ctx"
  shows "tbl a = Some p \<Longrightarrow> length p + length js = 4 \<Longrightarrow> js \<noteq> [] \<Longrightarrow> set js \<subseteq> {..<512} \<Longrightarrow>
    VmWalkPagingTables_levels P (VmRetrievePhyAccess A P) va js (Suc (length p)) a (ctx, m) =
    Some (case pt_lookup P (Phys m) a js of
            None \<Rightarrow> ctx\<lparr>CtxPhysicalAddress := 0\<rparr>
          | Some e \<Rightarrow> ctx\<lparr>CtxPhysicalAddress := PteGetPhysicalAddress P e, Accessed := PteAccessed P e,
              Dirty := PteDirty P e\<rparr>, m)"
proof (induction js arbitrary: a p)
  case (Cons j js)
  show ?case
  proof (cases "PteIsPresent P (Phys m (entry_at a j))")
    case False
    then show ?thesis
      using Cons.prems assms(2) by (auto simp: VmRetrievePhyAccess_def Let_def)
  next
    case True
    show ?thesis
    proof (cases "js = []")
      case last: True
      then have "length p = 3"
        using Cons.prems(2) by simp
      then show ?thesis
        using True last assms(2-4) by (simp add: VmRetrievePhyAccess_def Let_def)
    next
      case False
      then have p: "length p < 3" and j: "j < 512" and js: "set js \<subseteq> {..<512}"
        using Cons.prems by (cases js; auto)+
      note b = tables_wfD(8) [OF wf Cons.prems(1) p j True]
      have step: "VmRetrievePhyAccess A P (entry_at a j) va (Suc (length p)) (ctx, m) = Some (True, ctx, m)"
        using True b p assms(2) by (auto simp: VmRetrievePhyAccess_def)
      from Cons.IH [OF conjunct2 [OF b] _ False js] Cons.prems(2) show ?thesis
        using True b p False step by (simp add: Let_def)
    qed
  qed
qed simp

lemma VmmGetPhysicalAddress_entry:
  assumes "paging_ok P pd m" and "addr_contract A" and "page_aligned va" and "va \<noteq> 0"
  shows "VmmGetPhysicalAddressEx A P (BasePhysicalAddress pd) va False False m =
    Some (case va_entry P pd m va of
            None \<Rightarrow> (0, False, False, m)
          | Some e \<Rightarrow> (PteGetPhysicalAddress P e, PteAccessed P e, PteDirty P e, m))"
proof -
  obtain tbl where wf: "tables_wf P tbl (Phys m) pd"
    using assms(1) by (auto simp: paging_ok_def)
  let ?ctx = "\<lparr>CtxPhysicalAddress = 0, Accessed = False, Dirty = False, ClearAccessed = False, ClearDirty = False\<rparr>"
  have "VmWalkPagingTables P (VmRetrievePhyAccess A P) (BasePhysicalAddress pd) va PAGE_SIZE (?ctx, m) =
      VmWalkPagingTables_levels P (VmRetrievePhyAccess A P) va (va_offsets P va) 1 (BasePhysicalAddress pd) (?ctx, m)"
    by (simp add: VmWalkPagingTables_def VmWalkPagingTables_pages.simps [of _ _ _ _ _ 0]
        VmWalkPagingTables_pages_done Cr3_base [OF wf])
  also have "\<dots> = Some (case va_entry P pd m va of
            None \<Rightarrow> ?ctx\<lparr>CtxPhysicalAddress := 0\<rparr>
          | Some e \<Rightarrow> ?ctx\<lparr>CtxPhysicalAddress := PteGetPhysicalAddress P e, Accessed := PteAccessed P e,
              Dirty := PteDirty P e\<rparr>, m)"
    using get_walk [OF wf assms(4) _ _ tables_wfD(5) [OF wf], of ?ctx "va_offsets P va" A] path_ok_va_offsets [of va]
    by (auto simp: va_entry_def path_ok_def)
  finally show ?thesis
    using assms(2-4) by (simp add: VmmGetPhysicalAddressEx_def addr_contract.IsAddressAligned_page split: option.splits)
qed

lemma VmUnmapPage_leaf:
  assumes "addr_contract A" and "va \<noteq> 0" and "PteIsPresent P (Phys m x)"
  shows "VmUnmapPage A P release x va 4 ((), m) = Some (True, (), unmap_leaf A P release va x m)"
  using assms
  by (simp add: VmUnmapPage_def unmap_leaf_def MmuReleaseMemory_def Let_def addr_contract.IsAddressAligned_page
      PteGetPhysicalAddress_aligned)

lemma unmap_walk:
  assumes wf: "tables_wf P tbl (Phys m) pd" and A: "addr_contract A" and "va \<noteq> 0"
  shows "tbl a = Some p \<Longrightarrow> length p + length js = 4 \<Longrightarrow> js \<noteq> [] \<Longrightarrow> set js \<subseteq> {..<512} \<Longrightarrow>
    (case pt_lookup P (Phys m) a js of
       None \<Rightarrow> VmWalkPagingTables_levels P (VmUnmapPage A P release) va js (Suc (length p)) a ((), m) = Some ((), m)
     | Some e \<Rightarrow> \<exists>c. tbl c = Some (p @ butlast js) \<and> e = Phys m (entry_at c (last js)) \<and>
         VmWalkPagingTables_levels P (VmUnmapPage A P release) va js (Suc (length p)) a ((), m) =
           Some ((), unmap_leaf A P release va (entry_at c (last js)) m))"
proof (induction js arbitrary: a p)
  case (Cons j js)
  show ?case
  proof (cases "PteIsPresent P (Phys m (entry_at a j))")
    case False
    then show ?thesis
      using Cons.prems assms(3) by (auto simp: VmUnmapPage_def Let_def)
  next
    case True
    show ?thesis
    proof (cases "js = []")
      case last: True
      then have "length p = 3"
        using Cons.prems(2) by simp
      then show ?thesis
        using True last Cons.prems(1) VmUnmapPage_leaf [OF A assms(3) True] by (auto simp: Let_def)
    next
      case False
      then have p: "length p < 3" and j: "j < 512" and js: "set js \<subseteq> {..<512}"
        using Cons.prems by (cases js; auto)+
      note b = tables_wfD(8) [OF wf Cons.prems(1) p j True]
      have step: "VmUnmapPage A P release (entry_at a j) va (Suc (length p)) ((), m) = Some (True, (), m)"
        using True p assms(3) by (auto simp: VmUnmapPage_def)
      from Cons.IH [OF conjunct2 [OF b] _ False js] Cons.prems(2) show ?thesis
        using True b p False step by (simp add: Let_def split: option.splits)
    qed
  qed
qed simp

lemma unmap_page:
  assumes "paging_ok P pd m" and A: "addr_contract A" and "va \<noteq> 0"
  shows "\<exists>m'. VmWalkPagingTables_levels P (VmUnmapPage A P release) va (va_offsets P va) 1
      (Cr3PhysicalAddress P (BasePhysicalAddress pd)) ((), m) = Some ((), m') \<and>
    paging_ok P pd m' \<and> va_entry P pd m' va = None \<and>
    (\<forall>js. path_ok js \<longrightarrow> js \<noteq> va_offsets P va \<longrightarrow> lookup P (Phys m') pd js = lookup P (Phys m) pd js) \<and>
    PagesToZeroList m' = PagesToZeroList m @
      (case va_entry P pd m va of Some e \<Rightarrow> if release then [(PteGetPhysicalAddress P e, 1)] else [] | None \<Rightarrow> [])"
proof -
  obtain tbl where wf: "tables_wf P tbl (Phys m) pd"
    using assms(1) by (auto simp: paging_ok_def)
  let ?js = "va_offsets P va"
  have js: "length ?js = 4" "set ?js \<subseteq> {..<512}" "path_ok ?js"
    using path_ok_va_offsets [of va] by (auto simp: path_ok_def)
  note walk = unmap_walk [OF wf A assms(3) tables_wfD(5) [OF wf], of ?js release]
  show ?thesis
  proof (cases "va_entry P pd m va")
    case None
    then show ?thesis
      using walk js assms(1) by (auto simp: va_entry_def Cr3_base [OF wf])
  next
    case (Some e)
    then obtain c where c: "tbl c = Some (butlast ?js)" "e = Phys m (entry_at c (last ?js))"
        "VmWalkPagingTables_levels P (VmUnmapPage A P release) va ?js 1 (BasePhysicalAddress pd) ((), m) =
          Some ((), unmap_leaf A P release va (entry_at c (last ?js)) m)"
      using walk js by (auto simp: va_entry_def)
    let ?x = "entry_at c (last ?js)" and ?m' = "unmap_leaf A P release va (entry_at c (last ?js)) m"
    have len: "length (butlast ?js) = 3" "last ?js < 512"
      using js by (auto simp: va_offsets_def)
    have ph: "Phys ?m' = (Phys m)(?x := PteUnmap P e)"
      by (simp add: unmap_leaf_def Let_def c(2))
    have upd: "lookup P (Phys ?m') pd js = (if js = ?js then None else lookup P (Phys m) pd js)" if "path_ok js" for js
      unfolding ph using leaf_write_lookup [OF wf c(1) len that, of "PteUnmap P e"] append_butlast_last_id [of ?js]
      by (simp add: live_entry_def PteUnmap_absent)
    have "paging_ok P pd ?m'"
      using leaf_write_wf [OF wf c(1) len] by (auto simp: paging_ok_def ph)
    moreover have "PagesToZeroList ?m' = PagesToZeroList m @ (if release then [(PteGetPhysicalAddress P e, 1)] else [])"
      by (simp add: unmap_leaf_def Let_def c(2))
    ultimately show ?thesis
      using c(3) upd js(3) Some by (intro exI [of _ ?m']) (auto simp: va_entry_def Cr3_base [OF wf])
  qed
qed

end

subsection \<open>Ranges of pages\<close>

text \<open>Two addresses have the same path exactly when bits 12 to 47 agree.\<close>

definition page_no :: "qword \<Rightarrow> nat" where
  "page_no va = unat va div 4096 mod 2 ^ 36"

lemma nine_bit_digits:
  fixes x y :: nat
  assumes "x mod 512 = y mod 512" and "x div 512 mod 512 = y div 512 mod 512"
    and "x div 262144 mod 512 = y div 262144 mod 512" and "x div 134217728 mod 512 = y div 134217728 mod 512"
  shows "x mod 68719476736 = y mod 68719476736"
  using mod_mult2_eq [of x 512 512] mod_mult2_eq [of y 512 512] mod_mult2_eq [of x 262144 512]
    mod_mult2_eq [of y 262144 512] mod_mult2_eq [of x 134217728 512] mod_mult2_eq [of y 134217728 512] assms
  by simp

context pte_contract
begin

lemma va_offsets_page_no: "va_offsets P a = va_offsets P b \<Longrightarrow> page_no a = page_no b"
proof -
  assume eq: "va_offsets P a = va_offsets P b"
  have d: "unat v div 4096 div 512 = unat v div 2097152" "unat v div 4096 div 262144 = unat v div 1073741824"
    "unat v div 4096 div 134217728 = unat v div 549755813888" for v :: qword
    by (simp_all flip: div_mult2_eq)
  have "unat a div 4096 mod 68719476736 = unat b div 4096 mod 68719476736"
    using eq by (intro nine_bit_digits) (simp_all add: va_offsets_def MASK_offsets d)
  then show ?thesis
    by (simp add: page_no_def)
qed

end

definition range_va :: "qword \<Rightarrow> nat \<Rightarrow> qword" where
  "range_va base k = base + word_of_nat (4096 * k)"

text \<open>A range of \<open>n\<close> pages that does not wrap and lies within the reach of 48 address bits.\<close>

definition range_ok :: "qword \<Rightarrow> nat \<Rightarrow> bool" where
  "range_ok base n \<longleftrightarrow> page_aligned base \<and> base \<noteq> 0 \<and> unat base + 4096 * n \<le> 2 ^ 64 \<and> n \<le> 2 ^ 36"

lemma unat_range_va:
  assumes "range_ok base n" and "k < n"
  shows "unat (range_va base k) = unat base + 4096 * k"
proof -
  have b: "unat base + 4096 * k < 2 ^ 64"
    using assms by (simp add: range_ok_def)
  then have u: "unat (word_of_nat (4096 * k) :: qword) = 4096 * k"
    by (subst unat_of_nat) simp
  show ?thesis
    unfolding range_va_def using b unat_add_less [of base "word_of_nat (4096 * k)", unfolded u] by blast
qed

lemma range_va_aligned: "range_ok base n \<Longrightarrow> k < n \<Longrightarrow> page_aligned (range_va base k)"
  using unat_range_va [of base n k] by (auto simp: range_ok_def page_aligned_unat)

lemma range_va_nonzero: "range_ok base n \<Longrightarrow> k < n \<Longrightarrow> range_va base k \<noteq> 0"
  using unat_range_va [of base n k] by (auto simp: range_ok_def unat_eq_zero)

lemma mod_shift_inj:
  fixes x k l q :: nat
  assumes "(x + k) mod q = (x + l) mod q" and "k < q" and "l < q"
  shows "k = l"
proof -
  have le: "k' = l'" if "k' \<le> l'" "l' < q" "(x + l') mod q = (x + k') mod q" for k' l'
  proof -
    have "q dvd l' - k'"
      using that mod_eq_dvd_iff_nat [of "x + k'" "x + l'" q] by simp
    then show ?thesis
      using that(1,2) nat_dvd_not_less [of "l' - k'" q] by fastforce
  qed
  show ?thesis
    using le [of k l] le [of l k] assms by (cases "k \<le> l") auto
qed

lemma range_va_page_no:
  assumes "range_ok base n" and "k < n" and "l < n" and "page_no (range_va base k) = page_no (range_va base l)"
  shows "k = l"
proof -
  obtain x where x: "unat base = 4096 * x"
    using assms(1) by (auto simp: range_ok_def page_aligned_unat elim!: dvdE)
  have no: "unat (range_va base i) div 4096 = x + i" if "i < n" for i
  proof -
    have "unat (range_va base i) = 4096 * (x + i)"
      using unat_range_va [OF assms(1) that] by (simp add: x)
    then show ?thesis by simp
  qed
  have "(x + k) mod 2 ^ 36 = (x + l) mod 2 ^ 36"
    using assms(4) unfolding page_no_def no [OF assms(2)] no [OF assms(3)] .
  moreover have "k < 2 ^ 36" "l < 2 ^ 36"
    using assms(1-3) by (auto simp: range_ok_def)
  ultimately show ?thesis
    by (rule mod_shift_inj)
qed

text \<open>
  How many structures the walk for page \<open>k\<close> of a range may set up: only the first page, and a page at the
  start of another 2 MB, can need new ones.
\<close>

definition structures_at :: "qword \<Rightarrow> nat \<Rightarrow> nat" where
  "structures_at base k = (if k = 0 \<or> (unat base div 4096 + k) mod 512 = 0 then 3 else 0)"

definition structures_for :: "nat \<Rightarrow> nat" where
  "structures_for n = min (3 * n) (3 * (n div 512 + 2))"

lemma structures_for_one: "structures_for (Suc 0) = 3"
  by (simp add: structures_for_def)

lemma card_le_1I: "finite A \<Longrightarrow> (\<And>k l. k \<in> A \<Longrightarrow> l \<in> A \<Longrightarrow> k = l) \<Longrightarrow> card A \<le> 1"
  by (simp add: card_le_Suc0_iff_eq)

lemma card_multiples: "card {k \<in> {0..<n}. (x + k) mod 512 = 0} \<le> n div 512 + (1 :: nat)"
proof (induction n rule: less_induct)
  case (less n)
  show ?case
  proof (cases "n < 512")
    case True
    have "k = l" if "k < n" "l < n" "(x + k) mod 512 = 0" "(x + l) mod 512 = 0" for k l
      using that True mod_shift_inj [of x k 512 l] by simp
    then have "card {k \<in> {0..<n}. (x + k) mod 512 = 0} \<le> 1"
      by (intro card_le_1I) auto
    then show ?thesis
      by simp
  next
    case False
    let ?A = "\<lambda>m l. {k \<in> {m..<l}. (x + k) mod 512 = 0}"
    have "?A 0 n = ?A 0 (n - 512) \<union> ?A (n - 512) n"
      using False by auto
    then have "card (?A 0 n) \<le> card (?A 0 (n - 512)) + card (?A (n - 512) n)"
      by (simp add: card_Un_le)
    moreover have "card (?A (n - 512) n) \<le> 1"
    proof (rule card_le_1I)
      fix k l
      assume kl: "k \<in> ?A (n - 512) n" "l \<in> ?A (n - 512) n"
      then have "k - (n - 512) < 512" "l - (n - 512) < 512" "n - 512 \<le> k" "n - 512 \<le> l"
        "(x + k) mod 512 = (x + l) mod 512"
        using False by auto
      then have "k - (n - 512) = l - (n - 512)" "n - 512 \<le> k" "n - 512 \<le> l"
        using mod_shift_inj [of "x + (n - 512)" "k - (n - 512)" 512 "l - (n - 512)"] by simp_all
      then show "k = l"
        by linarith
    qed simp
    moreover have "card (?A 0 (n - 512)) \<le> (n - 512) div 512 + 1"
      using less [of "n - 512"] False by simp
    moreover have "n div 512 = Suc ((n - 512) div 512)"
      using False by (simp add: le_div_geq)
    ultimately show ?thesis
      by linarith
  qed
qed

lemma div_pred: "(y - 1) div 512 = y div 512" if "y mod 512 \<noteq> 0" for y :: nat
proof (rule div_nat_eqI)
  have "512 * (y div 512) + y mod 512 = y" "y mod 512 < 512"
    by simp_all
  then have "y < 512 * (y div 512) + 512" "512 * (y div 512) < y"
    using that by linarith+
  then show "512 * (y div 512) \<le> y - 1" "y - 1 < 512 * Suc (y div 512)"
    by simp_all
qed

lemma structures_for_range: "(\<Sum>k = 0..<n. structures_at base k) \<le> structures_for n"
proof -
  let ?x = "unat base div 4096" and ?s = "\<Sum>k = 0..<n. structures_at base k"
  let ?A = "{k \<in> {0..<n}. (?x + k) mod 512 = 0}"
  have "?s \<le> (\<Sum>k = 0..<n. 3)"
    by (rule sum_mono) (simp add: structures_at_def)
  then have upper: "?s \<le> 3 * n"
    by simp
  have "?s = 3 * card {k \<in> {0..<n}. k = 0 \<or> (?x + k) mod 512 = 0}"
    unfolding structures_at_def by (simp add: sum.If_cases Int_def conj_commute)
  also have "\<dots> \<le> 3 * card (insert 0 ?A)"
    by (intro mult_le_mono2 card_mono) auto
  also have "\<dots> \<le> 3 * Suc (card ?A)"
    by (intro mult_le_mono2) (simp add: card_insert_if)
  also have "\<dots> \<le> 3 * (n div 512 + 2)"
    using card_multiples [where x = ?x and n = n] by simp
  finally show ?thesis
    using upper unfolding structures_for_def by (rule min.boundedI [rotated])
qed

context pte_contract
begin

lemma range_path_inj:
  "range_ok base n \<Longrightarrow> k < n \<Longrightarrow> l < n \<Longrightarrow>
   va_offsets P (range_va base k) = va_offsets P (range_va base l) \<longleftrightarrow> k = l"
  using range_va_page_no va_offsets_page_no by blast

lemma range_path_other:
  assumes "\<forall>k < n. page_no v \<noteq> page_no (range_va base k)" and "k < n"
  shows "va_offsets P v \<noteq> va_offsets P (range_va base k)"
proof
  assume "va_offsets P v = va_offsets P (range_va base k)"
  then have "page_no v = page_no (range_va base k)"
    by (rule va_offsets_page_no)
  then show False
    using assms by blast
qed

lemma same_structure:
  assumes rng: "range_ok base n" and "0 < i" "i < n" "(unat base div 4096 + i) mod 512 \<noteq> 0"
  shows "butlast (va_offsets P (range_va base (i - 1))) = butlast (va_offsets P (range_va base i))"
proof -
  obtain x where x: "unat base = 4096 * x"
    using rng by (auto simp: range_ok_def page_aligned_unat elim!: dvdE)
  have va: "unat (range_va base k) = 4096 * (x + k)" if "k < n" for k
    using unat_range_va [OF rng that] by (simp add: x)
  have "(x + i - 1) div 512 = (x + i) div 512"
    using assms(4) by (intro div_pred) (simp add: x)
  then have "(x + i) div 512 = (x + (i - 1)) div 512"
    using assms(2) by simp
  then have two: "unat (range_va base i) div 2 ^ 21 = unat (range_va base (i - 1)) div 2 ^ 21"
    using va [of i] va [of "i - 1"] assms(2,3) by (simp add: div_mult2_eq [of _ 4096 512, simplified])
  have up: "a div 2 ^ 30 = a div 2 ^ 21 div 2 ^ 9" "a div 2 ^ 39 = a div 2 ^ 21 div 2 ^ 18" for a :: nat
    by (simp_all add: div_mult2_eq [symmetric])
  have "unat (range_va base (i - 1)) div 2 ^ 30 = unat (range_va base i) div 2 ^ 30"
    "unat (range_va base (i - 1)) div 2 ^ 39 = unat (range_va base i) div 2 ^ 39"
    by (simp_all only: up two)
  then show ?thesis
    using two by (simp add: va_offsets_def MASK_offsets)
qed

lemma map_pages:
  assumes rng: "range_ok base n"
  shows "i \<le> n \<Longrightarrow> paging_within P F pd m \<Longrightarrow> own_frames pd \<subseteq> F \<Longrightarrow> unat (CurrentIndex pd) + (\<Sum>k = i..<n. structures_at base k) \<le> unat (NumberOfFrames pd) \<Longrightarrow>
    i = 0 \<or> va_entry P pd m (range_va base (i - 1)) \<noteq> None \<Longrightarrow>
    Invalidate ctx \<or> (\<forall>k \<in> {i..<n}. va_entry P pd m (range_va base k) = None) \<Longrightarrow>
    \<exists>pd' m'. VmWalkPagingTables_pages P (VmMapPage P pa2va vd ctx) (BasePhysicalAddress pd) base (4096 * n) (4096 * i) (pd, m) =
      Some (pd', m') \<and>
    paging_within P F pd' m' \<and> paging_grown pd pd' (\<Sum>k = i..<n. structures_at base k) \<and> PagesToZeroList m' = PagesToZeroList m \<and>
    (\<forall>js. path_ok js \<longrightarrow> (\<forall>k \<in> {i..<n}. js \<noteq> va_offsets P (range_va base k)) \<longrightarrow>
       lookup P (Phys m') pd js = lookup P (Phys m) pd js) \<and>
    (\<forall>k \<in> {i..<n}. \<exists>e. va_entry P pd m' (range_va base k) =
       Some (PteMap P e (leaf_address ctx (range_va base k)) (leaf_flags vd ctx (KernelSpace pd))))"
proof (induction "n - i" arbitrary: i pd m)
  case 0
  then show ?case
    by (intro exI [of _ pd] exI [of _ m]) (simp add: VmWalkPagingTables_pages.simps paging_grown_refl)
next
  case (Suc d)
  then have i: "i < n" and d: "d = n - Suc i"
    by auto
  let ?va = "range_va base i"
  have ni: "(\<Sum>k = i..<n. structures_at base k) = structures_at base i + (\<Sum>k = Suc i..<n. structures_at base k)"
    using i by (simp add: sum.atLeast_Suc_lessThan)
  have room: "unat (CurrentIndex pd) + structures_at base i \<le> unat (NumberOfFrames pd)"
    using Suc.prems(4) ni by linarith
  have sibling: "3 \<le> structures_at base i \<or>
      (\<exists>va'. va_entry P pd m va' \<noteq> None \<and> butlast (va_offsets P va') = butlast (va_offsets P ?va))"
    using Suc.prems(5) same_structure [OF rng, of i] i by (auto simp: structures_at_def)
  obtain pd1 m1 where
    page: "VmWalkPagingTables_levels P (VmMapPage P pa2va vd ctx) ?va (va_offsets P ?va) 1
        (Cr3PhysicalAddress P (BasePhysicalAddress pd)) (pd, m) = Some (pd1, m1)"
      "paging_within P F pd1 m1" "paging_grown pd pd1 (structures_at base i)" "PagesToZeroList m1 = PagesToZeroList m"
      "\<forall>js. path_ok js \<longrightarrow> js \<noteq> va_offsets P ?va \<longrightarrow> lookup P (Phys m1) pd js = lookup P (Phys m) pd js"
      "\<exists>e. va_entry P pd m1 ?va = Some (PteMap P e (leaf_address ctx ?va) (leaf_flags vd ctx (KernelSpace pd)))"
    using map_page [OF Suc.prems(2) range_va_nonzero [OF rng i] room Suc.prems(3) sibling, of pa2va vd ctx] Suc.prems(6) i
    by (auto simp: atLeastLessThan_iff)
  have same: "BasePhysicalAddress pd1 = BasePhysicalAddress pd" "KernelSpace pd1 = KernelSpace pd"
    using page(3) by (simp_all add: paging_grown_def)
  have own1: "own_frames pd1 \<subseteq> F"
    using Suc.prems(3) paging_grown_own [OF page(3)] by simp
  have room: "unat (CurrentIndex pd1) + (\<Sum>k = Suc i..<n. structures_at base k) \<le> unat (NumberOfFrames pd1)"
    using page(3) Suc.prems(4) ni by (simp add: paging_grown_def)
  have "va_entry P pd1 m1 (range_va base k) = va_entry P pd m (range_va base k)" if "k \<in> {Suc i..<n}" for k
    using that page(5) path_ok_va_offsets range_path_inj [OF rng, of k i] i by (auto simp: va_entry_def same)
  then have absent: "Invalidate ctx \<or> (\<forall>k \<in> {Suc i..<n}. va_entry P pd1 m1 (range_va base k) = None)"
    using Suc.prems(6) by auto
  obtain pd2 m2 where
    rest: "VmWalkPagingTables_pages P (VmMapPage P pa2va vd ctx) (BasePhysicalAddress pd) base (4096 * n)
        (4096 * Suc i) (pd1, m1) = Some (pd2, m2)"
      "paging_within P F pd2 m2" "paging_grown pd1 pd2 (\<Sum>k = Suc i..<n. structures_at base k)" "PagesToZeroList m2 = PagesToZeroList m1"
      "\<forall>js. path_ok js \<longrightarrow> (\<forall>k \<in> {Suc i..<n}. js \<noteq> va_offsets P (range_va base k)) \<longrightarrow>
         lookup P (Phys m2) pd js = lookup P (Phys m1) pd js"
      "\<forall>k \<in> {Suc i..<n}. \<exists>e. va_entry P pd m2 (range_va base k) =
         Some (PteMap P e (leaf_address ctx (range_va base k)) (leaf_flags vd ctx (KernelSpace pd)))"
    using Suc.hyps(1) [OF d _ page(2) own1 room _ absent] i page(6) unfolding va_entry_def same by auto
  have "va_entry P pd m2 ?va = va_entry P pd m1 ?va"
    unfolding va_entry_def using rest(5) path_ok_va_offsets range_path_inj [OF rng i] by auto
  then have leaf: "\<exists>e. va_entry P pd m2 (range_va base k) =
      Some (PteMap P e (leaf_address ctx (range_va base k)) (leaf_flags vd ctx (KernelSpace pd)))"
    if "k \<in> {i..<n}" for k
    using that page(6) rest(6) by (cases "k = i") auto
  have frame: "lookup P (Phys m2) pd js = lookup P (Phys m) pd js"
    if "path_ok js" "\<forall>k \<in> {i..<n}. js \<noteq> va_offsets P (range_va base k)" for js
    using that rest(5) page(5) i by auto
  have "paging_grown pd pd2 (\<Sum>k = i..<n. structures_at base k)"
    using paging_grown_trans [OF page(3) rest(3)] ni by simp
  moreover have "VmWalkPagingTables_pages P (VmMapPage P pa2va vd ctx) (BasePhysicalAddress pd) base (4096 * n) (4096 * i) (pd, m) =
      Some (pd2, m2)"
    using page(1) rest(1) i
    by (subst VmWalkPagingTables_pages.simps) (simp add: range_va_def Let_def add.commute)
  ultimately show ?case
    using rest(2,4) page(4) frame leaf by (intro exI [of _ pd2] exI [of _ m2]) simp
qed

lemma unmap_pages:
  assumes rng: "range_ok base n" and A: "addr_contract A"
  shows "i \<le> n \<Longrightarrow> paging_ok P pd m \<Longrightarrow>
    \<exists>m'. VmWalkPagingTables_pages P (VmUnmapPage A P release) (BasePhysicalAddress pd) base (4096 * n) (4096 * i) ((), m) =
      Some ((), m') \<and> paging_ok P pd m' \<and>
    (\<forall>js. path_ok js \<longrightarrow> (\<forall>k \<in> {i..<n}. js \<noteq> va_offsets P (range_va base k)) \<longrightarrow>
       lookup P (Phys m') pd js = lookup P (Phys m) pd js) \<and>
    (\<forall>k \<in> {i..<n}. va_entry P pd m' (range_va base k) = None) \<and>
    PagesToZeroList m' = PagesToZeroList m @ mapped_frames P pd m release (map (range_va base) [i..<n])"
proof (induction "n - i" arbitrary: i m)
  case 0
  then show ?case
    by (intro exI [of _ m]) (simp add: VmWalkPagingTables_pages.simps mapped_frames_def)
next
  case (Suc d)
  then have i: "i < n" and d: "d = n - Suc i"
    by auto
  let ?va = "range_va base i"
  obtain m1 where
    page: "VmWalkPagingTables_levels P (VmUnmapPage A P release) ?va (va_offsets P ?va) 1
        (Cr3PhysicalAddress P (BasePhysicalAddress pd)) ((), m) = Some ((), m1)"
      "paging_ok P pd m1" "va_entry P pd m1 ?va = None"
      "\<forall>js. path_ok js \<longrightarrow> js \<noteq> va_offsets P ?va \<longrightarrow> lookup P (Phys m1) pd js = lookup P (Phys m) pd js"
      "PagesToZeroList m1 = PagesToZeroList m @ mapped_frames P pd m release [?va]"
    using unmap_page [OF Suc.prems(2) A range_va_nonzero [OF rng i], of release]
    by (auto simp: mapped_frames_def split: option.splits)
  obtain m2 where
    rest: "VmWalkPagingTables_pages P (VmUnmapPage A P release) (BasePhysicalAddress pd) base (4096 * n)
        (4096 * Suc i) ((), m1) = Some ((), m2)" "paging_ok P pd m2"
      "\<forall>js. path_ok js \<longrightarrow> (\<forall>k \<in> {Suc i..<n}. js \<noteq> va_offsets P (range_va base k)) \<longrightarrow>
         lookup P (Phys m2) pd js = lookup P (Phys m1) pd js"
      "\<forall>k \<in> {Suc i..<n}. va_entry P pd m2 (range_va base k) = None"
      "PagesToZeroList m2 = PagesToZeroList m1 @ mapped_frames P pd m1 release (map (range_va base) [Suc i..<n])"
    using Suc.hyps(1) [OF d _ page(2)] i by auto
  have other: "va_entry P pd m1 (range_va base k) = va_entry P pd m (range_va base k)" if "k \<in> {Suc i..<n}" for k
    using that page(4) path_ok_va_offsets range_path_inj [OF rng, of k i] i by (auto simp: va_entry_def)
  have "va_entry P pd m2 ?va = va_entry P pd m1 ?va"
    unfolding va_entry_def using rest(3) path_ok_va_offsets range_path_inj [OF rng i] by auto
  then have "\<forall>k \<in> {i..<n}. va_entry P pd m2 (range_va base k) = None"
    using page(3) rest(4) by (metis Suc_leI atLeastLessThan_iff le_neq_implies_less)
  moreover have "lookup P (Phys m2) pd js = lookup P (Phys m) pd js"
    if "path_ok js" "\<forall>k \<in> {i..<n}. js \<noteq> va_offsets P (range_va base k)" for js
    using that rest(3) page(4) i by auto
  moreover have "mapped_frames P pd m1 release (map (range_va base) [Suc i..<n]) =
      mapped_frames P pd m release (map (range_va base) [Suc i..<n])"
    using other by (auto simp: mapped_frames_def intro!: arg_cong [of _ _ concat] map_cong)
  then have "PagesToZeroList m2 = PagesToZeroList m @ mapped_frames P pd m release (map (range_va base) [i..<n])"
    using rest(5) page(5) i by (simp add: upt_conv_Cons mapped_frames_def)
  moreover have "VmWalkPagingTables_pages P (VmUnmapPage A P release) (BasePhysicalAddress pd) base (4096 * n)
      (4096 * i) ((), m) = Some ((), m2)"
    using page(1) rest(1) i
    by (subst VmWalkPagingTables_pages.simps) (simp add: range_va_def Let_def add.commute)
  ultimately show ?case
    using rest(2) by (intro exI [of _ m2]) simp
qed

end

lemma leaf_address_range:
  assumes "page_aligned pa" and "unat pa + 4096 * n \<le> 2 ^ 52" and "k < n"
  shows "PhysicalAddressBase ctx = pa \<Longrightarrow> VirtualAddressBase ctx = va \<Longrightarrow>
      leaf_address ctx (range_va va k) = pa + word_of_nat (4096 * k)"
    and "page_aligned (pa + word_of_nat (4096 * k))" and "unat (pa + word_of_nat (4096 * k)) < 2 ^ 52"
proof -
  show "PhysicalAddressBase ctx = pa \<Longrightarrow> VirtualAddressBase ctx = va \<Longrightarrow>
      leaf_address ctx (range_va va k) = pa + word_of_nat (4096 * k)"
    by (simp add: leaf_address_def range_va_def)
  have w: "unat (word_of_nat (4096 * k) :: qword) = 4096 * k"
    using assms(2,3) by (subst unat_of_nat) simp
  have "unat pa + 4096 * k < 2 ^ 64"
    using assms(2,3) by simp
  then have u: "unat (pa + word_of_nat (4096 * k)) = unat pa + 4096 * k"
    using unat_add_less [of pa "word_of_nat (4096 * k)", unfolded w] by blast
  then show "page_aligned (pa + word_of_nat (4096 * k))"
    using assms(1) by (auto simp: page_aligned_unat)
  show "unat (pa + word_of_nat (4096 * k)) < 2 ^ 52"
    using assms(2,3) u by linarith
qed

context pte_contract
begin

text \<open>Mapping a range of pages; without \<open>Invalidate\<close> a page that is mapped already stays as it is.\<close>

lemma VmmMap_pages:
  assumes A: "addr_contract A" and ok: "paging_within P F pd m" and own: "own_frames pd \<subseteq> F"
    and rng: "range_ok va n" and n: "0 < n" "unat Size = 4096 * n"
    and pa: "page_aligned pa" "unat pa + 4096 * n \<le> 2 ^ 52"
    and room: "unat (CurrentIndex pd) + structures_for n \<le> unat (NumberOfFrames pd)"
    and unmapped: "Inv \<or> (\<forall>k < n. va_entry P pd m (range_va va k) = None)"
  shows "\<exists>pd' m'. VmmMapMemoryInternal A P pa2va vd pa Size va rights Inv uc (pd, m) = Some (pd', m') \<and>
    paging_within P F pd' m' \<and> paging_grown pd pd' (structures_for n) \<and> PagesToZeroList m' = PagesToZeroList m \<and>
    (\<forall>v. (\<forall>k < n. page_no v \<noteq> page_no (range_va va k)) \<longrightarrow> va_entry P pd m' v = va_entry P pd m v) \<and>
    (\<forall>k < n. map_option fst (VmmGetPhysicalAddressEx A P (BasePhysicalAddress pd) (range_va va k) False False m') =
       Some (pa + word_of_nat (4096 * k))) \<and>
    (\<forall>va'. va' \<noteq> 0 \<and> page_aligned va' \<and> (\<forall>k < n. page_no va' \<noteq> page_no (range_va va k)) \<longrightarrow>
       map_option fst (VmmGetPhysicalAddressEx A P (BasePhysicalAddress pd) va' False False m') =
       map_option fst (VmmGetPhysicalAddressEx A P (BasePhysicalAddress pd) va' False False m))"
proof -
  let ?ctx = "\<lparr>PhysicalAddressBase = pa, VirtualAddressBase = va, CtxPageRights = rights, Invalidate = Inv,
    CtxUncacheable = uc\<rparr>"
  obtain pd' m' where
    walk: "VmWalkPagingTables_pages P (VmMapPage P pa2va vd ?ctx) (BasePhysicalAddress pd) va (4096 * n) 0 (pd, m) =
        Some (pd', m')" "paging_within P F pd' m'" "paging_grown pd pd' (\<Sum>k = 0..<n. structures_at va k)"
        "PagesToZeroList m' = PagesToZeroList m"
      and frame: "\<forall>js. path_ok js \<longrightarrow> (\<forall>k \<in> {0..<n}. js \<noteq> va_offsets P (range_va va k)) \<longrightarrow>
        lookup P (Phys m') pd js = lookup P (Phys m) pd js"
      and leaf: "\<forall>k \<in> {0..<n}. \<exists>e. va_entry P pd m' (range_va va k) =
        Some (PteMap P e (leaf_address ?ctx (range_va va k)) (leaf_flags vd ?ctx (KernelSpace pd)))"
    using map_pages [OF rng, where ctx = ?ctx and i = 0 and pd = pd and m = m and pa2va = pa2va and vd = vd and F = F]
      ok own room unmapped structures_for_range [of va n] by auto
  have "page_aligned Size" and "Size \<noteq> 0"
    using n by (auto simp: page_aligned_unat)
  then have call: "VmmMapMemoryInternal A P pa2va vd pa Size va rights Inv uc (pd, m) = Some (pd', m')"
    using walk(1) pa(1) A n(2) by (simp add: VmmMapMemoryInternal_def VmWalkPagingTables_def
        addr_contract.IsAddressAligned_page)
  have grown: "paging_grown pd pd' (structures_for n)"
    using walk(3) structures_for_range [of va n] by (simp add: paging_grown_def)
  have base: "BasePhysicalAddress pd' = BasePhysicalAddress pd"
    using walk(3) by (simp add: paging_grown_def)
  have entry: "va_entry P pd' m' v = va_entry P pd m' v" for v
    by (simp add: va_entry_def base)
  have get: "map_option fst (VmmGetPhysicalAddressEx A P (BasePhysicalAddress pd) v False False m') =
      Some (case va_entry P pd m' v of None \<Rightarrow> 0 | Some e \<Rightarrow> PteGetPhysicalAddress P e)"
    if "page_aligned v" "v \<noteq> 0" for v
    using VmmGetPhysicalAddress_entry [OF paging_within_ok [OF walk(2)] A that] base entry by (simp split: option.splits)
  have others: "va_entry P pd m' v = va_entry P pd m v" if "\<forall>k < n. page_no v \<noteq> page_no (range_va va k)" for v
  proof -
    have "\<forall>k \<in> {0..<n}. va_offsets P v \<noteq> va_offsets P (range_va va k)"
      using range_path_other [OF that] by simp
    then show ?thesis
      unfolding va_entry_def using frame path_ok_va_offsets by blast
  qed
  have "map_option fst (VmmGetPhysicalAddressEx A P (BasePhysicalAddress pd) v False False m') =
      map_option fst (VmmGetPhysicalAddressEx A P (BasePhysicalAddress pd) v False False m)"
    if "v \<noteq> 0" "page_aligned v" "\<forall>k < n. page_no v \<noteq> page_no (range_va va k)" for v
    using get [OF that(2,1)] VmmGetPhysicalAddress_entry [OF paging_within_ok [OF ok] A that(2,1)] others [OF that(3)]
    by (cases "va_entry P pd m v") simp_all
  moreover have "map_option fst (VmmGetPhysicalAddressEx A P (BasePhysicalAddress pd) (range_va va k) False False m') =
      Some (pa + word_of_nat (4096 * k))" if "k < n" for k
  proof -
    note k = that
    obtain e where "va_entry P pd m' (range_va va k) =
        Some (PteMap P e (pa + word_of_nat (4096 * k)) (leaf_flags vd ?ctx (KernelSpace pd)))"
      using leaf [rule_format, of k] k leaf_address_range(1) [OF pa k, of ?ctx va] by auto
    then show ?thesis
      using get [OF range_va_aligned [OF rng that] range_va_nonzero [OF rng that]]
        PteMap_address [OF leaf_address_range(2,3) [OF pa that]] by simp
  qed
  ultimately show ?thesis
    using call walk(2,4) grown others by blast
qed

lemma VmmMap_range:
  assumes A: "addr_contract A" and ok: "paging_ok P pd m"
    and rng: "range_ok va n" and n: "0 < n" "unat Size = 4096 * n"
    and pa: "page_aligned pa" "unat pa + 4096 * n \<le> 2 ^ 52"
    and room: "unat (CurrentIndex pd) + structures_for n \<le> unat (NumberOfFrames pd)"
  shows "\<exists>pd' m'. VmmMapMemoryInternal A P pa2va vd pa Size va rights True uc (pd, m) = Some (pd', m') \<and>
    paging_ok P pd' m' \<and> BasePhysicalAddress pd' = BasePhysicalAddress pd \<and>
    (\<forall>k < n. map_option fst (VmmGetPhysicalAddressEx A P (BasePhysicalAddress pd) (range_va va k) False False m') =
       Some (pa + word_of_nat (4096 * k))) \<and>
    (\<forall>va'. va' \<noteq> 0 \<and> page_aligned va' \<and> (\<forall>k < n. page_no va' \<noteq> page_no (range_va va k)) \<longrightarrow>
       map_option fst (VmmGetPhysicalAddressEx A P (BasePhysicalAddress pd) va' False False m') =
       map_option fst (VmmGetPhysicalAddressEx A P (BasePhysicalAddress pd) va' False False m))"
  using VmmMap_pages [OF A ok [unfolded paging_ok_within] subset_UNIV assms(3-8) disjI1 [OF TrueI], of pa2va vd rights uc]
  unfolding paging_ok_within paging_grown_def by blast

end

lemma VmmUnmap_range:
  assumes P: "pte_contract P" and A: "addr_contract A" and ok: "paging_ok P pd m"
    and rng: "range_ok va n" and n: "0 < n" "unat Size = 4096 * n"
  shows "\<exists>m'. VmmUnmapMemoryEx A P (BasePhysicalAddress pd) va Size release m = Some m' \<and> paging_ok P pd m' \<and>
    (\<forall>k < n. map_option fst (VmmGetPhysicalAddressEx A P (BasePhysicalAddress pd) (range_va va k) False False m') = Some 0) \<and>
    (\<forall>va'. va' \<noteq> 0 \<and> page_aligned va' \<and> (\<forall>k < n. page_no va' \<noteq> page_no (range_va va k)) \<longrightarrow>
       map_option fst (VmmGetPhysicalAddressEx A P (BasePhysicalAddress pd) va' False False m') =
       map_option fst (VmmGetPhysicalAddressEx A P (BasePhysicalAddress pd) va' False False m)) \<and>
    PagesToZeroList m' = PagesToZeroList m @ mapped_frames P pd m release (map (range_va va) [0..<n])"
proof -
  obtain m' where
    walk: "VmWalkPagingTables_pages P (VmUnmapPage A P release) (BasePhysicalAddress pd) va (4096 * n) 0 ((), m) =
        Some ((), m')" "paging_ok P pd m'"
      and frame: "\<forall>js. path_ok js \<longrightarrow> (\<forall>k \<in> {0..<n}. js \<noteq> va_offsets P (range_va va k)) \<longrightarrow>
        lookup P (Phys m') pd js = lookup P (Phys m) pd js"
      and leaf: "\<forall>k \<in> {0..<n}. va_entry P pd m' (range_va va k) = None"
      and queue: "PagesToZeroList m' = PagesToZeroList m @ mapped_frames P pd m release (map (range_va va) [0..<n])"
    using pte_contract.unmap_pages [OF P rng A, of 0 pd m release] ok by auto
  have "page_aligned Size" "Size \<noteq> 0" "page_aligned va" "va \<noteq> 0"
    using n rng by (auto simp: page_aligned_unat range_ok_def)
  then have call: "VmmUnmapMemoryEx A P (BasePhysicalAddress pd) va Size release m = Some m'"
    using walk(1) A n(2) by (simp add: VmmUnmapMemoryEx_def VmWalkPagingTables_def addr_contract.IsAddressAligned_page)
  note get = pte_contract.VmmGetPhysicalAddress_entry [OF P _ A]
  have "va_entry P pd m' v = va_entry P pd m v" if "\<forall>k < n. page_no v \<noteq> page_no (range_va va k)" for v
  proof -
    have "\<forall>k \<in> {0..<n}. va_offsets P v \<noteq> va_offsets P (range_va va k)"
      using pte_contract.range_path_other [OF P that] by simp
    then show ?thesis
      unfolding va_entry_def using frame pte_contract.path_ok_va_offsets [OF P] by blast
  qed
  then have "map_option fst (VmmGetPhysicalAddressEx A P (BasePhysicalAddress pd) v False False m') =
      map_option fst (VmmGetPhysicalAddressEx A P (BasePhysicalAddress pd) v False False m)"
    if "v \<noteq> 0" "page_aligned v" "\<forall>k < n. page_no v \<noteq> page_no (range_va va k)" for v
    using get [OF walk(2) that(2,1)] get [OF ok that(2,1)] that(3) by (cases "va_entry P pd m v") simp_all
  moreover have "map_option fst (VmmGetPhysicalAddressEx A P (BasePhysicalAddress pd) (range_va va k) False False m') =
      Some 0" if "k < n" for k
    using get [OF walk(2) range_va_aligned [OF rng that] range_va_nonzero [OF rng that]] leaf that by simp
  ultimately show ?thesis
    using call walk(2) queue by blast
qed

subsection \<open>Properties of mapping\<close>

text \<open>Paging data with a root and seven spare frames, nothing mapped.\<close>

definition paging_example :: paging_data where
  "paging_example = \<lparr>BasePhysicalAddress = 0x10000, NumberOfFrames = 8, CurrentIndex = 1, KernelSpace = True\<rparr>"

definition mem_example :: pt_mem where
  "mem_example = \<lparr>Phys = (\<lambda>_. 0), Invalidated = [], PagesToZeroList = []\<rparr>"

definition vmm_data_example :: vmm_data where
  "vmm_data_example = \<lparr>VmmReservationSpace = vm_empty, WriteBackIndex = 0, UncacheableIndex = 3\<rparr>"

lemma paging_example_ok: "paging_ok pte_ops paging_example mem_example"
proof -
  have frame: "unat (frame_at paging_example k) = 0x10000 + 4096 * k" if "k < 8" for k
    using unat_frame_at [of paging_example k] that by (simp add: paging_example_def)
  have "frame_at paging_example k \<noteq> 0x10000" if "1 \<le> k" "k < 8" for k
  proof
    assume "frame_at paging_example k = 0x10000"
    then have "unat (frame_at paging_example k) = 0x10000"
      by simp
    then show False
      using frame [OF that(2)] that(1) by simp
  qed
  then have "tables_wf pte_ops [0x10000 \<mapsto> []] (Phys mem_example) paging_example"
    unfolding tables_wf_def
    by (auto simp: paging_example_def mem_example_def pte_ops_def page_aligned_def split: if_splits)
  then show ?thesis
    by (auto simp: paging_ok_def)
qed

text \<open>
  C9 (functional). Mapping a range of pages and translating it back agree. When the paging data has enough
  spare frames (three for the first page and three for every 2 MB the range enters), \<open>VmmMapMemoryInternal\<close>
  with invalidation returns, the tree of paging structures stays well-formed, every page of the range
  translates to the frame it was mapped to, and the translation of every other page is what it was.
\<close>

theorem VmmMapMemoryInternal_translates:
  assumes P: "pte_contract P" and A: "addr_contract A" and ok: "paging_ok P pd m"
    and rng: "range_ok va n" and n: "0 < n" "unat Size = 4096 * n"
    and pa: "page_aligned pa" "unat pa + 4096 * n \<le> 2 ^ 52"
    and room: "unat (CurrentIndex pd) + structures_for n \<le> unat (NumberOfFrames pd)"
  shows "\<exists>pd' m'. VmmMapMemoryInternal A P pa2va vd pa Size va rights True uc (pd, m) = Some (pd', m') \<and>
    paging_ok P pd' m' \<and> BasePhysicalAddress pd' = BasePhysicalAddress pd \<and>
    (\<forall>k < n. map_option fst (VmmGetPhysicalAddressEx A P (BasePhysicalAddress pd) (range_va va k) False False m') =
       Some (pa + word_of_nat (4096 * k))) \<and>
    (\<forall>va'. va' \<noteq> 0 \<and> page_aligned va' \<and> (\<forall>k < n. page_no va' \<noteq> page_no (range_va va k)) \<longrightarrow>
       map_option fst (VmmGetPhysicalAddressEx A P (BasePhysicalAddress pd) va' False False m') =
       map_option fst (VmmGetPhysicalAddressEx A P (BasePhysicalAddress pd) va' False False m))"
  by (rule pte_contract.VmmMap_range [OF assms])

theorem VmmMapMemoryInternal_translates_witness:
  "\<exists>pd' m'. VmmMapMemoryInternal addr_ops pte_ops id vmm_data_example 0x80000 0x2000 0x400000
      PAGE_RIGHTS_READWRITE True False (paging_example, mem_example) = Some (pd', m') \<and>
    map_option fst (VmmGetPhysicalAddressEx addr_ops pte_ops 0x10000 0x401000 False False m') = Some 0x81000"
proof -
  have r: "range_ok 0x400000 2" "(0 :: nat) < 2" "unat (0x2000 :: qword) = 4096 * 2"
    "page_aligned 0x80000" "unat (0x80000 :: qword) + 4096 * 2 \<le> 2 ^ 52"
    "unat (CurrentIndex paging_example) + structures_for 2 \<le> unat (NumberOfFrames paging_example)"
    by (simp_all add: range_ok_def page_aligned_def paging_example_def structures_for_def)
  have "range_va 0x400000 1 = 0x401000" "BasePhysicalAddress paging_example = 0x10000"
    by (simp_all add: range_va_def paging_example_def)
  moreover obtain pd' m' where "VmmMapMemoryInternal addr_ops pte_ops id vmm_data_example 0x80000 0x2000 0x400000
      PAGE_RIGHTS_READWRITE True False (paging_example, mem_example) = Some (pd', m')"
    "\<forall>k < 2. map_option fst (VmmGetPhysicalAddressEx addr_ops pte_ops (BasePhysicalAddress paging_example)
       (range_va 0x400000 k) False False m') = Some (0x80000 + word_of_nat (4096 * k))"
    using VmmMapMemoryInternal_translates [OF pte.pte_contract_axioms addr.addr_contract_axioms paging_example_ok r,
        of id vmm_data_example PAGE_RIGHTS_READWRITE False] by blast
  moreover have "(0x80000 :: qword) + word_of_nat (4096 * 1) = 0x81000"
    by simp
  ultimately show ?thesis
    by (intro exI [of _ pd'] exI [of _ m'] conjI) (assumption, metis one_less_numeral_iff semiring_norm(76))
qed

text \<open>
  C10 (functional). Unmapping a range leaves none of its pages mapped and no other page changed, keeps the
  tree of paging structures well-formed, and queues for release, when asked to, exactly the
  frames behind the pages that were mapped, in the order of their addresses.
\<close>

theorem VmmUnmapMemoryEx_revokes:
  assumes P: "pte_contract P" and A: "addr_contract A" and ok: "paging_ok P pd m"
    and rng: "range_ok va n" and n: "0 < n" "unat Size = 4096 * n"
  shows "\<exists>m'. VmmUnmapMemoryEx A P (BasePhysicalAddress pd) va Size release m = Some m' \<and> paging_ok P pd m' \<and>
    (\<forall>k < n. map_option fst (VmmGetPhysicalAddressEx A P (BasePhysicalAddress pd) (range_va va k) False False m') = Some 0) \<and>
    (\<forall>va'. va' \<noteq> 0 \<and> page_aligned va' \<and> (\<forall>k < n. page_no va' \<noteq> page_no (range_va va k)) \<longrightarrow>
       map_option fst (VmmGetPhysicalAddressEx A P (BasePhysicalAddress pd) va' False False m') =
       map_option fst (VmmGetPhysicalAddressEx A P (BasePhysicalAddress pd) va' False False m)) \<and>
    PagesToZeroList m' = PagesToZeroList m @ mapped_frames P pd m release (map (range_va va) [0..<n])"
  by (rule VmmUnmap_range [OF assms])

theorem VmmUnmapMemoryEx_revokes_witness:
  "\<exists>m'. VmmUnmapMemoryEx addr_ops pte_ops 0x10000 0x400000 0x2000 True mem_example = Some m' \<and>
    map_option fst (VmmGetPhysicalAddressEx addr_ops pte_ops 0x10000 0x400000 False False m') = Some 0 \<and>
    PagesToZeroList m' = []"
proof -
  have r: "range_ok 0x400000 2" "(0 :: nat) < 2" "unat (0x2000 :: qword) = 4096 * 2"
    by (simp_all add: range_ok_def page_aligned_def)
  have e: "mapped_frames pte_ops paging_example mem_example True vas = []" for vas
    by (induction vas) (simp_all add: mapped_frames_def va_entry_def va_offsets_def mem_example_def pte_ops_def)
  have b: "BasePhysicalAddress paging_example = 0x10000" "range_va 0x400000 0 = 0x400000"
    by (simp_all add: paging_example_def range_va_def)
  obtain m' where m': "VmmUnmapMemoryEx addr_ops pte_ops 0x10000 0x400000 0x2000 True mem_example = Some m'"
      "PagesToZeroList m' = PagesToZeroList mem_example"
      "\<forall>k < 2. map_option fst (VmmGetPhysicalAddressEx addr_ops pte_ops 0x10000 (range_va 0x400000 k) False False m') = Some 0"
    using VmmUnmapMemoryEx_revokes [OF pte.pte_contract_axioms addr.addr_contract_axioms paging_example_ok r, of True]
    unfolding e b(1) by auto
  then show ?thesis
    using m'(3) [rule_format, of 0] b(2) by (intro exI [of _ m']) (simp add: mem_example_def)
qed

text \<open>
  Mapping a range of fresh frames and unmapping it again with release gives exactly these
  frames to the zero worker thread, one by one and in order.
\<close>

theorem Vmm_map_unmap_roundtrip:
  assumes P: "pte_contract P" and A: "addr_contract A" and ok: "paging_ok P pd m"
    and rng: "range_ok va n" and n: "0 < n" "unat Size = 4096 * n"
    and pa: "page_aligned pa" "unat pa + 4096 * n \<le> 2 ^ 52"
    and room: "unat (CurrentIndex pd) + structures_for n \<le> unat (NumberOfFrames pd)"
  shows "\<exists>pd' m' m''. VmmMapMemoryInternal A P pa2va vd pa Size va rights True uc (pd, m) = Some (pd', m') \<and>
    VmmUnmapMemoryEx A P (BasePhysicalAddress pd') va Size True m' = Some m'' \<and>
    PagesToZeroList m'' = PagesToZeroList m @ map (\<lambda>k. (pa + word_of_nat (4096 * k), 1)) [0..<n]"
proof -
  let ?ctx = "\<lparr>PhysicalAddressBase = pa, VirtualAddressBase = va, CtxPageRights = rights, Invalidate = True,
    CtxUncacheable = uc\<rparr>"
  obtain pd' m' where
    walk: "VmWalkPagingTables_pages P (VmMapPage P pa2va vd ?ctx) (BasePhysicalAddress pd) va (4096 * n) 0 (pd, m) =
        Some (pd', m')" "paging_ok P pd' m'" "BasePhysicalAddress pd' = BasePhysicalAddress pd" "PagesToZeroList m' = PagesToZeroList m"
      and leaf: "\<forall>k \<in> {0..<n}. \<exists>e. va_entry P pd m' (range_va va k) =
        Some (PteMap P e (leaf_address ?ctx (range_va va k)) (leaf_flags vd ?ctx (KernelSpace pd)))"
    using pte_contract.map_pages [OF P rng, where ctx = ?ctx and i = 0 and pd = pd and m = m and pa2va = pa2va and vd = vd and F = UNIV]
      structures_for_range [of va n] ok room by (auto simp: paging_ok_within paging_grown_def)
  have al: "page_aligned Size" "Size \<noteq> 0" "page_aligned va" "va \<noteq> 0"
    using n rng by (auto simp: page_aligned_unat range_ok_def)
  have call: "VmmMapMemoryInternal A P pa2va vd pa Size va rights True uc (pd, m) = Some (pd', m')"
    using walk(1) pa(1) A n(2) al by (simp add: VmmMapMemoryInternal_def VmWalkPagingTables_def
        addr_contract.IsAddressAligned_page)
  obtain m'' where unmap: "VmWalkPagingTables_pages P (VmUnmapPage A P True) (BasePhysicalAddress pd') va (4096 * n) 0 ((), m') =
        Some ((), m'')" "PagesToZeroList m'' = PagesToZeroList m' @ mapped_frames P pd' m' True (map (range_va va) [0..<n])"
    using pte_contract.unmap_pages [OF P rng A, of 0 pd' m' True] walk(2) by auto
  note base = walk(3)
  have "(case va_entry P pd' m' (range_va va k) of Some e \<Rightarrow> if True then [(PteGetPhysicalAddress P e, 1)] else [] | None \<Rightarrow> []) =
      [(pa + word_of_nat (4096 * k), 1)]" if "k \<in> set [0..<n]" for k
  proof -
    have k: "k < n"
      using that by simp
    obtain e where "va_entry P pd' m' (range_va va k) =
        Some (PteMap P e (pa + word_of_nat (4096 * k)) (leaf_flags vd ?ctx (KernelSpace pd)))"
      using leaf [rule_format, of k] k leaf_address_range(1) [OF pa k, of ?ctx va] base by (auto simp: va_entry_def)
    then show ?thesis
      using pte_contract.PteMap_address [OF P leaf_address_range(2,3) [OF pa k]] by simp
  qed
  then have "mapped_frames P pd' m' True (map (range_va va) [0..<n]) =
      concat (map (\<lambda>k. [(pa + word_of_nat (4096 * k), 1)]) [0..<n])"
    unfolding mapped_frames_def map_map comp_def by (intro arg_cong [of _ _ concat] map_cong refl)
  then have frames: "mapped_frames P pd' m' True (map (range_va va) [0..<n]) =
      map (\<lambda>k. (pa + word_of_nat (4096 * k), 1)) [0..<n]"
    by simp
  have "VmmUnmapMemoryEx A P (BasePhysicalAddress pd') va Size True m' = Some m''"
    using unmap(1) A n(2) al by (simp add: VmmUnmapMemoryEx_def VmWalkPagingTables_def addr_contract.IsAddressAligned_page)
  then show ?thesis
    using call unmap(2) walk(4) frames by auto
qed

theorem Vmm_map_unmap_roundtrip_witness:
  "\<exists>pd' m' m''. VmmMapMemoryInternal addr_ops pte_ops id vmm_data_example 0x80000 0x2000 0x400000
      PAGE_RIGHTS_READWRITE True False (paging_example, mem_example) = Some (pd', m') \<and>
    VmmUnmapMemoryEx addr_ops pte_ops (BasePhysicalAddress pd') 0x400000 0x2000 True m' = Some m'' \<and>
    PagesToZeroList m'' = [(0x80000, 1), (0x81000, 1)]"
proof -
  have r: "range_ok 0x400000 2" "(0 :: nat) < 2" "unat (0x2000 :: qword) = 4096 * 2"
    "page_aligned 0x80000" "unat (0x80000 :: qword) + 4096 * 2 \<le> 2 ^ 52"
    "unat (CurrentIndex paging_example) + structures_for 2 \<le> unat (NumberOfFrames paging_example)"
    by (simp_all add: range_ok_def page_aligned_def paging_example_def structures_for_def)
  have "PagesToZeroList mem_example @ map (\<lambda>k. (0x80000 + word_of_nat (4096 * k), 1)) [0..<2] =
      [(0x80000, 1), (0x81000, 1)]"
    by (simp add: mem_example_def eval_nat_numeral)
  then show ?thesis
    using Vmm_map_unmap_roundtrip [OF pte.pte_contract_axioms addr.addr_contract_axioms paging_example_ok r,
        of id vmm_data_example PAGE_RIGHTS_READWRITE False] by simp
qed

end
