(* ===== verification/Vmm.thy ===== *)
theory Vmm
  imports PageTables
begin

text \<open>
  The rest of \<open>vmm.c\<close> and the entry points of \<open>mmu.c\<close> above it: regions of virtual memory,
  page faults, address spaces of processes, user buffers and thread stacks. These routines put
  the physical memory manager, the reservations and the page tables together; their state is
  one record with the three of them.

  Pointers to paging data and to address spaces are \<open>None\<close> for the system's own (what the code
  takes for \<open>NULL\<close>) and \<open>Some i\<close> for process \<open>i\<close>. What the routines do to the contents of
  mapped memory and to files is recorded in \<open>DataOps\<close>, most recent first. \<open>IoReadFile\<close> is a
  component of its own and enters as a function of the file, the offset and the size.
\<close>

subsection \<open>State and environment\<close>

datatype data_op =
    ReadFileInto file_object qword qword qword
  | ZeroMemory qword qword
  | CloseFile file_object

record vm_env =
  EA :: addr_lib
  EB :: bitmap_lib
  EP :: pte_lib
  PA2VA :: "qword \<Rightarrow> qword"
  IoReadFile :: "file_object \<Rightarrow> qword \<Rightarrow> qword \<Rightarrow> status \<times> qword"

record vm_state =
  VmmData :: vmm_data
  PmmData :: pmm_data
  Mem :: pt_mem
  SystemPaging :: paging_data
  ProcessPaging :: "nat \<Rightarrow> paging_data"
  ProcessVaSpace :: "nat \<Rightarrow> vmm_reservation_space"
  PageFaults :: qword
  DataOps :: "data_op list"

definition paging_of :: "vm_state \<Rightarrow> nat option \<Rightarrow> paging_data" where
  "paging_of s p = (case p of None \<Rightarrow> SystemPaging s | Some i \<Rightarrow> ProcessPaging s i)"

definition set_paging :: "nat option \<Rightarrow> paging_data \<Rightarrow> vm_state \<Rightarrow> vm_state" where
  "set_paging p pd s = (case p of None \<Rightarrow> s\<lparr>SystemPaging := pd\<rparr>
     | Some i \<Rightarrow> s\<lparr>ProcessPaging := (ProcessPaging s)(i := pd)\<rparr>)"

definition space_of :: "vm_state \<Rightarrow> nat option \<Rightarrow> vmm_reservation_space" where
  "space_of s v = (case v of None \<Rightarrow> VmmReservationSpace (VmmData s) | Some i \<Rightarrow> ProcessVaSpace s i)"

definition set_space :: "nat option \<Rightarrow> vmm_reservation_space \<Rightarrow> vm_state \<Rightarrow> vm_state" where
  "set_space v sp s = (case v of None \<Rightarrow> s\<lparr>VmmData := (VmmData s)\<lparr>VmmReservationSpace := sp\<rparr>\<rparr>
     | Some i \<Rightarrow> s\<lparr>ProcessVaSpace := (ProcessVaSpace s)(i := sp)\<rparr>)"

subsection \<open>Initialisation\<close>

text \<open>
  The bytes of the page attribute table, with the first index of the write-back and of the
  strong-uncacheable type; \<open>wbType\<close> and \<open>ucType\<close> are the encodings of the two types.
\<close>

definition pat_byte :: "qword \<Rightarrow> nat \<Rightarrow> byte" where
  "pat_byte PatValues i = ucast (drop_bit (8 * i) PatValues)"

fun VmDeterminePatIndices_loop ::
  "byte \<Rightarrow> byte \<Rightarrow> qword \<Rightarrow> nat list \<Rightarrow> byte option \<times> byte option \<Rightarrow> byte option \<times> byte option" where
  "VmDeterminePatIndices_loop wbType ucType PatValues [] found = found"
| "VmDeterminePatIndices_loop wbType ucType PatValues (i # is) (WbIndex, UcIndex) =
     VmDeterminePatIndices_loop wbType ucType PatValues is
       (if ucType = pat_byte PatValues i
        then (WbIndex, if UcIndex = None then Some (word_of_nat i) else UcIndex)
        else if wbType = pat_byte PatValues i
        then (if WbIndex = None then Some (word_of_nat i) else WbIndex, UcIndex)
        else (WbIndex, UcIndex))"

definition VmDeterminePatIndices ::
  "byte \<Rightarrow> byte \<Rightarrow> qword \<Rightarrow> bool \<times> byte option \<times> byte option" where
  "VmDeterminePatIndices wbType ucType PatValues =
     (let (WbIndex, UcIndex) = VmDeterminePatIndices_loop wbType ucType PatValues [0..<8] (None, None)
      in (WbIndex \<noteq> None \<and> UcIndex \<noteq> None, WbIndex, UcIndex))"

definition VmmPreparePagingData ::
  "byte \<Rightarrow> byte \<Rightarrow> qword \<Rightarrow> vmm_data \<Rightarrow> status \<times> vmm_data" where
  "VmmPreparePagingData wbType ucType ia32PatValues vd =
     (let (bResult, WbIndex, UcIndex) = VmDeterminePatIndices wbType ucType ia32PatValues;
          vd = vd\<lparr>WriteBackIndex := case_option (WriteBackIndex vd) id WbIndex,
                  UncacheableIndex := case_option (UncacheableIndex vd) id UcIndex\<rparr>
      in if \<not> bResult then (STATUS_PAT_LAYOUT_NOT_COMPATIBLE, vd) else (STATUS_SUCCESS, vd))"

text \<open>Before initialisation the data is all zero.\<close>

definition VmmPreinit :: vmm_data where
  "VmmPreinit = \<lparr>VmmReservationSpace = \<lparr>FreeVirtualAddressPointer = 0, StartOfVirtualAddressSpace = 0,
       BitmapAddressStart = 0, ReservedAreaSize = 0, FreeBitmapAddress = 0, ReservationListAddress = 0,
       ReservationList = []\<rparr>, WriteBackIndex = 0, UncacheableIndex = 0\<rparr>"

definition VMM_SIZE_FOR_RESERVATION_METADATA :: qword where
  "VMM_SIZE_FOR_RESERVATION_METADATA = 5 * 0x10000000000"

definition VmmInit ::
  "addr_lib \<Rightarrow> qword \<Rightarrow> vmm_reservation list \<Rightarrow> vmm_data \<Rightarrow> (status \<times> vmm_data) option" where
  "VmmInit A Base slots vd =
     (if Base = 0 then Some (STATUS_INVALID_PARAMETER1, vd)
      else do {
        space \<leftarrow> VmReservationSpaceInit A Base 0 VMM_SIZE_FOR_RESERVATION_METADATA slots;
        Some (STATUS_SUCCESS, vd\<lparr>VmmReservationSpace := space\<rparr>)
      })"

definition VmmInitReservationSystem :: "vmm_data \<Rightarrow> vmm_data option" where
  "VmmInitReservationSystem vd =
     map_option (\<lambda>space. vd\<lparr>VmmReservationSpace := space\<rparr>) (VmReservationSpaceFinishInit (VmmReservationSpace vd))"

text \<open>
  Setting up paging tables. \<open>target\<close> is the paging data to map the new structures in, \<open>None\<close>
  when it is the new paging data itself. The result gives both back.
\<close>

definition VmmSetupPageTables ::
  "vm_env \<Rightarrow> vmm_data \<Rightarrow> paging_data option \<Rightarrow> qword \<Rightarrow> dword \<Rightarrow> bool \<Rightarrow> pt_mem \<Rightarrow>
   (status \<times> paging_data option \<times> paging_data \<times> pt_mem) option" where
  "VmmSetupPageTables E vd target BasePa FramesReserved KernelStructures m = do {
     ASSERT (BasePa \<noteq> 0);
     ASSERT (FramesReserved \<noteq> 0);
     let pBaseVirtualAddress = PA2VA E BasePa;
     ASSERT (FramesReserved \<le> MAX_DWORD div 0x1000);
     let sizeReserved = FramesReserved * 0x1000;
     let pd = \<lparr>BasePhysicalAddress = BasePa, NumberOfFrames = FramesReserved, CurrentIndex = 1,
               KernelSpace = KernelStructures\<rparr>;
     (pd', m) \<leftarrow> VmmMapMemoryInternal (EA E) (EP E) (PA2VA E) vd BasePa (ucast sizeReserved) pBaseVirtualAddress
                    PAGE_RIGHTS_READWRITE True False (case target of None \<Rightarrow> pd | Some t \<Rightarrow> t, m);
     (case target of
        None \<Rightarrow> Some (STATUS_SUCCESS, None, pd', m)
      | Some _ \<Rightarrow> Some (STATUS_SUCCESS, Some pd', pd, memzero_page BasePa m))
   }"

text \<open>The value \<open>VmmChangeCr3\<close> writes to CR3; bit 63 keeps the translations of the process.\<close>

definition VmmChangeCr3 :: "addr_lib \<Rightarrow> (qword \<Rightarrow> bool) \<Rightarrow> qword \<Rightarrow> qword \<Rightarrow> bool \<Rightarrow> qword option" where
  "VmmChangeCr3 A PCID_IS_VALID Pml4Base Pcid Inv = do {
     ASSERT (IsAddressAligned A Pml4Base PAGE_SIZE);
     ASSERT (PCID_IS_VALID Pcid);
     Some ((if Inv then 0 else push_bit 63 1) OR Pml4Base OR Pcid)
   }"

subsection \<open>Kernel and user addresses\<close>

definition VmIsKernelAddress :: "pte_lib \<Rightarrow> qword \<Rightarrow> bool" where
  "VmIsKernelAddress P Address \<longleftrightarrow> bit Address (VaHighestValidBit P)"

definition VmIsKernelRange :: "addr_lib \<Rightarrow> pte_lib \<Rightarrow> qword \<Rightarrow> qword \<Rightarrow> bool option" where
  "VmIsKernelRange A P Address RangeSize = do {
     ASSERT (RangeSize \<noteq> 0);
     Some (VmIsKernelAddress P Address \<or> VmIsKernelAddress P (PtrOffset A Address (RangeSize - 1)))
   }"

definition VmmRetrieveReservationSpaceForSystemProcess :: "vm_state \<Rightarrow> vmm_reservation_space" where
  "VmmRetrieveReservationSpaceForSystemProcess s = VmmReservationSpace (VmmData s)"

text \<open>\<open>cur\<close> is the process of the current thread.\<close>

definition VmmRetrieveReservationSpaceForAddress :: "pte_lib \<Rightarrow> nat option \<Rightarrow> qword \<Rightarrow> nat option" where
  "VmmRetrieveReservationSpaceForAddress P cur va = (if VmIsKernelAddress P va then None else cur)"

subsection \<open>Mapping and unmapping through \<open>mmu.c\<close>\<close>

definition MmuMapMemoryInternal ::
  "vm_env \<Rightarrow> qword \<Rightarrow> qword \<Rightarrow> page_rights \<Rightarrow> qword \<Rightarrow> bool \<Rightarrow> bool \<Rightarrow> nat option \<Rightarrow> vm_state \<Rightarrow> vm_state option" where
  "MmuMapMemoryInternal E pa Size PageRights va Inv Uncacheable PagingData s = do {
     ASSERT (Size \<noteq> 0);
     ASSERT (IsAddressAligned (EA E) Size PAGE_SIZE);
     ASSERT (va \<noteq> 0);
     ASSERT (IsAddressAligned (EA E) va PAGE_SIZE);
     (pd, m) \<leftarrow> VmmMapMemoryInternal (EA E) (EP E) (PA2VA E) (VmmData s) pa Size va PageRights Inv Uncacheable
                  (paging_of s PagingData, Mem s);
     Some (set_paging PagingData pd (s\<lparr>Mem := m\<rparr>))
   }"

definition MmuMapMemoryEx ::
  "vm_env \<Rightarrow> qword \<Rightarrow> qword \<Rightarrow> page_rights \<Rightarrow> bool \<Rightarrow> bool \<Rightarrow> nat option \<Rightarrow> vm_state \<Rightarrow> (qword \<times> vm_state) option" where
  "MmuMapMemoryEx E pa Size PageRights Inv Uncacheable PagingData s = do {
     ASSERT (Size \<noteq> 0);
     let alignedPa = AlignAddressLower (EA E) pa PAGE_SIZE;
     let alignmentDifferences = (ucast (AddressOffset (EA E) pa PAGE_SIZE) :: dword);
     let alignedSize = AlignAddressUpper (EA E) (Size + ucast alignmentDifferences) PAGE_SIZE;
     ASSERT (alignedPa < PtrDiff (EA E) (PmmGetHighestPhysicalMemoryAddressPresent (PmmData s)) alignedSize);
     (va, vd, pd, m) \<leftarrow> VmmMapMemoryEx (EA E) (EP E) (PA2VA E) (VmmData s) (Some (paging_of s PagingData))
                          alignedPa alignedSize PageRights Inv Uncacheable (Mem s);
     let s = (case pd of None \<Rightarrow> s | Some pd \<Rightarrow> set_paging PagingData pd s)\<lparr>VmmData := vd, Mem := m\<rparr>;
     if va = 0 then Some (0, s)
     else Some (PtrOffset (EA E) va (ucast alignmentDifferences), s)
   }"

text \<open>\<open>alignedSize\<close> is a 32-bit variable in the code.\<close>

definition MmuUnmapMemoryEx ::
  "vm_env \<Rightarrow> qword \<Rightarrow> qword \<Rightarrow> bool \<Rightarrow> nat option \<Rightarrow> vm_state \<Rightarrow> vm_state option" where
  "MmuUnmapMemoryEx E va Size ReleaseMemory PagingData s = do {
     ASSERT (va \<noteq> 0);
     ASSERT (Size \<noteq> 0);
     let alignedVa = AlignAddressLower (EA E) va PAGE_SIZE;
     let alignmentDifferences = (ucast (va - alignedVa) :: dword);
     let alignedSize = (ucast (AlignAddressUpper (EA E) (Size + ucast alignmentDifferences) PAGE_SIZE) :: dword);
     m \<leftarrow> VmmUnmapMemoryEx (EA E) (EP E) (BasePhysicalAddress (paging_of s PagingData)) alignedVa (ucast alignedSize)
            ReleaseMemory (Mem s);
     Some (s\<lparr>Mem := m\<rparr>)
   }"

text \<open>\<open>Cr3Base\<close> is used when no paging data is given; exactly one of the two is.\<close>

definition MmuGetPhysicalAddressEx ::
  "vm_env \<Rightarrow> qword \<Rightarrow> nat option option \<Rightarrow> qword \<Rightarrow> vm_state \<Rightarrow> (qword \<times> vm_state) option" where
  "MmuGetPhysicalAddressEx E va PagingData Cr3Base s =
     (if va = 0 then Some (0, s)
      else do {
        ASSERT ((PagingData \<noteq> None) \<noteq> (Cr3Base \<noteq> 0));
        let alignedAddress = AlignAddressLower (EA E) va PAGE_SIZE;
        let alignmentDifference = AddressOffset (EA E) va PAGE_SIZE;
        let cr3 = (case PagingData of None \<Rightarrow> Cr3Base | Some p \<Rightarrow> BasePhysicalAddress (paging_of s p));
        (pa, _, _, m) \<leftarrow> VmmGetPhysicalAddressEx (EA E) (EP E) cr3 alignedAddress False False (Mem s);
        Some (pa + alignmentDifference, s\<lparr>Mem := m\<rparr>)
      })"

fun run_calls :: "vm_env \<Rightarrow> vm_call list \<Rightarrow> vm_state \<Rightarrow> vm_state option" where
  "run_calls E [] s = Some s"
| "run_calls E (CallMmuUnmapMemoryEx a n r # cs) s = MmuUnmapMemoryEx E a n r None s \<bind> run_calls E cs"
| "run_calls E (CallIoCloseFile f # cs) s = run_calls E cs (s\<lparr>DataOps := CloseFile f # DataOps s\<rparr>)"

subsection \<open>Regions\<close>

text \<open>
  A memory descriptor list: the number of bytes it describes, the page of its first byte and the
  offset in it, and its (address, size) pairs, as many as \<open>NumberOfTranslationPairs\<close> says.
\<close>

record mdl =
  ByteCount :: dword
  MdlStartVa :: qword
  ByteOffset :: dword
  TranslationPairs :: "(qword \<times> dword) list"

fun VmmMapDescribedRegion_loop ::
  "vm_env \<Rightarrow> qword \<Rightarrow> (qword \<times> dword) list \<Rightarrow> page_rights \<Rightarrow> nat option \<Rightarrow> qword \<Rightarrow> vm_state \<Rightarrow> vm_state option" where
  "VmmMapDescribedRegion_loop E Base [] Rights PagingData currentOffset s = Some s"
| "VmmMapDescribedRegion_loop E Base ((Address, NumberOfBytes) # pairs) Rights PagingData currentOffset s = do {
     let alignedPa = AlignAddressLower (EA E) Address PAGE_SIZE;
     let alignedPaSize = AlignAddressUpper (EA E) (ucast NumberOfBytes + AddressOffset (EA E) Address PAGE_SIZE) PAGE_SIZE;
     s \<leftarrow> MmuMapMemoryInternal E alignedPa alignedPaSize Rights (PtrOffset (EA E) Base currentOffset) False False PagingData s;
     VmmMapDescribedRegion_loop E Base pairs Rights PagingData (currentOffset + alignedPaSize) s
   }"

definition VmmMapDescribedRegion ::
  "vm_env \<Rightarrow> qword \<Rightarrow> mdl \<Rightarrow> page_rights \<Rightarrow> nat option \<Rightarrow> vm_state \<Rightarrow> vm_state option" where
  "VmmMapDescribedRegion E Base Mdl Rights PagingData s = do {
     ASSERT (Base \<noteq> 0);
     ASSERT (IsAddressAligned (EA E) Base PAGE_SIZE);
     VmmMapDescribedRegion_loop E Base (TranslationPairs Mdl) Rights PagingData 0 s
   }"

text \<open>
  Backing a region that is not lazy with frames: the status at the end of the \<open>__try\<close> block,
  the frames reserved (0 for none) and the state. When no frames are left the block is left
  with the status unchanged.
\<close>

definition VmmAllocRegionEx_frames ::
  "vm_env \<Rightarrow> qword \<Rightarrow> qword \<Rightarrow> page_rights \<Rightarrow> bool \<Rightarrow> file_object option \<Rightarrow> nat option \<Rightarrow> vm_state \<Rightarrow>
   (status \<times> qword \<times> vm_state) option" where
  "VmmAllocRegionEx_frames E pBase alignedSize Rights Uncacheable FileObject PagingData s = do {
     ASSERT (alignedSize div PAGE_SIZE \<le> ucast MAX_DWORD);
     let noOfFrames = (ucast (alignedSize div PAGE_SIZE) :: dword);
     let (pa, pmm) = PmmReserveMemory (EA E) (EB E) (PmmData s) noOfFrames;
     let s = s\<lparr>PmmData := pmm\<rparr>;
     if pa = 0 then Some (STATUS_SUCCESS, 0, s)
     else do {
       s \<leftarrow> MmuMapMemoryInternal E pa alignedSize Rights pBase True Uncacheable PagingData s;
       (case FileObject of
          None \<Rightarrow> Some (STATUS_SUCCESS, pa, s)
        | Some f \<Rightarrow>
            (let (status, bytesRead) = IoReadFile E f 0 alignedSize in
             if \<not> SUCCEEDED status then Some (status, pa, s)
             else do {
               ASSERT (alignedSize - bytesRead \<le> ucast MAX_DWORD);
               Some (status, pa, s\<lparr>DataOps := ZeroMemory (PtrOffset (EA E) pBase bytesRead) (alignedSize - bytesRead) #
                 ReadFileInto f 0 pBase bytesRead # DataOps s\<rparr>)
             }))
     }
   }"

definition VmmAllocRegionEx ::
  "vm_env \<Rightarrow> qword \<Rightarrow> qword \<Rightarrow> vmm_alloc_type set \<Rightarrow> page_rights \<Rightarrow> bool \<Rightarrow> file_object option \<Rightarrow> nat option \<Rightarrow>
   nat option \<Rightarrow> mdl option \<Rightarrow> vm_state \<Rightarrow> (qword \<times> vm_state) option" where
  "VmmAllocRegionEx E Base Size AllocType Rights Uncacheable FileObject VaSpace PagingData Mdl s = do {
     ASSERT (Size \<noteq> 0);
     ASSERT (VMM_ALLOC_TYPE_COMMIT \<in> AllocType \<or> VMM_ALLOC_TYPE_RESERVE \<in> AllocType);
     ASSERT (Mdl = None \<or> VMM_ALLOC_TYPE_NOT_LAZY \<in> AllocType);
     ASSERT (VMM_ALLOC_TYPE_ZERO \<notin> AllocType);
     ASSERT (Mdl = None \<or> FileObject = None);
     (status, mapped, sp) \<leftarrow> VmReservationSpaceAllocRegion (EA E) (EB E) (space_of s VaSpace) Base Size AllocType
                               Rights Uncacheable FileObject;
     let s = set_space VaSpace sp s;
     (case mapped of
        None \<Rightarrow> Some (0, s)
      | Some (pBase, alignedSize) \<Rightarrow> do {
          ASSERT (pBase \<noteq> 0);
          (status, pa, s) \<leftarrow>
            (if VMM_ALLOC_TYPE_NOT_LAZY \<in> AllocType then do {
               ASSERT (VMM_ALLOC_TYPE_COMMIT \<in> AllocType);
               (case Mdl of
                  Some mdl \<Rightarrow> do {
                    ASSERT (ucast (ByteCount mdl) \<le> alignedSize);
                    s \<leftarrow> VmmMapDescribedRegion E pBase mdl Rights PagingData s;
                    Some (STATUS_SUCCESS, 0, s)
                  }
                | None \<Rightarrow> VmmAllocRegionEx_frames E pBase alignedSize Rights Uncacheable FileObject PagingData s)
             }
             else Some (STATUS_SUCCESS, 0, s));
          if SUCCEEDED status then Some (pBase, s)
          else do {
            (pAligned, alignedSize, calls, sp) \<leftarrow>
              VmReservationSpaceFreeRegion (EA E) (EB E) (space_of s VaSpace) pBase 0 {VMM_FREE_TYPE_RELEASE};
            s \<leftarrow> run_calls E calls (set_space VaSpace sp s);
            ASSERT (pAligned = pBase);
            s \<leftarrow> (if pa \<noteq> 0 then MmuUnmapMemoryEx E pAligned (ucast (ucast alignedSize :: dword)) True PagingData s
                  else Some s);
            Some (0, s)
          }
        })
   }"

definition VmmFreeRegionEx ::
  "vm_env \<Rightarrow> qword \<Rightarrow> qword \<Rightarrow> vmm_free_type set \<Rightarrow> bool \<Rightarrow> nat option \<Rightarrow> nat option \<Rightarrow> vm_state \<Rightarrow> vm_state option" where
  "VmmFreeRegionEx E Address Size FreeType Release VaSpace PagingData s = do {
     ASSERT (Address \<noteq> 0);
     ASSERT ((VMM_FREE_TYPE_RELEASE \<in> FreeType) \<noteq> (VMM_FREE_TYPE_DECOMMIT \<in> FreeType));
     ASSERT ((VMM_FREE_TYPE_RELEASE \<in> FreeType \<and> Size = 0) \<or> (VMM_FREE_TYPE_DECOMMIT \<in> FreeType \<and> Size \<noteq> 0));
     (alignedAddress, alignedSize, calls, sp) \<leftarrow>
       VmReservationSpaceFreeRegion (EA E) (EB E) (space_of s VaSpace) Address Size FreeType;
     s \<leftarrow> run_calls E calls (set_space VaSpace sp s);
     ASSERT (alignedAddress \<noteq> 0);
     ASSERT (alignedSize \<noteq> 0);
     MmuUnmapMemoryEx E alignedAddress alignedSize Release PagingData s
   }"

subsection \<open>Page faults\<close>

text \<open>
  \<open>pCpu\<close> is the \<open>VmmMemoryAccess\<close> flag of the CPU, \<open>None\<close> before the CPU structures exist;
  \<open>cur\<close> is the process of the current thread. Interrupts are off during the call.
\<close>

definition VmmSolvePageFault ::
  "vm_env \<Rightarrow> bool option \<Rightarrow> nat option \<Rightarrow> qword \<Rightarrow> page_rights \<Rightarrow> nat option \<Rightarrow> vm_state \<Rightarrow> (bool \<times> vm_state) option" where
  "VmmSolvePageFault E pCpu cur FaultingAddress RightsRequested PagingData s =
     (let alignedAddress = AlignAddressLower (EA E) FaultingAddress PAGE_SIZE;
          bKernelAddress = VmIsKernelAddress (EP E) FaultingAddress in
      if alignedAddress = 0 then Some (False, s)
      else if bKernelAddress \<and> \<not> KernelSpace (paging_of s PagingData) then Some (False, s)
      else if \<not> bKernelAddress \<and> KernelSpace (paging_of s PagingData) then Some (False, s)
      else do {
        access \<leftarrow> VmReservationCanAddressBeAccessed (EA E) (EB E) pCpu
                   (space_of s (VmmRetrieveReservationSpaceForAddress (EP E) cur FaultingAddress))
                   FaultingAddress RightsRequested;
        (case access of
           None \<Rightarrow> Some (False, s)
         | Some (pageRights, uncacheable, pBackingFile, fileOffset) \<Rightarrow> do {
             let (pa, pmm) = PmmReserveMemory (EA E) (EB E) (PmmData s) 1;
             ASSERT (pa \<noteq> 0);
             s \<leftarrow> MmuMapMemoryInternal E pa PAGE_SIZE pageRights alignedAddress True uncacheable PagingData
                   (s\<lparr>PmmData := pmm\<rparr>);
             let (status, bytesRead) = (case pBackingFile of None \<Rightarrow> (STATUS_SUCCESS, 0)
                                        | Some f \<Rightarrow> IoReadFile E f fileOffset PAGE_SIZE);
             if \<not> SUCCEEDED status then Some (False, s)
             else do {
               ASSERT (bytesRead \<le> PAGE_SIZE);
               let s = s\<lparr>DataOps := (case pBackingFile of None \<Rightarrow> []
                   | Some f \<Rightarrow> [ReadFileInto f fileOffset alignedAddress bytesRead]) @ DataOps s\<rparr>;
               let s = (if bytesRead \<noteq> PAGE_SIZE
                        then s\<lparr>DataOps := ZeroMemory (PtrOffset (EA E) alignedAddress bytesRead) (PAGE_SIZE - bytesRead) #
                          DataOps s\<rparr>
                        else s);
               Some (True, if pCpu = None then s else s\<lparr>PageFaults := PageFaults s + 1\<rparr>)
             }
           })
      })"

text \<open>The error code of a page fault: the bits the handler reads.\<close>

record page_fault_err_code =
  ErrWrite :: bool
  ErrUsermode :: bool
  ErrExecution :: bool

definition MmuSolvePageFault ::
  "vm_env \<Rightarrow> bool option \<Rightarrow> nat option \<Rightarrow> qword \<Rightarrow> page_fault_err_code \<Rightarrow> vm_state \<Rightarrow> (bool \<times> vm_state) option" where
  "MmuSolvePageFault E pCpu cur FaultingAddress err s =
     VmmSolvePageFault E pCpu cur FaultingAddress
       ({PAGE_RIGHTS_READ} \<union> (if ErrWrite err then {PAGE_RIGHTS_WRITE} else {}) \<union>
        (if ErrExecution err then {PAGE_RIGHTS_EXECUTE} else {}))
       (if ErrUsermode err then cur else None) s"

subsection \<open>Address spaces of processes\<close>

text \<open>
  Creating the address space of process \<open>i\<close>. \<open>outNull\<close> says that the pointer for the result is
  \<open>NULL\<close>, \<open>headerOk\<close> that the header could be allocated from the pool; \<open>slots\<close> is what the new
  table holds.
\<close>

definition VmmCreateVirtualAddressSpace ::
  "vm_env \<Rightarrow> bool \<Rightarrow> qword \<Rightarrow> qword \<Rightarrow> bool \<Rightarrow> vmm_reservation list \<Rightarrow> nat \<Rightarrow> vm_state \<Rightarrow> (status \<times> vm_state) option" where
  "VmmCreateVirtualAddressSpace E outNull ReservationMetadataSize StartOfVa headerOk slots i s =
     (if outNull then Some (STATUS_INVALID_PARAMETER1, s)
      else if outNull then Some (STATUS_INVALID_PARAMETER2, s)
      else if StartOfVa = 0 then Some (STATUS_INVALID_PARAMETER3, s)
      else if \<not> headerOk then Some (STATUS_INSUFFICIENT_MEMORY, s)
      else do {
        (pMetadata, s) \<leftarrow> VmmAllocRegionEx E 0 ReservationMetadataSize {VMM_ALLOC_TYPE_RESERVE, VMM_ALLOC_TYPE_COMMIT}
                            PAGE_RIGHTS_READWRITE False None None None None s;
        if pMetadata = 0 then Some (STATUS_INSUFFICIENT_MEMORY, s)
        else do {
          space \<leftarrow> VmReservationSpaceInit (EA E) pMetadata StartOfVa ReservationMetadataSize slots;
          space \<leftarrow> VmReservationSpaceFinishInit space;
          Some (STATUS_SUCCESS, set_space (Some i) space s)
        }
      })"

definition VmmDestroyVirtualAddressSpace :: "vm_env \<Rightarrow> nat \<Rightarrow> vm_state \<Rightarrow> vm_state option" where
  "VmmDestroyVirtualAddressSpace E i s =
     (let space = ProcessVaSpace s i in
      if ReservationListAddress space \<noteq> 0 then do {
        s \<leftarrow> VmmFreeRegionEx E (ReservationListAddress space) 0 {VMM_FREE_TYPE_RELEASE} True None None s;
        Some (set_space (Some i) (space\<lparr>ReservationListAddress := 0\<rparr>) s)
      }
      else Some s)"

subsection \<open>User buffers and stacks\<close>

definition VmmIsBufferValid ::
  "vm_env \<Rightarrow> qword \<Rightarrow> qword \<Rightarrow> page_rights \<Rightarrow> vmm_reservation_space \<Rightarrow> bool \<Rightarrow> status option" where
  "VmmIsBufferValid E Buffer BufSize RightsRequested space KernelAccess = do {
     ASSERT (Buffer \<noteq> 0);
     ASSERT (BufSize \<noteq> 0);
     kernelRange \<leftarrow> (if KernelAccess then Some False else VmIsKernelRange (EA E) (EP E) Buffer BufSize);
     if kernelRange then Some STATUS_MEMORY_PREVENTS_USERMODE_ACCESS
     else do {
       (status, rightsGranted) \<leftarrow> VmReservationReturnRightsForAddress (EA E) (EB E) space Buffer BufSize;
       if \<not> SUCCEEDED status then Some status
       else (case rightsGranted of
               None \<Rightarrow> None
             | Some granted \<Rightarrow> if \<not> RightsRequested \<subseteq> granted then Some STATUS_MEMORY_INSUFFICIENT_ACCESS_RIGHTS
                               else Some STATUS_SUCCESS)
     }
   }"

text \<open>The image of the process is given by its base and its size; \<open>None\<close> is the process \<open>NULL\<close>.\<close>

definition MmuIsBufferValid ::
  "vm_env \<Rightarrow> qword \<Rightarrow> qword \<Rightarrow> page_rights \<Rightarrow> (nat option \<times> qword \<times> qword) option \<Rightarrow> vm_state \<Rightarrow> status option" where
  "MmuIsBufferValid E Buffer BufSize RightsRequested Process s =
     (if Buffer = 0 then Some STATUS_INVALID_PARAMETER1
      else if BufSize = 0 then Some STATUS_INVALID_PARAMETER2
      else (case Process of
              None \<Rightarrow> Some STATUS_INVALID_PARAMETER4
            | Some (p, ImageBase, ImageSize) \<Rightarrow>
                if ImageBase \<le> Buffer \<and> Buffer < PtrOffset (EA E) ImageBase ImageSize then Some STATUS_SUCCESS
                else VmmIsBufferValid E Buffer BufSize RightsRequested (space_of s p) (KernelSpace (paging_of s p))))"

definition STACK_GUARD_SIZE :: dword where
  "STACK_GUARD_SIZE = 2 * 0x1000"

definition STACK_DEFAULT_SIZE :: dword where
  "STACK_DEFAULT_SIZE = 8 * 0x1000"

definition MmuAllocStack ::
  "vm_env \<Rightarrow> dword \<Rightarrow> bool \<Rightarrow> bool \<Rightarrow> nat option \<Rightarrow> vm_state \<Rightarrow> (qword \<times> vm_state) option" where
  "MmuAllocStack E StackSize ProtectStack LazyMap Process s = do {
     ASSERT (IsAddressAligned (EA E) (ucast StackSize) PAGE_SIZE);
     let stackGuardSize = (if ProtectStack then STACK_GUARD_SIZE else 0);
     let totalAllocationSize = StackSize + stackGuardSize;
     let allocTypeCommit = {VMM_ALLOC_TYPE_COMMIT} \<union> (if LazyMap then {} else {VMM_ALLOC_TYPE_NOT_LAZY});
     (pStackBase, s) \<leftarrow> VmmAllocRegionEx E 0 (ucast totalAllocationSize) {VMM_ALLOC_TYPE_RESERVE} PAGE_RIGHTS_READWRITE
                          False None Process Process None s;
     if pStackBase = 0 then Some (0, s)
     else do {
       (pCommited, s) \<leftarrow> VmmAllocRegionEx E (pStackBase + ucast stackGuardSize) (ucast StackSize) allocTypeCommit
                           PAGE_RIGHTS_READWRITE False None Process Process None s;
       if pCommited = 0 then Some (0, s)
       else Some (pStackBase + ucast totalAllocationSize, s)
     }
   }"

definition MmuFreeStack :: "vm_env \<Rightarrow> qword \<Rightarrow> nat option \<Rightarrow> vm_state \<Rightarrow> vm_state option" where
  "MmuFreeStack E Stack Process s = do {
     ASSERT (Stack \<noteq> 0);
     VmmFreeRegionEx E Stack 0 {VMM_FREE_TYPE_RELEASE} True Process Process s
   }"

subsection \<open>Lemmas\<close>

lemma VmDeterminePatIndices_loop_find:
  assumes "wbType \<noteq> ucType"
  shows "VmDeterminePatIndices_loop wbType ucType PatValues is (w, u) =
    (case w of None \<Rightarrow> map_option word_of_nat (find (\<lambda>i. pat_byte PatValues i = wbType) is) | Some _ \<Rightarrow> w,
     case u of None \<Rightarrow> map_option word_of_nat (find (\<lambda>i. pat_byte PatValues i = ucType) is) | Some _ \<Rightarrow> u)"
proof (induction "is" arbitrary: w u)
  case Nil
  then show ?case by (simp split: option.splits)
next
  case (Cons i "is")
  show ?case
    using assms
    by (cases "pat_byte PatValues i = ucType"; cases "pat_byte PatValues i = wbType"; cases w; cases u)
      (simp_all add: Cons.IH)
qed

lemma state_simps [simp]:
  "paging_of (set_space v sp s) p = paging_of s p" "paging_of (s\<lparr>PmmData := d\<rparr>) p = paging_of s p"
  "paging_of (s\<lparr>Mem := m\<rparr>) p = paging_of s p" "paging_of (s\<lparr>PageFaults := n\<rparr>) p = paging_of s p"
  "paging_of (s\<lparr>DataOps := ops\<rparr>) p = paging_of s p" "paging_of (set_paging p pd s) p = pd"
  "space_of (set_paging p pd s) v = space_of s v" "space_of (s\<lparr>PmmData := d\<rparr>) v = space_of s v"
  "space_of (s\<lparr>Mem := m\<rparr>) v = space_of s v" "space_of (s\<lparr>PageFaults := n\<rparr>) v = space_of s v"
  "space_of (s\<lparr>DataOps := ops\<rparr>) v = space_of s v" "space_of (set_space v sp s) v = sp"
  "Mem (set_space v sp s) = Mem s" "PmmData (set_space v sp s) = PmmData s"
  "Mem (set_paging p pd s) = Mem s" "PmmData (set_paging p pd s) = PmmData s"
  "VmmData (set_paging p pd s) = VmmData s"
  by (simp_all add: paging_of_def set_paging_def space_of_def set_space_def split: option.splits)

lemma page_floor_range:
  assumes "page_floor a \<noteq> 0"
  shows "range_ok (page_floor a) 1"
proof -
  obtain k where k: "unat (page_floor a) = 4096 * k"
    using page_aligned_floor [of a] by (auto simp: page_aligned_unat elim!: dvdE)
  have "unat (page_floor a) < 2 ^ 64"
    by (rule unat_qword_less)
  then have "unat (page_floor a) + 4096 \<le> 2 ^ 64"
    unfolding k by simp
  then show ?thesis
    using assms by (simp add: range_ok_def)
qed

text \<open>Mapping one page through \<open>mmu.c\<close>.\<close>

locale vm_contracts =
  fixes E :: vm_env
  assumes env_addr: "addr_contract (EA E)" and env_bitmap: "bitmap_contract (EB E)"
    and env_pte: "pte_contract (EP E)"
begin

lemma env_mem: "mem_env (EA E) (EB E)"
  using env_addr env_bitmap by (rule mem_envI)

lemma MmuMap_range:
  assumes ok: "paging_ok (EP E) (paging_of s p) (Mem s)"
    and rng: "range_ok va n" "0 < n" "unat Size = 4096 * n"
    and pa: "page_aligned pa" "unat pa + 4096 * n \<le> 2 ^ 52"
    and room: "unat (CurrentIndex (paging_of s p)) + structures_for n \<le> unat (NumberOfFrames (paging_of s p))"
  shows "\<exists>pd m. MmuMapMemoryInternal E pa Size rights va True uc p s = Some (set_paging p pd (s\<lparr>Mem := m\<rparr>)) \<and>
    BasePhysicalAddress pd = BasePhysicalAddress (paging_of s p) \<and> paging_ok (EP E) pd m \<and>
    (\<forall>k < n. map_option fst (VmmGetPhysicalAddressEx (EA E) (EP E) (BasePhysicalAddress (paging_of s p))
      (range_va va k) False False m) = Some (pa + word_of_nat (4096 * k))) \<and>
    (\<forall>va'. va' \<noteq> 0 \<and> page_aligned va' \<and> (\<forall>k < n. page_no va' \<noteq> page_no (range_va va k)) \<longrightarrow>
       map_option fst (VmmGetPhysicalAddressEx (EA E) (EP E) (BasePhysicalAddress (paging_of s p)) va' False False m) =
       map_option fst (VmmGetPhysicalAddressEx (EA E) (EP E) (BasePhysicalAddress (paging_of s p)) va' False False (Mem s)))"
proof -
  have "page_aligned Size" "Size \<noteq> 0" "page_aligned va" "va \<noteq> 0"
    using rng by (auto simp: page_aligned_unat range_ok_def)
  then have facade: "MmuMapMemoryInternal E pa Size rights va True uc p s =
      VmmMapMemoryInternal (EA E) (EP E) (PA2VA E) (VmmData s) pa Size va rights True uc (paging_of s p, Mem s)
        \<bind> (\<lambda>(pd, m). Some (set_paging p pd (s\<lparr>Mem := m\<rparr>)))"
    by (simp add: MmuMapMemoryInternal_def addr_contract.IsAddressAligned_page [OF env_addr])
  obtain pd m where "VmmMapMemoryInternal (EA E) (EP E) (PA2VA E) (VmmData s) pa Size va rights True uc (paging_of s p, Mem s) =
      Some (pd, m)" and rest: "paging_ok (EP E) pd m \<and> BasePhysicalAddress pd = BasePhysicalAddress (paging_of s p) \<and>
      (\<forall>k < n. map_option fst (VmmGetPhysicalAddressEx (EA E) (EP E) (BasePhysicalAddress (paging_of s p))
        (range_va va k) False False m) = Some (pa + word_of_nat (4096 * k))) \<and>
      (\<forall>va'. va' \<noteq> 0 \<and> page_aligned va' \<and> (\<forall>k < n. page_no va' \<noteq> page_no (range_va va k)) \<longrightarrow>
         map_option fst (VmmGetPhysicalAddressEx (EA E) (EP E) (BasePhysicalAddress (paging_of s p)) va' False False m) =
         map_option fst (VmmGetPhysicalAddressEx (EA E) (EP E) (BasePhysicalAddress (paging_of s p)) va' False False (Mem s)))"
    using pte_contract.VmmMap_range [OF env_pte env_addr ok rng pa room, of "PA2VA E" "VmmData s" rights uc] by blast
  with facade have "MmuMapMemoryInternal E pa Size rights va True uc p s = Some (set_paging p pd (s\<lparr>Mem := m\<rparr>))"
    by simp
  then show ?thesis
    using rest by blast
qed

lemma PmmReserve_frames:
  assumes "PmmReserveMemory (EA E) (EB E) d n = (pa, d')" and "pa \<noteq> 0"
  shows "page_aligned pa" and "unat pa + 4096 * unat n \<le> 2 ^ 52"
    and "frames_of pa n \<subseteq> {..<frame_count d} - reserved_frames d"
    and "reserved_frames d' = reserved_frames d \<union> frames_of pa n"
proof -
  have call: "PmmReserveMemoryEx (EA E) (EB E) d n 0 = (pa, d')"
    using assms(1) by (simp add: PmmReserveMemory_def)
  note succ = mem_env.PmmReserveMemoryEx_success [OF env_mem call assms(2)]
  note frames = mem_env.PmmReserveMemoryEx_frames [OF env_mem call assms(2)]
  show "page_aligned pa"
    by (rule succ(2))
  have "unat pa div 4096 + unat n < 2 ^ 32"
    using succ(4) unat_dword_less [of "BitCount (AllocationBitmap d)"] by (simp add: frame_count_def)
  moreover obtain k where "unat pa = 4096 * k"
    using succ(2) by (auto simp: page_aligned_unat elim!: dvdE)
  ultimately show "unat pa + 4096 * unat n \<le> 2 ^ 52"
    by simp
  show "frames_of pa n \<subseteq> {..<frame_count d} - reserved_frames d"
    and "reserved_frames d' = reserved_frames d \<union> frames_of pa n"
    using frames(1-3) by auto
qed

lemma SolvePageFault_total:
  assumes kern: "VmIsKernelAddress (EP E) fa = KernelSpace (paging_of s p)" and fa: "page_floor fa \<noteq> 0"
    and access: "VmReservationCanAddressBeAccessed (EA E) (EB E) pCpu
      (space_of s (VmmRetrieveReservationSpaceForAddress (EP E) cur fa)) fa r = Some (Some (rights, uc, None, off))"
    and frame: "PmmReserveMemory (EA E) (EB E) (PmmData s) 1 = (pa, d)" "pa \<noteq> 0"
    and ok: "paging_ok (EP E) (paging_of s p) (Mem s)"
    and room: "unat (CurrentIndex (paging_of s p)) + 3 \<le> unat (NumberOfFrames (paging_of s p))"
  shows "\<exists>s'. VmmSolvePageFault E pCpu cur fa r p s = Some (True, s') \<and> PmmData s' = d \<and>
    (\<forall>v. space_of s' v = space_of s v) \<and> DataOps s' = ZeroMemory (page_floor fa) PAGE_SIZE # DataOps s \<and>
    paging_ok (EP E) (paging_of s' p) (Mem s') \<and>
    map_option fst (VmmGetPhysicalAddressEx (EA E) (EP E) (BasePhysicalAddress (paging_of s' p)) (page_floor fa)
      False False (Mem s')) = Some pa \<and>
    (\<forall>va'. va' \<noteq> 0 \<and> page_aligned va' \<and> page_no va' \<noteq> page_no (page_floor fa) \<longrightarrow>
       map_option fst (VmmGetPhysicalAddressEx (EA E) (EP E) (BasePhysicalAddress (paging_of s' p)) va' False False (Mem s')) =
       map_option fst (VmmGetPhysicalAddressEx (EA E) (EP E) (BasePhysicalAddress (paging_of s p)) va' False False (Mem s)))"
proof -
  note one = PmmReserve_frames [OF frame]
  have "paging_ok (EP E) (paging_of (s\<lparr>PmmData := d\<rparr>) p) (Mem (s\<lparr>PmmData := d\<rparr>))"
    and args: "(0 :: nat) < 1" "unat PAGE_SIZE = 4096 * 1" "unat pa + 4096 * 1 \<le> 2 ^ 52" "range_va (page_floor fa) 0 = page_floor fa"
    using ok one(2) by (simp_all add: range_va_def)
  from MmuMap_range [OF this(1) page_floor_range [OF fa] args(1,2) one(1) args(3), of rights uc] room args(4) structures_for_one
  obtain pd m where map: "MmuMapMemoryInternal E pa PAGE_SIZE rights (page_floor fa) True uc p (s\<lparr>PmmData := d\<rparr>)
        = Some (set_paging p pd (s\<lparr>PmmData := d, Mem := m\<rparr>))"
      "paging_ok (EP E) pd m" "BasePhysicalAddress pd = BasePhysicalAddress (paging_of s p)"
      "map_option fst (VmmGetPhysicalAddressEx (EA E) (EP E) (BasePhysicalAddress pd) (page_floor fa) False False m) = Some pa"
      "\<forall>va'. va' \<noteq> 0 \<and> page_aligned va' \<and> page_no va' \<noteq> page_no (page_floor fa) \<longrightarrow>
         map_option fst (VmmGetPhysicalAddressEx (EA E) (EP E) (BasePhysicalAddress pd) va' False False m) =
         map_option fst (VmmGetPhysicalAddressEx (EA E) (EP E) (BasePhysicalAddress (paging_of s p)) va' False False (Mem s))"
    by auto
  define s2 where "s2 = set_paging p pd (s\<lparr>PmmData := d, Mem := m\<rparr>)"
  define s3 where "s3 = s2\<lparr>DataOps := ZeroMemory (page_floor fa) PAGE_SIZE # DataOps s2\<rparr>"
  define s' where "s' = (if pCpu = None then s3 else s3\<lparr>PageFaults := PageFaults s3 + 1\<rparr>)"
  have run: "VmmSolvePageFault E pCpu cur fa r p s = Some (True, s')"
    using kern fa access frame(2) map(1)
    by (simp add: VmmSolvePageFault_def Let_def frame(1) addr_contract.addr_simps [OF env_addr] s'_def s3_def s2_def)
  have "PmmData s' = d" "DataOps s' = ZeroMemory (page_floor fa) PAGE_SIZE # DataOps s"
    "\<forall>v. space_of s' v = space_of s v" "Mem s' = m"
    by (simp_all add: s'_def s3_def s2_def set_paging_def space_of_def split: option.split)
  moreover have "paging_of s' p = pd"
    by (simp add: s'_def s3_def s2_def)
  ultimately show ?thesis
    using run map(2-5) by (intro exI [of _ s'] conjI) simp_all
qed

end

lemma SolvePageFault_granted:
  assumes "VmmSolvePageFault E pCpu cur fa req p s = Some (True, s')"
  shows "VmIsKernelAddress (EP E) fa = KernelSpace (paging_of s p)" (is ?kern)
    and "\<exists>rights uc f off. VmReservationCanAddressBeAccessed (EA E) (EB E) pCpu
      (space_of s (VmmRetrieveReservationSpaceForAddress (EP E) cur fa)) fa req = Some (Some (rights, uc, f, off))"
proof -
  show ?kern
    using assms by (auto simp: VmmSolvePageFault_def Let_def split: if_splits)
  define acc where "acc = VmReservationCanAddressBeAccessed (EA E) (EB E) pCpu
      (space_of s (VmmRetrieveReservationSpaceForAddress (EP E) cur fa)) fa req"
  have "\<exists>x. acc = Some (Some x)"
  proof (rule ccontr)
    assume "\<nexists>x. acc = Some (Some x)"
    then have "acc = None \<or> acc = Some None"
      by (metis option.exhaust)
    then show False
      using assms by (elim disjE) (auto simp: VmmSolvePageFault_def Let_def acc_def [symmetric] split: if_splits)
  qed
  then show "\<exists>rights uc f off. VmReservationCanAddressBeAccessed (EA E) (EB E) pCpu
      (space_of s (VmmRetrieveReservationSpaceForAddress (EP E) cur fa)) fa req = Some (Some (rights, uc, f, off))"
    unfolding acc_def
    by simp
qed

subsection \<open>The contracts hold\<close>

definition env_example :: vm_env where
  "env_example = \<lparr>EA = addr_ops, EB = bitmap_ops, EP = pte_ops, PA2VA = id,
     IoReadFile = (\<lambda>_ _ _. (STATUS_UNSUCCESSFUL, 0))\<rparr>"

interpretation vmx: vm_contracts env_example
  by (rule vm_contracts.intro)
    (simp_all add: env_example_def addr.addr_contract_axioms bm.bitmap_contract_axioms pte.pte_contract_axioms)

lemma env_example_sel [simp]:
  "EA env_example = addr_ops" "EB env_example = bitmap_ops" "EP env_example = pte_ops" "PA2VA env_example = id"
  by (simp_all add: env_example_def)

text \<open>A system with one process that has one region of three pages, two of them committed.\<close>

definition vm_example :: vm_state where
  "vm_example = \<lparr>VmmData = vmm_data_example, PmmData = pmm_example, Mem = mem_example,
     SystemPaging = paging_example, ProcessPaging = (\<lambda>_. paging_example\<lparr>KernelSpace := False\<rparr>),
     ProcessVaSpace = (\<lambda>_. vm_one), PageFaults = 0, DataOps = []\<rparr>"

lemma paging_ok_KernelSpace [simp]: "paging_ok P (pd\<lparr>KernelSpace := b\<rparr>) m = paging_ok P pd m"
  by (simp add: paging_ok_def tables_wf_def frame_at_def)

lemma vm_example_sel [simp]:
  "paging_of vm_example (Some i) = paging_example\<lparr>KernelSpace := False\<rparr>" "space_of vm_example (Some i) = vm_one"
  "PmmData vm_example = pmm_example" "Mem vm_example = mem_example"
  "paging_of vm_example None = paging_example" "space_of vm_example None = vm_empty"
  by (simp_all add: paging_of_def space_of_def vm_example_def vmm_data_example_def)

lemma vm_one_access:
  "VmReservationCanAddressBeAccessed addr_ops bitmap_ops (Some False) vm_one 0x601234
     {PAGE_RIGHTS_READ, PAGE_RIGHTS_WRITE} = Some (Some (PAGE_RIGHTS_READWRITE, False, None, 0))"
proof -
  have nm: "\<not> in_metadata vm_one 0x601234"
    by (simp add: in_metadata_def vm_example_defs)
  have slot: "0 < live (ReservationList vm_one)" "used (ReservationList vm_one ! 0)"
    "covers (ReservationList vm_one ! 0) (unat (0x601234 :: qword)) 1"
    by (simp_all only: vm_one_slot) (simp_all add: covers_def vm_region_def)
  have "page_committed vm_region (unat (0x601234 :: qword))"
    by (simp add: page_committed_def vm_region_def)
  then show ?thesis
    using me.VmAccess_at [OF vm_one_inv slot nm, of "Some False" "{PAGE_RIGHTS_READ, PAGE_RIGHTS_WRITE}"]
    unfolding vm_one_slot(2) by (simp add: vm_region_def file_offset_def)
qed

lemma pmm_example_one: "fst (PmmReserveMemory addr_ops bitmap_ops pmm_example 1) = 0x1000"
  by code_simp

lemma vm_example_fault:
  "\<exists>s'. VmmSolvePageFault env_example (Some False) (Some 0) 0x601234 {PAGE_RIGHTS_READ, PAGE_RIGHTS_WRITE} (Some 0)
    vm_example = Some (True, s')"
proof -
  obtain d where d: "PmmReserveMemory addr_ops bitmap_ops pmm_example 1 = (0x1000, d)"
    using pmm_example_one by (metis prod.collapse)
  have "\<not> VmIsKernelAddress pte_ops 0x601234" "page_floor 0x601234 = 0x601000"
    "unat (CurrentIndex paging_example) + 3 \<le> unat (NumberOfFrames paging_example)"
    by (simp_all add: VmIsKernelAddress_def pte_ops_def page_floor_def paging_example_def)
  then show ?thesis
    using vmx.SolvePageFault_total [of "0x601234" vm_example "Some 0" "Some False" "Some 0"
        "{PAGE_RIGHTS_READ, PAGE_RIGHTS_WRITE}" PAGE_RIGHTS_READWRITE False 0 "0x1000" d]
      d paging_example_ok vm_one_access
    by (auto simp: VmmRetrieveReservationSpaceForAddress_def)
qed

subsection \<open>Properties\<close>

text \<open>
  \<open>VmmPreparePagingData\<close> agrees with a search: the two indices are the first bytes of the
  page attribute table that hold the write-back and the strong-uncacheable type, and the call
  succeeds exactly when both types occur.
\<close>

theorem VmmPreparePagingData_finds:
  assumes "wbType \<noteq> ucType"
  shows "VmmPreparePagingData wbType ucType pat vd =
    (case (find (\<lambda>i. pat_byte pat i = wbType) [0..<8], find (\<lambda>i. pat_byte pat i = ucType) [0..<8]) of
       (Some w, Some u) \<Rightarrow>
         (STATUS_SUCCESS, vd\<lparr>WriteBackIndex := word_of_nat w, UncacheableIndex := word_of_nat u\<rparr>)
     | (Some w, None) \<Rightarrow> (STATUS_PAT_LAYOUT_NOT_COMPATIBLE, vd\<lparr>WriteBackIndex := word_of_nat w\<rparr>)
     | (None, Some u) \<Rightarrow> (STATUS_PAT_LAYOUT_NOT_COMPATIBLE, vd\<lparr>UncacheableIndex := word_of_nat u\<rparr>)
     | (None, None) \<Rightarrow> (STATUS_PAT_LAYOUT_NOT_COMPATIBLE, vd))"
  unfolding VmmPreparePagingData_def VmDeterminePatIndices_def VmDeterminePatIndices_loop_find [OF assms]
  by (simp add: Let_def split: option.split)

theorem VmmPreparePagingData_finds_witness:
  "VmmPreparePagingData 6 0 0x0007040600070406 vmm_data_example =
    (STATUS_SUCCESS, vmm_data_example\<lparr>WriteBackIndex := 0, UncacheableIndex := 3\<rparr>)"
proof -
  have "find (\<lambda>i. pat_byte 0x0007040600070406 i = 6) [0..<8] = Some 0"
    "find (\<lambda>i. pat_byte 0x0007040600070406 i = 0) [0..<8] = Some 3"
    by code_simp+
  then show ?thesis
    using VmmPreparePagingData_finds [of 6 0 "0x0007040600070406" vmm_data_example] by simp
qed



text \<open>
  C12 (safety). A user-mode fault is solved only for a reason: the address is not a kernel address, and
  a reservation of the faulting process covers it, has its page committed and grants reading
  and whatever else the faulting instruction asked for. (The metadata area of the address
  space, which lies in kernel memory, is left out.)
\<close>

theorem MmuSolvePageFault_user:
  assumes env: "vm_contracts E" and user: "ErrUsermode err" "\<not> KernelSpace (ProcessPaging s i)"
    and inv: "vm_inv (ProcessVaSpace s i)" "metadata_ok (ProcessVaSpace s i)"
    and nm: "\<not> in_metadata (ProcessVaSpace s i) fa" and nw: "unat fa + 1 < 2 ^ 64"
    and solved: "MmuSolvePageFault E pCpu (Some i) fa err s = Some (True, s')"
  shows "\<not> VmIsKernelAddress (EP E) fa \<and>
    list_ex (\<lambda>r. used r \<and> covers r (unat fa) 1 \<and> page_committed r (unat fa) \<and> PAGE_RIGHTS_READ \<in> ResPageRights r \<and>
      (ErrWrite err \<longrightarrow> PAGE_RIGHTS_WRITE \<in> ResPageRights r) \<and>
      (ErrExecution err \<longrightarrow> PAGE_RIGHTS_EXECUTE \<in> ResPageRights r)) (ReservationList (ProcessVaSpace s i))"
proof -
  let ?req = "{PAGE_RIGHTS_READ} \<union> (if ErrWrite err then {PAGE_RIGHTS_WRITE} else {}) \<union>
        (if ErrExecution err then {PAGE_RIGHTS_EXECUTE} else {})"
  have solved': "VmmSolvePageFault E pCpu (Some i) fa ?req (Some i) s = Some (True, s')"
    using solved user(1) by (simp add: MmuSolvePageFault_def)
  note granted = SolvePageFault_granted [OF solved']
  have user': "\<not> VmIsKernelAddress (EP E) fa"
    using granted(1) user(2) by (simp add: paging_of_def)
  obtain rights uc f off where "VmReservationCanAddressBeAccessed (EA E) (EB E) pCpu (ProcessVaSpace s i) fa ?req =
      Some (Some (rights, uc, f, off))"
    using granted(2) user' by (auto simp: VmmRetrieveReservationSpaceForAddress_def space_of_def)
  note slot = mem_env.VmAccess_granted_slot [OF vm_contracts.env_mem [OF env] inv nm nw this]
  show ?thesis
    using slot user' by (force simp: list_ex_iff split: if_splits)
qed

theorem MmuSolvePageFault_user_witness:
  "fst (the (MmuSolvePageFault env_example (Some False) (Some 0) 0x601234
      \<lparr>ErrWrite = True, ErrUsermode = True, ErrExecution = False\<rparr> vm_example)) \<and>
    list_ex (\<lambda>r. used r \<and> covers r 0x601234 1 \<and> page_committed r 0x601234 \<and>
      PAGE_RIGHTS_WRITE \<in> ResPageRights r) (ReservationList vm_one)"
proof -
  let ?err = "\<lparr>ErrWrite = True, ErrUsermode = True, ErrExecution = False\<rparr>"
  obtain s' where "VmmSolvePageFault env_example (Some False) (Some 0) 0x601234 {PAGE_RIGHTS_READ, PAGE_RIGHTS_WRITE}
      (Some 0) vm_example = Some (True, s')"
    using vm_example_fault by blast
  then have s': "MmuSolvePageFault env_example (Some False) (Some 0) 0x601234 ?err vm_example = Some (True, s')"
    by (simp add: MmuSolvePageFault_def insert_commute)
  have ex: "ProcessVaSpace vm_example 0 = vm_one" "\<not> KernelSpace (ProcessPaging vm_example 0)"
    "\<not> in_metadata vm_one 0x601234"
    by (simp_all add: vm_example_def in_metadata_def vm_example_defs)
  show ?thesis
    using MmuSolvePageFault_user [OF vmx.vm_contracts_axioms _ ex(2) _ _ _ _ s'] vm_one_inv ex(1,3) s'
    by (auto simp: list_ex_iff)
qed

text \<open>
  C13 (liveness). Memory allocated lazily is there when it is touched. A region reserved and committed at
  an address the kernel chooses costs no physical memory and leaves the page tables alone; the
  first access to any of its bytes, with no more rights than it was committed with, is solved
  by mapping the page of that byte to a physical frame that was free.
\<close>

theorem VmmAllocRegionEx_lazy_backed:
  assumes env: "vm_contracts E" and inv: "vm_inv (ProcessVaSpace s i)" "metadata_ok (ProcessVaSpace s i)"
    and fits: "alloc_fits (ProcessVaSpace s i) n" and start: "FreeVirtualAddressPointer (ProcessVaSpace s i) \<noteq> 0"
    and a: "unat (FreeVirtualAddressPointer (ProcessVaSpace s i)) \<le> unat a"
      "unat a < unat (FreeVirtualAddressPointer (ProcessVaSpace s i)) + unat n"
    and nm: "\<not> in_metadata (ProcessVaSpace s i) a" "\<not> VmIsKernelAddress (EP E) a" "page_floor a \<noteq> 0"
    and frame: "PmmReserveMemory (EA E) (EB E) (PmmData s) 1 = (pa, d)" "pa \<noteq> 0"
    and ok: "paging_ok (EP E) (ProcessPaging s i) (Mem s)" "\<not> KernelSpace (ProcessPaging s i)"
    and room: "unat (CurrentIndex (ProcessPaging s i)) + 3 \<le> unat (NumberOfFrames (ProcessPaging s i))"
    and req: "req \<subseteq> rights"
  shows "\<exists>s1 s2. VmmAllocRegionEx E 0 n {VMM_ALLOC_TYPE_RESERVE, VMM_ALLOC_TYPE_COMMIT} rights uc None (Some i) (Some i)
        None s = Some (FreeVirtualAddressPointer (ProcessVaSpace s i), s1) \<and>
    PmmData s1 = PmmData s \<and> Mem s1 = Mem s \<and>
    VmmSolvePageFault E pCpu (Some i) a req (Some i) s1 = Some (True, s2) \<and>
    map_option fst (VmmGetPhysicalAddressEx (EA E) (EP E) (BasePhysicalAddress (paging_of s2 (Some i))) (page_floor a)
      False False (Mem s2)) = Some pa \<and>
    reserved_frames (PmmData s2) = reserved_frames (PmmData s) \<union> frames_of pa 1 \<and>
    frames_of pa 1 \<inter> reserved_frames (PmmData s) = {}"
proof -
  let ?va = "FreeVirtualAddressPointer (ProcessVaSpace s i)"
  obtain sz sp where alloc: "VmReservationSpaceAllocRegion (EA E) (EB E) (ProcessVaSpace s i) 0 n
        {VMM_ALLOC_TYPE_RESERVE, VMM_ALLOC_TYPE_COMMIT} rights uc None = Some (STATUS_SUCCESS, Some (?va, sz), sp)"
      "unat n \<le> unat sz"
    and access: "\<forall>a pCpu req. unat ?va \<le> unat a \<longrightarrow> unat a < unat ?va + unat sz \<longrightarrow> \<not> in_metadata (ProcessVaSpace s i) a \<longrightarrow>
       VmReservationCanAddressBeAccessed (EA E) (EB E) pCpu sp a req =
         Some (if req \<subseteq> rights then Some (rights, uc, None, 0) else None)"
    using mem_env.VmAllocRegion_access [OF vm_contracts.env_mem [OF env] inv fits, of rights uc None] by auto
  define s1 where "s1 = set_space (Some i) sp s"
  have n: "n \<noteq> 0"
    using a by auto
  have one: "VmmAllocRegionEx E 0 n {VMM_ALLOC_TYPE_RESERVE, VMM_ALLOC_TYPE_COMMIT} rights uc None (Some i) (Some i)
        None s = Some (?va, s1)"
    using alloc(1) n start by (simp add: VmmAllocRegionEx_def space_of_def s1_def)
  have s1: "PmmData s1 = PmmData s" "Mem s1 = Mem s" "paging_of s1 (Some i) = ProcessPaging s i" "space_of s1 (Some i) = sp"
    by (simp_all add: s1_def paging_of_def set_space_def space_of_def)
  have "VmReservationCanAddressBeAccessed (EA E) (EB E) pCpu
      (space_of s1 (VmmRetrieveReservationSpaceForAddress (EP E) (Some i) a)) a req = Some (Some (rights, uc, None, 0))"
    using access nm a alloc(2) req by (simp add: VmmRetrieveReservationSpaceForAddress_def s1(4))
  from vm_contracts.SolvePageFault_total [OF env _ nm(3) this, of "Some i" pa d] obtain s2 where
      "VmmSolvePageFault E pCpu (Some i) a req (Some i) s1 = Some (True, s2)" "PmmData s2 = d"
      "map_option fst (VmmGetPhysicalAddressEx (EA E) (EP E) (BasePhysicalAddress (paging_of s2 (Some i))) (page_floor a)
        False False (Mem s2)) = Some pa"
    using frame ok room nm(2) s1(1-3) by auto
  then show ?thesis
    using one s1(1,2) vm_contracts.PmmReserve_frames(3,4) [OF env frame] by blast
qed

theorem VmmAllocRegionEx_lazy_backed_witness:
  "\<exists>s1 s2. VmmAllocRegionEx env_example 0 0x2800 {VMM_ALLOC_TYPE_RESERVE, VMM_ALLOC_TYPE_COMMIT} PAGE_RIGHTS_READWRITE
        False None (Some 0) (Some 0) None (vm_example\<lparr>ProcessVaSpace := (\<lambda>_. vm_empty)\<rparr>) = Some (0x600000, s1) \<and>
    VmmSolvePageFault env_example None (Some 0) 0x601234 {PAGE_RIGHTS_WRITE} (Some 0) s1 = Some (True, s2)"
proof -
  let ?s = "vm_example\<lparr>ProcessVaSpace := (\<lambda>_. vm_empty)\<rparr>"
  obtain d where d: "PmmReserveMemory addr_ops bitmap_ops pmm_example 1 = (0x1000, d)"
    using pmm_example_one by (metis prod.collapse)
  have vars: "FreeVirtualAddressPointer vm_empty = 0x600000" "\<not> in_metadata vm_empty 0x601234"
    "\<not> VmIsKernelAddress pte_ops 0x601234" "page_floor 0x601234 = 0x601000"
    by (simp_all add: vm_empty_def in_metadata_def VmIsKernelAddress_def pte_ops_def page_floor_def)
  have room: "unat (CurrentIndex paging_example) + 3 \<le> unat (NumberOfFrames paging_example)"
    by (simp add: paging_example_def)
  have s: "ProcessVaSpace ?s 0 = vm_empty" "PmmData ?s = pmm_example" "Mem ?s = mem_example"
    "ProcessPaging ?s 0 = paging_example\<lparr>KernelSpace := False\<rparr>"
    by (simp_all add: vm_example_def)
  show ?thesis
    using VmmAllocRegionEx_lazy_backed [OF vmx.vm_contracts_axioms, of ?s 0 "0x2800" "0x601234" "0x1000" d
        "{PAGE_RIGHTS_WRITE}" PAGE_RIGHTS_READWRITE False None]
      vm_empty_inv vars d paging_example_ok room
    unfolding s by auto
qed

text \<open>
  C17 (functional). Memory that is not allocated lazily is mapped when the call returns: every page of the
  region translates to its own frame of one run of frames that were free. When no such run is
  left, however, the call still returns the address of the region, with none of it mapped:
  \<open>status\<close> is not set before the \<open>__try\<close> block is left, so the reservation is not undone.
\<close>

theorem VmmAllocRegionEx_eager:
  assumes env: "vm_contracts E" and types: "VMM_ALLOC_TYPE_COMMIT \<in> T" "VMM_ALLOC_TYPE_NOT_LAZY \<in> T" "VMM_ALLOC_TYPE_ZERO \<notin> T"
    and size: "Size \<noteq> 0"
    and res: "VmReservationSpaceAllocRegion (EA E) (EB E) (space_of s v) Base Size T rights uc None =
      Some (st, Some (va, sz), sp)"
    and rng: "range_ok va n" "0 < n" "n < 2 ^ 32" "unat sz = 4096 * n"
    and frames: "PmmReserveMemory (EA E) (EB E) (PmmData s) (word_of_nat n) = (pa, d)"
    and ok: "paging_ok (EP E) (paging_of s p) (Mem s)"
    and room: "unat (CurrentIndex (paging_of s p)) + structures_for n \<le> unat (NumberOfFrames (paging_of s p))"
  shows "if pa = 0
    then VmmAllocRegionEx E Base Size T rights uc None v p None s = Some (va, (set_space v sp s)\<lparr>PmmData := d\<rparr>)
    else \<exists>s'. VmmAllocRegionEx E Base Size T rights uc None v p None s = Some (va, s') \<and>
      frames_of pa (word_of_nat n) \<subseteq> {..<frame_count (PmmData s)} - reserved_frames (PmmData s) \<and>
      reserved_frames (PmmData s') = reserved_frames (PmmData s) \<union> frames_of pa (word_of_nat n) \<and>
      paging_ok (EP E) (paging_of s' p) (Mem s') \<and>
      (\<forall>k < n. map_option fst (VmmGetPhysicalAddressEx (EA E) (EP E) (BasePhysicalAddress (paging_of s' p))
        (range_va va k) False False (Mem s')) = Some (pa + word_of_nat (4096 * k)))"
proof -
  define s1 where "s1 = (set_space v sp s)\<lparr>PmmData := d\<rparr>"
  have va: "va \<noteq> 0"
    using rng(1) by (simp add: range_ok_def)
  have "unat (sz div PAGE_SIZE) = n"
    using rng(4) by (simp add: unat_div)
  then have n: "ucast (sz div PAGE_SIZE) = (word_of_nat n :: dword)" "sz div PAGE_SIZE \<le> ucast MAX_DWORD"
    using rng(3) by (simp_all add: word_unat_eq_iff unsigned_ucast_eq unsigned_of_nat word_le_nat_alt)
  show ?thesis
  proof (cases "pa = 0")
    case True
    then show ?thesis
      using assms(2-5) res va n frames
      by (simp add: VmmAllocRegionEx_def VmmAllocRegionEx_frames_def)
  next
    case False
    note fr = vm_contracts.PmmReserve_frames [OF env frames False]
    have ok1: "paging_ok (EP E) (paging_of s1 p) (Mem s1)"
      and room1: "unat (CurrentIndex (paging_of s1 p)) + structures_for n \<le> unat (NumberOfFrames (paging_of s1 p))"
      and pa: "unat pa + 4096 * n \<le> 2 ^ 52"
      using ok room fr(2) rng(3) by (simp_all add: s1_def take_bit_nat_eq_self unat_of_nat)
    obtain pd m where map: "MmuMapMemoryInternal E pa sz rights va True uc p s1 = Some (set_paging p pd (s1\<lparr>Mem := m\<rparr>))"
        "BasePhysicalAddress pd = BasePhysicalAddress (paging_of s1 p)" "paging_ok (EP E) pd m"
        "\<forall>k < n. map_option fst (VmmGetPhysicalAddressEx (EA E) (EP E) (BasePhysicalAddress (paging_of s1 p))
          (range_va va k) False False m) = Some (pa + word_of_nat (4096 * k))"
      using vm_contracts.MmuMap_range [OF env ok1 rng(1,2,4) fr(1) pa room1, of rights uc] by blast
    define s' where "s' = set_paging p pd (s1\<lparr>Mem := m\<rparr>)"
    have "VmmAllocRegionEx E Base Size T rights uc None v p None s = Some (va, s')"
      using assms(2-5) res va n frames map(1) False
      by (simp add: VmmAllocRegionEx_def VmmAllocRegionEx_frames_def s1_def s'_def)
    moreover have "PmmData s' = d" "paging_of s' p = pd" "Mem s' = m"
      by (simp_all add: s'_def s1_def)
    ultimately show ?thesis
      using False fr(3,4) map(2-4) by auto
  qed
qed

theorem VmmAllocRegionEx_eager_witness:
  "\<exists>s' pa. VmmAllocRegionEx env_example 0 0x2000 {VMM_ALLOC_TYPE_RESERVE, VMM_ALLOC_TYPE_COMMIT, VMM_ALLOC_TYPE_NOT_LAZY}
      PAGE_RIGHTS_READWRITE False None None None None vm_example = Some (0x600000, s') \<and> pa \<noteq> 0 \<and>
    map_option fst (VmmGetPhysicalAddressEx addr_ops pte_ops (BasePhysicalAddress (paging_of s' None)) 0x601000
      False False (Mem s')) = Some (pa + 0x1000)"
proof -
  let ?T = "{VMM_ALLOC_TYPE_RESERVE, VMM_ALLOC_TYPE_COMMIT, VMM_ALLOC_TYPE_NOT_LAZY}"
  have fits: "alloc_fits vm_empty 0x2000" "space_ok vm_empty" "below_pointer vm_empty" "alloc_sane vm_empty 0x2000"
    "FreeVirtualAddressPointer vm_empty = 0x600000"
    using vm_empty_inv by (simp_all add: alloc_fits_def alloc_sane_def vm_empty_def vm_inv_def)
  have up: "AlignAddressUpper addr_ops 0x2000 PAGE_SIZE = 0x2000"
    by (simp add: addr_ops_def)
  obtain st sp where res: "VmReservationSpaceAllocRegion addr_ops bitmap_ops vm_empty 0 0x2000 ?T PAGE_RIGHTS_READWRITE
      False None = Some (st, Some (0x600000, 0x2000), sp)"
    using me.VmAllocRegion_total [OF fits(2,3,1), of ?T PAGE_RIGHTS_READWRITE False None]
      me.VmAllocRegion_effect [OF fits(2-4), of ?T PAGE_RIGHTS_READWRITE False None] up fits(5) by fastforce
  have pa: "fst (PmmReserveMemory addr_ops bitmap_ops pmm_example 2) \<noteq> 0"
    by code_simp
  obtain pa d where frames: "PmmReserveMemory addr_ops bitmap_ops pmm_example 2 = (pa, d)"
    by (metis prod.collapse)
  have rng: "range_ok 0x600000 2" "unat (0x2000 :: qword) = 4096 * 2" "range_va 0x600000 1 = 0x601000"
    "unat (CurrentIndex paging_example) + structures_for 2 \<le> unat (NumberOfFrames paging_example)"
    by (simp_all add: range_ok_def page_aligned_def range_va_def paging_example_def structures_for_def)
  then have "\<exists>s'. VmmAllocRegionEx env_example 0 0x2000 ?T PAGE_RIGHTS_READWRITE False None None None None vm_example =
      Some (0x600000, s') \<and>
      (\<forall>k < 2. map_option fst (VmmGetPhysicalAddressEx addr_ops pte_ops (BasePhysicalAddress (paging_of s' None))
        (range_va 0x600000 k) False False (Mem s')) = Some (pa + word_of_nat (4096 * k)))"
    using VmmAllocRegionEx_eager [OF vmx.vm_contracts_axioms, of ?T "0x2000" vm_example None 0 PAGE_RIGHTS_READWRITE
        False st "0x600000" "0x2000" sp 2 pa d None] res frames pa paging_example_ok by auto
  then show ?thesis
    using frames pa rng(3) by (metis fst_conv mult.right_neutral numeral_One of_nat_numeral one_less_numeral_iff semiring_norm(76))
qed

text \<open>
  \<open>MmuUnmapMemoryEx\<close> keeps the aligned size in 32 bits. For a region whose size is a
  multiple of 4 GB it hands on the size 0, which \<open>VmmUnmapMemoryEx\<close> ignores: the call returns
  with nothing unmapped and no frame released.
\<close>

theorem MmuUnmapMemoryEx_4GB_noop:
  assumes "vm_contracts E" and "page_aligned va" "va \<noteq> 0" and "page_aligned Size" "Size \<noteq> 0"
    and "unat Size + 4095 < 2 ^ 64" and "2 ^ 32 dvd unat Size"
  shows "MmuUnmapMemoryEx E va Size release p s = Some s"
proof -
  have A: "addr_contract (EA E)"
    using assms(1) by (rule vm_contracts.env_addr)
  have "AlignAddressLower (EA E) va PAGE_SIZE = va"
    using assms(2) by (simp add: addr_contract.addr_simps [OF A] page_floor_def page_aligned_def)
  moreover have "AlignAddressUpper (EA E) Size PAGE_SIZE = Size"
    by (rule addr_contract.AlignAddressUpper_id [OF A assms(4,6)])
  moreover have "(ucast Size :: dword) = 0"
    using assms(7) by (simp add: word_unat_eq_iff unsigned_ucast_eq take_bit_eq_mod)
  ultimately show ?thesis
    using assms(3,5) by (simp add: MmuUnmapMemoryEx_def VmmUnmapMemoryEx_def)
qed

theorem MmuUnmapMemoryEx_4GB_noop_witness:
  "MmuUnmapMemoryEx env_example 0x600000 0x50000000000 True None vm_example = Some vm_example"
  by (rule MmuUnmapMemoryEx_4GB_noop [OF vmx.vm_contracts_axioms]) (simp_all add: page_aligned_def)



end
