(* ===== verification/Mdl.thy ===== *)
theory Mdl
  imports Vmm
begin

text \<open>
  \<open>mdl.c\<close>: memory descriptor lists, which describe the physical memory behind a buffer as runs
  of consecutive bytes, and \<open>MmuProbeMemory\<close> of \<open>mmu.c\<close>, which touches a buffer so that it gets
  mapped. A touch of an unmapped page enters the page fault handler; a fault that is not solved
  stops the system.
\<close>

subsection \<open>Probing\<close>

text \<open>The error code of a fault in kernel mode on a read.\<close>

definition kernel_read :: page_fault_err_code where
  "kernel_read = \<lparr>ErrWrite = False, ErrUsermode = False, ErrExecution = False\<rparr>"

definition cpu_read :: "vm_env \<Rightarrow> bool option \<Rightarrow> nat option \<Rightarrow> qword \<Rightarrow> vm_state \<Rightarrow> vm_state option" where
  "cpu_read E pCpu cur va s = do {
     (pa, _) \<leftarrow> VmmGetPhysicalAddressEx (EA E) (EP E) (BasePhysicalAddress (SystemPaging s)) va False False (Mem s);
     if pa \<noteq> 0 then Some s
     else do {
       (solved, s) \<leftarrow> MmuSolvePageFault E pCpu cur va kernel_read s;
       if solved then Some s else None
     }
   }"

text \<open>
  The loops over a buffer visit the offsets \<open>4096 * k\<close> below the aligned size, which is a
  multiple of the page size; \<open>page_steps n\<close> are these \<open>k\<close>.
\<close>

definition page_steps :: "dword \<Rightarrow> nat list" where
  "page_steps n = [0..<(unat n + 4095) div 4096]"

fun MmuProbeMemory_loop ::
  "vm_env \<Rightarrow> bool option \<Rightarrow> nat option \<Rightarrow> qword \<Rightarrow> nat list \<Rightarrow> vm_state \<Rightarrow> vm_state option" where
  "MmuProbeMemory_loop E pCpu cur pBuffer [] s = Some s"
| "MmuProbeMemory_loop E pCpu cur pBuffer (k # ks) s =
     cpu_read E pCpu cur (pBuffer + word_of_nat (4096 * k)) s \<bind> MmuProbeMemory_loop E pCpu cur pBuffer ks"

definition buffer_aligned_size :: "vm_env \<Rightarrow> qword \<Rightarrow> dword \<Rightarrow> dword" where
  "buffer_aligned_size E Buffer Len =
     ucast (AlignAddressUpper (EA E) (ucast (Len + (ucast (AddressOffset (EA E) Buffer PAGE_SIZE) :: dword))) PAGE_SIZE)"

definition MmuProbeMemory ::
  "vm_env \<Rightarrow> bool option \<Rightarrow> nat option \<Rightarrow> qword \<Rightarrow> dword \<Rightarrow> vm_state \<Rightarrow> vm_state option" where
  "MmuProbeMemory E pCpu cur Buffer NumberOfBytes s = do {
     ASSERT (Buffer \<noteq> 0);
     ASSERT (NumberOfBytes \<noteq> 0);
     MmuProbeMemory_loop E pCpu cur (AlignAddressLower (EA E) Buffer PAGE_SIZE)
       (page_steps (buffer_aligned_size E Buffer NumberOfBytes)) s
   }"

subsection \<open>Allocating a descriptor list\<close>

text \<open>
  The first pass counts the pairs, the second one writes them. \<open>Address\<close> and \<open>NumberOfBytes\<close> are
  the pair being built; the loop visits the pages after the first.
\<close>

fun MdlAllocateEx_count ::
  "vm_env \<Rightarrow> nat option option \<Rightarrow> qword \<Rightarrow> qword \<Rightarrow> nat list \<Rightarrow> qword \<Rightarrow> dword \<Rightarrow> dword \<Rightarrow> vm_state \<Rightarrow>
   (dword \<times> vm_state) option" where
  "MdlAllocateEx_count E PagingData Cr3 pAlignedAddress [] Address NumberOfBytes noOfPairs s = Some (noOfPairs, s)"
| "MdlAllocateEx_count E PagingData Cr3 pAlignedAddress (k # ks) Address NumberOfBytes noOfPairs s = do {
     (pa, s) \<leftarrow> MmuGetPhysicalAddressEx E (pAlignedAddress + word_of_nat (4096 * k)) PagingData Cr3 s;
     ASSERT (pa \<noteq> 0);
     if Address + ucast NumberOfBytes = pa
     then MdlAllocateEx_count E PagingData Cr3 pAlignedAddress ks Address (NumberOfBytes + 0x1000) noOfPairs s
     else MdlAllocateEx_count E PagingData Cr3 pAlignedAddress ks pa 0x1000 (noOfPairs + 1) s
   }"

fun MdlAllocateEx_fill ::
  "vm_env \<Rightarrow> nat option option \<Rightarrow> qword \<Rightarrow> qword \<Rightarrow> nat list \<Rightarrow> qword \<Rightarrow> dword \<Rightarrow> (qword \<times> dword) list \<Rightarrow> vm_state \<Rightarrow>
   ((qword \<times> dword) list \<times> vm_state) option" where
  "MdlAllocateEx_fill E PagingData Cr3 pAlignedAddress [] Address NumberOfBytes Translations s =
     Some (Translations @ [(Address, NumberOfBytes)], s)"
| "MdlAllocateEx_fill E PagingData Cr3 pAlignedAddress (k # ks) Address NumberOfBytes Translations s = do {
     (pa, s) \<leftarrow> MmuGetPhysicalAddressEx E (pAlignedAddress + word_of_nat (4096 * k)) PagingData Cr3 s;
     ASSERT (pa \<noteq> 0);
     if Address + ucast NumberOfBytes = pa
     then MdlAllocateEx_fill E PagingData Cr3 pAlignedAddress ks Address (NumberOfBytes + 0x1000) Translations s
     else MdlAllocateEx_fill E PagingData Cr3 pAlignedAddress ks pa 0x1000 (Translations @ [(Address, NumberOfBytes)]) s
   }"

text \<open>\<open>poolOk\<close> says that the pool has memory for the list; the result \<open>NULL\<close> is \<open>None\<close>.\<close>

definition MdlAllocateEx ::
  "vm_env \<Rightarrow> bool option \<Rightarrow> nat option \<Rightarrow> qword \<Rightarrow> dword \<Rightarrow> qword \<Rightarrow> nat option option \<Rightarrow> bool \<Rightarrow> vm_state \<Rightarrow>
   (mdl option \<times> vm_state) option" where
  "MdlAllocateEx E pCpu cur VirtualAddress Len Cr3 PagingData poolOk s = do {
     ASSERT (VirtualAddress \<noteq> 0);
     ASSERT (Len \<noteq> 0);
     ASSERT ((Cr3 \<noteq> 0) \<noteq> (PagingData \<noteq> None));
     let pAlignedAddress = AlignAddressLower (EA E) VirtualAddress PAGE_SIZE;
     let alignmentDifferences = (ucast (AddressOffset (EA E) VirtualAddress PAGE_SIZE) :: dword);
     let alignedSize = buffer_aligned_size E VirtualAddress Len;
     let bKernelMemory = (case PagingData of None \<Rightarrow> True | Some p \<Rightarrow> KernelSpace (paging_of s p));
     s \<leftarrow> (if bKernelMemory then MmuProbeMemory E pCpu cur VirtualAddress Len s else Some s);
     (Address, s) \<leftarrow> MmuGetPhysicalAddressEx E VirtualAddress PagingData Cr3 s;
     if Address = 0 then do {
       ASSERT (\<not> bKernelMemory);
       Some (None, s)
     }
     else do {
       (noOfPairs, s) \<leftarrow> MdlAllocateEx_count E PagingData Cr3 pAlignedAddress (tl (page_steps alignedSize)) Address
                           (0x1000 - alignmentDifferences) 1 s;
       if \<not> poolOk then Some (None, s)
       else do {
         (Address, s) \<leftarrow> MmuGetPhysicalAddressEx E VirtualAddress PagingData Cr3 s;
         ASSERT (Address \<noteq> 0);
         (Translations, s) \<leftarrow> MdlAllocateEx_fill E PagingData Cr3 pAlignedAddress (tl (page_steps alignedSize)) Address
                                (0x1000 - alignmentDifferences) [] s;
         ASSERT (word_of_nat (length Translations) = noOfPairs);
         Some (Some \<lparr>ByteCount = Len, MdlStartVa = pAlignedAddress, ByteOffset = alignmentDifferences,
                     TranslationPairs = Translations\<rparr>, s)
       }
     }
   }"

definition MdlGetNumberOfPairs :: "mdl \<Rightarrow> dword" where
  "MdlGetNumberOfPairs m = word_of_nat (length (TranslationPairs m))"

definition MdlGetTranslationPair :: "mdl \<Rightarrow> dword \<Rightarrow> (qword \<times> dword) option" where
  "MdlGetTranslationPair m Index =
     (if Index < MdlGetNumberOfPairs m then Some (TranslationPairs m ! unat Index) else None)"

subsection \<open>What a descriptor list describes\<close>

text \<open>The physical addresses of the bytes described, in order.\<close>

definition pair_bytes :: "qword \<times> dword \<Rightarrow> qword list" where
  "pair_bytes p = map (\<lambda>j. fst p + word_of_nat j) [0..<unat (snd p)]"

definition mdl_bytes :: "mdl \<Rightarrow> qword list" where
  "mdl_bytes m = concat (map pair_bytes (TranslationPairs m))"

subsection \<open>Lemmas\<close>

lemma length_pair_bytes [simp]: "length (pair_bytes p) = unat (snd p)"
  by (simp add: pair_bytes_def)

lemma nth_pair_bytes: "j < unat n \<Longrightarrow> pair_bytes (a, n) ! j = a + word_of_nat j"
  by (simp add: pair_bytes_def)

lemma pair_bytes_merge:
  assumes "a + ucast n = b" and "unat (n + m) = unat n + unat m"
  shows "pair_bytes (a, n + m) = pair_bytes (a, n) @ pair_bytes (b, m)"
proof (rule nth_equalityI)
  fix j
  assume j: "j < length (pair_bytes (a, n + m))"
  have un: "(ucast n :: qword) = word_of_nat (unat n)"
    by (simp add: word_unat_eq_iff unsigned_ucast_eq unsigned_of_nat)
  show "pair_bytes (a, n + m) ! j = (pair_bytes (a, n) @ pair_bytes (b, m)) ! j"
  proof (cases "j < unat n")
    case False
    then have "pair_bytes (b, m) ! (j - unat n) = b + word_of_nat (j - unat n)"
      using j assms(2) by (intro nth_pair_bytes) simp
    moreover have "word_of_nat j = (ucast n + word_of_nat (j - unat n) :: qword)"
      unfolding un using False by (simp flip: of_nat_add)
    ultimately have "pair_bytes (b, m) ! (j - unat n) = a + word_of_nat j"
      unfolding assms(1) [symmetric] by (simp add: add.assoc)
    then show ?thesis
      using j False by (simp add: nth_append nth_pair_bytes)
  qed (use j in \<open>simp add: nth_append nth_pair_bytes\<close>)
qed (simp add: assms(2))


text \<open>Both passes over pages that translate, to \<open>tr k\<close>.\<close>

lemma MdlAllocateEx_passes:
  assumes "\<forall>k \<in> set ks. MmuGetPhysicalAddressEx E (base + word_of_nat (4096 * k)) PD Cr3 s = Some (tr k, s) \<and> tr k \<noteq> 0"
    and "unat n + 4096 * length ks < 2 ^ 32" and "n \<noteq> 0"
  shows "\<exists>ps. MdlAllocateEx_fill E PD Cr3 base ks a n ts s = Some (ts @ ps, s) \<and>
    MdlAllocateEx_count E PD Cr3 base ks a n c s = Some (c + word_of_nat (length ps) - 1, s) \<and>
    concat (map pair_bytes ps) = pair_bytes (a, n) @ concat (map (\<lambda>k. pair_bytes (tr k, 0x1000)) ks) \<and>
    ps \<noteq> [] \<and> fst (hd ps) = a \<and> (\<forall>p \<in> set ps. snd p \<noteq> 0) \<and>
    successively (\<lambda>p q. fst p + ucast (snd p) \<noteq> fst q) ps"
  using assms
proof (induction ks arbitrary: a n c ts)
  case Nil
  then show ?case
    by (intro exI [of _ "[(a, n)]"]) simp
next
  case (Cons k ks)
  have tr: "MmuGetPhysicalAddressEx E (base + word_of_nat (4096 * k)) PD Cr3 s = Some (tr k, s)" "tr k \<noteq> 0"
    using Cons.prems(1) by auto
  have rest: "\<forall>k \<in> set ks. MmuGetPhysicalAddressEx E (base + word_of_nat (4096 * k)) PD Cr3 s = Some (tr k, s) \<and> tr k \<noteq> 0"
    using Cons.prems(1) by auto
  show ?case
  proof (cases "a + ucast n = tr k")
    case True
    have n: "unat (n + 0x1000) = unat n + 4096"
      using Cons.prems(2) by (simp add: unat_word_ariths)
    have "unat (n + 0x1000) + 4096 * length ks < 2 ^ 32" "n + 0x1000 \<noteq> 0"
      using Cons.prems(2) n by (auto simp: word_unat_eq_iff)
    from Cons.IH [OF rest this, of a ts c] obtain ps where ps: "MdlAllocateEx_fill E PD Cr3 base ks a (n + 0x1000) ts s = Some (ts @ ps, s)"
        "MdlAllocateEx_count E PD Cr3 base ks a (n + 0x1000) c s = Some (c + word_of_nat (length ps) - 1, s)"
        "concat (map pair_bytes ps) = pair_bytes (a, n + 0x1000) @ concat (map (\<lambda>k. pair_bytes (tr k, 0x1000)) ks)"
        "ps \<noteq> [] \<and> fst (hd ps) = a \<and> (\<forall>p \<in> set ps. snd p \<noteq> 0) \<and> successively (\<lambda>p q. fst p + ucast (snd p) \<noteq> fst q) ps"
      by blast
    have "pair_bytes (a, n + 0x1000) = pair_bytes (a, n) @ pair_bytes (tr k, 0x1000)"
      using n by (intro pair_bytes_merge [OF True]) simp
    then show ?thesis
      using ps tr True by (intro exI [of _ ps]) simp
  next
    case False
    have "unat (0x1000 :: dword) + 4096 * length ks < 2 ^ 32" "(0x1000 :: dword) \<noteq> 0"
      using Cons.prems(2) by simp_all
    from Cons.IH [OF rest this, of "tr k" "ts @ [(a, n)]" "c + 1"] obtain ps where ps: "MdlAllocateEx_fill E PD Cr3 base ks (tr k) 0x1000 (ts @ [(a, n)]) s = Some ((ts @ [(a, n)]) @ ps, s)"
        "MdlAllocateEx_count E PD Cr3 base ks (tr k) 0x1000 (c + 1) s = Some (c + 1 + word_of_nat (length ps) - 1, s)"
        "concat (map pair_bytes ps) = pair_bytes (tr k, 0x1000) @ concat (map (\<lambda>k. pair_bytes (tr k, 0x1000)) ks)"
        "ps \<noteq> []" "fst (hd ps) = tr k" "\<forall>p \<in> set ps. snd p \<noteq> 0"
        "successively (\<lambda>p q. fst p + ucast (snd p) \<noteq> fst q) ps"
      by blast
    have "successively (\<lambda>p q. fst p + ucast (snd p) \<noteq> fst q) ((a, n) # ps)"
      using ps(4,5,7) False by (cases ps) simp_all
    then show ?thesis
      using ps tr False Cons.prems(3) by (intro exI [of _ "(a, n) # ps"]) simp
  qed
qed

lemma nth_blocks:
  assumes "\<And>k. length (f k) = m" and "i < m * n"
  shows "concat (map f [0..<n]) ! i = f (i div m) ! (i mod m)"
  using assms(2)
proof (induction n)
  case (Suc n)
  have len: "length (concat (map f [0..<n])) = m * n"
    by (induction n) (simp_all add: assms(1))
  show ?case
  proof (cases "i < m * n")
    case True
    then show ?thesis
      using Suc.IH len by (simp add: nth_append)
  next
    case False
    then have "i - m * n < m"
      using Suc.prems by simp
    moreover from this have "i div m = n" "i mod m = i - m * n"
      using False div_mult_self3 [of m n "i - m * n"] mod_mult_self3 [of n m "i - m * n"]
      by (simp_all add: mult.commute)
    ultimately show ?thesis
      using False len by (simp add: nth_append)
  qed
qed simp

lemma range_byte:
  assumes rng: "range_ok b n" and i: "i < 4096 * n"
  shows "page_floor (b + word_of_nat i) = range_va b (i div 4096)"
    and "(b + word_of_nat i) mod PAGE_SIZE = word_of_nat (i mod 4096)"
proof -
  have k: "i div 4096 < n"
    using i by (simp add: div_less_iff_less_mult mult.commute)
  have "unat b + i < 2 ^ 64" "unat b mod 4096 = 0"
    using rng i by (simp_all add: range_ok_def page_aligned_unat)
  moreover from this have "unat (word_of_nat i :: qword) = i"
    by (subst unat_of_nat) simp
  ultimately have u: "unat (b + word_of_nat i) = unat b + i"
    using unat_add_less [of b "word_of_nat i"] by simp
  have m: "(unat b + i) mod 4096 = i mod 4096"
    using \<open>unat b mod 4096 = 0\<close> by (metis add_0 mod_add_left_eq)
  have "unat (page_floor (b + word_of_nat i)) = unat b + 4096 * (i div 4096)"
    unfolding unat_page_floor u m using mult_div_mod_eq [of 4096 i] by linarith
  then show "page_floor (b + word_of_nat i) = range_va b (i div 4096)"
    using unat_range_va [OF rng k] by (simp add: word_unat_eq_iff)
  show "(b + word_of_nat i) mod PAGE_SIZE = word_of_nat (i mod 4096)"
    by (simp add: word_unat_eq_iff unat_mod_page u m unsigned_of_nat take_bit_nat_eq_self)
qed

lemma page_floor_byte: "va = page_floor va + word_of_nat (unat va mod 4096)"
  by (simp add: page_floor_def flip: unat_mod_page)

context vm_contracts
begin

lemma MmuGet_at:
  assumes "paging_ok (EP E) (paging_of s p) (Mem s)" and "page_floor va \<noteq> 0"
  shows "MmuGetPhysicalAddressEx E va (Some p) 0 s =
    Some ((case va_entry (EP E) (paging_of s p) (Mem s) (page_floor va) of None \<Rightarrow> 0 | Some e \<Rightarrow> PteGetPhysicalAddress (EP E) e)
      + va mod PAGE_SIZE, s)"
proof -
  have "va \<noteq> 0"
    using assms(2) by (auto simp: page_floor_def)
  then show ?thesis
    using pte_contract.VmmGetPhysicalAddress_entry [OF env_pte assms(1) env_addr _ assms(2)]
    by (simp add: MmuGetPhysicalAddressEx_def addr_contract.addr_simps [OF env_addr] split: option.split)
qed

lemma MmuGet_aligned:
  assumes "paging_ok (EP E) (paging_of s p) (Mem s)" and "page_aligned va" and "va \<noteq> 0"
    and "map_option fst (VmmGetPhysicalAddressEx (EA E) (EP E) (BasePhysicalAddress (paging_of s p)) va False False (Mem s)) = Some f"
  shows "MmuGetPhysicalAddressEx E va (Some p) 0 s = Some (f, s)"
  using MmuGet_at [OF assms(1), of va] pte_contract.VmmGetPhysicalAddress_entry [OF env_pte assms(1) env_addr assms(2,3)] assms(2-4)
  by (simp add: page_floor_aligned page_aligned_def split: option.splits)

lemma MmuGet_byte:
  assumes ok: "paging_ok (EP E) (paging_of s p) (Mem s)" and rng: "range_ok b n" and i: "i < 4096 * n"
    and page: "MmuGetPhysicalAddressEx E (range_va b (i div 4096)) (Some p) 0 s = Some (f, s')"
  shows "MmuGetPhysicalAddressEx E (b + word_of_nat i) (Some p) 0 s = Some (f + word_of_nat (i mod 4096), s)"
proof -
  have k: "i div 4096 < n"
    using i by (simp add: div_less_iff_less_mult mult.commute)
  have fl: "page_floor (range_va b (i div 4096)) = range_va b (i div 4096)" "range_va b (i div 4096) mod PAGE_SIZE = 0"
    using range_va_aligned [OF rng k] by (simp_all add: page_floor_aligned page_aligned_def)
  note nz = range_va_nonzero [OF rng k]
  show ?thesis
    using page MmuGet_at [OF ok, of "range_va b (i div 4096)"] MmuGet_at [OF ok, of "b + word_of_nat i"] nz
    by (auto simp: fl range_byte [OF rng i])
qed

lemma buffer_size:
  assumes "unat va mod 4096 + unat Len + 4095 < 2 ^ 32"
  shows "page_steps (buffer_aligned_size E va Len) = [0..<(unat va mod 4096 + unat Len + 4095) div 4096]"
proof -
  have off: "unat (ucast (va mod PAGE_SIZE) :: dword) = unat va mod 4096"
    by (simp add: unat_ucast_qword_dword unat_mod_page)
  then have sum: "unat (Len + ucast (va mod PAGE_SIZE)) = unat va mod 4096 + unat Len"
    using assms by (simp add: unat_word_ariths)
  let ?x = "ucast (Len + ucast (va mod PAGE_SIZE) :: dword) :: qword"
  have "unat ?x + 4095 < 2 ^ 64"
    using assms sum by simp
  from addr_contract.unat_AlignAddressUpper [OF env_addr this]
  have "unat (AlignAddressUpper (EA E) ?x PAGE_SIZE) = 4096 * ((unat va mod 4096 + unat Len + 4095) div 4096)"
    by (simp add: sum minus_mod_eq_mult_div)
  moreover have "4096 * ((unat va mod 4096 + unat Len + 4095) div 4096) < 2 ^ 32"
    using assms times_div_less_eq_dividend [of 4096 "unat va mod 4096 + unat Len + 4095"] by linarith
  ultimately have "unat (buffer_aligned_size E va Len) = 4096 * ((unat va mod 4096 + unat Len + 4095) div 4096)"
    by (simp add: buffer_aligned_size_def addr_contract.addr_simps [OF env_addr] unat_ucast_qword_dword)
  then show ?thesis
    by (simp add: page_steps_def)
qed

end

context vm_contracts
begin

text \<open>Touching memory that is mapped changes nothing.\<close>

lemma MmuProbeMemory_mapped:
  assumes "paging_ok (EP E) (paging_of s None) (Mem s)" and rng: "range_ok b n" and "set ks \<subseteq> {..<n}"
    and "\<forall>k < n. \<exists>f. f \<noteq> 0 \<and> MmuGetPhysicalAddressEx E (range_va b k) (Some None) 0 s = Some (f, s)"
  shows "MmuProbeMemory_loop E pCpu cur b ks s = Some s"
  using assms(3)
proof (induction ks)
  case (Cons k ks)
  have k: "k < n"
    using Cons.prems by simp
  obtain f where f: "f \<noteq> 0" "MmuGetPhysicalAddressEx E (range_va b k) (Some None) 0 s = Some (f, s)"
    using assms(4) k by blast
  note al = range_va_aligned [OF rng k] range_va_nonzero [OF rng k]
  have "cpu_read E pCpu cur (range_va b k) s = Some s"
    using f MmuGet_at [OF assms(1), of "range_va b k"] pte_contract.VmmGetPhysicalAddress_entry [OF env_pte assms(1) env_addr al] al
    by (simp add: cpu_read_def page_floor_aligned page_aligned_def paging_of_def split: option.splits)
  then show ?case
    using Cons by (simp add: range_va_def)
qed simp

lemma MdlAllocateEx_mapped:
  assumes ok: "paging_ok (EP E) (paging_of s p) (Mem s)" and kern: "KernelSpace (paging_of s p) \<Longrightarrow> p = None"
    and Len: "Len \<noteq> 0" "unat va mod 4096 + unat Len + 4095 < 2 ^ 32"
    and n: "n = (unat va mod 4096 + unat Len + 4095) div 4096" and rng: "range_ok (page_floor va) n"
    and mapped: "\<forall>k < n. \<exists>f. f \<noteq> 0 \<and> MmuGetPhysicalAddressEx E (range_va (page_floor va) k) (Some p) 0 s = Some (f, s)"
    and first: "MmuGetPhysicalAddressEx E va (Some p) 0 s = Some (a, s)" "a \<noteq> 0"
  shows "\<exists>mdl. MdlAllocateEx E pCpu cur va Len 0 (Some p) True s = Some (Some mdl, s) \<and> ByteCount mdl = Len \<and>
    MdlStartVa mdl = page_floor va \<and> unat (ByteOffset mdl) = unat va mod 4096 \<and>
    mdl_bytes mdl = drop (unat va mod 4096) (concat (map (\<lambda>k. pair_bytes (fst (the (MmuGetPhysicalAddressEx E
      (range_va (page_floor va) k) (Some p) 0 s)), 0x1000)) [0..<n])) \<and>
    successively (\<lambda>q r. fst q + ucast (snd q) \<noteq> fst r) (TranslationPairs mdl)"
proof -
  define tr where "tr k = fst (the (MmuGetPhysicalAddressEx E (range_va (page_floor va) k) (Some p) 0 s))" for k
  define off where "off = unat va mod 4096"
  define d :: dword where "d = ucast (va mod PAGE_SIZE)"
  have off: "off < 4096"
    by (simp add: off_def)
  have d: "unat d = off" "unat (0x1000 - d) = 4096 - off"
    using off by (auto simp: d_def off_def unat_ucast_qword_dword unat_mod_page unat_sub_if' word_le_nat_alt)
  have n1: "0 < n" "4096 * n \<le> off + unat Len + 4095"
    using unat_pos_dword [OF Len(1)] n by (simp_all add: off_def div_greater_zero_iff)
  have nz: "page_floor va \<noteq> 0" "va \<noteq> 0"
    using rng by (auto simp: range_ok_def page_floor_def)
  have steps: "page_steps (buffer_aligned_size E va Len) = [0..<n]" "tl [0..<n] = [1..<n]"
    using buffer_size [OF Len(2)] n n1(1) by (simp_all add: off_def upt_conv_Cons)
  have tr: "MmuGetPhysicalAddressEx E (page_floor va + word_of_nat (4096 * k)) (Some p) 0 s = Some (tr k, s) \<and> tr k \<noteq> 0"
    if "k < n" for k
    using mapped [rule_format, OF that] by (auto simp: tr_def range_va_def)
  have a: "a = tr 0 + word_of_nat off"
    using MmuGet_byte [OF ok rng, of off "tr 0" s] tr [OF n1(1)] first(1) n1(1) off page_floor_byte [of va]
    by (simp add: range_va_def off_def)
  have probe: "(if KernelSpace (paging_of s p) then MmuProbeMemory E pCpu cur va Len s else Some s) = Some s"
    using MmuProbeMemory_mapped [OF _ rng, of s "[0..<n]" pCpu cur] ok kern mapped nz Len(1)
    by (auto simp: MmuProbeMemory_def steps addr_contract.addr_simps [OF env_addr] atLeast0LessThan)
  have "unat (0x1000 - d) + 4096 * length [1..<n] < 2 ^ 32" "0x1000 - d \<noteq> 0"
    using d n1 Len(2) off by (auto simp: off_def word_unat_eq_iff)
  from MdlAllocateEx_passes [OF _ this, of E "page_floor va" "Some p" 0 s tr a "[]" 1] tr
  obtain ps where ps: "MdlAllocateEx_fill E (Some p) 0 (page_floor va) [1..<n] a (0x1000 - d) [] s = Some (ps, s)"
      "MdlAllocateEx_count E (Some p) 0 (page_floor va) [1..<n] a (0x1000 - d) 1 s = Some (word_of_nat (length ps), s)"
      "concat (map pair_bytes ps) = pair_bytes (a, 0x1000 - d) @ concat (map (\<lambda>k. pair_bytes (tr k, 0x1000)) [1..<n])"
      "successively (\<lambda>p q. fst p + ucast (snd p) \<noteq> fst q) ps"
    by auto
  let ?mdl = "\<lparr>ByteCount = Len, MdlStartVa = page_floor va, ByteOffset = d, TranslationPairs = ps\<rparr>"
  have call: "MdlAllocateEx E pCpu cur va Len 0 (Some p) True s = Some (Some ?mdl, s)"
    using nz Len(1) probe first ps(1,2)
    by (simp add: MdlAllocateEx_def addr_contract.addr_simps [OF env_addr] steps d_def [symmetric] cong: if_cong)
  have "drop off (pair_bytes (tr 0, 0x1000)) = pair_bytes (a, 0x1000 - d)"
    by (rule nth_equalityI) (simp_all add: d(2) nth_pair_bytes a add.assoc flip: of_nat_add)
  then have "mdl_bytes ?mdl = drop off (concat (map (\<lambda>k. pair_bytes (tr k, 0x1000)) [0..<n]))"
    using ps(3) n1(1) off by (simp add: mdl_bytes_def upt_conv_Cons)
  then show ?thesis
    using call d(1) ps(4) unfolding tr_def off_def by (intro exI [of _ ?mdl]) simp
qed

end

subsection \<open>Properties\<close>

text \<open>
  C19 (equivalence). A descriptor list describes its buffer: when every page of the buffer is mapped,
  \<open>MdlAllocateEx\<close> returns a list whose runs give, byte for byte and in order, the physical
  addresses the bytes of the buffer translate to. Its two passes agree on the number of runs,
  and the runs are as long as possible: no run continues where the one before it ends.
\<close>

theorem MdlAllocateEx_describes:
  assumes env: "vm_contracts E" and ok: "paging_ok (EP E) (paging_of s p) (Mem s)"
    and kern: "KernelSpace (paging_of s p) \<Longrightarrow> p = None"
    and Len: "Len \<noteq> 0" "unat va mod 4096 + unat Len + 4095 < 2 ^ 32"
    and rng: "range_ok (page_floor va) ((unat va mod 4096 + unat Len + 4095) div 4096)"
    and mapped: "\<forall>k < (unat va mod 4096 + unat Len + 4095) div 4096. \<exists>f. f \<noteq> 0 \<and>
      MmuGetPhysicalAddressEx E (range_va (page_floor va) k) (Some p) 0 s = Some (f, s)"
    and first: "MmuGetPhysicalAddressEx E va (Some p) 0 s = Some (a, s)" "a \<noteq> 0"
  shows "\<exists>mdl. MdlAllocateEx E pCpu cur va Len 0 (Some p) True s = Some (Some mdl, s) \<and>
    ByteCount mdl = Len \<and> MdlStartVa mdl = page_floor va \<and> unat (ByteOffset mdl) = unat va mod 4096 \<and>
    unat Len \<le> length (mdl_bytes mdl) \<and>
    (\<forall>j < unat Len. MmuGetPhysicalAddressEx E (va + word_of_nat j) (Some p) 0 s = Some (mdl_bytes mdl ! j, s)) \<and>
    successively (\<lambda>q r. fst q + ucast (snd q) \<noteq> fst r) (TranslationPairs mdl)"
proof -
  define n where "n = (unat va mod 4096 + unat Len + 4095) div 4096"
  define f where "f k = fst (the (MmuGetPhysicalAddressEx E (range_va (page_floor va) k) (Some p) 0 s))" for k
  let ?blocks = "concat (map (\<lambda>k. pair_bytes (f k, 0x1000)) [0..<n])"
  obtain mdl where call: "MdlAllocateEx E pCpu cur va Len 0 (Some p) True s = Some (Some mdl, s)"
      and fields: "ByteCount mdl = Len" "MdlStartVa mdl = page_floor va" "unat (ByteOffset mdl) = unat va mod 4096"
        "successively (\<lambda>q r. fst q + ucast (snd q) \<noteq> fst r) (TranslationPairs mdl)"
      and bytes: "mdl_bytes mdl = drop (unat va mod 4096) ?blocks"
    using vm_contracts.MdlAllocateEx_mapped [OF env ok kern Len n_def rng [folded n_def] mapped [folded n_def] first]
    unfolding f_def by blast
  have len: "length ?blocks = 4096 * n"
    by (induction n) simp_all
  have cover: "unat va mod 4096 + unat Len \<le> 4096 * n"
    unfolding n_def by (simp add: div_mult2_eq [symmetric] dividend_less_times_div less_eq_Suc_le)
  have "MmuGetPhysicalAddressEx E (va + word_of_nat j) (Some p) 0 s = Some (mdl_bytes mdl ! j, s)" if "j < unat Len" for j
  proof -
    let ?i = "unat va mod 4096 + j"
    have i: "?i < 4096 * n" "?i div 4096 < n"
      using that cover by (simp_all add: div_less_iff_less_mult mult.commute)
    have "MmuGetPhysicalAddressEx E (range_va (page_floor va) (?i div 4096)) (Some p) 0 s = Some (f (?i div 4096), s)"
      using mapped [folded n_def, rule_format, OF i(2)] by (auto simp: f_def)
    from vm_contracts.MmuGet_byte [OF env ok rng [folded n_def] i(1) this]
    have "MmuGetPhysicalAddressEx E (va + word_of_nat j) (Some p) 0 s =
        Some (f (?i div 4096) + word_of_nat (?i mod 4096), s)"
      using page_floor_byte [of va] by (simp add: add.assoc [symmetric])
    moreover have "mdl_bytes mdl ! j = f (?i div 4096) + word_of_nat (?i mod 4096)"
      using nth_blocks [of "\<lambda>k. pair_bytes (f k, 0x1000)" 4096 ?i n] i(1) len
      by (simp add: bytes nth_pair_bytes)
    ultimately show ?thesis
      by simp
  qed
  then show ?thesis
    using call fields cover by (intro exI [of _ mdl]) (simp add: bytes len)
qed

theorem MdlAllocateEx_describes_witness:
  "\<exists>s mdl. MdlAllocateEx env_example None None 0x400f00 0x200 0 (Some None) True s = Some (Some mdl, s) \<and>
    MmuGetPhysicalAddressEx env_example 0x401010 (Some None) 0 s = Some (mdl_bytes mdl ! 0x110, s)"
proof -
  have r: "range_ok 0x400000 2" "(0 :: nat) < 2" "unat (0x2000 :: qword) = 4096 * 2"
    "page_aligned 0x80000" "unat (0x80000 :: qword) + 4096 * 2 \<le> 2 ^ 52"
    "unat (CurrentIndex (paging_of vm_example None)) + structures_for 2 \<le> unat (NumberOfFrames (paging_of vm_example None))"
    "paging_ok (EP env_example) (paging_of vm_example None) (Mem vm_example)" "page_floor 0x400f00 = 0x400000"
    using paging_example_ok
    by (simp_all add: range_ok_def page_aligned_def page_floor_def, simp add: paging_example_def structures_for_def)
  obtain pd m where map: "paging_ok pte_ops pd m" "BasePhysicalAddress pd = BasePhysicalAddress (paging_of vm_example None)"
      "\<forall>k < 2. map_option fst (VmmGetPhysicalAddressEx addr_ops pte_ops (BasePhysicalAddress (paging_of vm_example None))
        (range_va 0x400000 k) False False m) = Some (0x80000 + word_of_nat (4096 * k))"
    using vmx.MmuMap_range [OF r(7,1-6), of PAGE_RIGHTS_READWRITE False] unfolding env_example_sel by blast
  define s where "s = set_paging None pd (vm_example\<lparr>Mem := m\<rparr>)"
  have s: "paging_of s None = pd" "Mem s = m"
    by (simp_all add: s_def)
  have page: "MmuGetPhysicalAddressEx env_example (range_va 0x400000 k) (Some None) 0 s =
      Some (0x80000 + word_of_nat (4096 * k), s)" if "k < 2" for k
    using vmx.MmuGet_aligned [of s None, OF _ range_va_aligned [OF r(1) that] range_va_nonzero [OF r(1) that]]
      map that by (simp add: s)
  have nz: "0x80000 + word_of_nat (4096 * k) \<noteq> (0 :: qword)" if "k < 2" for k
    using that by (auto simp: less_2_cases_iff)
  have "MmuGetPhysicalAddressEx env_example (0x400000 + word_of_nat 0xf00) (Some None) 0 s = Some (0x80000 + word_of_nat 0xf00, s)"
    using vmx.MmuGet_byte [of s None, OF _ r(1), of "0xf00"] page [of 0] map(1) by (simp add: s)
  then have "\<exists>mdl. MdlAllocateEx env_example None None 0x400f00 0x200 0 (Some None) True s = Some (Some mdl, s) \<and>
      (\<forall>j < 0x200. MmuGetPhysicalAddressEx env_example (0x400f00 + word_of_nat j) (Some None) 0 s = Some (mdl_bytes mdl ! j, s))"
    using MdlAllocateEx_describes [OF vmx.vm_contracts_axioms, of s None "0x200" "0x400f00" "0x80f00" None None]
      map(1) r(1) page nz by (simp add: s r(8)) blast
  then obtain mdl where "MdlAllocateEx env_example None None 0x400f00 0x200 0 (Some None) True s = Some (Some mdl, s)"
    and bytes: "\<forall>j < 0x200. MmuGetPhysicalAddressEx env_example (0x400f00 + word_of_nat j) (Some None) 0 s = Some (mdl_bytes mdl ! j, s)"
    by blast
  then show ?thesis
    using bytes [rule_format, of "0x110"] by (intro exI [of _ s] exI [of _ mdl]) simp
qed

text \<open>
  For user memory that is not mapped, \<open>MdlAllocateEx\<close> relies on \<open>MmuGetPhysicalAddressEx\<close>
  returning \<open>NULL\<close>. That routine adds the offset in the page to the \<open>NULL\<close> it gets, so for an
  address that is not page-aligned the test does not see the failure: instead of \<open>NULL\<close> a list
  comes back that claims the physical memory at the offset itself.
\<close>

theorem MdlAllocateEx_unmapped:
  assumes env: "vm_contracts E" and ok: "paging_ok (EP E) (paging_of s p) (Mem s)"
    and user: "\<not> KernelSpace (paging_of s p)" and va: "page_floor va \<noteq> 0" "unat va mod 4096 \<noteq> 0"
    and Len: "Len \<noteq> 0" "unat va mod 4096 + unat Len \<le> 4096"
    and unmapped: "map_option fst (VmmGetPhysicalAddressEx (EA E) (EP E) (BasePhysicalAddress (paging_of s p)) (page_floor va)
      False False (Mem s)) = Some 0"
  shows "\<exists>mdl. MdlAllocateEx E pCpu cur va Len 0 (Some p) True s = Some (Some mdl, s) \<and>
    map fst (TranslationPairs mdl) = [va mod PAGE_SIZE]"
proof -
  note A = vm_contracts.env_addr [OF env]
  have "(unat va mod 4096 + unat Len + 4095) div 4096 = 1"
    using Len(2) unat_pos_dword [OF Len(1)] by (intro div_nat_eqI) simp_all
  then have steps: "tl (page_steps (buffer_aligned_size E va Len)) = []"
    using vm_contracts.buffer_size [OF env, of va Len] Len(2) by simp
  have byte: "MmuGetPhysicalAddressEx E va (Some p) 0 s = Some (va mod PAGE_SIZE, s)"
    using vm_contracts.MmuGet_at [OF env ok va(1)] unmapped
      pte_contract.VmmGetPhysicalAddress_entry [OF vm_contracts.env_pte [OF env] ok A page_aligned_floor va(1)]
    by (simp split: option.splits)
  have "va mod PAGE_SIZE \<noteq> 0" "va \<noteq> 0"
    using va by (auto simp: word_unat_eq_iff unat_mod_page page_floor_def)
  then show ?thesis
    using user Len(1) byte by (simp add: MdlAllocateEx_def Let_def addr_contract.addr_simps [OF A] steps)
qed

theorem MdlAllocateEx_unmapped_witness:
  "\<exists>mdl. MdlAllocateEx env_example None None 0x601234 0x10 0 (Some (Some 0)) True vm_example = Some (Some mdl, vm_example) \<and>
    map fst (TranslationPairs mdl) = [0x234]"
proof -
  have fl: "page_floor 0x601234 = 0x601000"
    by (simp add: page_floor_def)
  have "va_entry pte_ops (paging_example\<lparr>KernelSpace := False\<rparr>) mem_example 0x601000 = None"
    by (simp add: va_entry_def va_offsets_def mem_example_def pte_ops_def)
  then have "map_option fst (VmmGetPhysicalAddressEx addr_ops pte_ops (BasePhysicalAddress (paging_example\<lparr>KernelSpace := False\<rparr>))
      0x601000 False False mem_example) = Some 0"
    using pte.VmmGetPhysicalAddress_entry [OF _ addr.addr_contract_axioms, of "paging_example\<lparr>KernelSpace := False\<rparr>" mem_example "0x601000"]
      paging_example_ok by (simp add: page_aligned_def)
  then show ?thesis
    using MdlAllocateEx_unmapped [OF vmx.vm_contracts_axioms, of vm_example "Some 0" "0x601234" "0x10" None None]
      paging_example_ok by (simp add: fl)
qed

end
