(* ===== verification/Mmu.thy ===== *)
theory Mmu
  imports Mdl
begin

text \<open>
  The rest of \<open>mmu.c\<close>: the paging tables and address spaces of processes, the mappings made while the
  system starts, kernel aliases of user buffers, and the worker thread that zeroes the frames given back
  before it hands them to the physical memory manager. The state is that of theory \<open>Vmm\<close>.
\<close>

subsection \<open>Reserved frames\<close>

abbreviation PAGING_STRUCTURES_BASE_MEMORY :: dword where
  "PAGING_STRUCTURES_BASE_MEMORY \<equiv> 0x20000"

abbreviation PAGING_STRUCTURES_PERCENTAGE :: qword where
  "PAGING_STRUCTURES_PERCENTAGE \<equiv> 25"

definition MmuCalculateReservedFrames :: "addr_lib \<Rightarrow> dword \<Rightarrow> qword \<Rightarrow> qword \<Rightarrow> dword option" where
  "MmuCalculateReservedFrames A BaseSize HundredsOfPercentage AvailableSystemMemory = do {
     let sizeInBytes = ucast BaseSize + CalculatePercentage A AvailableSystemMemory HundredsOfPercentage;
     let sizeInFrames = AlignAddressUpper A sizeInBytes (2 * MB_SIZE) div PAGE_SIZE;
     ASSERT (sizeInFrames < ucast MAX_DWORD);
     Some (ucast sizeInFrames)
   }"

definition MmuGetTotalSystemMemory :: "vm_state \<Rightarrow> qword" where
  "MmuGetTotalSystemMemory s = PmmGetTotalSystemMemory (PmmData s)"

definition MmuGetHighestPhysicalMemoryAddressPresent :: "vm_state \<Rightarrow> qword" where
  "MmuGetHighestPhysicalMemoryAddressPresent s = PmmGetHighestPhysicalMemoryAddressPresent (PmmData s)"

subsection \<open>Mappings made while the system starts\<close>

text \<open>\<open>va2pa\<close> is \<open>VA2PA\<close>; the first table is zeroed before it is used.\<close>

definition MmuInitPagingSystem ::
  "vm_env \<Rightarrow> (qword \<Rightarrow> qword) \<Rightarrow> byte \<Rightarrow> byte \<Rightarrow> qword \<Rightarrow> qword \<Rightarrow> vm_state \<Rightarrow> (status \<times> vm_state) option" where
  "MmuInitPagingSystem E va2pa wbType ucType ia32PatValues Base s = do {
     ASSERT (Base \<noteq> 0);
     let (status, vd) = VmmPreparePagingData wbType ucType ia32PatValues (VmmData s);
     let s = s\<lparr>VmmData := vd\<rparr>;
     if \<not> SUCCEEDED status then Some (status, s)
     else do {
       frames \<leftarrow> MmuCalculateReservedFrames (EA E) PAGING_STRUCTURES_BASE_MEMORY PAGING_STRUCTURES_PERCENTAGE
                   (MmuGetTotalSystemMemory s);
       let (basePa, pmm) = PmmReserveMemoryEx (EA E) (EB E) (PmmData s) frames (va2pa Base);
       let s = s\<lparr>PmmData := pmm\<rparr>;
       if basePa = 0 \<or> basePa \<noteq> va2pa Base then Some (STATUS_PHYSICAL_MEMORY_NOT_AVAILABLE, s)
       else do {
         (status, _, pd, m) \<leftarrow> VmmSetupPageTables E (VmmData s) None basePa frames True (memzero_page basePa (Mem s));
         Some (status, s\<lparr>SystemPaging := pd, Mem := m\<rparr>)
       }
     }
   }"

definition MmuReserveAndMapMemory ::
  "vm_env \<Rightarrow> qword \<Rightarrow> dword \<Rightarrow> qword \<Rightarrow> page_rights \<Rightarrow> vm_state \<Rightarrow> (status \<times> vm_state) option" where
  "MmuReserveAndMapMemory E VirtualAddress Size PhysicalAddress AccessRights s = do {
     ASSERT (VirtualAddress \<noteq> 0);
     ASSERT (Size \<noteq> 0);
     ASSERT (IsAddressAligned (EA E) (ucast Size) PAGE_SIZE);
     let (pa, pmm) = PmmReserveMemoryEx (EA E) (EB E) (PmmData s) (Size div 0x1000) PhysicalAddress;
     let s = s\<lparr>PmmData := pmm\<rparr>;
     if pa = 0 \<or> pa \<noteq> PhysicalAddress then Some (STATUS_PHYSICAL_MEMORY_NOT_AVAILABLE, s)
     else do {
       (pd, m) \<leftarrow> VmmMapMemoryInternal (EA E) (EP E) (PA2VA E) (VmmData s) pa (ucast Size) VirtualAddress AccessRights
                    True False (SystemPaging s, Mem s);
       Some (STATUS_SUCCESS, s\<lparr>SystemPaging := pd, Mem := m\<rparr>)
     }
   }"

definition MmuRemapStack ::
  "vm_env \<Rightarrow> (qword \<Rightarrow> qword) \<Rightarrow> qword \<Rightarrow> dword \<Rightarrow> vm_state \<Rightarrow> (status \<times> vm_state) option" where
  "MmuRemapStack E va2pa NewStackBase StackSize s = do {
     ASSERT (NewStackBase \<noteq> 0);
     ASSERT (StackSize \<noteq> 0);
     ASSERT (IsAddressAligned (EA E) (ucast StackSize) PAGE_SIZE);
     MmuReserveAndMapMemory E NewStackBase StackSize (va2pa NewStackBase) PAGE_RIGHTS_READWRITE s
   }"

definition MmuRemapDisplay :: "vm_env \<Rightarrow> qword \<Rightarrow> qword \<Rightarrow> vm_state \<Rightarrow> vm_state option" where
  "MmuRemapDisplay E BASE_VIDEO_ADDRESS SCREEN_SIZE s = do {
     (pd, m) \<leftarrow> VmmMapMemoryInternal (EA E) (EP E) (PA2VA E) (VmmData s) BASE_VIDEO_ADDRESS
                  (AlignAddressUpper (EA E) SCREEN_SIZE PAGE_SIZE) (PA2VA E BASE_VIDEO_ADDRESS) PAGE_RIGHTS_READWRITE True False
                  (SystemPaging s, Mem s);
     Some (s\<lparr>SystemPaging := pd, Mem := m\<rparr>)
   }"

text \<open>
  The memory of a heap; \<open>ClHeapInit\<close> of the library sets up the heap in it. The result is the address of
  the heap, if there is one.
\<close>

definition MmuInitializeHeap ::
  "vm_env \<Rightarrow> (qword \<Rightarrow> qword \<Rightarrow> status) \<Rightarrow> dword \<Rightarrow> qword \<Rightarrow> vm_state \<Rightarrow> (status \<times> qword option \<times> vm_state) option" where
  "MmuInitializeHeap E ClHeapInit HeapBaseSize HeapPercentageSize s = do {
     frames \<leftarrow> MmuCalculateReservedFrames (EA E) HeapBaseSize HeapPercentageSize (MmuGetTotalSystemMemory s);
     let heapSize = ucast frames * PAGE_SIZE;
     (heapBaseAddress, s) \<leftarrow> VmmAllocRegionEx E 0 heapSize {VMM_ALLOC_TYPE_RESERVE, VMM_ALLOC_TYPE_COMMIT}
                              PAGE_RIGHTS_READWRITE False None None None None s;
     if heapBaseAddress = 0 then Some (STATUS_MEMORY_CANNOT_BE_RESERVED, None, s)
     else (let status = ClHeapInit heapBaseAddress heapSize in
           Some (status, if SUCCEEDED status then Some heapBaseAddress else None, s))
   }"

subsection \<open>Paging tables and address spaces of processes\<close>

text \<open>
  \<open>memcpy\<close> of the upper half of a table, from offset \<open>PML4_OFFSET_OF_KERNEL_STRUCTURES\<close> to its end, as
  256 entries of eight bytes.
\<close>

definition copy_kernel_half :: "qword \<Rightarrow> qword \<Rightarrow> pt_mem \<Rightarrow> pt_mem" where
  "copy_kernel_half dst src m = fold (\<lambda>j m. write_entry (entry_at dst j) (Phys m (entry_at src j)) m) [256..<512] m"

text \<open>\<open>poolOk\<close> says that the pool has memory for the paging data, which becomes that of process \<open>i\<close>.\<close>

definition MmuCreatePagingTables :: "vm_env \<Rightarrow> bool \<Rightarrow> nat \<Rightarrow> vm_state \<Rightarrow> (status \<times> vm_state) option" where
  "MmuCreatePagingTables E poolOk i s =
     (if \<not> poolOk then Some (STATUS_INSUFFICIENT_MEMORY, s)
      else do {
        frames \<leftarrow> MmuCalculateReservedFrames (EA E) PAGING_STRUCTURES_BASE_MEMORY PAGING_STRUCTURES_PERCENTAGE
                    (PmmGetTotalSystemMemory (PmmData s));
        let (basePa, pmm) = PmmReserveMemory (EA E) (EB E) (PmmData s) frames;
        let s = s\<lparr>PmmData := pmm\<rparr>;
        if basePa = 0 then Some (STATUS_PHYSICAL_MEMORY_NOT_AVAILABLE, s)
        else do {
          (status, target, pd, m) \<leftarrow>
            VmmSetupPageTables E (VmmData s) (Some (SystemPaging s)) basePa frames False (Mem s);
          let s = s\<lparr>SystemPaging := (case target of None \<Rightarrow> SystemPaging s | Some t \<Rightarrow> t), Mem := m\<rparr>;
          if \<not> SUCCEEDED status then do {
            pmm \<leftarrow> PmmReleaseMemory (EA E) (EB E) (PmmData s) basePa frames;
            Some (status, s\<lparr>PmmData := pmm\<rparr>)
          }
          else Some (status, set_paging (Some i) pd
                 (s\<lparr>Mem := copy_kernel_half (BasePhysicalAddress pd) (BasePhysicalAddress (SystemPaging s)) (Mem s)\<rparr>))
        }
      })"

definition MmuDestroyPagingTables :: "vm_env \<Rightarrow> nat \<Rightarrow> vm_state \<Rightarrow> vm_state option" where
  "MmuDestroyPagingTables E i s =
     (let pd = ProcessPaging s i in
      MmuUnmapMemoryEx E (PA2VA E (BasePhysicalAddress pd)) (ucast (NumberOfFrames pd * 0x1000)) True None s)"

text \<open>
  \<open>paging\<close> and \<open>vaSpace\<close> say whether the pointers of the process are set; \<open>cur\<close> is the process of the
  current thread, \<open>Pcid\<close> the identifier of a process. The values written to CR3 are checked and dropped.
\<close>

definition MmuDestroyAddressSpaceForProcess ::
  "vm_env \<Rightarrow> (qword \<Rightarrow> bool) \<Rightarrow> (nat option \<Rightarrow> qword) \<Rightarrow> bool \<Rightarrow> nat option \<Rightarrow> nat \<Rightarrow> bool \<Rightarrow> bool \<Rightarrow> vm_state \<Rightarrow> vm_state option" where
  "MmuDestroyAddressSpaceForProcess E PCID_IS_VALID Pcid PcidSupportAvailable cur i paging vaSpace s = do {
     s \<leftarrow> (if vaSpace then VmmDestroyVirtualAddressSpace E i s else Some s);
     if paging then do {
       _ \<leftarrow> VmmChangeCr3 (EA E) PCID_IS_VALID (BasePhysicalAddress (ProcessPaging s i)) (Pcid (Some i)) True;
       _ \<leftarrow> VmmChangeCr3 (EA E) PCID_IS_VALID (BasePhysicalAddress (paging_of s cur)) (Pcid cur) (\<not> PcidSupportAvailable);
       MmuDestroyPagingTables E i s
     } else Some s
   }"

abbreviation VA_METADATA_SIZE_FOR_UM_PROCESS :: qword where
  "VA_METADATA_SIZE_FOR_UM_PROCESS \<equiv> 0x140000000"

abbreviation VA_ALLOCATIONS_START_OFFSET_FROM_IMAGE_BASE :: qword where
  "VA_ALLOCATIONS_START_OFFSET_FROM_IMAGE_BASE \<equiv> 0x40000000"

text \<open>The result says also which of the two pointers of the process are set when the call returns.\<close>

definition MmuCreateAddressSpaceForProcess ::
  "vm_env \<Rightarrow> (qword \<Rightarrow> bool) \<Rightarrow> (nat option \<Rightarrow> qword) \<Rightarrow> bool \<Rightarrow> nat option \<Rightarrow> bool \<Rightarrow> bool \<Rightarrow> vmm_reservation list \<Rightarrow> qword \<Rightarrow>
   nat \<Rightarrow> vm_state \<Rightarrow> (status \<times> bool \<times> bool \<times> vm_state) option" where
  "MmuCreateAddressSpaceForProcess E PCID_IS_VALID Pcid PcidSupportAvailable cur poolOk headerOk slots ImageBase i s = do {
     (status, s) \<leftarrow> MmuCreatePagingTables E poolOk i s;
     let paging = SUCCEEDED status;
     (status, s) \<leftarrow> (if \<not> SUCCEEDED status then Some (status, s)
       else VmmCreateVirtualAddressSpace E False VA_METADATA_SIZE_FOR_UM_PROCESS
              (PtrOffset (EA E) ImageBase VA_ALLOCATIONS_START_OFFSET_FROM_IMAGE_BASE) headerOk slots i s);
     if SUCCEEDED status then Some (status, True, True, s)
     else do {
       s \<leftarrow> MmuDestroyAddressSpaceForProcess E PCID_IS_VALID Pcid PcidSupportAvailable cur i paging False s;
       Some (status, False, False, s)
     }
   }"

subsection \<open>Kernel aliases of user buffers\<close>

text \<open>\<open>Process\<close> is \<open>None\<close> for \<open>NULL\<close>; \<open>outNull\<close> says that the pointer for the result is \<open>NULL\<close>.\<close>

definition MmuGetSystemVirtualAddressForUserBuffer ::
  "vm_env \<Rightarrow> bool option \<Rightarrow> nat option \<Rightarrow> qword \<Rightarrow> qword \<Rightarrow> page_rights \<Rightarrow> nat option option \<Rightarrow> bool \<Rightarrow> bool \<Rightarrow> vm_state \<Rightarrow>
   (status \<times> qword option \<times> vm_state) option" where
  "MmuGetSystemVirtualAddressForUserBuffer E pCpu cur UserAddress Size PageRights Process outNull poolOk s =
     (if UserAddress = 0 then Some (STATUS_INVALID_PARAMETER1, None, s)
      else if Size = 0 then Some (STATUS_INVALID_PARAMETER2, None, s)
      else (case Process of
        None \<Rightarrow> Some (STATUS_INVALID_PARAMETER3, None, s)
      | Some p \<Rightarrow>
          if outNull then Some (STATUS_INVALID_PARAMETER4, None, s)
          else do {
            ASSERT (Size \<le> ucast MAX_DWORD);
            (pMdl, s) \<leftarrow> MdlAllocateEx E pCpu cur UserAddress (ucast Size) 0 (Some p) poolOk s;
            (case pMdl of
               None \<Rightarrow> Some (STATUS_UNSUCCESSFUL, None, s)
             | Some mdl \<Rightarrow> do {
                 (pKernelAddress, s) \<leftarrow> VmmAllocRegionEx E 0 Size
                   {VMM_ALLOC_TYPE_RESERVE, VMM_ALLOC_TYPE_COMMIT, VMM_ALLOC_TYPE_NOT_LAZY} PageRights False None None None
                   (Some mdl) s;
                 if pKernelAddress = 0 then Some (STATUS_MEMORY_CANNOT_BE_COMMITED, None, s)
                 else Some (STATUS_SUCCESS,
                        Some (PtrOffset (EA E) pKernelAddress (AddressOffset (EA E) UserAddress PAGE_SIZE)), s)
               })
          }))"

definition MmuFreeSystemVirtualAddressForUserBuffer :: "vm_env \<Rightarrow> qword \<Rightarrow> vm_state \<Rightarrow> vm_state option" where
  "MmuFreeSystemVirtualAddressForUserBuffer E KernelAddress s = do {
     ASSERT (KernelAddress \<noteq> 0);
     VmmFreeRegionEx E KernelAddress 0 {VMM_FREE_TYPE_RELEASE} False None None s
   }"

subsection \<open>Zeroing released frames\<close>

text \<open>
  One round of the worker thread behind its wait: it takes the first entry of the list, or clears the event
  (the first result is false). \<open>noOfBytes\<close> is a 32-bit variable.
\<close>

definition MmuZeroWorkerThreadFunction_round :: "vm_env \<Rightarrow> vm_state \<Rightarrow> (bool \<times> vm_state) option" where
  "MmuZeroWorkerThreadFunction_round E s =
     (case PagesToZeroList (Mem s) of
        [] \<Rightarrow> Some (False, s)
      | (pa, frames) # rest \<Rightarrow> do {
          let s = s\<lparr>Mem := (Mem s)\<lparr>PagesToZeroList := rest\<rparr>\<rparr>;
          let noOfBytes = (frames * 0x1000 :: dword);
          (pAddr, s) \<leftarrow> MmuMapMemoryEx E pa (ucast noOfBytes) PAGE_RIGHTS_READWRITE False False None s;
          ASSERT (pAddr \<noteq> 0);
          let s = s\<lparr>DataOps := ZeroMemory pAddr (ucast noOfBytes) # DataOps s\<rparr>;
          pmm \<leftarrow> PmmReleaseMemory (EA E) (EB E) (PmmData s) pa frames;
          s \<leftarrow> MmuUnmapMemoryEx E pAddr (ucast noOfBytes) False None (s\<lparr>PmmData := pmm\<rparr>);
          Some (True, s)
        })"

subsection \<open>The tables of a new process\<close>

text \<open>The addresses of the frames that are reserved.\<close>

definition reserved_pages :: "pmm_data \<Rightarrow> qword set" where
  "reserved_pages d = {a. unat a div 4096 \<in> reserved_frames d}"

lemma tables_wfI:
  assumes "page_aligned (BasePhysicalAddress pd)"
    and "unat (BasePhysicalAddress pd) + 4096 * unat (NumberOfFrames pd) \<le> 2 ^ 52"
    and "unat (NumberOfFrames pd) < 2 ^ 20" and "0 < NumberOfFrames pd"
    and "tbl (BasePhysicalAddress pd) = Some []"
    and "\<And>a p. tbl a = Some p \<Longrightarrow> page_aligned a \<and> unat a < 2 ^ 52 \<and> length p \<le> 3"
    and "\<And>a p b. tbl a = Some p \<Longrightarrow> tbl b = Some p \<Longrightarrow> a = b"
    and "\<And>a p j. tbl a = Some p \<Longrightarrow> length p < 3 \<Longrightarrow> j < 512 \<Longrightarrow> PteIsPresent P (ph (entry_at a j)) \<Longrightarrow>
      \<not> PtePageSize P (ph (entry_at a j)) \<and> tbl (PteGetPhysicalAddress P (ph (entry_at a j))) = Some (p @ [j])"
    and "\<And>b p j. tbl b = Some (p @ [j]) \<Longrightarrow> j < 512 \<and>
      (\<exists>a. tbl a = Some p \<and> PteIsPresent P (ph (entry_at a j)) \<and> PteGetPhysicalAddress P (ph (entry_at a j)) = b)"
    and "\<And>k. unat (CurrentIndex pd) \<le> k \<Longrightarrow> k < unat (NumberOfFrames pd) \<Longrightarrow> tbl (frame_at pd k) = None"
  shows "tables_wf P tbl ph pd"
  unfolding tables_wf_def using assms by (intro conjI) blast+

text \<open>A tree of tables only depends on the entries of its structures.\<close>

lemma tables_wf_cong:
  assumes wf: "tables_wf P tbl ph pd"
    and same: "\<And>a p j. tbl a = Some p \<Longrightarrow> j < 512 \<Longrightarrow> ph' (entry_at a j) = ph (entry_at a j)"
  shows "tables_wf P tbl ph' pd"
proof -
  note D = tables_wfD [OF wf]
  have "\<not> PtePageSize P (ph' (entry_at a j)) \<and> tbl (PteGetPhysicalAddress P (ph' (entry_at a j))) = Some (p @ [j])"
    if "tbl a = Some p" "length p < 3" "j < 512" "PteIsPresent P (ph' (entry_at a j))" for a p j
    using D(8) [OF that(1-3)] that same by simp
  moreover have "j < 512 \<and> (\<exists>a. tbl a = Some p \<and> PteIsPresent P (ph' (entry_at a j)) \<and>
      PteGetPhysicalAddress P (ph' (entry_at a j)) = b)" if "tbl b = Some (p @ [j])" for b p j
    using D(9) [OF that] same by metis
  ultimately show ?thesis
    unfolding tables_wf_def using D(1-7,10) by (intro conjI) blast+
qed

text \<open>The copied half: its entries are those of the source, and no other page changes.\<close>

lemma Phys_copy_kernel_half:
  assumes dst: "page_aligned dst" "unat dst < 2 ^ 52" and src: "page_aligned src" "unat src < 2 ^ 52" and "dst \<noteq> src"
    and a: "page_aligned a" "unat a < 2 ^ 52" and j: "j < 512"
  shows "Phys (copy_kernel_half dst src m) (entry_at a j) =
    (if a = dst \<and> 256 \<le> j then Phys m (entry_at src j) else Phys m (entry_at a j))"
proof -
  have "Phys (fold (\<lambda>j m. write_entry (entry_at dst j) (Phys m (entry_at src j)) m) js m) (entry_at a j) =
      (if a = dst \<and> j \<in> set js then Phys m (entry_at src j) else Phys m (entry_at a j))"
    if "set js \<subseteq> {..<512}" for js
    using that
  proof (induction js arbitrary: m)
    case (Cons i js)
    have i: "i < 512"
      using Cons.prems by simp
    have "Phys (write_entry (entry_at dst i) (Phys m (entry_at src i)) m) (entry_at b k) =
        (if b = dst \<and> k = i then Phys m (entry_at src i) else Phys m (entry_at b k))"
      if "page_aligned b" "unat b < 2 ^ 52" "k < 512" for b k
      using entry_at_inj [of b dst k i] dst i that by (auto simp: write_entry_def)
    from this [OF a j] this [OF src j] show ?case
      using Cons.IH [of "write_entry (entry_at dst i) (Phys m (entry_at src i)) m"] Cons.prems \<open>dst \<noteq> src\<close>
      by auto
  qed simp
  note copy = this
  obtain js where js: "js = [256..<512 :: nat]" "set js = {256..<512}"
    by (metis set_upt)
  then have "set js \<subseteq> {..<512}"
    by auto
  from copy [OF this] show ?thesis
    unfolding copy_kernel_half_def js(1) [symmetric] using j js(2) by simp
qed

text \<open>
  The tree of a new process: its root, and the structures of the system below the upper half of the
  root of the system.
\<close>

definition process_tables :: "qword \<Rightarrow> (qword \<Rightarrow> nat list option) \<Rightarrow> qword \<Rightarrow> nat list option" where
  "process_tables root tbl a = (if a = root then Some []
     else case tbl a of Some (j # p) \<Rightarrow> if 256 \<le> j then Some (j # p) else None | _ \<Rightarrow> None)"

lemma process_tables_Some:
  "process_tables root tbl a = Some p \<longleftrightarrow>
     (if a = root then p = [] else \<exists>j q. p = j # q \<and> 256 \<le> j \<and> tbl a = Some p)"
  by (auto simp: process_tables_def split: option.splits list.splits)

context pte_contract
begin

lemma process_tables_wf:
  assumes wf: "tables_wf P tbl ph sys" and root: "tbl root = None" "page_aligned root"
    and size: "unat root + 4096 * unat n \<le> 2 ^ 52" "unat n < 2 ^ 20" "0 < n"
    and free: "\<And>k. 1 \<le> k \<Longrightarrow> k < unat n \<Longrightarrow> tbl (root + word_of_nat k * PAGE_SIZE) = None"
    and same: "\<And>a p j. tbl a = Some p \<Longrightarrow> j < 512 \<Longrightarrow> ph' (entry_at a j) = ph (entry_at a j)"
    and entries: "\<And>j. j < 512 \<Longrightarrow> ph' (entry_at root j) = (if 256 \<le> j then ph (entry_at (BasePhysicalAddress sys) j) else 0)"
  shows "tables_wf P (process_tables root tbl) ph'
    \<lparr>BasePhysicalAddress = root, NumberOfFrames = n, CurrentIndex = 1, KernelSpace = ks\<rparr>"
proof -
  let ?pd = "\<lparr>BasePhysicalAddress = root, NumberOfFrames = n, CurrentIndex = 1, KernelSpace = ks\<rparr>"
  let ?sys = "BasePhysicalAddress sys"
  note D = tables_wfD [OF wf]
  have child: "\<not> PtePageSize P (ph' (entry_at a j)) \<and>
      process_tables root tbl (PteGetPhysicalAddress P (ph' (entry_at a j))) = Some (p @ [j])"
    if a: "process_tables root tbl a = Some p" "length p < 3" and j: "j < 512" "PteIsPresent P (ph' (entry_at a j))" for a p j
  proof (cases "a = root")
    case True
    then have up: "256 \<le> j" "p = []" "ph' (entry_at a j) = ph (entry_at ?sys j)"
      using a(1) j entries [OF j(1)] zero_absent by (auto simp: process_tables_Some split: if_splits)
    then show ?thesis
      using D(8) [OF D(5), of j] j root(1) by (auto simp: process_tables_Some)
  next
    case False
    then obtain i q where p: "p = i # q" "256 \<le> i" "tbl a = Some p"
      using a(1) by (auto simp: process_tables_Some)
    then show ?thesis
      using D(8) [OF p(3) a(2) j(1)] same [OF p(3) j(1)] j(2) root(1) by (auto simp: process_tables_Some)
  qed
  have parent: "j < 512 \<and> (\<exists>a. process_tables root tbl a = Some p \<and> PteIsPresent P (ph' (entry_at a j)) \<and>
      PteGetPhysicalAddress P (ph' (entry_at a j)) = b)"
    if b: "process_tables root tbl b = Some (p @ [j])" for b p j
  proof -
    have up: "256 \<le> hd (p @ [j])" "tbl b = Some (p @ [j])"
      using b by (auto simp: process_tables_Some split: if_splits)
    from D(9) [OF up(2)] obtain a where a: "j < 512" "tbl a = Some p" "PteIsPresent P (ph (entry_at a j))"
        "PteGetPhysicalAddress P (ph (entry_at a j)) = b"
      by blast
    show ?thesis
    proof (cases p)
      case Nil
      then have "a = ?sys" "256 \<le> j"
        using D(7) [OF a(2)] D(5) up(1) by auto
      then show ?thesis
        using a entries [OF a(1)] Nil by (intro conjI exI [of _ root]) (simp_all add: process_tables_Some)
    next
      case (Cons i q)
      then have "process_tables root tbl a = Some p"
        using a(2) up(1) root(1) by (auto simp: process_tables_Some)
      then show ?thesis
        using a same [OF a(2,1)] by auto
    qed
  qed
  have fresh: "process_tables root tbl (frame_at ?pd k) = None" if "1 \<le> k" "k < unat n" for k
  proof -
    have "unat (frame_at ?pd k) = unat root + 4096 * k"
      using unat_frame_at [of ?pd k] size(1) that(2) by simp
    then have "frame_at ?pd k \<noteq> root"
      using that(1) by auto
    then show ?thesis
      using free [OF that] by (simp add: frame_at_def process_tables_def)
  qed
  show ?thesis
  proof (rule tables_wfI)
    fix a p
    assume a: "process_tables root tbl a = Some p"
    have "unat root < 2 ^ 52"
      using size(1,3) by (simp add: word_less_nat_alt)
    then show "page_aligned a \<and> unat a < 2 ^ 52 \<and> length p \<le> 3"
      using a D(6) [of a p] root(2) by (auto simp: process_tables_Some split: if_splits)
    show "a = b" if "process_tables root tbl b = Some p" for b
      using a that D(7) [of a p b] by (auto simp: process_tables_Some split: if_splits)
  qed (use size root(2) child parent fresh in \<open>auto simp: process_tables_def\<close>)
qed

text \<open>Lookups do not change when the entries of all structures keep their contents.\<close>

lemma va_entry_cong:
  assumes wf: "tables_wf P tbl (Phys m) pd"
    and same: "\<And>a p j. tbl a = Some p \<Longrightarrow> j < 512 \<Longrightarrow> Phys m' (entry_at a j) = Phys m (entry_at a j)"
  shows "va_entry P pd m' va = va_entry P pd m va"
proof -
  have "tables_ext P {} tbl (Phys m) tbl (Phys m')"
    using same by (auto simp: tables_ext_def)
  from lookup_ext [OF wf tables_wf_cong [OF wf same] this refl path_ok_va_offsets] show ?thesis
    by (simp add: va_entry_def)
qed

text \<open>What the root decides: the lower half is empty, the upper half leads where the root of the system does.\<close>

lemma va_entry_root:
  assumes "\<And>j. j < 512 \<Longrightarrow> Phys m (entry_at (BasePhysicalAddress pd) j) =
    (if 256 \<le> j then Phys m (entry_at (BasePhysicalAddress sys) j) else 0)"
  shows "va_entry P pd m va = (if 256 \<le> MASK_PML4_OFFSET P va then va_entry P sys m va else None)"
proof -
  have "MASK_PML4_OFFSET P va < 512"
    by (simp add: MASK_offsets)
  from assms [OF this] show ?thesis
    by (simp add: va_entry_def va_offsets_def zero_absent Let_def)
qed

text \<open>The last part of \<open>MmuCreatePagingTables\<close>, with the structures of the system in the frames \<open>R\<close>.\<close>

lemma process_root:
  assumes sys: "paging_within P R sys m" and root: "page_aligned root" "root \<notin> R"
    and size: "unat root + 4096 * unat n \<le> 2 ^ 52" "unat n < 2 ^ 20" "0 < n"
    and free: "\<And>k. k < unat n \<Longrightarrow> root + word_of_nat k * PAGE_SIZE \<notin> R"
    and m': "m' = copy_kernel_half root (BasePhysicalAddress sys) (memzero_page root m)"
    and pd: "pd = \<lparr>BasePhysicalAddress = root, NumberOfFrames = n, CurrentIndex = 1, KernelSpace = ks\<rparr>"
  shows "paging_within P R sys m'" and "paging_within P (insert root R) pd m'"
    and "va_entry P sys m' va = va_entry P sys m va"
    and "va_entry P pd m' va = (if 256 \<le> MASK_PML4_OFFSET P va then va_entry P sys m' va else None)"
proof -
  obtain tbl where wf: "tables_wf P tbl (Phys m) sys" and R: "dom tbl \<subseteq> R"
    using sys by (auto simp: paging_within_def)
  note D = tables_wfD [OF wf]
  have root': "unat root < 2 ^ 52" "tbl root = None"
    using size root(2) R by (auto simp: word_less_nat_alt)
  have sysroot: "page_aligned (BasePhysicalAddress sys)" "unat (BasePhysicalAddress sys) < 2 ^ 52"
    "root \<noteq> BasePhysicalAddress sys"
    using D(1) D(6) [OF D(5)] D(5) root'(2) by auto
  note copy = Phys_copy_kernel_half [OF root(1) root'(1) sysroot, of _ _ "memzero_page root m", folded m']
  have zeroed: "Phys (memzero_page root m) (entry_at a j) = (if a = root then 0 else Phys m (entry_at a j))"
    if "page_aligned a" "unat a < 2 ^ 52" "j < 512" for a j
    using entry_at_in_page [OF root(1) that] by (auto simp: memzero_page_def)
  have same: "Phys m' (entry_at a j) = Phys m (entry_at a j)" if "tbl a = Some p" "j < 512" for a p j
    using copy [of a j] zeroed [of a j] D(6) [OF that(1)] that root'(2) by auto
  have entries: "Phys m' (entry_at root j) = (if 256 \<le> j then Phys m (entry_at (BasePhysicalAddress sys) j) else 0)"
    if "j < 512" for j
    using copy [OF root(1) root'(1) that] zeroed [OF root(1) root'(1) that] zeroed [OF sysroot(1,2) that] sysroot(3)
    by simp
  have free': "tbl (root + word_of_nat k * PAGE_SIZE) = None" if "1 \<le> k" "k < unat n" for k
    using free [OF that(2)] R by auto
  have "tables_wf P tbl (Phys m') sys"
    by (rule tables_wf_cong [OF wf same])
  then show "paging_within P R sys m'"
    using R by (auto simp: paging_within_def)
  have "dom (process_tables root tbl) \<subseteq> insert root R"
    using R domI [of tbl] by (fastforce simp: process_tables_Some split: if_splits)
  moreover have "tables_wf P (process_tables root tbl) (Phys m') pd"
    unfolding pd by (rule process_tables_wf [OF wf root'(2) root(1) size free' same entries])
  ultimately show "paging_within P (insert root R) pd m'"
    unfolding paging_within_def by blast
  show "va_entry P sys m' va = va_entry P sys m va"
    by (rule va_entry_cong [OF wf same])
  show "va_entry P pd m' va = (if 256 \<le> MASK_PML4_OFFSET P va then va_entry P sys m' va else None)"
    using entries same [OF D(5)] by (intro va_entry_root) (simp add: pd)
qed

end

subsection \<open>Address spaces\<close>

lemma reserved_pages_Un:
  assumes "reserved_frames d' = reserved_frames d \<union> frames_of pa n"
  shows "reserved_pages d' = reserved_pages d \<union> {a. unat a div 4096 \<in> frames_of pa n}"
  using assms by (auto simp: reserved_pages_def)

lemma frame_no:
  assumes "page_aligned pa" and "unat pa + 4096 * n \<le> 2 ^ 52" and "k < n"
  shows "unat (pa + word_of_nat k * PAGE_SIZE) div 4096 = unat pa div 4096 + k"
proof -
  have "k < 2 ^ 52" "4096 * k < 2 ^ 52"
    using assms(2,3) by linarith+
  then have u: "unat (word_of_nat k * PAGE_SIZE :: qword) = 4096 * k"
    by (simp add: unat_word_ariths unat_of_nat mult.commute)
  have "unat (pa + word_of_nat k * PAGE_SIZE) = unat pa + 4096 * k"
    using assms(2,3) by (subst unat_add_less) (simp_all add: u)
  then show ?thesis
    by simp
qed

text \<open>A zeroed root is a tree of structures in which nothing is mapped.\<close>

lemma zeroed_root:
  assumes P: "pte_contract P" and root: "page_aligned root" "root \<in> R"
    and size: "unat root + 4096 * unat n \<le> 2 ^ 52" "unat n < 2 ^ 20" "0 < n"
    and pd: "pd = \<lparr>BasePhysicalAddress = root, NumberOfFrames = n, CurrentIndex = 1, KernelSpace = ks\<rparr>"
  shows "paging_within P R pd (memzero_page root m)" and "va_entry P pd (memzero_page root m) va = None"
proof -
  have root': "unat root < 2 ^ 52"
    using size(1,3) by (simp add: word_less_nat_alt)
  have zero: "Phys (memzero_page root m) (entry_at root j) = 0" if "j < 512" for j
    using entry_at_in_page [OF root(1) root(1) root' that] by (simp add: memzero_page_def)
  then have absent: "\<not> PteIsPresent P (Phys (memzero_page root m) (entry_at root j))" if "j < 512" for j
    using that pte_contract.zero_absent [OF P] by simp
  have "frame_at pd k \<noteq> root" if "1 \<le> k" "k < unat n" for k
    using unat_frame_at [of pd k] size(1) that by (auto simp: pd)
  then have "tables_wf P [root \<mapsto> []] (Phys (memzero_page root m)) pd"
    using root(1) root' size absent by (intro tables_wfI) (auto simp: pd split: if_splits)
  then show "paging_within P R pd (memzero_page root m)"
    using root(2) unfolding paging_within_def by (intro exI [of _ "[root \<mapsto> []]"]) simp
  have "MASK_PML4_OFFSET P va < 512"
    by (simp add: pte_contract.MASK_offsets [OF P])
  from absent [OF this] show "va_entry P pd (memzero_page root m) va = None"
    by (simp add: va_entry_def va_offsets_def pd Let_def)
qed

text \<open>A system with 256 frames reserved, 16 of them for the paging structures, and 512 free ones.\<close>

definition mmu_example :: vm_state where
  "mmu_example = vm_example\<lparr>
     PmmData := \<lparr>HighestPhysicalAddressAvailable = 0x300000, HighestPhysicalAddressPresent = 0x300000,
       PhysicalMemorySize = 0x300000, MemoryRegionList = [],
       AllocationBitmap = \<lparr>BitCount = 768, BufferSize = 96, BitmapBuffer = 0, Bits = (\<lambda>k. k < 256)\<rparr>\<rparr>,
     SystemPaging := \<lparr>BasePhysicalAddress = 0x10000, NumberOfFrames = 16, CurrentIndex = 1, KernelSpace = True\<rparr>\<rparr>"

lemma mmu_example_frame: "k < 16 \<Longrightarrow> unat (frame_at (SystemPaging mmu_example) k) = 0x10000 + 4096 * k"
  using unat_frame_at [of "SystemPaging mmu_example" k] by (simp add: mmu_example_def)

lemma mmu_example_reserved: "reserved_frames (PmmData mmu_example) = {..<256}" "frame_count (PmmData mmu_example) = 768"
  by (auto simp: reserved_frames_def frame_count_def mmu_example_def)

lemma mmu_example_ok:
  "paging_within pte_ops (reserved_pages (PmmData mmu_example)) (SystemPaging mmu_example) (Mem mmu_example)"
  "own_frames (SystemPaging mmu_example) \<subseteq> reserved_pages (PmmData mmu_example)"
proof -
  have sys: "SystemPaging mmu_example = \<lparr>BasePhysicalAddress = 0x10000, NumberOfFrames = 16, CurrentIndex = 1, KernelSpace = True\<rparr>"
    "Mem mmu_example = mem_example"
    by (simp_all add: mmu_example_def)
  have "frame_at (SystemPaging mmu_example) k \<noteq> 0x10000" if "1 \<le> k" "k < 16" for k
    using mmu_example_frame [OF that(2)] that(1) by auto
  then have "tables_wf pte_ops [0x10000 \<mapsto> []] (Phys (Mem mmu_example)) (SystemPaging mmu_example)"
    unfolding sys by (intro tables_wfI) (auto simp: mem_example_def pte_ops_def page_aligned_def split: if_splits)
  moreover have "dom [0x10000 \<mapsto> []] \<subseteq> reserved_pages (PmmData mmu_example)"
    by (simp add: reserved_pages_def mmu_example_reserved)
  ultimately show "paging_within pte_ops (reserved_pages (PmmData mmu_example)) (SystemPaging mmu_example) (Mem mmu_example)"
    unfolding paging_within_def by blast
  show "own_frames (SystemPaging mmu_example) \<subseteq> reserved_pages (PmmData mmu_example)"
    using mmu_example_frame by (auto simp: own_frames_def reserved_pages_def mmu_example_reserved sys(1))
qed

lemma mmu_example_reserve:
  assumes "page_aligned m" and "unat m \<le> 0x100000"
  shows "\<exists>d. PmmReserveMemoryEx addr_ops bitmap_ops (PmmData mmu_example) 512 m = (0x100000, d)"
proof -
  obtain pa d where call: "PmmReserveMemoryEx addr_ops bitmap_ops (PmmData mmu_example) 512 m = (pa, d)"
    by (cases "PmmReserveMemoryEx addr_ops bitmap_ops (PmmData mmu_example) 512 m")
  have "pa \<noteq> 0"
  proof
    assume "pa = 0"
    with call have "PmmReserveMemoryEx addr_ops bitmap_ops (PmmData mmu_example) 512 m = (0, d)"
      by simp
    moreover have "unat m div 4096 \<le> 256"
      using assms(2) by simp
    ultimately have "{256..<256 + 512} \<inter> {..<256 :: nat} \<noteq> {} \<or> {..<256 :: nat} \<inter> {..<512} = {}"
      using me.PmmReserveMemoryEx_fail [of "PmmData mmu_example" 512 m d] assms(1)
      unfolding mmu_example_reserved by (auto simp del: Int_atLeastLessThan)
    moreover have "0 \<in> {..<256 :: nat} \<inter> {..<512}" "{256..<256 + 512} \<inter> {..<256 :: nat} = {}"
      by auto
    ultimately show False
      by blast
  qed
  note succ = me.PmmReserveMemoryEx_success [OF call this] and fr = me.PmmReserveMemoryEx_frames [OF call this]
  have "unat pa div 4096 \<in> frames_of pa 512"
    by (simp add: frames_of_def)
  then have "unat pa div 4096 = 256"
    using fr(2) succ(4) unfolding mmu_example_reserved by (auto simp: disjoint_iff)
  then have "unat pa = unat (0x100000 :: qword)"
    using succ(2) by (auto simp: page_aligned_unat elim!: dvdE)
  then show ?thesis
    using call by (simp add: word_unat_eq_iff)
qed

lemma mmu_example_count:
  "MmuCalculateReservedFrames addr_ops PAGING_STRUCTURES_BASE_MEMORY PAGING_STRUCTURES_PERCENTAGE
     (PmmGetTotalSystemMemory (PmmData mmu_example)) = Some 512"
  by (simp add: MmuCalculateReservedFrames_def PmmGetTotalSystemMemory_def mmu_example_def addr_ops_def word_less_nat_alt)

text \<open>
  C16 (invariant). The paging system starts in order. When the types of memory are in the attribute table and the frames
  behind the base address are free, \<open>MmuInitPagingSystem\<close> succeeds: the root and all structures are in the
  frames it reserved, these frames are mapped at their kernel addresses, and nothing else is mapped.
\<close>

theorem MmuInitPagingSystem_starts:
  assumes env: "vm_contracts E"
    and pat: "VmmPreparePagingData wbType ucType pats (VmmData s) = (STATUS_SUCCESS, vd)"
    and frames: "MmuCalculateReservedFrames (EA E) PAGING_STRUCTURES_BASE_MEMORY PAGING_STRUCTURES_PERCENTAGE
      (PmmGetTotalSystemMemory (PmmData s)) = Some n" "8 \<le> unat n" "unat n < 2 ^ 20"
    and mem: "PmmReserveMemoryEx (EA E) (EB E) (PmmData s) n (va2pa Base) = (va2pa Base, d)" "Base \<noteq> 0" "va2pa Base \<noteq> 0"
    and rng: "range_ok (PA2VA E (va2pa Base)) (unat n)"
  shows "\<exists>s'. MmuInitPagingSystem E va2pa wbType ucType pats Base s = Some (STATUS_SUCCESS, s') \<and> PmmData s' = d \<and>
    paging_within (EP E) (reserved_pages d) (SystemPaging s') (Mem s') \<and>
    own_frames (SystemPaging s') \<subseteq> reserved_pages d - reserved_pages (PmmData s) \<and>
    (\<forall>k < unat n. map_option fst (VmmGetPhysicalAddressEx (EA E) (EP E) (BasePhysicalAddress (SystemPaging s'))
       (range_va (PA2VA E (va2pa Base)) k) False False (Mem s')) = Some (va2pa Base + word_of_nat (4096 * k))) \<and>
    (\<forall>va. va \<noteq> 0 \<and> page_aligned va \<and> (\<forall>k < unat n. page_no va \<noteq> page_no (range_va (PA2VA E (va2pa Base)) k)) \<longrightarrow>
       map_option fst (VmmGetPhysicalAddressEx (EA E) (EP E) (BasePhysicalAddress (SystemPaging s')) va False False (Mem s')) = Some 0)"
proof -
  let ?P = "EP E" and ?A = "EA E" and ?root = "va2pa Base"
  note P = vm_contracts.env_pte [OF env] and A = vm_contracts.env_addr [OF env]
  note succ = mem_env.PmmReserveMemoryEx_success [OF vm_contracts.env_mem [OF env] mem(1,3)]
  note fr = mem_env.PmmReserveMemoryEx_frames [OF vm_contracts.env_mem [OF env] mem(1,3)]
  have n: "0 < unat n" "0 < n" "n \<noteq> 0"
    using frames(2) by (auto simp: word_less_nat_alt)
  have "unat ?root div 4096 + unat n < 2 ^ 32"
    using succ(4) unat_dword_less [of "BitCount (AllocationBitmap (PmmData s))"] by (simp add: frame_count_def)
  then have run: "unat ?root + 4096 * unat n \<le> 2 ^ 52"
    using succ(2) by (auto simp: page_aligned_unat elim!: dvdE)
  have size: "unat (ucast (n * 0x1000) :: qword) = 4096 * unat n" and le: "n \<le> MAX_DWORD div 0x1000"
    using frames(3) by (simp_all add: unat_word_ariths word_le_nat_alt unsigned_ucast_eq take_bit_nat_eq_self)
  have new: "?root + word_of_nat k * PAGE_SIZE \<in> reserved_pages d - reserved_pages (PmmData s)" if "k < unat n" for k
  proof -
    have "unat ?root div 4096 + k \<in> frames_of ?root n"
      using that by (simp add: frames_of_def)
    then show ?thesis
      using frame_no [OF succ(2) run that] fr(2,3) by (auto simp: reserved_pages_def)
  qed
  define pd where "pd = \<lparr>BasePhysicalAddress = ?root, NumberOfFrames = n, CurrentIndex = 1, KernelSpace = True\<rparr>"
  have own: "own_frames pd \<subseteq> reserved_pages d - reserved_pages (PmmData s)"
    using new by (auto simp: own_frames_def frame_at_def pd_def)
  have "?root \<in> reserved_pages d"
    using new [OF n(1)] by simp
  note root = zeroed_root [OF P succ(2) this run frames(3) n(2) pd_def]
  have room: "unat (CurrentIndex pd) + structures_for (unat n) \<le> unat (NumberOfFrames pd)"
  proof -
    have "structures_for (unat n) \<le> 3 * (unat n div 512 + 2)" "512 * (unat n div 512) \<le> unat n"
      by (simp_all add: structures_for_def)
    then show ?thesis
      using frames(2) by (simp add: pd_def)
  qed
  have own': "own_frames pd \<subseteq> reserved_pages d"
    using own by blast
  obtain pd' m where map: "VmmMapMemoryInternal ?A ?P (PA2VA E) vd ?root (ucast (n * 0x1000)) (PA2VA E ?root)
        PAGE_RIGHTS_READWRITE True False (pd, memzero_page ?root (Mem s)) = Some (pd', m)"
      "paging_within ?P (reserved_pages d) pd' m" "paging_grown pd pd' (structures_for (unat n))"
      "\<forall>v. (\<forall>k < unat n. page_no v \<noteq> page_no (range_va (PA2VA E ?root) k)) \<longrightarrow>
         va_entry ?P pd m v = va_entry ?P pd (memzero_page ?root (Mem s)) v"
      "\<forall>k < unat n. map_option fst (VmmGetPhysicalAddressEx ?A ?P (BasePhysicalAddress pd) (range_va (PA2VA E ?root) k) False False m) =
         Some (?root + word_of_nat (4096 * k))"
    using pte_contract.VmmMap_pages [OF P A root(1) own' rng n(1) size succ(2) run room disjI1 [OF TrueI],
        of "PA2VA E" vd PAGE_RIGHTS_READWRITE False] by blast
  have base: "BasePhysicalAddress pd' = BasePhysicalAddress pd" "own_frames pd' = own_frames pd"
    using map(3) paging_grown_own [OF map(3)] by (simp_all add: paging_grown_def)
  define s' where "s' = s\<lparr>VmmData := vd, PmmData := d, SystemPaging := pd', Mem := m\<rparr>"
  have "MmuInitPagingSystem E va2pa wbType ucType pats Base s = Some (STATUS_SUCCESS, s')"
    using pat frames(1) mem n(3) le map(1) by (simp add: MmuInitPagingSystem_def MmuGetTotalSystemMemory_def VmmSetupPageTables_def
        Let_def pd_def s'_def)
  moreover have "map_option fst (VmmGetPhysicalAddressEx ?A ?P (BasePhysicalAddress pd') va False False m) = Some 0"
    if "va \<noteq> 0" "page_aligned va" "\<forall>k < unat n. page_no va \<noteq> page_no (range_va (PA2VA E ?root) k)" for va
    using pte_contract.VmmGetPhysicalAddress_entry [OF P paging_within_ok [OF map(2)] A that(2,1)] map(4) root(2) that(3) base(1)
    by (simp add: va_entry_def)
  ultimately show ?thesis
    using map(2,5) own base by (intro exI [of _ s']) (simp add: s'_def)
qed

theorem MmuInitPagingSystem_starts_witness:
  "\<exists>s'. MmuInitPagingSystem env_example id 6 0 0x0007040600070406 0x100000 mmu_example = Some (STATUS_SUCCESS, s') \<and>
    paging_ok pte_ops (SystemPaging s') (Mem s') \<and>
    map_option fst (VmmGetPhysicalAddressEx addr_ops pte_ops (BasePhysicalAddress (SystemPaging s')) 0x101000 False False (Mem s')) =
      Some 0x101000"
proof -
  let ?vd = "(VmmData mmu_example)\<lparr>WriteBackIndex := 0, UncacheableIndex := 3\<rparr>"
  have pat: "VmmPreparePagingData 6 0 0x0007040600070406 (VmmData mmu_example) = (STATUS_SUCCESS, ?vd)"
  proof -
    have "find (\<lambda>i. pat_byte 0x0007040600070406 i = 6) [0..<8] = Some 0"
      "find (\<lambda>i. pat_byte 0x0007040600070406 i = 0) [0..<8] = Some 3"
      by code_simp+
    then show ?thesis
      using VmmPreparePagingData_finds [of 6 0 "0x0007040600070406" "VmmData mmu_example"] by simp
  qed
  obtain d where mem: "PmmReserveMemoryEx addr_ops bitmap_ops (PmmData mmu_example) 512 0x100000 = (0x100000, d)"
    using mmu_example_reserve [of "0x100000"] by (auto simp: page_aligned_def)
  have rng: "range_ok 0x100000 (unat (512 :: dword))"
    by (simp add: range_ok_def page_aligned_def)
  have addr: "range_va 0x100000 1 = 0x101000" "(0x100000 :: qword) + word_of_nat (4096 * 1) = 0x101000" "(1 :: nat) < unat (512 :: dword)"
    by (simp_all add: range_va_def)
  obtain s' where "MmuInitPagingSystem env_example id 6 0 0x0007040600070406 0x100000 mmu_example = Some (STATUS_SUCCESS, s')"
      "paging_within pte_ops (reserved_pages d) (SystemPaging s') (Mem s')"
      "\<forall>k < unat (512 :: dword). map_option fst (VmmGetPhysicalAddressEx addr_ops pte_ops (BasePhysicalAddress (SystemPaging s'))
         (range_va 0x100000 k) False False (Mem s')) = Some (0x100000 + word_of_nat (4096 * k))"
    using MmuInitPagingSystem_starts [OF vmx.vm_contracts_axioms pat, of 512 id "0x100000" d] mmu_example_count mem rng by auto
  then show ?thesis
    using paging_within_ok addr by metis
qed

text \<open>
  C14 (safety). A new process gets paging tables of its own, with the kernel half shared. When the frames for the tables
  are there and the structures of the system lie in reserved frames, \<open>MmuCreatePagingTables\<close> succeeds: the
  root of the process and all structures it can set up are in frames that were free, both trees of
  structures are well-formed and lie in reserved frames, no page of the lower half is mapped in the process,
  every page of the upper half translates as in the system, and in the system only the pages of the new
  frames are mapped anew.
\<close>

theorem MmuCreatePagingTables_isolates:
  assumes env: "vm_contracts E"
    and frames: "MmuCalculateReservedFrames (EA E) PAGING_STRUCTURES_BASE_MEMORY PAGING_STRUCTURES_PERCENTAGE
      (PmmGetTotalSystemMemory (PmmData s)) = Some n" "unat n < 2 ^ 20"
    and mem: "PmmReserveMemory (EA E) (EB E) (PmmData s) n = (root, d)" "root \<noteq> 0"
    and sys: "paging_within (EP E) (reserved_pages (PmmData s)) (SystemPaging s) (Mem s)"
      "own_frames (SystemPaging s) \<subseteq> reserved_pages (PmmData s)"
    and rng: "range_ok (PA2VA E root) (unat n)"
    and room: "unat (CurrentIndex (SystemPaging s)) + structures_for (unat n) \<le> unat (NumberOfFrames (SystemPaging s))"
  shows "\<exists>s'. MmuCreatePagingTables E True i s = Some (STATUS_SUCCESS, s') \<and> PmmData s' = d \<and>
    own_frames (ProcessPaging s' i) \<subseteq> reserved_pages d - reserved_pages (PmmData s) \<and>
    paging_within (EP E) (reserved_pages d) (ProcessPaging s' i) (Mem s') \<and>
    paging_within (EP E) (reserved_pages (PmmData s)) (SystemPaging s') (Mem s') \<and>
    (\<forall>va. va \<noteq> 0 \<and> page_aligned va \<longrightarrow>
       map_option fst (VmmGetPhysicalAddressEx (EA E) (EP E) (BasePhysicalAddress (ProcessPaging s' i)) va False False (Mem s')) =
         (if 256 \<le> MASK_PML4_OFFSET (EP E) va
          then map_option fst (VmmGetPhysicalAddressEx (EA E) (EP E) (BasePhysicalAddress (SystemPaging s')) va False False (Mem s'))
          else Some 0)) \<and>
    (\<forall>va. va \<noteq> 0 \<and> page_aligned va \<and> (\<forall>k < unat n. page_no va \<noteq> page_no (range_va (PA2VA E root) k)) \<longrightarrow>
       map_option fst (VmmGetPhysicalAddressEx (EA E) (EP E) (BasePhysicalAddress (SystemPaging s')) va False False (Mem s')) =
       map_option fst (VmmGetPhysicalAddressEx (EA E) (EP E) (BasePhysicalAddress (SystemPaging s)) va False False (Mem s)))"
proof -
  let ?R = "reserved_pages (PmmData s)" and ?P = "EP E" and ?A = "EA E"
  note P = vm_contracts.env_pte [OF env] and A = vm_contracts.env_addr [OF env]
  note fr = vm_contracts.PmmReserve_frames [OF env mem]
  have n: "n \<noteq> 0" "0 < unat n" "0 < n"
    using mem_env.PmmReserveMemoryEx_success(1) [OF vm_contracts.env_mem [OF env], of "PmmData s" n 0 root d] mem
    by (auto simp: PmmReserveMemory_def unat_gt_0 word_neq_0_conv)
  have size: "unat (ucast (n * 0x1000) :: qword) = 4096 * unat n" and le: "n \<le> MAX_DWORD div 0x1000"
    using frames(2) by (simp_all add: unat_word_ariths word_le_nat_alt unsigned_ucast_eq take_bit_nat_eq_self)
  have new: "root + word_of_nat k * PAGE_SIZE \<notin> ?R" "root + word_of_nat k * PAGE_SIZE \<in> reserved_pages d" if "k < unat n" for k
  proof -
    have "unat root div 4096 + k \<in> frames_of root n"
      using that by (simp add: frames_of_def)
    then show "root + word_of_nat k * PAGE_SIZE \<notin> ?R" "root + word_of_nat k * PAGE_SIZE \<in> reserved_pages d"
      using frame_no [OF fr(1,2) that] fr(3,4) by (auto simp: reserved_pages_def)
  qed
  define pd where "pd = \<lparr>BasePhysicalAddress = root, NumberOfFrames = n, CurrentIndex = 1, KernelSpace = False\<rparr>"
  obtain t m where map: "VmmMapMemoryInternal ?A ?P (PA2VA E) (VmmData s) root (ucast (n * 0x1000)) (PA2VA E root)
        PAGE_RIGHTS_READWRITE True False (SystemPaging s, Mem s) = Some (t, m)"
      "paging_within ?P ?R t m" "paging_grown (SystemPaging s) t (structures_for (unat n))"
      "\<forall>v. (\<forall>k < unat n. page_no v \<noteq> page_no (range_va (PA2VA E root) k)) \<longrightarrow>
         va_entry ?P (SystemPaging s) m v = va_entry ?P (SystemPaging s) (Mem s) v"
    using pte_contract.VmmMap_pages [OF P A sys rng n(2) size fr(1,2) room disjI1 [OF TrueI],
        of "PA2VA E" "VmmData s" PAGE_RIGHTS_READWRITE False] by blast
  define m' where "m' = copy_kernel_half root (BasePhysicalAddress t) (memzero_page root m)"
  define s' where "s' = set_paging (Some i) pd (s\<lparr>PmmData := d, SystemPaging := t, Mem := m'\<rparr>)"
  have run: "MmuCreatePagingTables E True i s = Some (STATUS_SUCCESS, s')"
    using frames(1) mem n le map(1) by (simp add: MmuCreatePagingTables_def VmmSetupPageTables_def Let_def
        pd_def m'_def s'_def set_paging_def)
  have state: "PmmData s' = d" "ProcessPaging s' i = pd" "SystemPaging s' = t" "Mem s' = m'"
    by (simp_all add: s'_def set_paging_def)
  have rootR: "root \<notin> ?R" "root \<in> reserved_pages d"
    using new [OF n(2)] by simp_all
  note tree = pte_contract.process_root [OF P map(2) fr(1) rootR(1) fr(2) frames(2) n(3) new(1) m'_def pd_def]
  have "insert root ?R \<subseteq> reserved_pages d"
    using rootR(2) reserved_pages_Un [OF fr(4)] by auto
  then have within: "paging_within ?P (reserved_pages d) pd m'"
    using tree(2) unfolding paging_within_def by blast
  have own: "own_frames pd \<subseteq> reserved_pages d - ?R"
    using new by (auto simp: own_frames_def frame_at_def pd_def)
  note get = pte_contract.VmmGetPhysicalAddress_entry [OF P paging_within_ok A]
  have "map_option fst (VmmGetPhysicalAddressEx ?A ?P (BasePhysicalAddress pd) va False False m') =
      (if 256 \<le> MASK_PML4_OFFSET ?P va
       then map_option fst (VmmGetPhysicalAddressEx ?A ?P (BasePhysicalAddress t) va False False m') else Some 0)"
    if "va \<noteq> 0" "page_aligned va" for va
    using get [OF tree(2) that(2,1)] get [OF tree(1) that(2,1)] tree(4) [of va] by (auto split: option.splits)
  moreover have "map_option fst (VmmGetPhysicalAddressEx ?A ?P (BasePhysicalAddress t) va False False m') =
      map_option fst (VmmGetPhysicalAddressEx ?A ?P (BasePhysicalAddress (SystemPaging s)) va False False (Mem s))"
    if "va \<noteq> 0" "page_aligned va" "\<forall>k < unat n. page_no va \<noteq> page_no (range_va (PA2VA E root) k)" for va
  proof -
    have "va_entry ?P t m' va = va_entry ?P (SystemPaging s) (Mem s) va"
      using tree(3) [of va] map(3) map(4) that(3) by (simp add: va_entry_def paging_grown_def)
    then show ?thesis
      using get [OF tree(1) that(2,1)] get [OF sys(1) that(2,1)] by (auto split: option.splits)
  qed
  ultimately show ?thesis
    using run state within own tree(1) by (intro exI [of _ s']) simp
qed

theorem MmuCreatePagingTables_isolates_witness:
  "\<exists>s'. MmuCreatePagingTables env_example True 0 mmu_example = Some (STATUS_SUCCESS, s') \<and>
    paging_ok pte_ops (ProcessPaging s' 0) (Mem s') \<and>
    map_option fst (VmmGetPhysicalAddressEx addr_ops pte_ops (BasePhysicalAddress (ProcessPaging s' 0)) 0x400000 False False (Mem s')) =
      Some 0 \<and>
    map_option fst (VmmGetPhysicalAddressEx addr_ops pte_ops (BasePhysicalAddress (ProcessPaging s' 0)) 0xFFFF800000100000 False False (Mem s')) =
      map_option fst (VmmGetPhysicalAddressEx addr_ops pte_ops (BasePhysicalAddress (SystemPaging s')) 0xFFFF800000100000 False False (Mem s'))"
proof -
  obtain root d where mem: "PmmReserveMemory addr_ops bitmap_ops (PmmData mmu_example) 512 = (root, d)" "root \<noteq> 0"
    using mmu_example_reserve [of 0] by (auto simp: PmmReserveMemory_def page_aligned_def)
  note fr = vmx.PmmReserve_frames [unfolded env_example_sel, OF mem]
  have "range_ok (PA2VA env_example root) (unat (512 :: dword))"
    using fr(1,2) mem(2) by (simp add: range_ok_def)
  moreover have "unat (CurrentIndex (SystemPaging mmu_example)) + structures_for (unat (512 :: dword)) \<le>
      unat (NumberOfFrames (SystemPaging mmu_example))"
    by (simp add: structures_for_def mmu_example_def)
  ultimately obtain s' where s': "MmuCreatePagingTables env_example True 0 mmu_example = Some (STATUS_SUCCESS, s')"
      "paging_within pte_ops (reserved_pages d) (ProcessPaging s' 0) (Mem s')"
      "\<forall>va. va \<noteq> 0 \<and> page_aligned va \<longrightarrow>
         map_option fst (VmmGetPhysicalAddressEx addr_ops pte_ops (BasePhysicalAddress (ProcessPaging s' 0)) va False False (Mem s')) =
         (if 256 \<le> MASK_PML4_OFFSET pte_ops va
          then map_option fst (VmmGetPhysicalAddressEx addr_ops pte_ops (BasePhysicalAddress (SystemPaging s')) va False False (Mem s'))
          else Some 0)"
    using MmuCreatePagingTables_isolates [OF vmx.vm_contracts_axioms, of mmu_example 512 root d 0] mmu_example_count mem mmu_example_ok
    by auto
  have "MASK_PML4_OFFSET pte_ops 0x400000 = 0" "MASK_PML4_OFFSET pte_ops 0xFFFF800000100000 = 256"
    by (simp_all add: pte.MASK_offsets)
  then show ?thesis
    using s'(1) paging_within_ok [OF s'(2)] s'(3) by (intro exI [of _ s']) (simp add: page_aligned_def)
qed

subsection \<open>The zero worker\<close>

context vm_contracts
begin

text \<open>Mapping physical memory at the next free address, where nothing is mapped yet.\<close>

lemma MmuMapMemoryEx_maps:
  assumes pa: "page_aligned pa" "unat pa + 4096 * n \<le> 2 ^ 52" and n: "0 < n" "unat Size = 4096 * n"
    and high: "unat pa + 4096 * n < unat (PmmGetHighestPhysicalMemoryAddressPresent (PmmData s))"
    and va: "va = FreeVirtualAddressPointer (VmmReservationSpace (VmmData s))" and rng: "range_ok va n"
    and ok: "paging_ok (EP E) (paging_of s p) (Mem s)"
    and unmapped: "\<forall>k < n. va_entry (EP E) (paging_of s p) (Mem s) (range_va va k) = None"
    and room: "unat (CurrentIndex (paging_of s p)) + structures_for n \<le> unat (NumberOfFrames (paging_of s p))"
  obtains vd pd m where "MmuMapMemoryEx E pa Size rights False uc p s = Some (va, set_paging p pd s\<lparr>VmmData := vd, Mem := m\<rparr>)"
    and "paging_ok (EP E) pd m" and "BasePhysicalAddress pd = BasePhysicalAddress (paging_of s p)"
    and "PagesToZeroList m = PagesToZeroList (Mem s)"
    and "\<forall>v. (\<forall>k < n. page_no v \<noteq> page_no (range_va va k)) \<longrightarrow> va_entry (EP E) pd m v = va_entry (EP E) (paging_of s p) (Mem s) v"
    and "\<forall>k < n. map_option fst (VmmGetPhysicalAddressEx (EA E) (EP E) (BasePhysicalAddress pd) (range_va va k) False False m) =
       Some (pa + word_of_nat (4096 * k))"
proof -
  define vd where "vd = (VmmData s)\<lparr>VmmReservationSpace := snd (VmReservationSpaceDetermineNextFreeVirtualAddress
    (VmmReservationSpace (VmmData s)) Size)\<rparr>"
  obtain pd m where map: "VmmMapMemoryInternal (EA E) (EP E) (PA2VA E) vd pa Size va rights False uc (paging_of s p, Mem s) = Some (pd, m)"
      "paging_ok (EP E) pd m" "paging_grown (paging_of s p) pd (structures_for n)" "PagesToZeroList m = PagesToZeroList (Mem s)"
      "\<forall>v. (\<forall>k < n. page_no v \<noteq> page_no (range_va va k)) \<longrightarrow> va_entry (EP E) (paging_of s p) m v = va_entry (EP E) (paging_of s p) (Mem s) v"
      "\<forall>k < n. map_option fst (VmmGetPhysicalAddressEx (EA E) (EP E) (BasePhysicalAddress (paging_of s p)) (range_va va k) False False m) =
         Some (pa + word_of_nat (4096 * k))"
    using pte_contract.VmmMap_pages [OF env_pte env_addr ok [unfolded paging_ok_within] subset_UNIV rng n pa room disjI2 [OF unmapped],
        of "PA2VA E" vd rights False uc] unfolding paging_ok_within by blast
  have base: "BasePhysicalAddress pd = BasePhysicalAddress (paging_of s p)"
    using map(3) by (simp add: paging_grown_def)
  have size: "page_aligned Size" "Size \<noteq> 0" "page_aligned va" "va \<noteq> 0" "unat Size + 4095 < 2 ^ 64"
    using n rng pa(2) by (auto simp: page_aligned_unat range_ok_def)
  have "pa mod PAGE_SIZE = 0"
    using pa(1) by (simp add: page_aligned_def)
  moreover have "unat (PmmGetHighestPhysicalMemoryAddressPresent (PmmData s) - Size) =
      unat (PmmGetHighestPhysicalMemoryAddressPresent (PmmData s)) - 4096 * n"
    using high n(2) by (subst unat_sub) (simp_all add: word_le_nat_alt)
  then have "pa < PmmGetHighestPhysicalMemoryAddressPresent (PmmData s) - Size"
    using high by (simp add: word_less_nat_alt)
  ultimately have "MmuMapMemoryEx E pa Size rights False uc p s = Some (va, set_paging p pd s\<lparr>VmmData := vd, Mem := m\<rparr>)"
    using size pa(1) map(1) va addr_contract.AlignAddressUpper_id [OF env_addr size(1,5)]
    by (simp add: MmuMapMemoryEx_def VmmMapMemoryEx_def Let_def addr_contract.addr_simps [OF env_addr] page_floor_aligned
        VmReservationSpaceDetermineNextFreeVirtualAddress_def vd_def)
  then show thesis
    using that map(2,4-6) base by (simp add: va_entry_def)
qed

text \<open>Unmapping a range whose size fits in 32 bits.\<close>

lemma MmuUnmap_range:
  assumes ok: "paging_ok (EP E) (paging_of s p) (Mem s)" and rng: "range_ok va n" and n: "0 < n" "n < 2 ^ 20" "unat Size = 4096 * n"
  shows "\<exists>m. MmuUnmapMemoryEx E va Size release p s = Some (s\<lparr>Mem := m\<rparr>) \<and> paging_ok (EP E) (paging_of s p) m \<and>
    (\<forall>k < n. map_option fst (VmmGetPhysicalAddressEx (EA E) (EP E) (BasePhysicalAddress (paging_of s p)) (range_va va k) False False m) = Some 0) \<and>
    (\<forall>va'. va' \<noteq> 0 \<and> page_aligned va' \<and> (\<forall>k < n. page_no va' \<noteq> page_no (range_va va k)) \<longrightarrow>
       map_option fst (VmmGetPhysicalAddressEx (EA E) (EP E) (BasePhysicalAddress (paging_of s p)) va' False False m) =
       map_option fst (VmmGetPhysicalAddressEx (EA E) (EP E) (BasePhysicalAddress (paging_of s p)) va' False False (Mem s))) \<and>
    PagesToZeroList m = PagesToZeroList (Mem s) @ mapped_frames (EP E) (paging_of s p) (Mem s) release (map (range_va va) [0..<n])"
proof -
  have size: "page_aligned Size" "Size \<noteq> 0" "page_aligned va" "va \<noteq> 0" "unat Size + 4095 < 2 ^ 64"
    using n rng by (auto simp: page_aligned_unat range_ok_def)
  have "(ucast (ucast Size :: dword) :: qword) = Size"
    using n(2,3) by (simp add: word_unat_eq_iff unsigned_ucast_eq unsigned_take_bit_eq take_bit_nat_eq_self)
  then show ?thesis
    using VmmUnmap_range [OF env_pte env_addr ok rng n(1,3), of release] size
      addr_contract.AlignAddressUpper_id [OF env_addr size(1,5)]
    by (auto simp: MmuUnmapMemoryEx_def Let_def addr_contract.addr_simps [OF env_addr] page_floor_aligned)
qed

end

lemma paging_ok_queue [simp]: "paging_ok P pd (m\<lparr>PagesToZeroList := q\<rparr>) = paging_ok P pd m"
  by (simp add: paging_ok_def)

lemma va_entry_queue [simp]: "va_entry P pd (m\<lparr>PagesToZeroList := q\<rparr>) va = va_entry P pd m va"
  by (simp add: va_entry_def)

text \<open>
  C15 (safety). One round of the zero worker. When an entry of the list describes frames below the highest physical
  address and the system has an address to map them at, the round maps exactly these frames at a fresh
  range of addresses, zeroes the whole range, hands exactly these frames back to the physical memory
  manager and unmaps the range: afterwards none of its pages is mapped, every other page translates as
  before, the entry is gone from the list and nothing is queued anew.
\<close>

theorem MmuZeroWorkerThreadFunction_zeroes:
  assumes env: "vm_contracts E" and queue: "PagesToZeroList (Mem s) = (pa, n) # rest"
    and pa: "page_aligned pa" "n \<noteq> 0" "unat n < 2 ^ 20" "unat pa div 4096 + unat n \<le> frame_count (PmmData s)"
    and high: "unat pa + 4096 * unat n < unat (PmmGetHighestPhysicalMemoryAddressPresent (PmmData s))"
    and ok: "paging_ok (EP E) (SystemPaging s) (Mem s)"
    and va: "va = FreeVirtualAddressPointer (VmmReservationSpace (VmmData s))" "range_ok va (unat n)"
    and unmapped: "\<forall>k < unat n. va_entry (EP E) (SystemPaging s) (Mem s) (range_va va k) = None"
    and room: "unat (CurrentIndex (SystemPaging s)) + structures_for (unat n) \<le> unat (NumberOfFrames (SystemPaging s))"
  shows "\<exists>s1 s'. MmuMapMemoryEx E pa (ucast (n * 0x1000)) PAGE_RIGHTS_READWRITE False False None
      (s\<lparr>Mem := (Mem s)\<lparr>PagesToZeroList := rest\<rparr>\<rparr>) = Some (va, s1) \<and>
    (\<forall>k < unat n. map_option fst (VmmGetPhysicalAddressEx (EA E) (EP E) (BasePhysicalAddress (SystemPaging s1))
      (range_va va k) False False (Mem s1)) = Some (pa + word_of_nat (4096 * k))) \<and>
    MmuZeroWorkerThreadFunction_round E s = Some (True, s') \<and>
    DataOps s' = ZeroMemory va (ucast (n * 0x1000)) # DataOps s \<and>
    reserved_frames (PmmData s') = reserved_frames (PmmData s) - frames_of pa n \<and>
    PagesToZeroList (Mem s') = rest \<and> paging_ok (EP E) (SystemPaging s') (Mem s') \<and>
    (\<forall>k < unat n. map_option fst (VmmGetPhysicalAddressEx (EA E) (EP E) (BasePhysicalAddress (SystemPaging s'))
      (range_va va k) False False (Mem s')) = Some 0) \<and>
    (\<forall>va'. va' \<noteq> 0 \<and> page_aligned va' \<and> (\<forall>k < unat n. page_no va' \<noteq> page_no (range_va va k)) \<longrightarrow>
       map_option fst (VmmGetPhysicalAddressEx (EA E) (EP E) (BasePhysicalAddress (SystemPaging s')) va' False False (Mem s')) =
       map_option fst (VmmGetPhysicalAddressEx (EA E) (EP E) (BasePhysicalAddress (SystemPaging s)) va' False False (Mem s)))"
proof -
  let ?s0 = "s\<lparr>Mem := (Mem s)\<lparr>PagesToZeroList := rest\<rparr>\<rparr>" and ?sz = "ucast (n * 0x1000) :: qword"
  note P = vm_contracts.env_pte [OF env] and A = vm_contracts.env_addr [OF env]
  have "unat pa div 4096 + unat n < 2 ^ 32"
    using pa(4) unat_dword_less [of "BitCount (AllocationBitmap (PmmData s))"] by (simp add: frame_count_def)
  then have run: "unat pa + 4096 * unat n \<le> 2 ^ 52"
    using pa(1) by (auto simp: page_aligned_unat elim!: dvdE)
  have n: "0 < unat n" "unat ?sz = 4096 * unat n"
    using pa(2,3) by (simp_all add: unat_gt_0 unat_word_ariths unsigned_ucast_eq take_bit_nat_eq_self)
  have prem: "unat pa + 4096 * unat n < unat (PmmGetHighestPhysicalMemoryAddressPresent (PmmData ?s0))"
    "va = FreeVirtualAddressPointer (VmmReservationSpace (VmmData ?s0))" "paging_ok (EP E) (paging_of ?s0 None) (Mem ?s0)"
    "\<forall>k < unat n. va_entry (EP E) (paging_of ?s0 None) (Mem ?s0) (range_va va k) = None"
    "unat (CurrentIndex (paging_of ?s0 None)) + structures_for (unat n) \<le> unat (NumberOfFrames (paging_of ?s0 None))"
    and sys: "paging_of ?s0 None = SystemPaging s"
    using high va(1) ok unmapped room by (simp_all add: paging_of_def)
  obtain vd pd m where map: "MmuMapMemoryEx E pa ?sz PAGE_RIGHTS_READWRITE False False None ?s0 =
        Some (va, set_paging None pd ?s0\<lparr>VmmData := vd, Mem := m\<rparr>)"
      "paging_ok (EP E) pd m" "BasePhysicalAddress pd = BasePhysicalAddress (paging_of ?s0 None)"
      "PagesToZeroList m = PagesToZeroList (Mem ?s0)"
      "\<forall>v. (\<forall>k < unat n. page_no v \<noteq> page_no (range_va va k)) \<longrightarrow>
         va_entry (EP E) pd m v = va_entry (EP E) (paging_of ?s0 None) (Mem ?s0) v"
      "\<forall>k < unat n. map_option fst (VmmGetPhysicalAddressEx (EA E) (EP E) (BasePhysicalAddress pd) (range_va va k) False False m) =
         Some (pa + word_of_nat (4096 * k))"
    by (rule vm_contracts.MmuMapMemoryEx_maps [OF env pa(1) run n prem(1,2) va(2) prem(3-5)])
  obtain d where rel: "PmmReleaseMemory (EA E) (EB E) (PmmData s) pa n = Some d"
      "reserved_frames d = reserved_frames (PmmData s) - frames_of pa n"
    using mem_env.PmmReleaseMemory_frames [OF vm_contracts.env_mem [OF env] pa(1,4)] by metis
  define s1 where "s1 = set_paging None pd ?s0\<lparr>VmmData := vd, Mem := m\<rparr>"
  define s2 where "s2 = s1\<lparr>DataOps := ZeroMemory va ?sz # DataOps s1, PmmData := d\<rparr>"
  have state: "SystemPaging s1 = pd" "Mem s1 = m" "PmmData s1 = PmmData s" "DataOps s1 = DataOps s"
    "paging_of s2 None = pd" "Mem s2 = m" "SystemPaging s2 = pd"
    by (simp_all add: s2_def s1_def set_paging_def paging_of_def)
  obtain m' where unmap: "MmuUnmapMemoryEx E va ?sz False None s2 = Some (s2\<lparr>Mem := m'\<rparr>)" "paging_ok (EP E) pd m'"
      "\<forall>k < unat n. map_option fst (VmmGetPhysicalAddressEx (EA E) (EP E) (BasePhysicalAddress pd) (range_va va k) False False m') = Some 0"
      "\<forall>va'. va' \<noteq> 0 \<and> page_aligned va' \<and> (\<forall>k < unat n. page_no va' \<noteq> page_no (range_va va k)) \<longrightarrow>
         map_option fst (VmmGetPhysicalAddressEx (EA E) (EP E) (BasePhysicalAddress pd) va' False False m') =
         map_option fst (VmmGetPhysicalAddressEx (EA E) (EP E) (BasePhysicalAddress pd) va' False False m)"
      "PagesToZeroList m' = PagesToZeroList m @ mapped_frames (EP E) pd m False (map (range_va va) [0..<unat n])"
    using vm_contracts.MmuUnmap_range [OF env, of s2 None va "unat n" ?sz False] map(2) va(2) n pa(3) state by auto
  have "mapped_frames (EP E) pd m False vas = []" for vas
    by (induction vas) (auto simp: mapped_frames_def split: option.splits)
  then have queue': "PagesToZeroList m' = rest"
    using unmap(5) map(4) by simp
  have "va \<noteq> 0"
    using va(2) by (simp add: range_ok_def)
  then have "MmuZeroWorkerThreadFunction_round E s = Some (True, s2\<lparr>Mem := m'\<rparr>)"
    using queue map(1) rel(1) unmap(1) state
    by (simp add: MmuZeroWorkerThreadFunction_round_def Let_def s1_def [symmetric] s2_def)
  moreover have "map_option fst (VmmGetPhysicalAddressEx (EA E) (EP E) (BasePhysicalAddress pd) v False False m) =
      map_option fst (VmmGetPhysicalAddressEx (EA E) (EP E) (BasePhysicalAddress (SystemPaging s)) v False False (Mem s))"
    if "v \<noteq> 0" "page_aligned v" "\<forall>k < unat n. page_no v \<noteq> page_no (range_va va k)" for v
    using pte_contract.VmmGetPhysicalAddress_entry [OF P map(2) A that(2,1)]
      pte_contract.VmmGetPhysicalAddress_entry [OF P ok A that(2,1)] map(5) that(3) sys by (simp split: option.splits)
  ultimately show ?thesis
    using map(1,6) unmap(2-4) rel(2) queue' state
    by (intro exI [of _ s1] exI [of _ "s2\<lparr>Mem := m'\<rparr>"]) (simp add: s1_def [symmetric], simp add: s2_def state)
qed

theorem MmuZeroWorkerThreadFunction_zeroes_witness:
  "\<exists>s'. MmuZeroWorkerThreadFunction_round env_example (mmu_example\<lparr>Mem := mem_example\<lparr>PagesToZeroList := [(0x20000, 2)]\<rparr>\<rparr>) =
      Some (True, s') \<and>
    DataOps s' = [ZeroMemory 0x600000 0x2000] \<and> reserved_frames (PmmData s') = {..<256} - {32, 33} \<and>
    PagesToZeroList (Mem s') = []"
proof -
  let ?s = "mmu_example\<lparr>Mem := mem_example\<lparr>PagesToZeroList := [(0x20000, 2)]\<rparr>\<rparr>"
  have ok: "paging_ok pte_ops (SystemPaging mmu_example) mem_example"
    using paging_within_ok [OF mmu_example_ok(1)] by (simp add: mmu_example_def)
  have none: "va_entry pte_ops pd mem_example va = None" for pd va
    by (simp add: va_entry_def va_offsets_def mem_example_def pte_ops_def)
  have at: "FreeVirtualAddressPointer (VmmReservationSpace (VmmData mmu_example)) = 0x600000"
    by (simp add: mmu_example_def vm_example_def vmm_data_example_def vm_empty_def)
  have nums: "PmmGetHighestPhysicalMemoryAddressPresent (PmmData mmu_example) = 0x300000" "DataOps mmu_example = []"
    "unat (CurrentIndex (SystemPaging mmu_example)) + structures_for 2 \<le> unat (NumberOfFrames (SystemPaging mmu_example))"
    by (simp_all add: mmu_example_def PmmGetHighestPhysicalMemoryAddressPresent_def structures_for_def vm_example_def)
  have "frames_of 0x20000 2 = {32, 33}"
    by (auto simp: frames_of_def)
  then show ?thesis
    using MmuZeroWorkerThreadFunction_zeroes [OF vmx.vm_contracts_axioms, of ?s "0x20000" 2 "[]" "0x600000"] ok none at nums
    by (auto simp: page_aligned_def range_ok_def mmu_example_reserved)
qed

end
