(* ===== verification/Thread.thy ===== *)
theory Thread
  imports CommonLib
begin

text \<open>
  Threads and their scheduling (\<open>thread.c\<close>), executive events (\<open>ex_event.c\<close>) and the thread
  lists of processes (\<open>process.c\<close>), which call each other.

  Thread and process objects are named by numbers; an object that was given back to the pool is
  \<open>None\<close>, and a routine that reads it does not return. A routine runs on CPU \<open>c\<close> with interrupts
  off from its first to its last change of the state. The locks of an event, of a process'
  thread list and of the list of all threads are taken and given back inside one routine and
  make it atomic; \<open>ReadyThreadsLock\<close> and the threads' \<open>BlockLock\<close>, which one thread takes and
  another one releases, are part of the state.

  \<open>ThreadSwitch\<close> stores the stack pointer of the old thread and continues with the new one
  behind its own call of \<open>ThreadSwitch\<close> (or in \<open>ThreadStart\<close>), where \<open>ThreadCleanupPostSchedule\<close>
  is next: a routine that schedules ends with the new thread running on the CPU.
\<close>

subsection \<open>Data\<close>

datatype thread_state =
    ThreadStateRunning
  | ThreadStateReady
  | ThreadStateBlocked
  | ThreadStateDying

datatype ex_evt_type = ExEventTypeNotification | ExEventTypeSynchronization

abbreviation THREAD_FLAG_FORCE_TERMINATE_PENDING :: dword where
  "THREAD_FLAG_FORCE_TERMINATE_PENDING \<equiv> 1"

abbreviation THREAD_FLAG_FORCE_TERMINATED :: dword where
  "THREAD_FLAG_FORCE_TERMINATED \<equiv> 2"

definition TID_INCREMENT :: qword where
  "TID_INCREMENT = 4"

definition THREAD_TIME_SLICE :: dword where
  "THREAD_TIME_SLICE = 1"

record thread =
  RefCnt :: dword
  Id :: qword
  ThreadName :: string
  Priority :: dword
  State :: thread_state
  ExitStatus :: status
  Flags :: dword
  BlockLock :: lock
  TickCountCompleted :: qword
  UninterruptedTicks :: qword
  TickCountEarly :: qword
  InitialStackBase :: qword
  StackSize :: dword
  Stack :: qword
  UserStack :: qword
  Process :: "nat option"

record ex_event =
  EventType :: ex_evt_type
  Signaled :: bool
  WaitingList :: "nat list"

text \<open>Events are part of thread and process objects, or stand alone.\<close>

datatype evt_ref = ThreadEvt nat | ProcessEvt nat | OtherEvt nat

text \<open>Mutexes (\<open>mutex.h\<close>) queue up threads as events do; their routines are in theory \<open>Mutex\<close>.\<close>

record mutex =
  CurrentRecursivityDepth :: byte
  MaxRecursivityDepth :: byte
  MutexWaitingList :: "nat list"
  Holder :: "nat option"

record "process" =
  ProcRefCnt :: dword
  NumberOfThreads :: dword
  ActiveThreads :: dword
  ProcThreadList :: "nat list"
  TerminationStatus :: status
  ProcId :: qword
  ProcessName :: string
  FullCommandLine :: string
  UserSpace :: bool
  EntryPoint :: qword
  NumberOfArguments :: dword

record threading_data =
  RunningThreadTicks :: dword
  IdleThread :: "nat option"
  CurrentThread :: "nat option"
  PreviousThread :: "nat option"
  YieldOnInterruptReturn :: bool
  IdleTicks :: qword
  KernelTicks :: qword
  StackTop :: qword
  CpuStackSize :: dword

text \<open>What the stack of a new thread is set up to start with.\<close>

record initial_frame =
  FrameRip :: qword
  FrameRsp :: qword
  FrameUserMode :: bool
  FrameRcx :: qword
  FrameRdx :: qword

text \<open>
  The scheduler's state. \<open>ActiveSpace\<close> is the process whose paging tables a CPU uses,
  \<open>IdleUpdates\<close> records the calls of \<open>CoreUpdateIdleTime\<close> and \<open>FreedStacks\<close> those of
  \<open>MmuFreeStack\<close>, \<open>DestroyedSpaces\<close> those of \<open>MmuDestroyAddressSpaceForProcess\<close>, most recent first.
\<close>

record sched =
  Threads :: "nat \<Rightarrow> thread option"
  AllThreadsList :: "nat list"
  ReadyThreadsList :: "nat list"
  ReadyThreadsLock :: lock
  Cpu :: "nat \<Rightarrow> threading_data"
  Events :: "evt_ref \<Rightarrow> ex_event"
  Mutexes :: "nat \<Rightarrow> mutex"
  Processes :: "nat \<Rightarrow> process option"
  ProcessList :: "nat list"
  SystemProcess :: "nat option"
  PidBitmap :: bitmap
  NextTid :: qword
  ActiveSpace :: "nat \<Rightarrow> nat option"
  IdleUpdates :: "(nat \<times> bool) list"
  FreedStacks :: "(qword \<times> nat option) list"
  DestroyedSpaces :: "nat list"
  Frames :: "nat \<Rightarrow> initial_frame option"

text \<open>
  The library, the range of priorities, the sizes of the frames a new thread's stack starts with and
  the range of the process identifiers.
\<close>

record sched_env =
  SL :: list_lib
  SK :: lock_lib
  SR :: rfc_lib
  SB :: bitmap_lib
  ThreadPriorityLowest :: dword
  ThreadPriorityMaximum :: dword
  SizeInterruptStack :: qword
  SizeProcessorState :: qword
  SHADOW_STACK_SIZE :: qword
  ThreadKernelFunction :: qword
  PCID_IS_VALID :: "qword \<Rightarrow> bool"
  PCID_FIRST_VALID_VALUE :: qword
  PCID_TOTAL_NO_OF_VALUES :: qword

definition put_thread :: "nat \<Rightarrow> thread \<Rightarrow> sched \<Rightarrow> sched" where
  "put_thread t th s = s\<lparr>Threads := (Threads s)(t := Some th)\<rparr>"

definition put_cpu :: "nat \<Rightarrow> threading_data \<Rightarrow> sched \<Rightarrow> sched" where
  "put_cpu c td s = s\<lparr>Cpu := (Cpu s)(c := td)\<rparr>"

definition put_event :: "evt_ref \<Rightarrow> ex_event \<Rightarrow> sched \<Rightarrow> sched" where
  "put_event e ev s = s\<lparr>Events := (Events s)(e := ev)\<rparr>"

definition put_process :: "nat \<Rightarrow> process \<Rightarrow> sched \<Rightarrow> sched" where
  "put_process p pr s = s\<lparr>Processes := (Processes s)(p := Some pr)\<rparr>"

definition current_thread :: "nat \<Rightarrow> sched \<Rightarrow> (nat \<times> thread) option" where
  "current_thread c s = do {
     t \<leftarrow> CurrentThread (Cpu s c);
     th \<leftarrow> Threads s t;
     Some (t, th)
   }"

definition ThreadSystemPreinit :: "sched_env \<Rightarrow> sched \<Rightarrow> sched" where
  "ThreadSystemPreinit E s = s\<lparr>AllThreadsList := [], ReadyThreadsList := [], ReadyThreadsLock := LockInit (SK E)\<rparr>"

definition ThreadSystemGetNextTid :: "sched \<Rightarrow> qword \<times> sched" where
  "ThreadSystemGetNextTid s = (NextTid s, s\<lparr>NextTid := NextTid s + TID_INCREMENT\<rparr>)"

subsection \<open>Unblocking and events\<close>

definition ThreadUnblock :: "sched_env \<Rightarrow> nat \<Rightarrow> nat \<Rightarrow> sched \<Rightarrow> sched option" where
  "ThreadUnblock E c t s = do {
     th \<leftarrow> Threads s t;
     blockLock \<leftarrow> LockAcquire (SK E) c (BlockLock th);
     ASSERT (State th = ThreadStateBlocked);
     readyLock \<leftarrow> LockAcquire (SK E) c (ReadyThreadsLock s);
     let s = s\<lparr>ReadyThreadsList := InsertTailList (SL E) (ReadyThreadsList s) t\<rparr>;
     let s = s\<lparr>ReadyThreadsLock := LockRelease (SK E) c readyLock\<rparr>;
     Some (put_thread t (th\<lparr>State := ThreadStateReady, BlockLock := LockRelease (SK E) c blockLock\<rparr>) s)
   }"

text \<open>
  The two error returns of \<open>ExEventInit\<close> are for a null event and for a type beyond
  the two of the datatype; every call in the kernel passes an event object and one of the two.
\<close>

definition ExEventInit :: "ex_evt_type \<Rightarrow> bool \<Rightarrow> ex_event" where
  "ExEventInit type sig = \<lparr>EventType = type, Signaled = sig, WaitingList = []\<rparr>"

text \<open>
  The loop of \<open>ExEventSignal\<close>. The first argument bounds the number of rounds: every round
  takes a thread off the waiting list, so one more than its length is enough.
\<close>

fun ExEventSignal_loop :: "sched_env \<Rightarrow> nat \<Rightarrow> evt_ref \<Rightarrow> nat \<Rightarrow> sched \<Rightarrow> sched option" where
  "ExEventSignal_loop E c e 0 s = None"
| "ExEventSignal_loop E c e (Suc n) s =
     (let (pEntry, waiting) = RemoveHeadList (SL E) (WaitingList (Events s e));
          s = put_event e ((Events s e)\<lparr>WaitingList := waiting\<rparr>) s
      in case pEntry of
           None \<Rightarrow> Some s
         | Some pThreadToSignal \<Rightarrow> do {
             s \<leftarrow> ThreadUnblock E c pThreadToSignal s;
             if EventType (Events s e) = ExEventTypeSynchronization then Some s
             else ExEventSignal_loop E c e n s
           })"

definition ExEventSignal :: "sched_env \<Rightarrow> nat \<Rightarrow> evt_ref \<Rightarrow> sched \<Rightarrow> sched option" where
  "ExEventSignal E c e s =
     ExEventSignal_loop E c e (Suc (length (WaitingList (Events s e)))) (put_event e ((Events s e)\<lparr>Signaled := True\<rparr>) s)"

definition ExEventClearSignal :: "evt_ref \<Rightarrow> sched \<Rightarrow> sched" where
  "ExEventClearSignal e s = put_event e ((Events s e)\<lparr>Signaled := False\<rparr>) s"

text \<open>
  \<open>_InterlockedCompareExchange8\<close> at the head of the loop of \<open>ExEventWaitForSignal\<close>: whether the
  event was signaled; a synchronization event is reset by the thread that sees it signaled.
\<close>

definition ExEventWaitForSignal_test :: "evt_ref \<Rightarrow> sched \<Rightarrow> bool \<times> sched" where
  "ExEventWaitForSignal_test e s =
     (let ev = Events s e in
      if Signaled ev then (True, put_event e (ev\<lparr>Signaled := EventType ev = ExEventTypeNotification\<rparr>) s)
      else (False, s))"

subsection \<open>Threads of a process\<close>

definition ProcessReference :: "sched_env \<Rightarrow> nat \<Rightarrow> sched \<Rightarrow> sched option" where
  "ProcessReference E p s = do {
     pr \<leftarrow> Processes s p;
     Some (put_process p (pr\<lparr>ProcRefCnt := RfcReference (SR E) (ProcRefCnt pr)\<rparr>) s)
   }"

definition ProcessIsSystem :: "nat \<Rightarrow> sched \<Rightarrow> bool option" where
  "ProcessIsSystem p s = do {
     pr \<leftarrow> Processes s p;
     sys \<leftarrow> SystemProcess s;
     sysProc \<leftarrow> Processes s sys;
     Some (ProcId sysProc = ProcId pr)
   }"

definition ProcessSystemFreePid :: "sched_env \<Rightarrow> qword \<Rightarrow> sched \<Rightarrow> sched option" where
  "ProcessSystemFreePid E ProcessId s = do {
     ASSERT (PCID_IS_VALID E ProcessId);
     ASSERT (BitmapGetBitValue (SB E) (PidBitmap s) (ucast ProcessId));
     Some (s\<lparr>PidBitmap := BitmapClearBit (SB E) (PidBitmap s) (ucast ProcessId)\<rparr>)
   }"

definition ProcessDestroy :: "sched_env \<Rightarrow> nat \<Rightarrow> sched \<Rightarrow> sched option" where
  "ProcessDestroy E p s = do {
     pr \<leftarrow> Processes s p;
     isSystem \<leftarrow> ProcessIsSystem p s;
     ASSERT (\<not> isSystem);
     ASSERT (NumberOfThreads pr = 0);
     let s = s\<lparr>ProcessList := RemoveEntryList (SL E) (ProcessList s) p, DestroyedSpaces := p # DestroyedSpaces s\<rparr>;
     s \<leftarrow> (if ProcId pr \<noteq> 0 then ProcessSystemFreePid E (ProcId pr) s else Some s);
     Some (s\<lparr>Processes := (Processes s)(p := None)\<rparr>)
   }"

definition ProcessDereference :: "sched_env \<Rightarrow> nat \<Rightarrow> sched \<Rightarrow> sched option" where
  "ProcessDereference E p s = do {
     pr \<leftarrow> Processes s p;
     let n = RfcDereference (SR E) (ProcRefCnt pr);
     let s = put_process p (pr\<lparr>ProcRefCnt := n\<rparr>) s;
     if n = 0 then ProcessDestroy E p s else Some s
   }"

definition ProcessInsertThreadInList :: "sched_env \<Rightarrow> nat \<Rightarrow> nat \<Rightarrow> sched \<Rightarrow> sched option" where
  "ProcessInsertThreadInList E p t s = do {
     th \<leftarrow> Threads s t;
     pr \<leftarrow> Processes s p;
     let s = put_thread t (th\<lparr>Process := Some p\<rparr>) s;
     ASSERT (NumberOfThreads pr < MAX_DWORD);
     let pr = pr\<lparr>NumberOfThreads := NumberOfThreads pr + 1, ActiveThreads := ActiveThreads pr + 1\<rparr>;
     ASSERT (ActiveThreads pr \<le> NumberOfThreads pr);
     let pr = pr\<lparr>ProcThreadList := InsertTailList (SL E) (ProcThreadList pr) t\<rparr>;
     ProcessReference E p (put_process p pr s)
   }"

definition ProcessNotifyThreadTermination :: "sched_env \<Rightarrow> nat \<Rightarrow> nat \<Rightarrow> sched \<Rightarrow> sched option" where
  "ProcessNotifyThreadTermination E c t s = do {
     th \<leftarrow> Threads s t;
     p \<leftarrow> Process th;
     pr \<leftarrow> Processes s p;
     let activeThreads = ActiveThreads pr - 1;
     let pr = pr\<lparr>ActiveThreads := activeThreads\<rparr>;
     if activeThreads = 0
     then ExEventSignal E c (ProcessEvt p) (put_process p (pr\<lparr>TerminationStatus := ExitStatus th\<rparr>) s)
     else Some (put_process p pr s)
   }"

definition ProcessRemoveThreadFromList :: "sched_env \<Rightarrow> nat \<Rightarrow> sched \<Rightarrow> sched option" where
  "ProcessRemoveThreadFromList E t s = do {
     th \<leftarrow> Threads s t;
     p \<leftarrow> Process th;
     pr \<leftarrow> Processes s p;
     let remainingThreads = NumberOfThreads pr - 1;
     ASSERT (remainingThreads \<noteq> MAX_DWORD);
     let pr = pr\<lparr>NumberOfThreads := remainingThreads, ProcThreadList := RemoveEntryList (SL E) (ProcThreadList pr) t\<rparr>;
     s \<leftarrow> ProcessDereference E p (put_process p pr s);
     if remainingThreads = 0 then ProcessDereference E p s else Some s
   }"

subsection \<open>References to threads\<close>

definition ThreadReference :: "sched_env \<Rightarrow> nat \<Rightarrow> sched \<Rightarrow> sched option" where
  "ThreadReference E t s = do {
     th \<leftarrow> Threads s t;
     Some (put_thread t (th\<lparr>RefCnt := RfcReference (SR E) (RefCnt th)\<rparr>) s)
   }"

definition ThreadDestroy :: "sched_env \<Rightarrow> nat \<Rightarrow> sched \<Rightarrow> sched option" where
  "ThreadDestroy E t s = do {
     th \<leftarrow> Threads s t;
     let s = s\<lparr>AllThreadsList := RemoveEntryList (SL E) (AllThreadsList s) t\<rparr>;
     let s = (if UserStack th \<noteq> 0 then s\<lparr>FreedStacks := (UserStack th, Process th) # FreedStacks s\<rparr> else s);
     s \<leftarrow> ProcessRemoveThreadFromList E t (put_thread t (th\<lparr>UserStack := 0\<rparr>) s);
     let s = (if Stack th \<noteq> 0 then s\<lparr>FreedStacks := (Stack th, None) # FreedStacks s\<rparr> else s);
     Some (s\<lparr>Threads := (Threads s)(t := None)\<rparr>)
   }"

definition ThreadDereference :: "sched_env \<Rightarrow> nat \<Rightarrow> sched \<Rightarrow> sched option" where
  "ThreadDereference E t s = do {
     th \<leftarrow> Threads s t;
     let n = RfcDereference (SR E) (RefCnt th);
     let s = put_thread t (th\<lparr>RefCnt := n\<rparr>) s;
     if n = 0 then ThreadDestroy E t s else Some s
   }"

definition ThreadCloseHandle :: "sched_env \<Rightarrow> nat \<Rightarrow> sched \<Rightarrow> sched option" where
  "ThreadCloseHandle E t s = ThreadDereference E t s"

subsection \<open>Scheduling\<close>

definition SetCurrentThread :: "nat \<Rightarrow> nat \<Rightarrow> sched \<Rightarrow> sched option" where
  "SetCurrentThread c t s = do {
     th \<leftarrow> Threads s t;
     Some (put_cpu c ((Cpu s c)\<lparr>CurrentThread := Some t, StackTop := InitialStackBase th, CpuStackSize := StackSize th\<rparr>) s)
   }"

definition ThreadGetReadyThread :: "sched_env \<Rightarrow> nat \<Rightarrow> sched \<Rightarrow> (nat \<times> sched) option" where
  "ThreadGetReadyThread E c s = do {
     ASSERT (LockIsOwner (SK E) c (ReadyThreadsLock s));
     let (pEntry, ready) = RemoveHeadList (SL E) (ReadyThreadsList s);
     let s = s\<lparr>ReadyThreadsList := ready\<rparr>;
     (case pEntry of
        None \<Rightarrow> do {
          idle \<leftarrow> IdleThread (Cpu s c);
          Some (idle, s\<lparr>IdleUpdates := (c, True) # IdleUpdates s\<rparr>)
        }
      | Some t \<Rightarrow> do {
          th \<leftarrow> Threads s t;
          ASSERT (State th = ThreadStateReady);
          Some (t, s\<lparr>IdleUpdates := (c, False) # IdleUpdates s\<rparr>)
        })
   }"

definition ThreadCleanupPostSchedule :: "sched_env \<Rightarrow> nat \<Rightarrow> sched \<Rightarrow> sched option" where
  "ThreadCleanupPostSchedule E c s = do {
     let s = put_cpu c ((Cpu s c)\<lparr>RunningThreadTicks := 0\<rparr>) s;
     let s = s\<lparr>ReadyThreadsLock := LockRelease (SK E) c (ReadyThreadsLock s)\<rparr>;
     (case PreviousThread (Cpu s c) of
        None \<Rightarrow> Some s
      | Some prevThread \<Rightarrow> do {
          th \<leftarrow> Threads s prevThread;
          if LockIsOwner (SK E) c (BlockLock th) then do {
            ASSERT (State th = ThreadStateBlocked \<or> Some prevThread = IdleThread (Cpu s c));
            Some (put_thread prevThread (th\<lparr>BlockLock := LockRelease (SK E) c (BlockLock th)\<rparr>) s)
          }
          else if State th = ThreadStateDying then do {
            s \<leftarrow> ThreadDereference E prevThread s;
            Some (put_cpu c ((Cpu s c)\<lparr>PreviousThread := None\<rparr>) s)
          }
          else Some s
        })
   }"

definition ThreadSchedule :: "sched_env \<Rightarrow> nat \<Rightarrow> sched \<Rightarrow> sched option" where
  "ThreadSchedule E c s = do {
     ASSERT (LockIsOwner (SK E) c (ReadyThreadsLock s));
     (cur, _) \<leftarrow> current_thread c s;
     let s = put_cpu c ((Cpu s c)\<lparr>PreviousThread := Some cur\<rparr>) s;
     (next, s) \<leftarrow> ThreadGetReadyThread E c s;
     thCur \<leftarrow> Threads s cur;
     s \<leftarrow> (if next \<noteq> cur then do {
              thNext \<leftarrow> Threads s next;
              s \<leftarrow> (if Process thCur \<noteq> Process thNext then do {
                       p \<leftarrow> Process thNext;
                       Some (s\<lparr>ActiveSpace := (ActiveSpace s)(c := Some p)\<rparr>)
                     }
                     else Some s);
              SetCurrentThread c next (put_thread cur (thCur\<lparr>UninterruptedTicks := 0\<rparr>) s)
            }
            else Some (put_thread cur (thCur\<lparr>UninterruptedTicks := UninterruptedTicks thCur + 1\<rparr>) s));
     ThreadCleanupPostSchedule E c s
   }"

definition ThreadTick :: "nat \<Rightarrow> sched \<Rightarrow> sched option" where
  "ThreadTick c s = do {
     (cur, th) \<leftarrow> current_thread c s;
     let td = Cpu s c;
     let td = (if IdleThread td = Some cur then td\<lparr>IdleTicks := IdleTicks td + 1\<rparr>
               else td\<lparr>KernelTicks := KernelTicks td + 1\<rparr>);
     let td = td\<lparr>RunningThreadTicks := RunningThreadTicks td + 1\<rparr>;
     let td = (if THREAD_TIME_SLICE \<le> RunningThreadTicks td then td\<lparr>YieldOnInterruptReturn := True\<rparr> else td);
     Some (put_cpu c td (put_thread cur (th\<lparr>TickCountCompleted := TickCountCompleted th + 1\<rparr>) s))
   }"

definition ThreadExit :: "sched_env \<Rightarrow> nat \<Rightarrow> status \<Rightarrow> sched \<Rightarrow> sched option" where
  "ThreadExit E c exitStatus s = do {
     (cur, th) \<leftarrow> current_thread c s;
     let th = (if LockIsOwner (SK E) c (BlockLock th) then th\<lparr>BlockLock := LockRelease (SK E) c (BlockLock th)\<rparr> else th);
     s \<leftarrow> ExEventSignal E c (ThreadEvt cur)
           (put_thread cur (th\<lparr>State := ThreadStateDying, ExitStatus := exitStatus\<rparr>) s);
     s \<leftarrow> ProcessNotifyThreadTermination E c cur s;
     readyLock \<leftarrow> LockAcquire (SK E) c (ReadyThreadsLock s);
     ThreadSchedule E c (s\<lparr>ReadyThreadsLock := readyLock\<rparr>)
   }"

definition ThreadForcedExit :: "sched_env \<Rightarrow> nat \<Rightarrow> sched \<Rightarrow> sched option" where
  "ThreadForcedExit E c s = do {
     (cur, th) \<leftarrow> current_thread c s;
     ThreadExit E c STATUS_JOB_INTERRUPTED (put_thread cur (th\<lparr>Flags := Flags th OR THREAD_FLAG_FORCE_TERMINATED\<rparr>) s)
   }"

definition ThreadYield :: "sched_env \<Rightarrow> nat \<Rightarrow> sched \<Rightarrow> sched option" where
  "ThreadYield E c s = do {
     (cur, th) \<leftarrow> current_thread c s;
     let bForcedYield = YieldOnInterruptReturn (Cpu s c);
     let s = put_cpu c ((Cpu s c)\<lparr>YieldOnInterruptReturn := False\<rparr>) s;
     if Flags th = THREAD_FLAG_FORCE_TERMINATE_PENDING then ThreadForcedExit E c s
     else do {
       readyLock \<leftarrow> LockAcquire (SK E) c (ReadyThreadsLock s);
       let s = s\<lparr>ReadyThreadsLock := readyLock\<rparr>;
       let s = (if Some cur \<noteq> IdleThread (Cpu s c)
                then s\<lparr>ReadyThreadsList := InsertTailList (SL E) (ReadyThreadsList s) cur\<rparr> else s);
       let th = (if bForcedYield then th else th\<lparr>TickCountEarly := TickCountEarly th + 1\<rparr>);
       ThreadSchedule E c (put_thread cur (th\<lparr>State := ThreadStateReady\<rparr>) s)
     }
   }"

definition ThreadTakeBlockLock :: "sched_env \<Rightarrow> nat \<Rightarrow> sched \<Rightarrow> sched option" where
  "ThreadTakeBlockLock E c s = do {
     (cur, th) \<leftarrow> current_thread c s;
     blockLock \<leftarrow> LockAcquire (SK E) c (BlockLock th);
     Some (put_thread cur (th\<lparr>BlockLock := blockLock\<rparr>) s)
   }"

definition ThreadBlock :: "sched_env \<Rightarrow> nat \<Rightarrow> sched \<Rightarrow> sched option" where
  "ThreadBlock E c s = do {
     (cur, th) \<leftarrow> current_thread c s;
     ASSERT (LockIsOwner (SK E) c (BlockLock th));
     if Flags th = THREAD_FLAG_FORCE_TERMINATE_PENDING then ThreadForcedExit E c s
     else do {
       let s = put_thread cur (th\<lparr>TickCountEarly := TickCountEarly th + 1, State := ThreadStateBlocked\<rparr>) s;
       readyLock \<leftarrow> LockAcquire (SK E) c (ReadyThreadsLock s);
       ThreadSchedule E c (s\<lparr>ReadyThreadsLock := readyLock\<rparr>)
     }
   }"

definition ThreadTerminate :: "nat \<Rightarrow> sched \<Rightarrow> sched option" where
  "ThreadTerminate t s = do {
     th \<leftarrow> Threads s t;
     Some (put_thread t (th\<lparr>Flags := Flags th OR THREAD_FLAG_FORCE_TERMINATE_PENDING\<rparr>) s)
   }"

definition ThreadYieldOnInterrupt :: "nat \<Rightarrow> sched \<Rightarrow> bool" where
  "ThreadYieldOnInterrupt c s = YieldOnInterruptReturn (Cpu s c)"

definition ThreadSetPriority :: "sched_env \<Rightarrow> nat \<Rightarrow> dword \<Rightarrow> sched \<Rightarrow> sched option" where
  "ThreadSetPriority E c NewPriority s = do {
     ASSERT (ThreadPriorityLowest E \<le> NewPriority \<and> NewPriority \<le> ThreadPriorityMaximum E);
     (cur, th) \<leftarrow> current_thread c s;
     Some (put_thread cur (th\<lparr>Priority := NewPriority\<rparr>) s)
   }"

text \<open>
  The body of the loop of \<open>ExEventWaitForSignal\<close> behind the failed test: the caller queues up
  and blocks. When it runs again, it leaves the loop if the event is a notification event and
  tests again otherwise.
\<close>

definition ExEventWaitForSignal_block :: "sched_env \<Rightarrow> nat \<Rightarrow> evt_ref \<Rightarrow> sched \<Rightarrow> sched option" where
  "ExEventWaitForSignal_block E c e s = do {
     (cur, _) \<leftarrow> current_thread c s;
     let ev = Events s e;
     s \<leftarrow> ThreadTakeBlockLock E c (put_event e (ev\<lparr>WaitingList := InsertTailList (SL E) (WaitingList ev) cur\<rparr>) s);
     ThreadBlock E c s
   }"

text \<open>The idle thread queues nowhere when it blocks.\<close>

definition IdleThread_block :: "sched_env \<Rightarrow> nat \<Rightarrow> sched \<Rightarrow> sched option" where
  "IdleThread_block E c s = ThreadTakeBlockLock E c s \<bind> ThreadBlock E c"

subsection \<open>Creating threads\<close>

text \<open>
  What the pool and \<open>MmuAllocStack\<close> answer to the allocations for a new thread: the thread
  object, the kernel stack (0 for \<open>NULL\<close>), whether there is memory for the name, and the user stack.
\<close>

record thread_alloc =
  PoolThread :: "nat option"
  KernelStack :: qword
  PoolName :: bool
  UserStackAlloc :: qword

definition zero_thread :: thread where
  "zero_thread = \<lparr>RefCnt = 0, Id = 0, ThreadName = [], Priority = 0, State = ThreadStateRunning,
     ExitStatus = STATUS_SUCCESS, Flags = 0, BlockLock = None, TickCountCompleted = 0, UninterruptedTicks = 0,
     TickCountEarly = 0, InitialStackBase = 0, StackSize = 0, Stack = 0, UserStack = 0, Process = None\<rparr>"

definition ThreadInit_failed :: "sched_env \<Rightarrow> status \<Rightarrow> nat \<Rightarrow> sched \<Rightarrow> (status \<times> nat option \<times> sched) option" where
  "ThreadInit_failed E st t s = do {
     s \<leftarrow> ThreadDereference E t s;
     Some (st, None, s)
   }"

definition ThreadInit ::
  "sched_env \<Rightarrow> dword \<Rightarrow> thread_alloc \<Rightarrow> string \<Rightarrow> dword \<Rightarrow> bool \<Rightarrow> sched \<Rightarrow> (status \<times> nat option \<times> sched) option" where
  "ThreadInit E stackSize A Name Prio AllocateKernelStack s = do {
     ASSERT (ThreadPriorityLowest E \<le> Prio \<and> Prio \<le> ThreadPriorityMaximum E);
     (case PoolThread A of
        None \<Rightarrow> Some (STATUS_HEAP_INSUFFICIENT_RESOURCES, None, s)
      | Some t \<Rightarrow>
          (let (st, cnt) = RfcInit (SR E);
               th = zero_thread\<lparr>RefCnt := cnt\<rparr> in
           if \<not> SUCCEEDED st then ThreadInit_failed E st t (put_thread t th s)
           else
             let s = put_event (ThreadEvt t) (ExEventInit ExEventTypeNotification False) s in
             if AllocateKernelStack \<and> KernelStack A = 0
             then ThreadInit_failed E STATUS_MEMORY_CANNOT_BE_COMMITED t (put_thread t th s)
             else
               let th = (if AllocateKernelStack
                         then th\<lparr>Stack := KernelStack A, InitialStackBase := KernelStack A, StackSize := stackSize\<rparr>
                         else th) in
               if \<not> PoolName A then ThreadInit_failed E STATUS_HEAP_INSUFFICIENT_RESOURCES t (put_thread t th s)
               else
                 let (tid, s) = ThreadSystemGetNextTid s;
                     th = th\<lparr>ThreadName := Name, Id := tid, State := ThreadStateBlocked, Priority := Prio,
                            BlockLock := LockInit (SK E)\<rparr>;
                     s = (put_thread t th s)\<lparr>AllThreadsList := InsertTailList (SL E) (AllThreadsList s) t\<rparr>
                 in Some (STATUS_SUCCESS, Some t, s)))
   }"

definition ThreadSetupInitialState ::
  "sched_env \<Rightarrow> nat \<Rightarrow> qword \<Rightarrow> qword \<Rightarrow> qword \<Rightarrow> bool \<Rightarrow> sched \<Rightarrow> sched option" where
  "ThreadSetupInitialState E t StartFunction FirstArgument SecondArgument kernelStack s = do {
     ASSERT (StartFunction \<noteq> 0);
     th \<leftarrow> Threads s t;
     let pIst = Stack th - 8 * (4 + 1) - SizeInterruptStack E;
     ASSERT (kernelStack \<or> UserStack th \<noteq> 0);
     let frame = \<lparr>FrameRip = StartFunction,
                  FrameRsp = if kernelStack then pIst + SizeInterruptStack E else UserStack th,
                  FrameUserMode = \<not> kernelStack, FrameRcx = FirstArgument, FrameRdx = SecondArgument\<rparr>;
     let s = s\<lparr>Frames := (Frames s)(t := Some frame)\<rparr>;
     Some (put_thread t (th\<lparr>Stack := pIst - 8 - SizeProcessorState E\<rparr>) s)
   }"

definition ThreadSetupMainThreadUserStack :: "qword \<Rightarrow> status \<times> qword" where
  "ThreadSetupMainThreadUserStack InitialStack = (STATUS_SUCCESS, InitialStack)"

text \<open>
  The user part of \<open>ThreadCreateEx\<close>: the stack, and the function and arguments to start with.
  An error leaves the thread as it is.
\<close>

definition ThreadCreateEx_user ::
  "sched_env \<Rightarrow> thread_alloc \<Rightarrow> nat \<Rightarrow> process \<Rightarrow> qword \<Rightarrow> qword \<Rightarrow> sched \<Rightarrow> (status \<times> (qword \<times> qword \<times> qword) \<times> sched) option" where
  "ThreadCreateEx_user E A t pr Function Context s = do {
     th \<leftarrow> Threads s t;
     let s = put_thread t (th\<lparr>UserStack := UserStackAlloc A\<rparr>) s;
     if UserStackAlloc A = 0 then Some (STATUS_MEMORY_CANNOT_BE_COMMITED, (0, 0, 0), s)
     else if Function = EntryPoint pr then do {
       ASSERT (NumberOfThreads pr = 1);
       let (st, stack) = ThreadSetupMainThreadUserStack (UserStackAlloc A);
       Some (st, (EntryPoint pr, ucast (NumberOfArguments pr), stack + SHADOW_STACK_SIZE E + 8),
             put_thread t (th\<lparr>UserStack := stack\<rparr>) s)
     }
     else Some (STATUS_SUCCESS, (Function, Context, 0),
                put_thread t (th\<lparr>UserStack := UserStackAlloc A - (SHADOW_STACK_SIZE E + 8)\<rparr>) s)
   }"

definition ThreadCreateEx ::
  "sched_env \<Rightarrow> nat \<Rightarrow> dword \<Rightarrow> thread_alloc \<Rightarrow> string option \<Rightarrow> dword \<Rightarrow> qword \<Rightarrow> qword \<Rightarrow> bool \<Rightarrow> nat option \<Rightarrow> sched \<Rightarrow>
   (status \<times> nat option \<times> sched) option" where
  "ThreadCreateEx E c stackSize A Name Prio Function Context outNull Proc s =
     (case (Name, Proc) of
        (None, _) \<Rightarrow> Some (STATUS_INVALID_PARAMETER1, None, s)
      | (Some name, _) \<Rightarrow>
          if Function = 0 then Some (STATUS_INVALID_PARAMETER3, None, s)
          else if outNull then Some (STATUS_INVALID_PARAMETER5, None, s)
          else (case Proc of
            None \<Rightarrow> Some (STATUS_INVALID_PARAMETER6, None, s)
          | Some p \<Rightarrow> do {
              (st, pThread, s) \<leftarrow> ThreadInit E stackSize A name Prio True s;
              (case pThread of
                 None \<Rightarrow> Some (st, None, s)
               | Some t \<Rightarrow> do {
                   s \<leftarrow> ProcessInsertThreadInList E p t s;
                   s \<leftarrow> ThreadReference E t s;
                   pr \<leftarrow> Processes s p;
                   (st, (start, firstArg, secondArg), s) \<leftarrow>
                     (if UserSpace pr then ThreadCreateEx_user E A t pr Function Context s
                      else Some (STATUS_SUCCESS, (ThreadKernelFunction E, Function, Context), s));
                   if \<not> SUCCEEDED st then Some (st, None, s)
                   else do {
                     s \<leftarrow> ThreadSetupInitialState E t start firstArg secondArg (\<not> UserSpace pr) s;
                     s \<leftarrow> (if IdleThread (Cpu s c) = None then do {
                             th \<leftarrow> Threads s t;
                             Some (put_cpu c ((Cpu s c)\<lparr>IdleThread := Some t\<rparr>)
                                     (put_thread t (th\<lparr>State := ThreadStateReady\<rparr>) s))
                           }
                           else ThreadUnblock E c t s);
                     Some (STATUS_SUCCESS, Some t, s)
                   }
                 })
            }))"

definition ThreadSystemInitMainForCurrentCPU ::
  "sched_env \<Rightarrow> nat \<Rightarrow> thread_alloc \<Rightarrow> string \<Rightarrow> dword \<Rightarrow> nat option \<Rightarrow> sched \<Rightarrow> (status \<times> sched) option" where
  "ThreadSystemInitMainForCurrentCPU E c A name defaultPriority pProcess s = do {
     (st, pThread, s) \<leftarrow> ThreadInit E 0 A name defaultPriority False s;
     (case pThread of
        None \<Rightarrow> Some (st, s)
      | Some t \<Rightarrow> do {
          th \<leftarrow> Threads s t;
          let s = put_thread t (th\<lparr>InitialStackBase := StackTop (Cpu s c), StackSize := CpuStackSize (Cpu s c),
                                 State := ThreadStateRunning\<rparr>) s;
          s \<leftarrow> SetCurrentThread c t s;
          s \<leftarrow> (case pProcess of None \<Rightarrow> Some s | Some p \<Rightarrow> ProcessInsertThreadInList E p t s);
          Some (st, s)
        })
   }"

definition ThreadCreate ::
  "sched_env \<Rightarrow> nat \<Rightarrow> dword \<Rightarrow> thread_alloc \<Rightarrow> string option \<Rightarrow> dword \<Rightarrow> qword \<Rightarrow> qword \<Rightarrow> bool \<Rightarrow> sched \<Rightarrow>
   (status \<times> nat option \<times> sched) option" where
  "ThreadCreate E c stackSize A Name Prio Function Context outNull s =
     ThreadCreateEx E c stackSize A Name Prio Function Context outNull (SystemProcess s) s"

text \<open>
  \<open>idleStarted\<close> names the event on the caller's stack and \<open>pEvent\<close> is its address. The wait at the
  end is one round of \<open>ExEventWaitForSignal\<close>.
\<close>

definition ThreadSystemInitIdleForCurrentCPU ::
  "sched_env \<Rightarrow> nat \<Rightarrow> dword \<Rightarrow> thread_alloc \<Rightarrow> string \<Rightarrow> dword \<Rightarrow> qword \<Rightarrow> nat \<Rightarrow> qword \<Rightarrow> sched \<Rightarrow> (status \<times> sched) option" where
  "ThreadSystemInitIdleForCurrentCPU E c stackSize A name defaultPriority IdleThreadFn idleStarted pEvent s = do {
     let s = put_event (OtherEvt idleStarted) (ExEventInit ExEventTypeSynchronization False) s;
     (st, pThread, s) \<leftarrow> ThreadCreate E c stackSize A (Some name) defaultPriority IdleThreadFn pEvent False s;
     if \<not> SUCCEEDED st then Some (st, s)
     else do {
       t \<leftarrow> pThread;
       s \<leftarrow> ThreadCloseHandle E t s;
       let (signaled, s) = ExEventWaitForSignal_test (OtherEvt idleStarted) s;
       s \<leftarrow> (if signaled then Some s else ExEventWaitForSignal_block E c (OtherEvt idleStarted) s);
       Some (st, s)
     }
   }"

text \<open>What the idle thread does before its loop.\<close>

definition IdleThread_start :: "sched_env \<Rightarrow> nat \<Rightarrow> nat \<Rightarrow> sched \<Rightarrow> sched option" where
  "IdleThread_start E c idleStarted s = ExEventSignal E c (OtherEvt idleStarted) s"

text \<open>The end of \<open>_ThreadKernelFunction\<close>, given what the thread's function returned.\<close>

definition ThreadKernelFunction_end :: "sched_env \<Rightarrow> nat \<Rightarrow> status \<Rightarrow> sched \<Rightarrow> sched option" where
  "ThreadKernelFunction_end E c exitStatus s = ThreadExit E c exitStatus s"

text \<open>What \<open>ThreadWaitForTermination\<close> hands back behind its wait for \<open>TerminationEvt\<close>.\<close>

definition ThreadWaitForTermination_status :: "nat \<Rightarrow> sched \<Rightarrow> status option" where
  "ThreadWaitForTermination_status t s = map_option ExitStatus (Threads s t)"

definition get_thread :: "nat \<Rightarrow> nat option \<Rightarrow> sched \<Rightarrow> thread option" where
  "get_thread c t s = (case t of Some t \<Rightarrow> Threads s t | None \<Rightarrow> map_option snd (current_thread c s))"

definition ThreadGetName :: "nat \<Rightarrow> nat option \<Rightarrow> sched \<Rightarrow> string" where
  "ThreadGetName c t s = (case get_thread c t s of Some th \<Rightarrow> ThreadName th | None \<Rightarrow> [])"

definition ThreadGetId :: "nat \<Rightarrow> nat option \<Rightarrow> sched \<Rightarrow> qword" where
  "ThreadGetId c t s = (case get_thread c t s of Some th \<Rightarrow> Id th | None \<Rightarrow> 0)"

definition ThreadGetPriority :: "nat \<Rightarrow> nat option \<Rightarrow> sched \<Rightarrow> dword" where
  "ThreadGetPriority c t s = (case get_thread c t s of Some th \<Rightarrow> Priority th | None \<Rightarrow> 0)"

subsection \<open>Terminating a process\<close>

fun ProcessTerminate_loop :: "nat \<Rightarrow> nat list \<Rightarrow> sched \<Rightarrow> (bool \<times> sched) option" where
  "ProcessTerminate_loop cur [] s = Some (False, s)"
| "ProcessTerminate_loop cur (t # ts) s =
     (if t = cur then do {
        (_, s) \<leftarrow> ProcessTerminate_loop cur ts s;
        Some (True, s)
      }
      else ThreadTerminate t s \<bind> ProcessTerminate_loop cur ts)"

definition ProcessTerminate :: "sched_env \<Rightarrow> nat \<Rightarrow> nat option \<Rightarrow> sched \<Rightarrow> sched option" where
  "ProcessTerminate E c Proc s = do {
     (cur, th) \<leftarrow> current_thread c s;
     p \<leftarrow> (case Proc of None \<Rightarrow> Process th | Some p \<Rightarrow> Some p);
     isSystem \<leftarrow> ProcessIsSystem p s;
     ASSERT (\<not> isSystem);
     pr \<leftarrow> Processes s p;
     (found, s) \<leftarrow> ProcessTerminate_loop cur (ProcThreadList pr) s;
     if found then ThreadExit E c STATUS_JOB_INTERRUPTED s else Some s
   }"

end
