(* ===== verification/Scheduling.thy ===== *)
theory Scheduling
  imports Thread
begin

text \<open>
  The invariant of the scheduler and what it gives: every thread is in one place only, the
  ready list is served in order, a ready thread gets its turn, and what a signal does.
\<close>

subsection \<open>The contracts of the library\<close>

locale sched_contracts =
  fixes E :: sched_env
  assumes env_list: "list_contract (SL E)" and env_lock: "lock_contract (SK E)" and env_rfc: "rfc_contract (SR E)"
    and env_bitmap: "bitmap_contract (SB E)"
begin

lemmas lib_simps = list_contract.list_simps [OF env_list] lock_contract.lock_simps [OF env_lock]
  rfc_contract.RfcInit_one [OF env_rfc] rfc_contract.RfcReference_inc [OF env_rfc]

lemmas lock_acquire = lock_contract.LockAcquire_Some [OF env_lock]

end

definition sched_env_example :: sched_env where
  "sched_env_example = \<lparr>SL = list_ops, SK = lock_ops, SR = rfc_ops, SB = bitmap_ops, ThreadPriorityLowest = 0, ThreadPriorityMaximum = 31,
     SizeInterruptStack = 40, SizeProcessorState = 0x100, SHADOW_STACK_SIZE = 32, ThreadKernelFunction = 0x1000,
     PCID_IS_VALID = (\<lambda>x. 1 \<le> x \<and> x \<le> 0xFFF),
     PCID_FIRST_VALID_VALUE = 1, PCID_TOTAL_NO_OF_VALUES = 0x1000\<rparr>"

interpretation sx: sched_contracts sched_env_example
  by (rule sched_contracts.intro)
    (simp_all add: sched_env_example_def li.list_contract_axioms lk.lock_contract_axioms rf.rfc_contract_axioms bm.bitmap_contract_axioms)

lemmas put_defs [simp] = put_thread_def put_cpu_def put_event_def put_process_def

subsection \<open>The places of threads\<close>

datatype wait_queue = EventQueue evt_ref | MutexQueue nat

fun queue :: "sched \<Rightarrow> wait_queue \<Rightarrow> nat list" where
  "queue s (EventQueue e) = WaitingList (Events s e)"
| "queue s (MutexQueue m) = MutexWaitingList (Mutexes s m)"

text \<open>
  \<open>X\<close> is the CPU inside a scheduler routine, if any: what is said of running threads does not
  hold for its current thread, and only that thread may have its block lock taken.
\<close>

definition unlocked :: "nat option \<Rightarrow> sched \<Rightarrow> nat \<Rightarrow> thread \<Rightarrow> bool" where
  "unlocked X s t th \<longleftrightarrow> BlockLock th = None \<or>
     (\<exists>c. X = Some c \<and> BlockLock th = Some c \<and> CurrentThread (Cpu s c) = Some t)"

definition ready_ok :: "sched \<Rightarrow> bool" where
  "ready_ok s \<longleftrightarrow> distinct (ReadyThreadsList s) \<and>
     (\<forall>t \<in> set (ReadyThreadsList s). (\<forall>c. IdleThread (Cpu s c) \<noteq> Some t) \<and>
       (\<exists>th. Threads s t = Some th \<and> State th = ThreadStateReady \<and> BlockLock th = None))"

definition idle_ok :: "nat option \<Rightarrow> sched \<Rightarrow> bool" where
  "idle_ok X s \<longleftrightarrow> (\<forall>c t. IdleThread (Cpu s c) = Some t \<longrightarrow>
     (\<exists>th. Threads s t = Some th \<and> State th \<noteq> ThreadStateDying \<and> unlocked X s t th) \<and>
     (\<forall>d. d \<noteq> c \<longrightarrow> CurrentThread (Cpu s d) \<noteq> Some t \<and> IdleThread (Cpu s d) \<noteq> Some t))"

definition waiting_ok :: "nat option \<Rightarrow> sched \<Rightarrow> bool" where
  "waiting_ok X s \<longleftrightarrow> (\<forall>q. distinct (queue s q)) \<and>
     (\<forall>q q'. q \<noteq> q' \<longrightarrow> set (queue s q) \<inter> set (queue s q') = {}) \<and>
     (\<forall>q. \<forall>t \<in> set (queue s q). (\<forall>c. IdleThread (Cpu s c) \<noteq> Some t) \<and>
       (\<exists>th. Threads s t = Some th \<and> State th = ThreadStateBlocked \<and> unlocked X s t th))"

definition running_ok :: "nat \<Rightarrow> sched \<Rightarrow> bool" where
  "running_ok c s \<longleftrightarrow> (\<forall>t. CurrentThread (Cpu s c) = Some t \<longrightarrow> t \<notin> set (ReadyThreadsList s) \<and>
     (\<exists>th. Threads s t = Some th \<and> BlockLock th = None \<and>
       (State th = ThreadStateRunning \<or> State th = ThreadStateReady \<or>
        (IdleThread (Cpu s c) = Some t \<and> State th = ThreadStateBlocked))) \<and>
     (\<forall>d. d \<noteq> c \<longrightarrow> CurrentThread (Cpu s d) \<noteq> Some t))"

definition places :: "nat option \<Rightarrow> sched \<Rightarrow> bool" where
  "places X s \<longleftrightarrow> ready_ok s \<and> idle_ok X s \<and> waiting_ok X s \<and> (\<forall>c. X \<noteq> Some c \<longrightarrow> running_ok c s)"

definition sched_inv :: "sched \<Rightarrow> bool" where
  "sched_inv s \<longleftrightarrow> ReadyThreadsLock s = None \<and> places None s"

lemma unlocked_None: "unlocked None s t th \<longleftrightarrow> BlockLock th = None"
  by (simp add: unlocked_def)

lemma unlocked_free [simp]: "BlockLock th = None \<Longrightarrow> unlocked X s t th"
  by (simp add: unlocked_def)

lemma unlocked_end:
  "running_ok c s \<Longrightarrow> Threads s t = Some th \<Longrightarrow> unlocked (Some c) s t th \<Longrightarrow> BlockLock th = None"
  by (auto simp: unlocked_def running_ok_def)

lemma idle_ok_mono:
  assumes "idle_ok X s" and "\<And>t th. Threads s t = Some th \<Longrightarrow> unlocked X s t th \<Longrightarrow> unlocked Y s t th"
  shows "idle_ok Y s"
  using assms unfolding idle_ok_def by blast

lemma waiting_ok_mono:
  assumes "waiting_ok X s" and "\<And>t th. Threads s t = Some th \<Longrightarrow> unlocked X s t th \<Longrightarrow> unlocked Y s t th"
  shows "waiting_ok Y s"
  using assms unfolding waiting_ok_def by blast

lemma places_begin:
  assumes "places None s"
  shows "places (Some c) s"
proof -
  have "unlocked (Some c) s t th" if "unlocked None s t th" for t th
    using that by (simp add: unlocked_None)
  then show ?thesis
    using assms idle_ok_mono [of None s "Some c"] waiting_ok_mono [of None s "Some c"]
    by (auto simp: places_def)
qed

lemma places_end:
  assumes "places (Some c) s" and "running_ok c s"
  shows "places None s"
proof -
  have "unlocked None s t th" if "Threads s t = Some th" "unlocked (Some c) s t th" for t th
    using unlocked_end [OF assms(2) that] by simp
  then show ?thesis
    using assms idle_ok_mono [of "Some c" s None] waiting_ok_mono [of "Some c" s None]
    unfolding places_def by (metis option.inject)
qed

text \<open>What \<open>places\<close> looks at.\<close>

lemma places_cong:
  assumes "Threads s' = Threads s" "ReadyThreadsList s' = ReadyThreadsList s" "queue s' = queue s"
    and "\<And>c. IdleThread (Cpu s' c) = IdleThread (Cpu s c)" "\<And>c. CurrentThread (Cpu s' c) = CurrentThread (Cpu s c)"
  shows "places X s' = places X s"
  using assms by (simp add: places_def ready_ok_def idle_ok_def waiting_ok_def running_ok_def unlocked_def)

lemma queue_simps [simp]:
  "queue (s\<lparr>Threads := T\<rparr>) = queue s" "queue (s\<lparr>ReadyThreadsList := R\<rparr>) = queue s"
  "queue (s\<lparr>ReadyThreadsLock := l\<rparr>) = queue s" "queue (s\<lparr>Cpu := C\<rparr>) = queue s"
  "queue (s\<lparr>Processes := P\<rparr>) = queue s" "queue (s\<lparr>ProcessList := L\<rparr>) = queue s"
  "queue (s\<lparr>FreedStacks := F\<rparr>) = queue s" "queue (s\<lparr>AllThreadsList := A\<rparr>) = queue s"
  "queue (s\<lparr>IdleUpdates := U\<rparr>) = queue s" "queue (s\<lparr>ActiveSpace := S\<rparr>) = queue s"
  "queue (s\<lparr>NextTid := n\<rparr>) = queue s" "queue (s\<lparr>Frames := G\<rparr>) = queue s"
  "queue (s\<lparr>PidBitmap := B\<rparr>) = queue s" "queue (s\<lparr>DestroyedSpaces := D\<rparr>) = queue s"
  "queue (s\<lparr>SystemProcess := p\<rparr>) = queue s"
  by (rule ext, case_tac x, simp_all)+

context sched_contracts
begin

lemma ThreadUnblock_iff:
  "ThreadUnblock E c t s = Some s' \<longleftrightarrow>
    (\<exists>th. Threads s t = Some th \<and> State th = ThreadStateBlocked \<and> BlockLock th = None \<and> ReadyThreadsLock s = None \<and>
      s' = s\<lparr>ReadyThreadsList := ReadyThreadsList s @ [t], ReadyThreadsLock := None,
             Threads := (Threads s)(t \<mapsto> th\<lparr>State := ThreadStateReady, BlockLock := None\<rparr>)\<rparr>)"
  by (auto simp: ThreadUnblock_def bind_Some_iff lock_acquire lib_simps)

lemma ThreadUnblock_places:
  assumes pl: "places X s" and out: "\<forall>q. t \<notin> set (queue s q)" "\<forall>c. IdleThread (Cpu s c) \<noteq> Some t"
    and un: "ThreadUnblock E c t s = Some s'"
  shows "places X s'"
proof -
  obtain th where th: "Threads s t = Some th" "State th = ThreadStateBlocked" "BlockLock th = None"
      and s': "s' = s\<lparr>ReadyThreadsList := ReadyThreadsList s @ [t], ReadyThreadsLock := None,
             Threads := (Threads s)(t \<mapsto> th\<lparr>State := ThreadStateReady, BlockLock := None\<rparr>)\<rparr>"
    using un by (auto simp: ThreadUnblock_iff)
  have t: "t \<notin> set (ReadyThreadsList s)"
    using pl th by (auto simp: places_def ready_ok_def)
  have "ready_ok s'"
    using pl t out(2) by (auto simp: places_def ready_ok_def s')
  moreover have "idle_ok X s'"
    using pl out(2) unfolding places_def idle_ok_def unlocked_def s' by auto
  moreover have "waiting_ok X s'"
    using pl out(1) unfolding places_def waiting_ok_def unlocked_def s' by auto
  moreover have "running_ok d s'" if "X \<noteq> Some d" for d
  proof -
    have d: "running_ok d s"
      using pl that by (simp add: places_def)
    then have "CurrentThread (Cpu s d) \<noteq> Some t"
      using th out(2) by (auto simp: running_ok_def)
    then show ?thesis
      using d unfolding running_ok_def s' by auto
  qed
  ultimately show ?thesis
    by (simp add: places_def)
qed

end

text \<open>Taking a thread out of a waiting queue leaves it in no queue.\<close>

lemma waiting_okD:
  assumes "waiting_ok X s"
  shows "distinct (queue s q)" and "q \<noteq> q' \<Longrightarrow> set (queue s q) \<inter> set (queue s q') = {}"
    and "t \<in> set (queue s q) \<Longrightarrow> IdleThread (Cpu s c) \<noteq> Some t"
    and "t \<in> set (queue s q) \<Longrightarrow> \<exists>th. Threads s t = Some th \<and> State th = ThreadStateBlocked \<and> unlocked X s t th"
  using assms unfolding waiting_ok_def by blast+

lemma waiting_head_out:
  assumes "waiting_ok X s" and "queue s q = t # ws" and "queue s' = (queue s)(q := ws)"
  shows "\<forall>q. t \<notin> set (queue s' q)"
proof
  fix q'
  have d: "t \<notin> set ws" "t \<in> set (queue s q)"
    using waiting_okD(1) [OF assms(1), of q] assms(2) by simp_all
  show "t \<notin> set (queue s' q')"
    using d assms(3) waiting_okD(2) [OF assms(1), of q q'] by (cases "q' = q") auto
qed

lemma waiting_tl:
  assumes pl: "places X s" and q: "queue s q = t # ws" and s': "queue s' = (queue s)(q := ws)"
    and same: "Threads s' = Threads s" "ReadyThreadsList s' = ReadyThreadsList s" "Cpu s' = Cpu s"
  shows "places X s'"
proof -
  have sub: "set (queue s' q') \<subseteq> set (queue s q')" "distinct (queue s q') \<Longrightarrow> distinct (queue s' q')" for q'
    using q s' by auto
  have w: "waiting_ok X s"
    using pl by (simp add: places_def)
  have un: "unlocked X s' t th = unlocked X s t th" for t th
    by (simp add: unlocked_def same)
  have "waiting_ok X s'"
    unfolding waiting_ok_def same un
  proof (intro conjI allI ballI impI, goal_cases)
    case (1 q1)
    show ?case
      by (rule sub(2) [OF waiting_okD(1) [OF w]])
  next
    case (2 q1 q2)
    then show ?case
      using waiting_okD(2) [OF w, of q1 q2] sub(1) [of q1] sub(1) [of q2] by blast
  next
    case (3 q1 t c)
    then show ?case
      using waiting_okD(3) [OF w, of t q1 c] sub(1) [of q1] by blast
  next
    case (4 q1 t)
    then show ?case
      using waiting_okD(4) [OF w, of t q1] sub(1) [of q1] by blast
  qed
  moreover have "ready_ok s' = ready_ok s" "idle_ok X s' = idle_ok X s" "\<And>c. running_ok c s' = running_ok c s"
    unfolding ready_ok_def idle_ok_def running_ok_def unlocked_def same by (rule refl)+
  ultimately show ?thesis
    using pl unfolding places_def by blast
qed

subsection \<open>Signalling an event\<close>

text \<open>The threads \<open>ws\<close>, blocked and in no queue, become ready in this order.\<close>

definition wake :: "nat list \<Rightarrow> sched \<Rightarrow> sched" where
  "wake ws s = s\<lparr>ReadyThreadsList := ReadyThreadsList s @ ws,
     Threads := (\<lambda>t. if t \<in> set ws then map_option (\<lambda>th. th\<lparr>State := ThreadStateReady, BlockLock := None\<rparr>) (Threads s t)
       else Threads s t)\<rparr>"

definition can_wake :: "sched \<Rightarrow> nat \<Rightarrow> bool" where
  "can_wake s t \<longleftrightarrow> (\<exists>th. Threads s t = Some th \<and> State th = ThreadStateBlocked \<and> BlockLock th = None)"

lemma wake_Nil [simp]: "wake [] s = s"
  by (simp add: wake_def)

lemma wake_wake: "t \<notin> set ws \<Longrightarrow> wake ws (wake [t] s) = wake (t # ws) s"
  by (auto simp: wake_def fun_eq_iff)

lemma wake_sel [simp]:
  "Events (wake ws s) = Events s" "Mutexes (wake ws s) = Mutexes s" "Cpu (wake ws s) = Cpu s"
  "ReadyThreadsLock (wake ws s) = ReadyThreadsLock s" "Processes (wake ws s) = Processes s"
  "ReadyThreadsList (wake ws s) = ReadyThreadsList s @ ws" "t \<notin> set ws \<Longrightarrow> Threads (wake ws s) t = Threads s t"
  by (simp_all add: wake_def)

lemma wake_Events: "(wake ws s)\<lparr>Events := V\<rparr> = wake ws (s\<lparr>Events := V\<rparr>)"
  by (rule sched.equality) (simp_all add: wake_def fun_eq_iff)

definition woken :: "ex_event \<Rightarrow> nat list" where
  "woken ev = (if EventType ev = ExEventTypeSynchronization then take 1 (WaitingList ev) else WaitingList ev)"

lemma queue_event_upd:
  "queue (s\<lparr>Events := (Events s)(e := ev)\<rparr>) = (queue s)(EventQueue e := WaitingList ev)"
  by (rule ext, case_tac x) simp_all

context sched_contracts
begin

lemma ThreadUnblock_wake:
  assumes "can_wake s t" and "ReadyThreadsLock s = None"
  shows "ThreadUnblock E c t s = Some (wake [t] s)"
proof -
  obtain th where th: "Threads s t = Some th" "State th = ThreadStateBlocked" "BlockLock th = None"
    using assms(1) by (auto simp: can_wake_def)
  have "wake [t] s = s\<lparr>ReadyThreadsList := ReadyThreadsList s @ [t], ReadyThreadsLock := None,
      Threads := (Threads s)(t \<mapsto> th\<lparr>State := ThreadStateReady, BlockLock := None\<rparr>)\<rparr>"
    by (rule sched.equality) (use assms(2) th(1) in \<open>simp_all add: wake_def fun_eq_iff\<close>)
  then show ?thesis
    using th assms(2) unfolding ThreadUnblock_iff by blast
qed

lemma ExEventSignal_loop_eq:
  assumes "WaitingList (Events s e) = ws" and "distinct ws" and "\<forall>t \<in> set ws. can_wake s t"
    and "ReadyThreadsLock s = None" and "length ws < n"
  shows "ExEventSignal_loop E c e n s =
    Some (wake (woken (Events s e)) (put_event e ((Events s e)\<lparr>WaitingList := drop (length (woken (Events s e))) ws\<rparr>) s))"
  using assms
proof (induction ws arbitrary: s n)
  case Nil
  then show ?case
    by (cases n) (simp_all add: lib_simps woken_def)
next
  case (Cons t ws)
  obtain n' where n: "n = Suc n'" "length ws < n'"
    using Cons.prems(5) by (cases n) auto
  let ?s1 = "put_event e ((Events s e)\<lparr>WaitingList := ws\<rparr>) s"
  have un: "ThreadUnblock E c t ?s1 = Some (wake [t] ?s1)"
    using Cons.prems(3,4) by (intro ThreadUnblock_wake) (simp_all add: can_wake_def)
  show ?case
  proof (cases "EventType (Events s e) = ExEventTypeSynchronization")
    case True
    then show ?thesis
      using un Cons.prems(1) by (simp add: n lib_simps woken_def)
  next
    case False
    have t: "t \<notin> set ws"
      using Cons.prems(2) by simp
    have "\<forall>u \<in> set ws. can_wake (wake [t] ?s1) u"
      using Cons.prems(3) t by (auto simp: can_wake_def wake_def)
    then have "ExEventSignal_loop E c e n' (wake [t] ?s1) =
        Some (wake ws (put_event e ((Events ?s1 e)\<lparr>WaitingList := []\<rparr>) (wake [t] ?s1)))"
      using Cons.IH [of "wake [t] ?s1" n'] Cons.prems(2,4) n(2) False by (simp add: woken_def)
    then show ?thesis
      using un False Cons.prems(1) t
      by (simp add: n lib_simps woken_def wake_Events wake_wake)
  qed
qed

lemma ExEventSignal_loop_places:
  assumes "places X s" and "ExEventSignal_loop E c e n s = Some s'"
  shows "places X s'"
  using assms
proof (induction n arbitrary: s)
  case (Suc n)
  show ?case
  proof (cases "WaitingList (Events s e)")
    case Nil
    have "(Events s)(e := (Events s e)\<lparr>WaitingList := []\<rparr>) = Events s"
      using Nil by (cases "Events s e") (simp add: fun_eq_iff)
    then show ?thesis
      using Suc.prems Nil by (simp add: lib_simps)
  next
    case (Cons t ws)
    let ?s1 = "put_event e ((Events s e)\<lparr>WaitingList := ws\<rparr>) s"
    have q: "queue s (EventQueue e) = t # ws" "queue ?s1 = (queue s)(EventQueue e := ws)"
      using Cons by (simp_all add: queue_event_upd)
    have w: "waiting_ok X s"
      using Suc.prems(1) by (simp add: places_def)
    have "places X ?s1"
      by (rule waiting_tl [OF Suc.prems(1) q]) simp_all
    moreover have "\<forall>q. t \<notin> set (queue ?s1 q)"
      by (rule waiting_head_out [OF w q])
    moreover have "\<forall>c. IdleThread (Cpu ?s1 c) \<noteq> Some t"
      using waiting_okD(3) [OF w, of t "EventQueue e"] q(1) by simp
    moreover obtain s2 where s2: "ThreadUnblock E c t ?s1 = Some s2"
        "(if EventType (Events s2 e) = ExEventTypeSynchronization then Some s2 else ExEventSignal_loop E c e n s2) = Some s'"
      using Suc.prems(2) Cons by (auto simp: lib_simps bind_Some_iff)
    ultimately have "places X s2"
      using ThreadUnblock_places by blast
    then show ?thesis
      using s2(2) Suc.IH by (simp split: if_splits)
  qed
qed simp

end

subsection \<open>Switching threads\<close>

lemma placesD:
  assumes "places X s"
  shows "ready_ok s" "idle_ok X s" "waiting_ok X s" "X \<noteq> Some c \<Longrightarrow> running_ok c s"
  using assms unfolding places_def by blast+

lemma ready_okD:
  assumes "ready_ok s"
  shows "distinct (ReadyThreadsList s)"
    and "t \<in> set (ReadyThreadsList s) \<Longrightarrow> IdleThread (Cpu s c) \<noteq> Some t"
    and "t \<in> set (ReadyThreadsList s) \<Longrightarrow> \<exists>th. Threads s t = Some th \<and> State th = ThreadStateReady \<and> BlockLock th = None"
  using assms unfolding ready_ok_def by blast+

lemma idle_okD:
  assumes "idle_ok X s" and "IdleThread (Cpu s c) = Some t"
  shows "\<exists>th. Threads s t = Some th \<and> State th \<noteq> ThreadStateDying \<and> unlocked X s t th"
    and "d \<noteq> c \<Longrightarrow> CurrentThread (Cpu s d) \<noteq> Some t" and "d \<noteq> c \<Longrightarrow> IdleThread (Cpu s d) \<noteq> Some t"
  using assms unfolding idle_ok_def by blast+

lemma running_okD:
  assumes "running_ok c s" and "CurrentThread (Cpu s c) = Some t"
  shows "t \<notin> set (ReadyThreadsList s)" and "d \<noteq> c \<Longrightarrow> CurrentThread (Cpu s d) \<noteq> Some t"
    and "\<exists>th. Threads s t = Some th \<and> BlockLock th = None \<and>
      (State th = ThreadStateRunning \<or> State th = ThreadStateReady \<or>
       (IdleThread (Cpu s c) = Some t \<and> State th = ThreadStateBlocked))"
  using assms unfolding running_ok_def by blast+

lemma unlocked_other: "unlocked (Some c) s t th \<Longrightarrow> CurrentThread (Cpu s c) \<noteq> Some t \<Longrightarrow> BlockLock th = None"
  by (auto simp: unlocked_def)

text \<open>What the current thread of a CPU may be when it gives up the CPU.\<close>

definition leaving :: "nat \<Rightarrow> sched \<Rightarrow> nat \<Rightarrow> thread \<Rightarrow> bool" where
  "leaving c s cur th \<longleftrightarrow>
     (State th = ThreadStateReady \<and> BlockLock th = None \<and> (cur \<in> set (ReadyThreadsList s) \<or> IdleThread (Cpu s c) = Some cur)) \<or>
     (State th = ThreadStateBlocked \<and> BlockLock th = Some c) \<or>
     (State th = ThreadStateDying \<and> BlockLock th = None)"

definition next_thread :: "nat \<Rightarrow> sched \<Rightarrow> nat option" where
  "next_thread c s = (case ReadyThreadsList s of [] \<Rightarrow> IdleThread (Cpu s c) | t # _ \<Rightarrow> Some t)"

lemma switch_places:
  assumes pl: "places (Some c) s" and cur: "CurrentThread (Cpu s c) = Some cur" "Threads s cur = Some th"
    and only: "\<And>d. d \<noteq> c \<Longrightarrow> CurrentThread (Cpu s d) \<noteq> Some cur"
    and lv: "leaving c s cur th" and nxt: "next_thread c s = Some nx"
    and queues: "ReadyThreadsList s' = tl (ReadyThreadsList s)" "queue s' = queue s"
    and cpus: "CurrentThread (Cpu s' c) = Some nx" "\<And>d. d \<noteq> c \<Longrightarrow> CurrentThread (Cpu s' d) = CurrentThread (Cpu s d)"
      "\<And>d. IdleThread (Cpu s' d) = IdleThread (Cpu s d)"
    and others: "\<And>t. t \<noteq> cur \<Longrightarrow> Threads s' t = Threads s t"
    and kept: "State th \<noteq> ThreadStateDying \<Longrightarrow> \<exists>th'. Threads s' cur = Some th' \<and> State th' = State th \<and> BlockLock th' = None"
  shows "places None s'"
proof -
  note p = placesD [OF pl]
  have unl: "BlockLock th' = None" if "t \<noteq> cur" "unlocked (Some c) s t th'" for t th'
    using unlocked_other [OF that(2)] that(1) cur(1) by simp
  have sub: "set (ReadyThreadsList s') \<subseteq> set (ReadyThreadsList s)" "distinct (ReadyThreadsList s')"
    using ready_okD(1) [OF p(1)] unfolding queues(1)
    by (cases "ReadyThreadsList s"; auto)+
  have from_ready: "nx \<in> set (ReadyThreadsList s) \<and> nx \<notin> set (ReadyThreadsList s') \<or>
      IdleThread (Cpu s c) = Some nx \<and> ReadyThreadsList s' = []"
    using nxt ready_okD(1) [OF p(1)] by (auto simp: next_thread_def queues(1) split: list.splits)
  have ready: "\<exists>th'. Threads s' t = Some th' \<and> State th' = ThreadStateReady \<and> BlockLock th' = None"
    if "t \<in> set (ReadyThreadsList s)" for t
    using ready_okD(3) [OF p(1) that] kept others cur(2) by (cases "t = cur") auto
  have idle: "\<exists>th'. Threads s' t = Some th' \<and> State th' \<noteq> ThreadStateDying \<and> BlockLock th' = None"
    if i: "IdleThread (Cpu s d) = Some t" for d t
    using idle_okD(1) [OF p(2) i] kept others [of t] cur(2) unl by (cases "t = cur") auto
  have next_other: "CurrentThread (Cpu s d) \<noteq> Some nx" if "d \<noteq> c" for d
    using from_ready running_okD(1) [OF p(4), of d nx] idle_okD(2) [OF p(2), of c nx d] that by auto
  have "ready_ok s'"
    using ready sub ready_okD(2) [OF p(1)] unfolding ready_ok_def cpus(3) by blast
  moreover have "idle_ok None s'"
    unfolding idle_ok_def unlocked_None cpus(3)
  proof (intro allI impI conjI)
    fix d t e
    assume i: "IdleThread (Cpu s d) = Some t"
    show "\<exists>th. Threads s' t = Some th \<and> State th \<noteq> ThreadStateDying \<and> BlockLock th = None"
      by (rule idle [OF i])
    assume e: "e \<noteq> d"
    show "IdleThread (Cpu s e) \<noteq> Some t"
      by (rule idle_okD(3) [OF p(2) i e])
    show "CurrentThread (Cpu s' e) \<noteq> Some t"
      using idle_okD(2) [OF p(2) i e] idle_okD(3) [OF p(2) i e] from_ready ready_okD(2) [OF p(1), of t d] i cpus(1,2)
      by (cases "e = c") auto
  qed
  moreover have "waiting_ok None s'"
    unfolding waiting_ok_def unlocked_None queues(2) cpus(3)
  proof (intro conjI allI ballI impI, goal_cases)
    case (4 q t)
    then show ?case
      using waiting_okD(4) [OF p(3) 4] kept others [of t] cur(2) unl by (cases "t = cur") auto
  qed (use waiting_okD(1-3) [OF p(3)] in blast)+
  moreover have "running_ok d s'" for d
    unfolding running_ok_def cpus(3)
  proof (intro allI impI)
    fix t
    assume t: "CurrentThread (Cpu s' d) = Some t"
    show "t \<notin> set (ReadyThreadsList s') \<and>
      (\<exists>th. Threads s' t = Some th \<and> BlockLock th = None \<and> (State th = ThreadStateRunning \<or> State th = ThreadStateReady \<or>
        IdleThread (Cpu s d) = Some t \<and> State th = ThreadStateBlocked)) \<and>
      (\<forall>e. e \<noteq> d \<longrightarrow> CurrentThread (Cpu s' e) \<noteq> Some t)"
    proof (cases "d = c")
      case True
      then have [simp]: "t = nx"
        using t cpus(1) by simp
      show ?thesis
        using from_ready next_other cpus(2) ready [of nx] idle [of c nx] True
        by (auto intro: thread_state.exhaust)
    next
      case False
      then have td: "CurrentThread (Cpu s d) = Some t" "t \<noteq> cur" "t \<noteq> nx"
        using t cpus(2) only next_other by auto
      note r = running_okD [OF p(4) td(1)]
      have "CurrentThread (Cpu s' e) \<noteq> Some t" if "e \<noteq> d" for e
        using r(2) [OF _ that] False td(3) cpus(1,2) by (cases "e = c") auto
      then show ?thesis
        using r(1,3) False td others [of t] sub(1) by auto
    qed
  qed
  ultimately show ?thesis
    by (simp add: places_def)
qed

subsection \<open>Destroying threads and processes\<close>

lemma ProcessDestroy_frame:
  assumes "ProcessDestroy E p s = Some s'"
  shows "\<exists>P L B D. s' = s\<lparr>Processes := P, ProcessList := L, PidBitmap := B, DestroyedSpaces := D\<rparr>"
proof -
  define s1 where "s1 = s\<lparr>ProcessList := RemoveEntryList (SL E) (ProcessList s) p, DestroyedSpaces := p # DestroyedSpaces s\<rparr>"
  obtain pr b where pr: "Processes s p = Some pr" "ProcessIsSystem p s = Some b"
    using assms by (cases "Processes s p"; cases "ProcessIsSystem p s") (auto simp: ProcessDestroy_def)
  then have "(if ProcId pr \<noteq> 0 then ProcessSystemFreePid E (ProcId pr) s1 else Some s1) \<bind>
      (\<lambda>s2. Some (s2\<lparr>Processes := (Processes s2)(p := None)\<rparr>)) = Some s'"
    using assms unfolding s1_def by (simp add: ProcessDestroy_def Let_def)
  then obtain s2 where s2: "(if ProcId pr \<noteq> 0 then ProcessSystemFreePid E (ProcId pr) s1 else Some s1) = Some s2"
      and s': "s' = s2\<lparr>Processes := (Processes s2)(p := None)\<rparr>"
    by (elim bind_SomeE) simp
  obtain B where "s2 = s1\<lparr>PidBitmap := B\<rparr>"
    using s2 by (cases "ProcId pr = 0") (auto simp: ProcessSystemFreePid_def intro: that [of "PidBitmap s1"])
  then have "s' = s\<lparr>Processes := (Processes s)(p := None), ProcessList := ProcessList s1, PidBitmap := B, DestroyedSpaces := DestroyedSpaces s1\<rparr>"
    unfolding s' s1_def by (intro sched.equality) simp_all
  then show ?thesis
    by blast
qed

lemma ProcessDereference_frame:
  assumes "ProcessDereference E p s = Some s'"
  shows "\<exists>P L B D. s' = s\<lparr>Processes := P, ProcessList := L, PidBitmap := B, DestroyedSpaces := D\<rparr>"
proof -
  obtain pr n where "s' = put_process p (pr\<lparr>ProcRefCnt := n\<rparr>) s \<or> ProcessDestroy E p (put_process p (pr\<lparr>ProcRefCnt := n\<rparr>) s) = Some s'"
    using assms by (auto simp: ProcessDereference_def bind_Some_iff Let_def split: if_splits)
  then show ?thesis
  proof
    assume "s' = put_process p (pr\<lparr>ProcRefCnt := n\<rparr>) s"
    then have "s' = s\<lparr>Processes := Processes s', ProcessList := ProcessList s, PidBitmap := PidBitmap s, DestroyedSpaces := DestroyedSpaces s\<rparr>"
      by simp
    then show ?thesis
      by blast
  next
    assume "ProcessDestroy E p (put_process p (pr\<lparr>ProcRefCnt := n\<rparr>) s) = Some s'"
    from ProcessDestroy_frame [OF this] show ?thesis
      by auto
  qed
qed

lemma ProcessRemove_frame:
  assumes "ProcessRemoveThreadFromList E t s = Some s'"
  shows "\<exists>P L B D. s' = s\<lparr>Processes := P, ProcessList := L, PidBitmap := B, DestroyedSpaces := D\<rparr>"
proof -
  obtain pr p s1 where first: "ProcessDereference E p (put_process p pr s) = Some s1"
      and last: "s' = s1 \<or> ProcessDereference E p s1 = Some s'"
    using assms by (auto simp: ProcessRemoveThreadFromList_def bind_Some_iff Let_def split: if_splits)
  obtain P L B D where s1: "s1 = s\<lparr>Processes := P, ProcessList := L, PidBitmap := B, DestroyedSpaces := D\<rparr>"
    using ProcessDereference_frame [OF first] by auto
  from last show ?thesis
  proof
    assume "ProcessDereference E p s1 = Some s'"
    from ProcessDereference_frame [OF this] show ?thesis
      by (auto simp: s1)
  qed (use s1 in blast)
qed

text \<open>Giving up a reference changes the thread object and lists the scheduler does not look at.\<close>

lemma ThreadDereference_frame:
  assumes "ThreadDereference E t s = Some s'"
  shows "ReadyThreadsList s' = ReadyThreadsList s" "ReadyThreadsLock s' = ReadyThreadsLock s" "Cpu s' = Cpu s"
    "Events s' = Events s" "Mutexes s' = Mutexes s" "queue s' = queue s" "u \<noteq> t \<Longrightarrow> Threads s' u = Threads s u"
    "Threads s t = Some th \<Longrightarrow> Threads s' t = None \<or> (\<exists>n. Threads s' t = Some (th\<lparr>RefCnt := n\<rparr>))"
proof -
  obtain th0 n where th0: "Threads s t = Some th0"
      and step: "s' = put_thread t (th0\<lparr>RefCnt := n\<rparr>) s \<or> ThreadDestroy E t (put_thread t (th0\<lparr>RefCnt := n\<rparr>) s) = Some s'"
    using assms by (auto simp: ThreadDereference_def bind_Some_iff Let_def split: if_splits)
  have "\<exists>x P L B D A F. s' = s\<lparr>Threads := (Threads s)(t := x), Processes := P, ProcessList := L, PidBitmap := B, DestroyedSpaces := D,
      AllThreadsList := A, FreedStacks := F\<rparr> \<and>
      (x = None \<or> x = Some (th0\<lparr>RefCnt := n\<rparr>))"
    using step
  proof
    assume "s' = put_thread t (th0\<lparr>RefCnt := n\<rparr>) s"
    then show ?thesis
      by (intro exI conjI disjI2) (auto intro!: sched.equality)
  next
    assume destroy: "ThreadDestroy E t (put_thread t (th0\<lparr>RefCnt := n\<rparr>) s) = Some s'"
    define F where "F = (if UserStack th0 \<noteq> 0 then (UserStack th0, Process th0) # FreedStacks s else FreedStacks s)"
    define y where "y = th0\<lparr>RefCnt := n, UserStack := 0\<rparr>"
    define s2 where "s2 = s\<lparr>Threads := (Threads s)(t \<mapsto> y), AllThreadsList := RemoveEntryList (SL E) (AllThreadsList s) t,
      FreedStacks := F\<rparr>"
    have "put_thread t y (if UserStack th0 \<noteq> 0
        then (put_thread t (th0\<lparr>RefCnt := n\<rparr>) s)\<lparr>AllThreadsList := RemoveEntryList (SL E) (AllThreadsList s) t,
          FreedStacks := (UserStack th0, Process th0) # FreedStacks s\<rparr>
        else (put_thread t (th0\<lparr>RefCnt := n\<rparr>) s)\<lparr>AllThreadsList := RemoveEntryList (SL E) (AllThreadsList s) t\<rparr>) = s2"
      by (rule sched.equality) (simp_all add: s2_def F_def)
    then obtain s1 where s1: "ProcessRemoveThreadFromList E t s2 = Some s1"
        "s' = (if Stack th0 \<noteq> 0 then s1\<lparr>FreedStacks := (Stack th0, None) # FreedStacks s1\<rparr> else s1)
          \<lparr>Threads := (Threads s1)(t := None)\<rparr>"
      using destroy by (auto simp: ThreadDestroy_def bind_Some_iff Let_def y_def cong: if_cong)
    then obtain P L B D where "s1 = s2\<lparr>Processes := P, ProcessList := L, PidBitmap := B, DestroyedSpaces := D\<rparr>"
      using ProcessRemove_frame by blast
    then show ?thesis
      using s1(2) by (intro exI conjI disjI1 refl) (rule sched.equality, simp_all add: s2_def)
  qed
  then obtain x P L B D A F where s': "s' = s\<lparr>Threads := (Threads s)(t := x), Processes := P, ProcessList := L, PidBitmap := B,
      DestroyedSpaces := D, AllThreadsList := A, FreedStacks := F\<rparr>"
      "x = None \<or> x = Some (th0\<lparr>RefCnt := n\<rparr>)"
    by blast
  show "ReadyThreadsList s' = ReadyThreadsList s" "ReadyThreadsLock s' = ReadyThreadsLock s" "Cpu s' = Cpu s"
    "Events s' = Events s" "Mutexes s' = Mutexes s" "queue s' = queue s" "u \<noteq> t \<Longrightarrow> Threads s' u = Threads s u"
    "Threads s t = Some th \<Longrightarrow> Threads s' t = None \<or> (\<exists>n. Threads s' t = Some (th\<lparr>RefCnt := n\<rparr>))"
    using s' th0 by (auto simp: s'(1))
qed

subsection \<open>Scheduling\<close>

text \<open>The state before \<open>ThreadCleanupPostSchedule\<close>, \<open>nx\<close> being the next thread.\<close>

definition switched :: "nat \<Rightarrow> nat \<Rightarrow> thread \<Rightarrow> nat \<Rightarrow> sched \<Rightarrow> sched \<Rightarrow> bool" where
  "switched c cur th nx s s' \<longleftrightarrow> ReadyThreadsList s' = tl (ReadyThreadsList s) \<and> ReadyThreadsLock s' = ReadyThreadsLock s \<and>
     Events s' = Events s \<and> Mutexes s' = Mutexes s \<and> Processes s' = Processes s \<and>
     PreviousThread (Cpu s' c) = Some cur \<and> CurrentThread (Cpu s' c) = Some nx \<and>
     IdleThread (Cpu s' c) = IdleThread (Cpu s c) \<and> (\<forall>d. d \<noteq> c \<longrightarrow> Cpu s' d = Cpu s d) \<and>
     (\<forall>t. t \<noteq> cur \<longrightarrow> Threads s' t = Threads s t) \<and> Threads s' cur =
       Some (th\<lparr>UninterruptedTicks := if nx = cur then UninterruptedTicks th + 1 else 0\<rparr>)"

lemma queue_eqI: "Events s' = Events s \<Longrightarrow> Mutexes s' = Mutexes s \<Longrightarrow> queue s' = queue s"
  by (rule ext, case_tac x) simp_all

definition process_ok :: "sched \<Rightarrow> nat \<Rightarrow> nat \<Rightarrow> bool" where
  "process_ok s cur nx \<longleftrightarrow> (\<exists>th. Threads s nx = Some th \<and>
     (nx = cur \<or> Process th \<noteq> None \<or> map_option Process (Threads s cur) = Some None))"

context sched_contracts
begin

lemma ThreadGetReadyThread_eq:
  assumes "ready_ok s" and "ReadyThreadsLock s = Some c"
  shows "ThreadGetReadyThread E c s = map_option (\<lambda>nx. (nx, s\<lparr>ReadyThreadsList := tl (ReadyThreadsList s),
    IdleUpdates := (c, ReadyThreadsList s = []) # IdleUpdates s\<rparr>)) (next_thread c s)"
proof (cases "ReadyThreadsList s")
  case Nil
  then show ?thesis
    using assms(2) by (cases "IdleThread (Cpu s c)") (simp_all add: ThreadGetReadyThread_def lib_simps next_thread_def)
next
  case (Cons t ts)
  then obtain th where "Threads s t = Some th" "State th = ThreadStateReady"
    using ready_okD(3) [OF assms(1), of t] by auto
  then show ?thesis
    using Cons assms(2) by (simp add: ThreadGetReadyThread_def lib_simps next_thread_def)
qed

lemma ThreadSchedule_switched:
  assumes "ready_ok s" and lock: "ReadyThreadsLock s = Some c"
    and cur: "CurrentThread (Cpu s c) = Some cur" "Threads s cur = Some th"
  shows "(\<exists>nx s1. next_thread c s = Some nx \<and> process_ok s cur nx \<and> switched c cur th nx s s1 \<and>
      ThreadSchedule E c s = ThreadCleanupPostSchedule E c s1) \<or>
    ((\<forall>nx. next_thread c s = Some nx \<longrightarrow> \<not> process_ok s cur nx) \<and> ThreadSchedule E c s = None)"
proof -
  let ?s0 = "put_cpu c ((Cpu s c)\<lparr>PreviousThread := Some cur\<rparr>) s"
  have get: "ThreadGetReadyThread E c ?s0 = map_option (\<lambda>nx. (nx, ?s0\<lparr>ReadyThreadsList := tl (ReadyThreadsList s),
      IdleUpdates := (c, ReadyThreadsList s = []) # IdleUpdates s\<rparr>)) (next_thread c s)"
    using ThreadGetReadyThread_eq [of ?s0 c] assms(1) lock by (simp add: ready_ok_def next_thread_def cong: list.case_cong)
  show ?thesis
  proof (cases "next_thread c s")
    case None
    then show ?thesis
      using get lock cur by (simp add: ThreadSchedule_def lib_simps current_thread_def)
  next
    case (Some nx)
    let ?s1 = "?s0\<lparr>ReadyThreadsList := tl (ReadyThreadsList s), IdleUpdates := (c, ReadyThreadsList s = []) # IdleUpdates s\<rparr>"
    show ?thesis
    proof (cases "nx = cur")
      case True
      let ?s2 = "put_thread cur (th\<lparr>UninterruptedTicks := UninterruptedTicks th + 1\<rparr>) ?s1"
      have "ThreadSchedule E c s = ThreadCleanupPostSchedule E c ?s2"
        using get lock cur Some True by (simp add: ThreadSchedule_def lib_simps current_thread_def)
      moreover have "switched c cur th nx s ?s2" "process_ok s cur nx"
        using cur True by (simp_all add: switched_def process_ok_def)
      ultimately show ?thesis
        using Some by blast
    next
      case False
      show ?thesis
      proof (cases "process_ok s cur nx")
        case True
        then obtain thn where thn: "Threads s nx = Some thn" "Process thn \<noteq> None \<or> Process th = Process thn"
          using cur(2) False by (fastforce simp: process_ok_def)
        define S where "S = (if Process th \<noteq> Process thn then (ActiveSpace s)(c := Process thn) else ActiveSpace s)"
        let ?s2 = "put_cpu c ((Cpu ?s1 c)\<lparr>CurrentThread := Some nx, StackTop := InitialStackBase thn, CpuStackSize := StackSize thn\<rparr>)
          (put_thread cur (th\<lparr>UninterruptedTicks := 0\<rparr>) (?s1\<lparr>ActiveSpace := S\<rparr>))"
        have "ThreadSchedule E c s = ThreadCleanupPostSchedule E c ?s2"
          using get lock cur Some False thn
          by (auto simp: ThreadSchedule_def lib_simps current_thread_def S_def SetCurrentThread_def)
        moreover have "switched c cur th nx s ?s2"
          using cur False by (simp add: switched_def)
        ultimately show ?thesis
          using Some True by blast
      next
        case proc: False
        then have "ThreadSchedule E c s = None"
          using get lock cur Some False
          by (auto simp: ThreadSchedule_def lib_simps current_thread_def process_ok_def split: bind_splits)
        then show ?thesis
          using Some proc by auto
      qed
    qed
  qed
qed

end

text \<open>The state after it.\<close>

definition handed_over :: "nat \<Rightarrow> nat \<Rightarrow> thread \<Rightarrow> nat \<Rightarrow> sched \<Rightarrow> sched \<Rightarrow> bool" where
  "handed_over c cur th nx s s' \<longleftrightarrow> ReadyThreadsList s' = tl (ReadyThreadsList s) \<and> ReadyThreadsLock s' = None \<and>
     Events s' = Events s \<and> Mutexes s' = Mutexes s \<and> CurrentThread (Cpu s' c) = Some nx \<and>
     IdleThread (Cpu s' c) = IdleThread (Cpu s c) \<and> (\<forall>d. d \<noteq> c \<longrightarrow> Cpu s' d = Cpu s d) \<and>
     (\<forall>t. t \<noteq> cur \<longrightarrow> Threads s' t = Threads s t) \<and>
     (State th \<noteq> ThreadStateDying \<longrightarrow> Processes s' = Processes s \<and> Threads s' cur =
       Some (th\<lparr>BlockLock := None, UninterruptedTicks := if nx = cur then UninterruptedTicks th + 1 else 0\<rparr>))"

context sched_contracts
begin

lemma ThreadCleanup_handed:
  assumes sw: "switched c cur th nx s s1" and lv: "leaving c s cur th" and lock: "ReadyThreadsLock s = Some c"
  shows "ThreadCleanupPostSchedule E c s1 = Some s' \<Longrightarrow> handed_over c cur th nx s s'"
    and "State th \<noteq> ThreadStateDying \<Longrightarrow> \<exists>s'. ThreadCleanupPostSchedule E c s1 = Some s'"
proof -
  define s2 where "s2 = (put_cpu c ((Cpu s1 c)\<lparr>RunningThreadTicks := 0\<rparr>) s1)\<lparr>ReadyThreadsLock := None\<rparr>"
  define th1 where "th1 = th\<lparr>UninterruptedTicks := if nx = cur then UninterruptedTicks th + 1 else 0\<rparr>"
  have th1: "Threads s2 cur = Some th1" "State th1 = State th" "BlockLock th1 = BlockLock th"
    "PreviousThread (Cpu s1 c) = Some cur" "Threads s1 cur = Some th1"
    using sw by (simp_all add: switched_def s2_def th1_def)
  have eq: "ThreadCleanupPostSchedule E c s1 =
    (if BlockLock th = Some c then do {
       ASSERT (State th = ThreadStateBlocked \<or> Some cur = IdleThread (Cpu s c));
       Some (put_thread cur (th1\<lparr>BlockLock := None\<rparr>) s2)
     }
     else if State th = ThreadStateDying then do {
       s \<leftarrow> ThreadDereference E cur s2;
       Some (put_cpu c ((Cpu s c)\<lparr>PreviousThread := None\<rparr>) s)
     }
     else Some s2)"
    using th1 sw lock by (simp add: ThreadCleanupPostSchedule_def lib_simps s2_def switched_def)
  have th1_eq: "BlockLock th = None \<Longrightarrow> th1\<lparr>BlockLock := None\<rparr> = th1"
    by (simp add: th1_def)
  show "handed_over c cur th nx s s'" if some: "ThreadCleanupPostSchedule E c s1 = Some s'"
  proof (cases "State th = ThreadStateDying")
    case False
    then show ?thesis
      using some lv sw th1 unfolding eq leaving_def
      by (auto simp: handed_over_def switched_def s2_def th1_def fun_upd_def)
  next
    case True
    then obtain s3 where s3: "ThreadDereference E cur s2 = Some s3"
        and s': "s' = put_cpu c ((Cpu s3 c)\<lparr>PreviousThread := None\<rparr>) s3"
      using some lv unfolding eq leaving_def by (auto simp: bind_Some_iff)
    show ?thesis
      using ThreadDereference_frame(1-5,7) [OF s3] sw True
      by (simp add: handed_over_def s' s2_def switched_def)
  qed
  show "\<exists>s'. ThreadCleanupPostSchedule E c s1 = Some s'" if "State th \<noteq> ThreadStateDying"
    using that lv unfolding eq leaving_def by auto
qed

lemma ThreadSchedule_handed:
  assumes "ready_ok s" and "ReadyThreadsLock s = Some c" and "leaving c s cur th"
    and "CurrentThread (Cpu s c) = Some cur" "Threads s cur = Some th"
    and "ThreadSchedule E c s = Some s'"
  obtains nx where "next_thread c s = Some nx" and "process_ok s cur nx" and "handed_over c cur th nx s s'"
  using ThreadSchedule_switched [OF assms(1,2,4,5)] ThreadCleanup_handed(1) [OF _ assms(3,2)] assms(6) by auto

lemma ThreadSchedule_total:
  assumes "ready_ok s" and "ReadyThreadsLock s = Some c" and "leaving c s cur th" and "State th \<noteq> ThreadStateDying"
    and "CurrentThread (Cpu s c) = Some cur" "Threads s cur = Some th"
    and "next_thread c s = Some nx" and "process_ok s cur nx"
  shows "\<exists>s'. ThreadSchedule E c s = Some s' \<and> handed_over c cur th nx s s'"
  using ThreadSchedule_switched [OF assms(1,2,5,6)] ThreadCleanup_handed [OF _ assms(3,2)] assms(4,7,8)
  by fastforce

lemma ThreadSchedule_inv:
  assumes pl: "places (Some c) s" and lock: "ReadyThreadsLock s = Some c"
    and cur: "CurrentThread (Cpu s c) = Some cur" "Threads s cur = Some th"
    and only: "\<And>d. d \<noteq> c \<Longrightarrow> CurrentThread (Cpu s d) \<noteq> Some cur"
    and lv: "leaving c s cur th" and some: "ThreadSchedule E c s = Some s'"
  shows "sched_inv s'"
proof -
  obtain nx where nx: "next_thread c s = Some nx" and ho: "handed_over c cur th nx s s'"
    using ThreadSchedule_handed [OF placesD(1) [OF pl] lock lv cur some] by blast
  have "places None s'"
  proof (rule switch_places [OF pl cur only lv nx])
    show "queue s' = queue s"
      using ho by (intro queue_eqI) (simp_all add: handed_over_def)
    show "IdleThread (Cpu s' d) = IdleThread (Cpu s d)" for d
      using ho by (cases "d = c") (simp_all add: handed_over_def)
    show "State th \<noteq> ThreadStateDying \<Longrightarrow> \<exists>th'. Threads s' cur = Some th' \<and> State th' = State th \<and> BlockLock th' = None"
      using ho by (simp add: handed_over_def)
  qed (use ho in \<open>simp_all add: handed_over_def\<close>)
  then show ?thesis
    using ho by (simp add: sched_inv_def handed_over_def)
qed

end

subsection \<open>The operations keep the invariant\<close>

lemma currentD:
  assumes inv: "sched_inv s" and cur: "current_thread c s = Some (cur, th)"
  shows "CurrentThread (Cpu s c) = Some cur" "Threads s cur = Some th" "BlockLock th = None" "cur \<notin> set (ReadyThreadsList s)"
    "cur \<notin> set (queue s q)" "d \<noteq> c \<Longrightarrow> CurrentThread (Cpu s d) \<noteq> Some cur" "State th \<noteq> ThreadStateDying"
    "State th = ThreadStateBlocked \<Longrightarrow> IdleThread (Cpu s c) = Some cur"
    "ReadyThreadsLock s = None" "places (Some c) s" "d \<noteq> c \<Longrightarrow> IdleThread (Cpu s d) \<noteq> Some cur"
proof -
  have pl: "places None s" "ReadyThreadsLock s = None"
    using inv by (simp_all add: sched_inv_def)
  show c: "CurrentThread (Cpu s c) = Some cur" and t: "Threads s cur = Some th"
    using cur by (auto simp: current_thread_def bind_Some_iff)
  note r = running_okD [OF placesD(4) [OF pl(1)] c]
  show "BlockLock th = None" and "cur \<notin> set (ReadyThreadsList s)" and "State th \<noteq> ThreadStateDying"
    and "State th = ThreadStateBlocked \<Longrightarrow> IdleThread (Cpu s c) = Some cur"
    and "d \<noteq> c \<Longrightarrow> CurrentThread (Cpu s d) \<noteq> Some cur"
    using r t by auto
  show "cur \<notin> set (queue s q)"
    using waiting_okD(3,4) [OF placesD(3) [OF pl(1)], of cur q] r(3) t by fastforce
  show "ReadyThreadsLock s = None" "places (Some c) s"
    using pl places_begin by blast+
  show "IdleThread (Cpu s d) \<noteq> Some cur" if "d \<noteq> c"
    using idle_okD(2) [OF placesD(2) [OF pl(1)], of d cur c] that c by auto
qed

lemma current_not_idle:
  "sched_inv s \<Longrightarrow> current_thread c s = Some (cur, th) \<Longrightarrow> IdleThread (Cpu s c) \<noteq> Some cur \<Longrightarrow> IdleThread (Cpu s d) \<noteq> Some cur"
  using currentD(11) [of s c cur th d] by (cases "d = c") auto

text \<open>Changes of the current thread inside a scheduler routine.\<close>

lemma move_current_places:
  assumes pl: "places (Some c) s" and only: "\<And>d. d \<noteq> c \<Longrightarrow> CurrentThread (Cpu s d) \<noteq> Some cur"
    and th: "Threads s' = (Threads s)(cur \<mapsto> th)"
    and cpu: "\<And>d. IdleThread (Cpu s' d) = IdleThread (Cpu s d)" "\<And>d. CurrentThread (Cpu s' d) = CurrentThread (Cpu s d)"
    and idle: "\<And>d. IdleThread (Cpu s d) = Some cur \<Longrightarrow> State th \<noteq> ThreadStateDying \<and> unlocked (Some c) s cur th"
    and ready: "distinct (ReadyThreadsList s')" "set (ReadyThreadsList s') \<subseteq> insert cur (set (ReadyThreadsList s))"
    and ready_cur: "cur \<in> set (ReadyThreadsList s') \<Longrightarrow> State th = ThreadStateReady \<and> BlockLock th = None \<and> (\<forall>d. IdleThread (Cpu s d) \<noteq> Some cur)"
    and wait: "\<And>q. distinct (queue s' q)" "\<And>q. set (queue s' q) \<subseteq> insert cur (set (queue s q))"
      "\<And>q q'. cur \<in> set (queue s' q) \<Longrightarrow> cur \<in> set (queue s' q') \<Longrightarrow> q' = q"
    and wait_cur: "\<And>q. cur \<in> set (queue s' q) \<Longrightarrow> State th = ThreadStateBlocked \<and> unlocked (Some c) s cur th \<and> (\<forall>d. IdleThread (Cpu s d) \<noteq> Some cur)"
  shows "places (Some c) s'"
proof -
  note p = placesD [OF pl]
  have un: "unlocked (Some c) s' t x = unlocked (Some c) s t x" for t x
    by (simp add: unlocked_def cpu)
  have upd: "Threads s' cur = Some th" "t \<noteq> cur \<Longrightarrow> Threads s' t = Threads s t" for t
    by (simp_all add: th)
  have "ready_ok s'"
    unfolding ready_ok_def cpu
  proof (intro conjI ballI allI ready(1), goal_cases)
    case (1 t d)
    then show ?case
      using ready(2) ready_cur ready_okD(2) [OF p(1), of t d] by (cases "t = cur") auto
  next
    case (2 t)
    then show ?case
      using ready(2) ready_cur ready_okD(3) [OF p(1), of t] upd by (cases "t = cur") auto
  qed
  moreover have "idle_ok (Some c) s'"
    unfolding idle_ok_def un cpu
  proof (intro allI impI conjI, goal_cases)
    case (1 d t)
    then show ?case
      using idle idle_okD(1) [OF p(2) 1] upd by (cases "t = cur") auto
  qed (use idle_okD(2,3) [OF p(2)] in blast)+
  moreover have "waiting_ok (Some c) s'"
    unfolding waiting_ok_def un cpu
  proof (intro conjI allI ballI impI wait(1), goal_cases)
    case (1 q q')
    then show ?case
      using wait(2) [of q] wait(2) [of q'] wait(3) [of q q'] waiting_okD(2) [OF p(3) 1] by blast
  next
    case (2 q t d)
    then show ?case
      using wait(2) wait_cur waiting_okD(3) [OF p(3), of t q d] by (cases "t = cur") auto
  next
    case (3 q t)
    then show ?case
      using wait(2) wait_cur waiting_okD(4) [OF p(3), of t q] upd by (cases "t = cur") auto
  qed
  moreover have "running_ok d s'" if "Some c \<noteq> Some d" for d
    unfolding running_ok_def cpu
  proof (intro allI impI)
    fix t
    assume t: "CurrentThread (Cpu s d) = Some t"
    then have "t \<noteq> cur"
      using only that by auto
    then show "t \<notin> set (ReadyThreadsList s') \<and> (\<exists>th. Threads s' t = Some th \<and> BlockLock th = None \<and>
        (State th = ThreadStateRunning \<or> State th = ThreadStateReady \<or> IdleThread (Cpu s d) = Some t \<and> State th = ThreadStateBlocked)) \<and>
        (\<forall>e. e \<noteq> d \<longrightarrow> CurrentThread (Cpu s e) \<noteq> Some t)"
      using running_okD [OF p(4) [OF that] t] upd(2) [of t] ready(2) by auto
  qed
  ultimately show ?thesis
    unfolding places_def by blast
qed

text \<open>Its three uses: the thread stays where it is, becomes ready, or queues up.\<close>

lemma put_current_places:
  assumes inv: "sched_inv s" and cur: "current_thread c s = Some (cur, th0)"
    and idle: "\<And>d. IdleThread (Cpu s d) = Some cur \<Longrightarrow> State th \<noteq> ThreadStateDying \<and> (BlockLock th = None \<or> BlockLock th = Some c)"
    and s': "Threads s' = (Threads s)(cur \<mapsto> th)" "ReadyThreadsList s' = ReadyThreadsList s" "queue s' = queue s"
      "\<And>d. IdleThread (Cpu s' d) = IdleThread (Cpu s d)" "\<And>d. CurrentThread (Cpu s' d) = CurrentThread (Cpu s d)"
  shows "places (Some c) s'"
proof (rule move_current_places [OF currentD(10,6) [OF inv cur] s'(1,4,5)])
  note c = currentD [OF inv cur]
  show "State th \<noteq> ThreadStateDying \<and> unlocked (Some c) s cur th" if "IdleThread (Cpu s d) = Some cur" for d
    using idle [OF that] c(1) by (simp add: unlocked_def)
  show "distinct (ReadyThreadsList s')" "distinct (queue s' q)" for q
    using ready_okD(1) [OF placesD(1) [OF c(10)]] waiting_okD(1) [OF placesD(3) [OF c(10)]] by (simp_all add: s'(2,3))
qed (use currentD(4,5) [OF inv cur] in \<open>auto simp: s'(2,3)\<close>)

lemma ready_current_places:
  assumes inv: "sched_inv s" and cur: "current_thread c s = Some (cur, th0)"
    and idle: "IdleThread (Cpu s c) \<noteq> Some cur"
    and th: "State th = ThreadStateReady" "BlockLock th = None"
    and s': "Threads s' = (Threads s)(cur \<mapsto> th)" "ReadyThreadsList s' = ReadyThreadsList s @ [cur]" "queue s' = queue s"
      "\<And>d. IdleThread (Cpu s' d) = IdleThread (Cpu s d)" "\<And>d. CurrentThread (Cpu s' d) = CurrentThread (Cpu s d)"
  shows "places (Some c) s'"
proof (rule move_current_places [OF currentD(10,6) [OF inv cur] s'(1,4,5)])
  note c = currentD [OF inv cur]
  have i: "IdleThread (Cpu s d) \<noteq> Some cur" for d
    using c(11) [of d] idle by (cases "d = c") auto
  then show "State th \<noteq> ThreadStateDying \<and> unlocked (Some c) s cur th" if "IdleThread (Cpu s d) = Some cur" for d
    using that by simp
  show "State th = ThreadStateReady \<and> BlockLock th = None \<and> (\<forall>d. IdleThread (Cpu s d) \<noteq> Some cur)"
    using i th by simp
  show "distinct (ReadyThreadsList s')" "distinct (queue s' q)" for q
    using ready_okD(1) [OF placesD(1) [OF c(10)]] waiting_okD(1) [OF placesD(3) [OF c(10)]] c(4) by (simp_all add: s'(2,3))
qed (use currentD(5) [OF inv cur] in \<open>auto simp: s'(2,3)\<close>)

lemma queue_current_places:
  assumes inv: "sched_inv s" and cur: "current_thread c s = Some (cur, th0)"
    and idle: "IdleThread (Cpu s c) \<noteq> Some cur"
    and th: "State th = ThreadStateBlocked" "BlockLock th = Some c"
    and s': "Threads s' = (Threads s)(cur \<mapsto> th)" "ReadyThreadsList s' = ReadyThreadsList s" "queue s' = (queue s)(q := queue s q @ [cur])"
      "\<And>d. IdleThread (Cpu s' d) = IdleThread (Cpu s d)" "\<And>d. CurrentThread (Cpu s' d) = CurrentThread (Cpu s d)"
  shows "places (Some c) s'"
proof (rule move_current_places [OF currentD(10,6) [OF inv cur] s'(1,4,5)])
  note c = currentD [OF inv cur]
  have i: "IdleThread (Cpu s d) \<noteq> Some cur" for d
    using c(11) [of d] idle by (cases "d = c") auto
  then show "State th \<noteq> ThreadStateDying \<and> unlocked (Some c) s cur th" if "IdleThread (Cpu s d) = Some cur" for d
    using that by simp
  show "State th = ThreadStateBlocked \<and> unlocked (Some c) s cur th \<and> (\<forall>d. IdleThread (Cpu s d) \<noteq> Some cur)"
    using i th c(1) by (simp add: unlocked_def)
  show "distinct (ReadyThreadsList s')" "distinct (queue s' q1)" for q1
    using ready_okD(1) [OF placesD(1) [OF c(10)]] waiting_okD(1) [OF placesD(3) [OF c(10)]] c(5) by (simp_all add: s'(2,3))
  show "q2 = q1" if "cur \<in> set (queue s' q1)" "cur \<in> set (queue s' q2)" for q1 q2
    using that c(5) by (auto simp: s'(3) split: if_splits)
qed (use currentD(4,5) [OF inv cur] in \<open>auto simp: s'(2,3)\<close>)

text \<open>What the loop of a signal leaves alone.\<close>

definition signal_frame :: "sched \<Rightarrow> sched \<Rightarrow> bool" where
  "signal_frame s s' \<longleftrightarrow> Cpu s' = Cpu s \<and> Processes s' = Processes s \<and> Mutexes s' = Mutexes s \<and>
     ReadyThreadsLock s' = ReadyThreadsLock s \<and>
     (\<forall>t th. Threads s t = Some th \<longrightarrow> State th \<noteq> ThreadStateBlocked \<longrightarrow> Threads s' t = Some th)"

lemma signal_frame_refl [simp]: "signal_frame s s"
  by (simp add: signal_frame_def)

lemma signal_frame_trans: "signal_frame s s1 \<Longrightarrow> signal_frame s1 s' \<Longrightarrow> signal_frame s s'"
  by (simp add: signal_frame_def)

context sched_contracts
begin

lemma ExEventSignal_loop_frame: "ExEventSignal_loop E c e n s = Some s' \<Longrightarrow> signal_frame s s'"
proof (induction n arbitrary: s)
  case (Suc n)
  show ?case
  proof (cases "WaitingList (Events s e)")
    case Nil
    then show ?thesis
      using Suc.prems by (auto simp: lib_simps signal_frame_def)
  next
    case (Cons t ws)
    let ?s1 = "put_event e ((Events s e)\<lparr>WaitingList := ws\<rparr>) s"
    obtain s2 where s2: "ThreadUnblock E c t ?s1 = Some s2"
        "(if EventType (Events s2 e) = ExEventTypeSynchronization then Some s2 else ExEventSignal_loop E c e n s2) = Some s'"
      using Suc.prems Cons by (auto simp: lib_simps bind_Some_iff)
    then have "signal_frame s s2"
      by (auto simp: ThreadUnblock_iff signal_frame_def)
    then show ?thesis
      using s2(2) Suc.IH [of s2] signal_frame_trans by (auto split: if_splits)
  qed
qed simp

lemma ExEventSignal_frame: "ExEventSignal E c e s = Some s' \<Longrightarrow> signal_frame s s'"
  unfolding ExEventSignal_def by (drule ExEventSignal_loop_frame) (simp add: signal_frame_def)

lemma event_flag_places: "WaitingList ev = WaitingList (Events s e) \<Longrightarrow> places X (put_event e ev s) = places X s"
  by (rule places_cong) (simp_all add: queue_event_upd fun_eq_iff)

lemma ExEventSignal_places: "places X s \<Longrightarrow> ExEventSignal E c e s = Some s' \<Longrightarrow> places X s'"
  unfolding ExEventSignal_def
  by (erule ExEventSignal_loop_places [rotated]) (subst event_flag_places, simp_all)

lemma ExEventSignal_inv: "sched_inv s \<Longrightarrow> ExEventSignal E c e s = Some s' \<Longrightarrow> sched_inv s'"
  using ExEventSignal_places [of None s c e s'] ExEventSignal_frame [of c e s s'] by (simp add: sched_inv_def signal_frame_def)

lemma ProcessNotify_places:
  assumes "places X s" and "ProcessNotifyThreadTermination E c t s = Some s'"
  shows "places X s'" and "ReadyThreadsLock s' = ReadyThreadsLock s" and "Cpu s' = Cpu s"
    and "Threads s u = Some th \<Longrightarrow> State th \<noteq> ThreadStateBlocked \<Longrightarrow> Threads s' u = Some th"
proof -
  obtain p pr where step: "s' = put_process p pr s \<or> ExEventSignal E c (ProcessEvt p) (put_process p pr s) = Some s'"
    using assms(2) by (auto simp: ProcessNotifyThreadTermination_def bind_Some_iff Let_def split: if_splits)
  have "places X (put_process p pr s)"
    using assms(1) by (subst places_cong [of _ s]) simp_all
  then have "places X s' \<and> signal_frame (put_process p pr s) s'"
    using step ExEventSignal_places ExEventSignal_frame by fastforce
  then show "places X s'" and "ReadyThreadsLock s' = ReadyThreadsLock s" and "Cpu s' = Cpu s"
    and "Threads s u = Some th \<Longrightarrow> State th \<noteq> ThreadStateBlocked \<Longrightarrow> Threads s' u = Some th"
    by (simp_all add: signal_frame_def)
qed

lemma ThreadExit_inv:
  assumes inv: "sched_inv s" and cur: "current_thread c s = Some (cur, th)" and idle: "IdleThread (Cpu s c) \<noteq> Some cur"
    and some: "ThreadExit E c st s = Some s'"
  shows "sched_inv s'"
proof -
  note c = currentD [OF inv cur]
  define th1 where "th1 = th\<lparr>State := ThreadStateDying, ExitStatus := st\<rparr>"
  obtain s1 s2 where s1: "ExEventSignal E c (ThreadEvt cur) (put_thread cur th1 s) = Some s1"
      and s2: "ProcessNotifyThreadTermination E c cur s1 = Some s2" and s3: "ReadyThreadsLock s2 = None"
      "ThreadSchedule E c (s2\<lparr>ReadyThreadsLock := Some c\<rparr>) = Some s'"
    using some cur c(3) by (auto simp: ThreadExit_def bind_Some_iff lib_simps lock_acquire th1_def)
  have "places (Some c) (put_thread cur th1 s)"
    using current_not_idle [OF inv cur idle] by (intro put_current_places [OF inv cur]) (simp_all add: th1_def)
  then have p1: "places (Some c) s1"
    by (rule ExEventSignal_places [OF _ s1])
  have f1: "Cpu s1 = Cpu s" "Threads s1 cur = Some th1"
    using ExEventSignal_frame [OF s1] by (simp_all add: signal_frame_def th1_def)
  note p2 = ProcessNotify_places [OF p1 s2]
  have f2: "Cpu s2 = Cpu s" "Threads s2 cur = Some th1"
    using p2(3,4) f1 by (simp_all add: th1_def)
  let ?s3 = "s2\<lparr>ReadyThreadsLock := Some c\<rparr>"
  have "places (Some c) ?s3"
    using p2(1) by (subst places_cong [of _ s2]) simp_all
  then show ?thesis
    by (rule ThreadSchedule_inv [where cur = cur and th = th1, OF _ _ _ _ _ _ s3(2)]) (use f2 c in \<open>simp_all add: leaving_def th1_def\<close>)
qed

lemma ThreadForcedExit_inv:
  assumes inv: "sched_inv s" and cur: "current_thread c s = Some (cur, th)" and idle: "IdleThread (Cpu s c) \<noteq> Some cur"
    and some: "ThreadForcedExit E c s = Some s'"
  shows "sched_inv s'"
proof -
  note c = currentD [OF inv cur]
  define th1 where "th1 = th\<lparr>Flags := Flags th OR THREAD_FLAG_FORCE_TERMINATED\<rparr>"
  let ?s1 = "put_thread cur th1 s"
  have inv1: "sched_inv ?s1"
    unfolding sched_inv_def
  proof (intro conjI places_end [of c])
    show "places (Some c) ?s1"
      using current_not_idle [OF inv cur idle] by (intro put_current_places [OF inv cur]) simp_all
    show "running_ok c ?s1"
      using running_okD [OF placesD(4), of None s c cur] inv c(1-3) by (simp add: running_ok_def th1_def sched_inv_def)
  qed (use c in simp)
  have cur1: "current_thread c ?s1 = Some (cur, th1)"
    using c(1) by (simp add: current_thread_def)
  show ?thesis
    by (rule ThreadExit_inv [OF inv1 cur1]) (use idle some cur in \<open>simp_all add: ThreadForcedExit_def th1_def\<close>)
qed

end

text \<open>The states in which \<open>ThreadYield\<close> and \<open>ThreadBlock\<close> call the scheduler.\<close>

definition yielding :: "nat \<Rightarrow> nat \<Rightarrow> thread \<Rightarrow> sched \<Rightarrow> thread" where
  "yielding c cur th s = th\<lparr>State := ThreadStateReady,
     TickCountEarly := if YieldOnInterruptReturn (Cpu s c) then TickCountEarly th else TickCountEarly th + 1\<rparr>"

definition yield_state :: "nat \<Rightarrow> nat \<Rightarrow> thread \<Rightarrow> sched \<Rightarrow> sched" where
  "yield_state c cur th s = put_thread cur (yielding c cur th s)
     (s\<lparr>Cpu := (Cpu s)(c := (Cpu s c)\<lparr>YieldOnInterruptReturn := False\<rparr>), ReadyThreadsLock := Some c,
        ReadyThreadsList := if IdleThread (Cpu s c) = Some cur then ReadyThreadsList s else ReadyThreadsList s @ [cur]\<rparr>)"

definition blocking :: "nat \<Rightarrow> thread \<Rightarrow> thread" where
  "blocking c th = th\<lparr>TickCountEarly := TickCountEarly th + 1, State := ThreadStateBlocked, BlockLock := Some c\<rparr>"

definition block_state :: "nat \<Rightarrow> nat \<Rightarrow> thread \<Rightarrow> sched \<Rightarrow> sched" where
  "block_state c cur th s = (put_thread cur (blocking c th) s)\<lparr>ReadyThreadsLock := Some c\<rparr>"

lemma yield_state_cpu:
  "CurrentThread (Cpu (yield_state c cur th s) d) = CurrentThread (Cpu s d)"
  "IdleThread (Cpu (yield_state c cur th s) d) = IdleThread (Cpu s d)"
  "Threads (yield_state c cur th s) = (Threads s)(cur \<mapsto> yielding c cur th s)"
  "queue (yield_state c cur th s) = queue s"
  "ReadyThreadsList (yield_state c cur th s) =
     ReadyThreadsList s @ (if IdleThread (Cpu s c) = Some cur then [] else [cur])"
  by (simp_all add: yield_state_def)

lemma block_state_sel [simp]:
  "Cpu (block_state c cur th s) = Cpu s" "Threads (block_state c cur th s) = (Threads s)(cur \<mapsto> blocking c th)"
  "ReadyThreadsList (block_state c cur th s) = ReadyThreadsList s" "queue (block_state c cur th s) = queue s"
  "ReadyThreadsLock (block_state c cur th s) = Some c" "Events (block_state c cur th s) = Events s"
  "Mutexes (block_state c cur th s) = Mutexes s" "Processes (block_state c cur th s) = Processes s"
  by (simp_all add: block_state_def)

lemma yield_places:
  assumes inv: "sched_inv s" and cur: "current_thread c s = Some (cur, th)"
  shows "places (Some c) (yield_state c cur th s)" and "leaving c (yield_state c cur th s) cur (yielding c cur th s)"
proof -
  note c = currentD [OF inv cur]
  show "places (Some c) (yield_state c cur th s)"
  proof (cases "IdleThread (Cpu s c) = Some cur")
    case True
    then show ?thesis
      using c(3) by (intro put_current_places [OF inv cur _ yield_state_cpu(3)])
        (simp_all add: yielding_def yield_state_cpu)
  next
    case False
    then show ?thesis
      using c(3) by (intro ready_current_places [OF inv cur False _ _ yield_state_cpu(3)])
        (simp_all add: yielding_def yield_state_cpu)
  qed
  show "leaving c (yield_state c cur th s) cur (yielding c cur th s)"
    using c(3) by (simp add: leaving_def yield_state_cpu yielding_def)
qed

context sched_contracts
begin

lemma ThreadYield_eq:
  assumes inv: "sched_inv s" and cur: "current_thread c s = Some (cur, th)"
    and flags: "Flags th \<noteq> THREAD_FLAG_FORCE_TERMINATE_PENDING"
  shows "ThreadYield E c s = ThreadSchedule E c (yield_state c cur th s)"
proof -
  have "put_thread cur (yielding c cur th s)
      (if IdleThread (Cpu s c) \<noteq> Some cur
       then s\<lparr>Cpu := (Cpu s)(c := (Cpu s c)\<lparr>YieldOnInterruptReturn := False\<rparr>), ReadyThreadsLock := Some c,
              ReadyThreadsList := ReadyThreadsList s @ [cur]\<rparr>
       else s\<lparr>Cpu := (Cpu s)(c := (Cpu s c)\<lparr>YieldOnInterruptReturn := False\<rparr>), ReadyThreadsLock := Some c\<rparr>) =
      yield_state c cur th s"
    by (rule sched.equality) (simp_all add: yield_state_def)
  moreover have "(if YieldOnInterruptReturn (Cpu s c) then th else th\<lparr>TickCountEarly := TickCountEarly th + 1\<rparr>)
      \<lparr>State := ThreadStateReady\<rparr> = yielding c cur th s"
    by (simp add: yielding_def)
  ultimately show ?thesis
    using cur flags currentD(9) [OF inv cur] unfolding ThreadYield_def
    by (simp add: lib_simps eq_commute [of "Some cur"] cong: if_cong)
qed

lemma ThreadYield_inv:
  assumes inv: "sched_inv s" and cur: "current_thread c s = Some (cur, th)"
    and flags: "Flags th = THREAD_FLAG_FORCE_TERMINATE_PENDING \<Longrightarrow> IdleThread (Cpu s c) \<noteq> Some cur"
    and some: "ThreadYield E c s = Some s'"
  shows "sched_inv s'"
proof (cases "Flags th = THREAD_FLAG_FORCE_TERMINATE_PENDING")
  case False
  note c = currentD [OF inv cur]
  show ?thesis
    using some unfolding ThreadYield_eq [OF inv cur False]
    by (intro ThreadSchedule_inv [where cur = cur and th = "yielding c cur th s", OF yield_places(1) [OF inv cur] _ _ _ _ yield_places(2) [OF inv cur]])
      (simp_all add: yield_state_cpu c, simp add: yield_state_def)
next
  case True
  let ?s1 = "put_cpu c ((Cpu s c)\<lparr>YieldOnInterruptReturn := False\<rparr>) s"
  have "places None ?s1 = places None s"
    by (rule places_cong) simp_all
  then have "sched_inv ?s1"
    using inv by (simp add: sched_inv_def)
  moreover have "current_thread c ?s1 = Some (cur, th)"
    using cur by (simp add: current_thread_def)
  ultimately show ?thesis
    by (rule ThreadForcedExit_inv) (use some cur flags [OF True] True in \<open>simp_all add: ThreadYield_def\<close>)
qed

lemma block_eq:
  assumes "current_thread c s = Some (cur, th)" and "BlockLock th = None" and "ReadyThreadsLock s = None"
    and "Flags th \<noteq> THREAD_FLAG_FORCE_TERMINATE_PENDING"
  shows "ThreadTakeBlockLock E c s \<bind> ThreadBlock E c = ThreadSchedule E c (block_state c cur th s)"
proof -
  have t: "CurrentThread (Cpu s c) = Some cur" "Threads s cur = Some th"
    using assms(1) by (auto simp: current_thread_def bind_Some_iff)
  have "th\<lparr>BlockLock := Some c, TickCountEarly := TickCountEarly th + 1, State := ThreadStateBlocked\<rparr> = blocking c th"
    by (simp add: blocking_def)
  then show ?thesis
    using assms(2-4) t
    by (simp add: ThreadTakeBlockLock_def ThreadBlock_def current_thread_def lib_simps block_state_def)
qed

lemma block_places:
  assumes inv: "sched_inv s" and cur: "current_thread c s = Some (cur, th)"
    and s0: "Cpu s0 = Cpu s" "Threads s0 = Threads s" "ReadyThreadsList s0 = ReadyThreadsList s"
    and place: "queue s0 = queue s \<and> IdleThread (Cpu s c) = Some cur \<or>
      queue s0 = (queue s)(q := queue s q @ [cur]) \<and> IdleThread (Cpu s c) \<noteq> Some cur"
  shows "places (Some c) (block_state c cur th s0)"
  using place
proof
  assume "queue s0 = queue s \<and> IdleThread (Cpu s c) = Some cur"
  then show ?thesis
    by (intro put_current_places [OF inv cur, of "blocking c th"]) (simp_all add: s0 blocking_def)
next
  assume "queue s0 = (queue s)(q := queue s q @ [cur]) \<and> IdleThread (Cpu s c) \<noteq> Some cur"
  then show ?thesis
    by (intro queue_current_places [OF inv cur, of "blocking c th" _ q]) (simp_all add: s0 blocking_def)
qed

lemma block_leaving: "leaving c (block_state c cur th s0) cur (blocking c th)"
  by (simp add: leaving_def blocking_def)

lemma block_inv:
  assumes inv: "sched_inv s" and cur: "current_thread c s = Some (cur, th)"
    and s0: "Cpu s0 = Cpu s" "Threads s0 = Threads s" "ReadyThreadsList s0 = ReadyThreadsList s"
    and place: "queue s0 = queue s \<and> IdleThread (Cpu s c) = Some cur \<or>
      queue s0 = (queue s)(q := queue s q @ [cur]) \<and> IdleThread (Cpu s c) \<noteq> Some cur"
    and some: "ThreadSchedule E c (block_state c cur th s0) = Some s'"
  shows "sched_inv s'"
  by (rule ThreadSchedule_inv [OF block_places [OF inv cur s0 place] _ _ _ _ block_leaving some])
    (use currentD [OF inv cur] in \<open>simp_all add: s0\<close>)

lemma ExEventWaitForSignal_block_eq:
  assumes inv: "sched_inv s" and cur: "current_thread c s = Some (cur, th)"
    and flags: "Flags th \<noteq> THREAD_FLAG_FORCE_TERMINATE_PENDING"
  shows "ExEventWaitForSignal_block E c e s = ThreadSchedule E c
    (block_state c cur th (put_event e ((Events s e)\<lparr>WaitingList := WaitingList (Events s e) @ [cur]\<rparr>) s))"
proof -
  let ?s0 = "put_event e ((Events s e)\<lparr>WaitingList := WaitingList (Events s e) @ [cur]\<rparr>) s"
  have "current_thread c ?s0 = Some (cur, th)"
    using cur by (simp add: current_thread_def)
  then have "ThreadTakeBlockLock E c ?s0 \<bind> ThreadBlock E c = ThreadSchedule E c (block_state c cur th ?s0)"
    by (rule block_eq) (use flags currentD [OF inv cur] in simp_all)
  then show ?thesis
    using cur by (simp add: ExEventWaitForSignal_block_def lib_simps Let_def)
qed

lemma ExEventWaitForSignal_block_inv:
  assumes inv: "sched_inv s" and cur: "current_thread c s = Some (cur, th)" and idle: "IdleThread (Cpu s c) \<noteq> Some cur"
    and flags: "Flags th \<noteq> THREAD_FLAG_FORCE_TERMINATE_PENDING" and some: "ExEventWaitForSignal_block E c e s = Some s'"
  shows "sched_inv s'"
  using some unfolding ExEventWaitForSignal_block_eq [OF inv cur flags]
  by (intro block_inv [where q = "EventQueue e", OF inv cur]) (use idle in \<open>simp_all add: queue_event_upd\<close>)

lemma IdleThread_block_inv:
  assumes inv: "sched_inv s" and cur: "current_thread c s = Some (cur, th)" and idle: "IdleThread (Cpu s c) = Some cur"
    and flags: "Flags th \<noteq> THREAD_FLAG_FORCE_TERMINATE_PENDING" and some: "IdleThread_block E c s = Some s'"
  shows "sched_inv s'"
  using some unfolding IdleThread_block_def block_eq [OF cur currentD(3,9) [OF inv cur] flags]
  by (intro block_inv [OF inv cur]) (use idle in simp_all)

end

subsection \<open>Operations that move no thread\<close>

lemma same_places:
  assumes pl: "places X s"
    and same: "\<And>t. map_option (\<lambda>th. (State th, BlockLock th)) (Threads s' t) = map_option (\<lambda>th. (State th, BlockLock th)) (Threads s t)"
    and s': "ReadyThreadsList s' = ReadyThreadsList s" "queue s' = queue s"
      "\<And>d. IdleThread (Cpu s' d) = IdleThread (Cpu s d)" "\<And>d. CurrentThread (Cpu s' d) = CurrentThread (Cpu s d)"
  shows "places X s'"
proof -
  note p = placesD [OF pl]
  have ex: "\<exists>y. Threads s' t = Some y \<and> State y = State x \<and> BlockLock y = BlockLock x" if "Threads s t = Some x" for t x
    using same [of t] that by (cases "Threads s' t") auto
  have un: "unlocked X s' t y" if "unlocked X s t x" "BlockLock y = BlockLock x" for t x y
    using that by (simp add: unlocked_def s'(4))
  have "ready_ok s'"
    unfolding ready_ok_def s' using ready_okD [OF p(1)] ex by metis
  moreover have "idle_ok X s'"
    unfolding idle_ok_def s' using idle_okD [OF p(2)] ex un by metis
  moreover have "waiting_ok X s'"
    unfolding waiting_ok_def s'
  proof (intro conjI allI ballI impI, goal_cases)
    case (4 q t)
    then show ?case
      using waiting_okD(4) [OF p(3)] ex un by metis
  qed (use waiting_okD(1-3) [OF p(3)] in blast)+
  moreover have "running_ok d s'" if "X \<noteq> Some d" for d
    unfolding running_ok_def s' using running_okD [OF p(4) [OF that]] ex by metis
  ultimately show ?thesis
    unfolding places_def by blast
qed

lemma same_inv:
  assumes "sched_inv s"
    and "\<And>t. map_option (\<lambda>th. (State th, BlockLock th)) (Threads s' t) = map_option (\<lambda>th. (State th, BlockLock th)) (Threads s t)"
    and "ReadyThreadsList s' = ReadyThreadsList s" "queue s' = queue s" "ReadyThreadsLock s' = ReadyThreadsLock s"
      "\<And>d. IdleThread (Cpu s' d) = IdleThread (Cpu s d)" "\<And>d. CurrentThread (Cpu s' d) = CurrentThread (Cpu s d)"
  shows "sched_inv s'"
  using same_places [of None s s'] assms by (simp add: sched_inv_def)

lemma ThreadTick_inv: "sched_inv s \<Longrightarrow> ThreadTick c s = Some s' \<Longrightarrow> sched_inv s'"
  by (erule same_inv) (auto simp: ThreadTick_def current_thread_def bind_Some_iff Let_def split: if_splits)

lemma ThreadTerminate_inv: "sched_inv s \<Longrightarrow> ThreadTerminate t s = Some s' \<Longrightarrow> sched_inv s'"
  by (erule same_inv) (auto simp: ThreadTerminate_def bind_Some_iff)

lemma ThreadSetPriority_inv: "sched_inv s \<Longrightarrow> ThreadSetPriority E c p s = Some s' \<Longrightarrow> sched_inv s'"
  by (erule same_inv) (auto simp: ThreadSetPriority_def current_thread_def bind_Some_iff)

lemma ThreadReference_inv: "sched_inv s \<Longrightarrow> ThreadReference E t s = Some s' \<Longrightarrow> sched_inv s'"
  by (erule same_inv) (auto simp: ThreadReference_def bind_Some_iff)

lemma event_flag_inv: "sched_inv s \<Longrightarrow> WaitingList ev = WaitingList (Events s e) \<Longrightarrow> sched_inv (put_event e ev s)"
  by (erule same_inv) (simp_all add: queue_event_upd fun_eq_iff)

lemma ExEventClearSignal_inv: "sched_inv s \<Longrightarrow> sched_inv (ExEventClearSignal e s)"
  using event_flag_inv [of s "(Events s e)\<lparr>Signaled := False\<rparr>" e] by (simp add: ExEventClearSignal_def)

lemma ExEventWaitForSignal_test_inv: "sched_inv s \<Longrightarrow> sched_inv (snd (ExEventWaitForSignal_test e s))"
  using event_flag_inv [of s _ e] by (simp add: ExEventWaitForSignal_test_def Let_def)

context sched_contracts
begin

lemma ThreadCloseHandle_inv:
  assumes inv: "sched_inv s" and t: "Threads s t = Some th" "1 < RefCnt th" and some: "ThreadCloseHandle E t s = Some s'"
  shows "sched_inv s'"
proof -
  have "RfcDereference (SR E) (RefCnt th) = RefCnt th - 1"
    using t(2) by (intro rfc_contract.RfcDereference_dec [OF env_rfc]) auto
  moreover have "RefCnt th - 1 \<noteq> 0"
    using t(2) by auto
  ultimately have "s' = put_thread t (th\<lparr>RefCnt := RefCnt th - 1\<rparr>) s"
    using some t(1) by (simp add: ThreadCloseHandle_def ThreadDereference_def)
  then show ?thesis
    using t(1) by (intro same_inv [OF inv]) simp_all
qed

lemma ProcessTerminate_loop_inv:
  assumes "ProcessTerminate_loop cur ts s = Some (found, s')"
  shows "sched_inv s \<Longrightarrow> sched_inv s'" and "Cpu s' = Cpu s"
  using assms
  by (induction cur ts s arbitrary: found rule: ProcessTerminate_loop.induct)
    (auto simp: bind_Some_iff ThreadTerminate_inv split: if_splits, auto simp: ThreadTerminate_def bind_Some_iff)

lemma ProcessTerminate_inv:
  assumes inv: "sched_inv s" and cur: "current_thread c s = Some (cur, th)" and idle: "IdleThread (Cpu s c) \<noteq> Some cur"
    and some: "ProcessTerminate E c p s = Some s'"
  shows "sched_inv s'"
proof -
  obtain ts found s1 where loop: "ProcessTerminate_loop cur ts s = Some (found, s1)"
      and exit: "(if found then ThreadExit E c STATUS_JOB_INTERRUPTED s1 else Some s1) = Some s'"
    using some cur by (auto simp: ProcessTerminate_def bind_Some_iff)
  note s1 = ProcessTerminate_loop_inv [OF loop]
  have c1: "CurrentThread (Cpu s1 c) = Some cur" "IdleThread (Cpu s1 c) \<noteq> Some cur"
    using s1(2) currentD(1) [OF inv cur] idle by simp_all
  then obtain th1 where "current_thread c s1 = Some (cur, th1)"
    using running_okD(3) [OF placesD(4), of None s1 c cur] s1(1) [OF inv] by (auto simp: sched_inv_def current_thread_def)
  then show ?thesis
    using exit ThreadExit_inv [OF s1(1) [OF inv] _ c1(2)] s1(1) [OF inv] by (auto split: if_splits)
qed

end

subsection \<open>The scheduler finds a thread\<close>

text \<open>The CPU has its idle thread, and every thread belongs to a process.\<close>

definition schedulable :: "nat \<Rightarrow> sched \<Rightarrow> bool" where
  "schedulable c s \<longleftrightarrow> IdleThread (Cpu s c) \<noteq> None \<and> (\<forall>t th. Threads s t = Some th \<longrightarrow> Process th \<noteq> None)"

lemma schedulable_next:
  assumes "places X s" and "schedulable c s"
  obtains nx where "next_thread c s = Some nx" and "process_ok s cur nx"
proof (cases "ReadyThreadsList s")
  case Nil
  then obtain i where i: "IdleThread (Cpu s c) = Some i" "next_thread c s = Some i"
    using assms(2) by (auto simp: schedulable_def next_thread_def)
  then show ?thesis
    using that idle_okD(1) [OF placesD(2) [OF assms(1)] i(1)] assms(2) by (auto simp: process_ok_def schedulable_def)
next
  case (Cons t ts)
  then show ?thesis
    using that [of t] ready_okD(3) [OF placesD(1) [OF assms(1)], of t] assms(2)
    by (auto simp: process_ok_def schedulable_def next_thread_def)
qed

context sched_contracts
begin

lemma ThreadSchedule_schedulable:
  assumes pl: "places (Some c) s" and "ReadyThreadsLock s = Some c" and "leaving c s cur th" and "State th \<noteq> ThreadStateDying"
    and "CurrentThread (Cpu s c) = Some cur" "Threads s cur = Some th" and can: "schedulable c s"
  shows "\<exists>nx s'. ThreadSchedule E c s = Some s' \<and> next_thread c s = Some nx \<and> handed_over c cur th nx s s'"
  using schedulable_next [OF pl can, of cur] ThreadSchedule_total [OF placesD(1) [OF pl] assms(2-6)] by metis

text \<open>\<open>ThreadYield\<close> returns: the head of the ready list runs, with the caller at its tail.\<close>

lemma ThreadYield_total:
  assumes inv: "sched_inv s" and cur: "current_thread c s = Some (cur, th)"
    and flags: "Flags th \<noteq> THREAD_FLAG_FORCE_TERMINATE_PENDING" and can: "schedulable c s"
  shows "\<exists>nx s'. ThreadYield E c s = Some s' \<and> next_thread c (yield_state c cur th s) = Some nx \<and>
    handed_over c cur (yielding c cur th s) nx (yield_state c cur th s) s'"
  unfolding ThreadYield_eq [OF inv cur flags]
proof (rule ThreadSchedule_schedulable [OF yield_places(1) [OF inv cur] _ yield_places(2) [OF inv cur]])
  show "schedulable c (yield_state c cur th s)"
    using can currentD(2) [OF inv cur] by (simp add: schedulable_def yield_state_cpu yielding_def)
qed (use currentD [OF inv cur] in \<open>simp_all add: yield_state_cpu yielding_def\<close>, simp add: yield_state_def)

lemma block_total:
  assumes inv: "sched_inv s" and cur: "current_thread c s = Some (cur, th)" and can: "schedulable c s"
    and s0: "Cpu s0 = Cpu s" "Threads s0 = Threads s" "ReadyThreadsList s0 = ReadyThreadsList s"
    and place: "queue s0 = queue s \<and> IdleThread (Cpu s c) = Some cur \<or>
      queue s0 = (queue s)(q := queue s q @ [cur]) \<and> IdleThread (Cpu s c) \<noteq> Some cur"
  obtains nx s' where "ThreadSchedule E c (block_state c cur th s0) = Some s'" and "next_thread c s = Some nx"
    and "handed_over c cur (blocking c th) nx (block_state c cur th s0) s'"
proof -
  note c = currentD [OF inv cur]
  have "schedulable c (block_state c cur th s0)"
    using can c(2) by (simp add: schedulable_def blocking_def s0)
  moreover have "next_thread c (block_state c cur th s0) = next_thread c s"
    by (simp add: next_thread_def s0 split: list.split)
  ultimately show ?thesis
    using ThreadSchedule_schedulable [OF block_places [OF inv cur s0 place] _ block_leaving] c(1) that
    by (auto simp: s0 blocking_def)
qed

end

subsection \<open>A concrete state\<close>

text \<open>
  Thread 0 is the idle thread of CPU 0, thread 1 runs there, 2 and 3 are ready, 4 waits for
  \<open>OtherEvt 0\<close>, 5 for the mutex 0 that thread 1 holds, and 6 runs on CPU 1, whose idle thread is 7.
\<close>

definition thread_example :: "thread_state \<Rightarrow> thread" where
  "thread_example st = zero_thread\<lparr>RefCnt := 2, State := st, Process := Some 0\<rparr>"

definition cpu_example :: "nat option \<Rightarrow> nat option \<Rightarrow> threading_data" where
  "cpu_example idle cur = \<lparr>RunningThreadTicks = 0, IdleThread = idle, CurrentThread = cur, PreviousThread = None,
     YieldOnInterruptReturn = False, IdleTicks = 0, KernelTicks = 0, StackTop = 0, CpuStackSize = 0\<rparr>"

definition sched_example :: sched where
  "sched_example = \<lparr>Threads = (\<lambda>t. if t = 0 \<or> t = 7 \<or> t = 2 \<or> t = 3 then Some (thread_example ThreadStateReady)
       else if t = 1 \<or> t = 6 then Some (thread_example ThreadStateRunning)
       else if t = 4 \<or> t = 5 then Some (thread_example ThreadStateBlocked) else None),
     AllThreadsList = [0, 1, 2, 3, 4, 5, 6, 7], ReadyThreadsList = [2, 3], ReadyThreadsLock = None,
     Cpu = (\<lambda>c. if c = 0 then cpu_example (Some 0) (Some 1) else if c = 1 then cpu_example (Some 7) (Some 6)
            else cpu_example None None),
     Events = (\<lambda>e. if e = OtherEvt 0
       then \<lparr>EventType = ExEventTypeNotification, Signaled = False, WaitingList = [4]\<rparr>
       else ExEventInit ExEventTypeNotification False),
     Mutexes = (\<lambda>m. if m = 0
       then \<lparr>CurrentRecursivityDepth = 1, MaxRecursivityDepth = 255, MutexWaitingList = [5], Holder = Some 1\<rparr>
       else \<lparr>CurrentRecursivityDepth = 0, MaxRecursivityDepth = 255, MutexWaitingList = [], Holder = None\<rparr>),
     Processes = [0 \<mapsto> \<lparr>ProcRefCnt = 10, NumberOfThreads = 8, ActiveThreads = 8, ProcThreadList = [0, 1, 2, 3, 4, 5, 6, 7],
       TerminationStatus = STATUS_SUCCESS, ProcId = 1, ProcessName = ''System'', FullCommandLine = ''System'', UserSpace = False, EntryPoint = 0, NumberOfArguments = 0\<rparr>],
     ProcessList = [0], SystemProcess = Some 0,
     PidBitmap = \<lparr>BitCount = 0x1000, BufferSize = 0x200, BitmapBuffer = 0x8000, Bits = (\<lambda>i. i < 2)\<rparr>, NextTid = 32, ActiveSpace = (\<lambda>_. Some 0), IdleUpdates = [],
     FreedStacks = [], DestroyedSpaces = [], Frames = (\<lambda>_. None)\<rparr>"

lemma thread_example_sel [simp]:
  "State (thread_example st) = st" "BlockLock (thread_example st) = None" "Flags (thread_example st) = 0"
  "Process (thread_example st) = Some 0" "RefCnt (thread_example st) = 2"
  by (simp_all add: thread_example_def zero_thread_def)

lemma cpu_example_sel [simp]:
  "IdleThread (cpu_example i t) = i" "CurrentThread (cpu_example i t) = t" "YieldOnInterruptReturn (cpu_example i t) = False"
  by (simp_all add: cpu_example_def)

lemma sched_example_sel [simp]:
  "ReadyThreadsList sched_example = [2, 3]" "ReadyThreadsLock sched_example = None"
  "IdleThread (Cpu sched_example c) = (if c = 0 then Some 0 else if c = 1 then Some 7 else None)"
  "CurrentThread (Cpu sched_example c) = (if c = 0 then Some 1 else if c = 1 then Some 6 else None)"
  "Threads sched_example t = (if t \<in> {0, 7, 2, 3} then Some (thread_example ThreadStateReady)
       else if t \<in> {1, 6} then Some (thread_example ThreadStateRunning)
       else if t \<in> {4, 5} then Some (thread_example ThreadStateBlocked) else None)"
  "current_thread 0 sched_example = Some (1, thread_example ThreadStateRunning)"
  "current_thread 1 sched_example = Some (6, thread_example ThreadStateRunning)"
  by (simp_all add: sched_example_def current_thread_def)

lemma sched_example_queue:
  "queue sched_example q = (if q = EventQueue (OtherEvt 0) then [4] else if q = MutexQueue 0 then [5] else [])"
  by (cases q) (simp_all add: sched_example_def ExEventInit_def)

lemma sched_example_inv: "sched_inv sched_example"
proof -
  have "ready_ok sched_example"
    by (simp add: ready_ok_def)
  moreover have "idle_ok None sched_example"
    by (auto simp: idle_ok_def split: if_splits)
  moreover have "waiting_ok None sched_example"
    by (auto simp: waiting_ok_def sched_example_queue)
  moreover have "running_ok c sched_example" for c
    by (auto simp: running_ok_def split: if_splits)
  ultimately show ?thesis
    by (simp add: sched_inv_def places_def)
qed

lemma sched_example_schedulable: "schedulable 0 sched_example" "schedulable 1 sched_example"
  by (auto simp: schedulable_def split: if_splits)

end
