(* ===== verification/Timer.thy ===== *)
theory Timer
  imports Scheduling
begin

text \<open>
  Executive timers (\<open>ex_timer.c\<close>). The time \<open>IomuGetSystemTimeUs\<close> answers is an argument of the
  routines that ask for it, and a null pointer is \<open>None\<close>.
\<close>

type_synonym EX_TIMER_TYPE = dword

abbreviation ExTimerTypeAbsolute :: EX_TIMER_TYPE where "ExTimerTypeAbsolute \<equiv> 0"
abbreviation ExTimerTypeRelativeOnce :: EX_TIMER_TYPE where "ExTimerTypeRelativeOnce \<equiv> 1"
abbreviation ExTimerTypeRelativePeriodic :: EX_TIMER_TYPE where "ExTimerTypeRelativePeriodic \<equiv> 2"
abbreviation ExTimerTypeMax :: EX_TIMER_TYPE where "ExTimerTypeMax \<equiv> ExTimerTypeRelativePeriodic"

record ex_timer =
  TriggerTimeUs :: qword
  ReloadTimeUs :: qword
  TimerType :: EX_TIMER_TYPE
  TimerStarted :: bool
  TimerUninited :: bool

definition ExTimerInit :: "qword \<Rightarrow> ex_timer option \<Rightarrow> EX_TIMER_TYPE \<Rightarrow> qword \<Rightarrow> status \<times> ex_timer option" where
  "ExTimerInit systemTimeUs Timer Type Time =
     (case Timer of
        None \<Rightarrow> (STATUS_INVALID_PARAMETER1, Timer)
      | Some _ \<Rightarrow>
          if Type > ExTimerTypeMax then (STATUS_INVALID_PARAMETER2, Timer)
          else
            let timer = \<lparr>TriggerTimeUs = 0, ReloadTimeUs = 0, TimerType = Type, TimerStarted = False, TimerUninited = False\<rparr> in
            if Type \<noteq> ExTimerTypeAbsolute
            then (STATUS_SUCCESS, Some (timer\<lparr>TriggerTimeUs := systemTimeUs + Time, ReloadTimeUs := Time\<rparr>))
            else (STATUS_SUCCESS, Some (timer\<lparr>TriggerTimeUs := Time\<rparr>)))"

definition ExTimerStart :: "ex_timer \<Rightarrow> ex_timer" where
  "ExTimerStart Timer = (if TimerUninited Timer then Timer else Timer\<lparr>TimerStarted := True\<rparr>)"

definition ExTimerStop :: "ex_timer \<Rightarrow> ex_timer" where
  "ExTimerStop Timer = (if TimerUninited Timer then Timer else Timer\<lparr>TimerStarted := False\<rparr>)"

definition ExTimerUninit :: "ex_timer \<Rightarrow> ex_timer" where
  "ExTimerUninit Timer = (ExTimerStop Timer)\<lparr>TimerUninited := True\<rparr>"

definition ExTimerCompareTimers :: "ex_timer \<Rightarrow> ex_timer \<Rightarrow> qword" where
  "ExTimerCompareTimers FirstElem SecondElem = TriggerTimeUs FirstElem - TriggerTimeUs SecondElem"

text \<open>
  The loop of \<open>ExTimerWait\<close>, given what the timer and the clock say each time the condition is
  evaluated: every round but the last gives up the CPU. Running out of readings is \<open>None\<close>. The
  caller yields on its own CPU; it comes back to the loop when it is scheduled again.
\<close>

definition timer_expired :: "qword \<Rightarrow> ex_timer \<Rightarrow> bool" where
  "timer_expired systemTimeUs Timer \<longleftrightarrow> \<not> (systemTimeUs < TriggerTimeUs Timer \<and> TimerStarted Timer)"

definition ExTimerWait_round :: "sched_env \<Rightarrow> nat \<Rightarrow> qword \<Rightarrow> ex_timer \<Rightarrow> sched \<Rightarrow> (bool \<times> sched) option" where
  "ExTimerWait_round E c systemTimeUs Timer s =
     (if timer_expired systemTimeUs Timer then Some (True, s)
      else map_option (Pair False) (ThreadYield E c s))"

definition ExTimerWait_enter :: "sched_env \<Rightarrow> nat \<Rightarrow> qword \<Rightarrow> ex_timer \<Rightarrow> sched \<Rightarrow> (bool \<times> sched) option" where
  "ExTimerWait_enter E c systemTimeUs Timer s =
     (if TimerUninited Timer then Some (True, s) else ExTimerWait_round E c systemTimeUs Timer s)"

subsection \<open>Properties\<close>

lemma ExTimer_stopped: "TimerUninited (ExTimerUninit t)" "ExTimerStart (ExTimerUninit t) = ExTimerUninit t"
  by (simp_all add: ExTimerUninit_def ExTimerStart_def)

definition timer_gap :: "ex_timer \<Rightarrow> ex_timer \<Rightarrow> int" where
  "timer_gap a b = int (unat (TriggerTimeUs a)) - int (unat (TriggerTimeUs b))"

lemma sint_diff: "sint (a - b :: qword) = (int (unat a) - int (unat b) + 2 ^ 63) mod 2 ^ 64 - 2 ^ 63"
proof -
  have "sint (a - b) = signed_take_bit 63 (int (unat a) - int (unat b))"
    by (simp add: signed_take_bit_eq_take_bit_shift word_of_int_eq_iff sint_uint uint_word_ariths
        take_bit_eq_mod mod_simps flip: uint_nat)
  then show ?thesis
    by (simp add: signed_take_bit_eq_take_bit_shift take_bit_eq_mod)
qed

lemma mod_shift:
  fixes x :: int
  shows "- (2 ^ 63) \<le> x \<Longrightarrow> x < 2 ^ 63 \<Longrightarrow> (x + 2 ^ 63) mod 2 ^ 64 = x + 2 ^ 63"
    and "2 ^ 63 \<le> x \<Longrightarrow> x < 2 ^ 64 \<Longrightarrow> (x + 2 ^ 63) mod 2 ^ 64 = x - 2 ^ 63"
    and "- (2 ^ 64) < x \<Longrightarrow> x < - (2 ^ 63) \<Longrightarrow> (x + 2 ^ 63) mod 2 ^ 64 = x + 2 ^ 63 + 2 ^ 64"
  by (simp_all add: mod_pos_pos_trivial)
    (use minus_mod_self2 [of "x + 2 ^ 63" "2 ^ 64"] mod_add_self2 [of "x + 2 ^ 63" "2 ^ 64"] in \<open>simp_all add: mod_pos_pos_trivial\<close>)

text \<open>
  \<open>ExTimerCompareTimers\<close> subtracts unsigned 64-bit times and its caller reads the
  difference as signed: it is right if the two trigger times are less than \<open>2 ^ 63\<close> apart, and its
  sign is wrong, a later timer counting as earlier and the other way round, in every other case.
\<close>

theorem ExTimerCompareTimers_sign:
  "if - (2 ^ 63) \<le> timer_gap a b \<and> timer_gap a b < 2 ^ 63 then sint (ExTimerCompareTimers a b) = timer_gap a b
   else (sint (ExTimerCompareTimers a b) < 0) \<noteq> (TriggerTimeUs a < TriggerTimeUs b)"
proof -
  let ?g = "timer_gap a b"
  have s: "sint (ExTimerCompareTimers a b) = (?g + 2 ^ 63) mod 2 ^ 64 - 2 ^ 63"
    by (simp add: ExTimerCompareTimers_def timer_gap_def sint_diff)
  have u: "0 \<le> uint x" "uint x \<le> 2 ^ 64 - 1" for x :: qword
    using unsigned_less [of x, where ?'a = int] by simp_all
  have "0 \<le> x \<Longrightarrow> x \<le> k \<Longrightarrow> 0 \<le> y \<Longrightarrow> y \<le> k \<Longrightarrow> x - y \<le> k \<and> - k \<le> x - y" for x y k :: int
    by linarith
  from this [OF u [of "TriggerTimeUs a"] u [of "TriggerTimeUs b"]]
  have "?g \<le> 2 ^ 64 - 1 \<and> - (2 ^ 64 - 1) \<le> ?g"
    unfolding timer_gap_def of_nat_unat .
  then have r: "?g < 2 ^ 64" "- (2 ^ 64) < ?g"
    by simp_all
  have l: "TriggerTimeUs a < TriggerTimeUs b \<longleftrightarrow> ?g < 0"
    by (simp add: timer_gap_def word_less_def)
  consider "- (2 ^ 63) \<le> ?g \<and> ?g < 2 ^ 63" | "2 ^ 63 \<le> ?g" | "?g < - (2 ^ 63)"
    by linarith
  then show ?thesis
  proof cases
    case 1
    then show ?thesis
      using s mod_shift(1) [of ?g] by simp
  next
    case 2
    then show ?thesis
      using s l mod_shift(2) [of ?g] r by simp
  next
    case 3
    then show ?thesis
      using s l mod_shift(3) [of ?g] r by simp
  qed
qed

text \<open>
  A started timer that was initialised to trigger \<open>Time\<close> after \<open>now\<close> ends a wait
  exactly from \<open>now + Time\<close> on, as long as this sum fits 64 bits; if it does not, the sum wraps
  around and the timer has expired at once. An absolute timer expires at \<open>Time\<close>. Types beyond
  the last one are refused.
\<close>

theorem ExTimerInit_deadline:
  "case ExTimerInit now (Some t0) ty Time of
     (st, timer) \<Rightarrow>
       if ty > ExTimerTypeMax then st = STATUS_INVALID_PARAMETER2 \<and> timer = Some t0
       else st = STATUS_SUCCESS \<and> (\<exists>T. timer = Some T \<and>
         (if ty = ExTimerTypeAbsolute then timer_expired t (ExTimerStart T) = (Time \<le> t)
          else if unat now + unat Time < 2 ^ 64 then timer_expired t (ExTimerStart T) = (unat now + unat Time \<le> unat t)
          else timer_expired now (ExTimerStart T)))"
proof -
  have fits: "unat (now + Time) = unat now + unat Time" if "unat now + unat Time < 2 ^ 64"
    using that by (simp add: unat_add_less)
  have wraps: "now + Time \<le> now" if "\<not> unat now + unat Time < 2 ^ 64"
  proof -
    have "unat (now + Time) = unat now + unat Time - 2 ^ 64"
      using that unat_qword_less [of now] unat_qword_less [of Time] by (simp add: unat_word_ariths mod_if)
    then show ?thesis
      using that unat_qword_less [of Time] by (simp add: word_le_nat_alt)
  qed
  show ?thesis
    using fits wraps
    by (auto simp: ExTimerInit_def ExTimerStart_def timer_expired_def Let_def not_less word_le_nat_alt [of "now + Time" t])
qed

end
