(* ===== verification/Mutex.thy ===== *)
theory Mutex
  imports Scheduling
begin

text \<open>
  Mutexes (\<open>mutex.c\<close>) on top of the scheduler. \<open>MutexLock\<close> is taken and given back with
  interrupts off around everything that reads or changes a mutex, except for the counting of a
  thread that already holds it; the routines between two releases of the lock are atomic.
\<close>

subsection \<open>Operations\<close>

definition MUTEX_MAX_RECURSIVITY_DEPTH :: byte where
  "MUTEX_MAX_RECURSIVITY_DEPTH = 255"

definition put_mutex :: "nat \<Rightarrow> mutex \<Rightarrow> sched \<Rightarrow> sched" where
  "put_mutex m mt s = s\<lparr>Mutexes := (Mutexes s)(m := mt)\<rparr>"

definition MutexInit :: "bool \<Rightarrow> mutex" where
  "MutexInit Recursive = \<lparr>CurrentRecursivityDepth = 0,
     MaxRecursivityDepth = if Recursive then MUTEX_MAX_RECURSIVITY_DEPTH else 1,
     MutexWaitingList = [], Holder = None\<rparr>"

text \<open>
  One round of the loop of \<open>MutexAcquire\<close>: the caller has the mutex, or it queues up and blocks.
  A thread that runs again after \<open>ThreadBlock\<close> goes on with the next round.
\<close>

definition MutexAcquire_round :: "sched_env \<Rightarrow> nat \<Rightarrow> nat \<Rightarrow> sched \<Rightarrow> (bool \<times> sched) option" where
  "MutexAcquire_round E c m s = do {
     (cur, _) \<leftarrow> current_thread c s;
     let mt = Mutexes s m;
     if Holder mt \<noteq> Some cur then do {
       s \<leftarrow> ThreadTakeBlockLock E c
             (put_mutex m (mt\<lparr>MutexWaitingList := InsertTailList (SL E) (MutexWaitingList mt) cur\<rparr>) s);
       s \<leftarrow> ThreadBlock E c s;
       Some (False, s)
     }
     else Some (True, s)
   }"

definition MutexAcquire :: "sched_env \<Rightarrow> nat \<Rightarrow> nat \<Rightarrow> sched \<Rightarrow> (bool \<times> sched) option" where
  "MutexAcquire E c m s = do {
     (cur, _) \<leftarrow> current_thread c s;
     let mt = Mutexes s m;
     if Holder mt = Some cur then do {
       ASSERT (CurrentRecursivityDepth mt < MaxRecursivityDepth mt);
       Some (True, put_mutex m (mt\<lparr>CurrentRecursivityDepth := CurrentRecursivityDepth mt + 1\<rparr>) s)
     }
     else
       let mt = (if Holder mt = None then mt\<lparr>Holder := Some cur, CurrentRecursivityDepth := 1\<rparr> else mt)
       in MutexAcquire_round E c m (put_mutex m mt s)
   }"

definition MutexRelease :: "sched_env \<Rightarrow> nat \<Rightarrow> nat \<Rightarrow> sched \<Rightarrow> sched option" where
  "MutexRelease E c m s = do {
     (cur, _) \<leftarrow> current_thread c s;
     let mt = Mutexes s m;
     ASSERT (Some cur = Holder mt);
     if 1 < CurrentRecursivityDepth mt
     then Some (put_mutex m (mt\<lparr>CurrentRecursivityDepth := CurrentRecursivityDepth mt - 1\<rparr>) s)
     else
       let (pEntry, waiting) = RemoveHeadList (SL E) (MutexWaitingList mt);
           mt = mt\<lparr>MutexWaitingList := waiting\<rparr>
       in (case pEntry of
             Some pThread \<Rightarrow>
               ThreadUnblock E c pThread (put_mutex m (mt\<lparr>Holder := Some pThread, CurrentRecursivityDepth := 1\<rparr>) s)
           | None \<Rightarrow> Some (put_mutex m (mt\<lparr>Holder := None\<rparr>) s))
   }"

subsection \<open>The invariant of the scheduler is kept\<close>

lemmas put_mutex_defs [simp] = put_mutex_def

lemma queue_mutex_upd:
  "queue (s\<lparr>Mutexes := (Mutexes s)(m := mt)\<rparr>) = (queue s)(MutexQueue m := MutexWaitingList mt)"
  by (rule ext, case_tac x) simp_all

lemma mutex_places: "MutexWaitingList mt = MutexWaitingList (Mutexes s m) \<Longrightarrow> places X (put_mutex m mt s) = places X s"
  by (rule places_cong) (simp_all add: queue_mutex_upd fun_eq_iff)

lemma mutex_inv: "MutexWaitingList mt = MutexWaitingList (Mutexes s m) \<Longrightarrow> sched_inv s \<Longrightarrow> sched_inv (put_mutex m mt s)"
  using mutex_places [of mt s m None] by (simp add: sched_inv_def)

lemma current_put_mutex [simp]: "current_thread c (s\<lparr>Mutexes := M\<rparr>) = current_thread c s"
  by (simp add: current_thread_def)

context sched_contracts
begin

lemma MutexAcquire_round_eq:
  assumes inv: "sched_inv s" and cur: "current_thread c s = Some (cur, th)"
    and flags: "Flags th \<noteq> THREAD_FLAG_FORCE_TERMINATE_PENDING"
  shows "MutexAcquire_round E c m s = (if Holder (Mutexes s m) = Some cur then Some (True, s)
    else map_option (Pair False) (ThreadSchedule E c (block_state c cur th
      (put_mutex m ((Mutexes s m)\<lparr>MutexWaitingList := MutexWaitingList (Mutexes s m) @ [cur]\<rparr>) s))))"
proof -
  let ?s0 = "put_mutex m ((Mutexes s m)\<lparr>MutexWaitingList := MutexWaitingList (Mutexes s m) @ [cur]\<rparr>) s"
  have "ThreadTakeBlockLock E c ?s0 \<bind> ThreadBlock E c = ThreadSchedule E c (block_state c cur th ?s0)"
    by (rule block_eq) (use cur flags currentD(3,9) [OF inv cur] in simp_all)
  then have "ThreadTakeBlockLock E c ?s0 \<bind> (\<lambda>s. ThreadBlock E c s \<bind> (\<lambda>s. Some (False, s))) =
      map_option (Pair False) (ThreadSchedule E c (block_state c cur th ?s0))"
    by (cases "ThreadTakeBlockLock E c ?s0") (auto simp: map_conv_bind_option comp_def)
  then show ?thesis
    using cur by (simp add: MutexAcquire_round_def lib_simps Let_def)
qed

lemma MutexAcquire_round_inv:
  assumes inv: "sched_inv s" and cur: "current_thread c s = Some (cur, th)" and idle: "IdleThread (Cpu s c) \<noteq> Some cur"
    and flags: "Flags th \<noteq> THREAD_FLAG_FORCE_TERMINATE_PENDING" and some: "MutexAcquire_round E c m s = Some (got, s')"
  shows "sched_inv s'"
proof (cases "Holder (Mutexes s m) = Some cur")
  case True
  then show ?thesis
    using some inv by (simp add: MutexAcquire_round_eq [OF inv cur flags])
next
  case False
  then have "ThreadSchedule E c (block_state c cur th
      (put_mutex m ((Mutexes s m)\<lparr>MutexWaitingList := MutexWaitingList (Mutexes s m) @ [cur]\<rparr>) s)) = Some s'"
    using some by (auto simp: MutexAcquire_round_eq [OF inv cur flags])
  then show ?thesis
    by (intro block_inv [where q = "MutexQueue m", OF inv cur]) (use idle in \<open>simp_all add: queue_mutex_upd\<close>)
qed

lemma MutexAcquire_inv:
  assumes inv: "sched_inv s" and cur: "current_thread c s = Some (cur, th)" and idle: "IdleThread (Cpu s c) \<noteq> Some cur"
    and flags: "Flags th \<noteq> THREAD_FLAG_FORCE_TERMINATE_PENDING" and some: "MutexAcquire E c m s = Some (got, s')"
  shows "sched_inv s'"
proof (cases "Holder (Mutexes s m) = Some cur")
  case True
  then show ?thesis
    using some cur inv mutex_inv [of "(Mutexes s m)\<lparr>CurrentRecursivityDepth := CurrentRecursivityDepth (Mutexes s m) + 1\<rparr>" s m]
    by (auto simp: MutexAcquire_def Let_def)
next
  case False
  define mt where "mt = (if Holder (Mutexes s m) = None
    then (Mutexes s m)\<lparr>Holder := Some cur, CurrentRecursivityDepth := 1\<rparr> else Mutexes s m)"
  have inv1: "sched_inv (put_mutex m mt s)"
    using inv by (intro mutex_inv) (simp_all add: mt_def)
  have some1: "MutexAcquire_round E c m (put_mutex m mt s) = Some (got, s')"
    using some cur False by (simp add: MutexAcquire_def mt_def Let_def cong: if_cong)
  show ?thesis
    by (rule MutexAcquire_round_inv [OF inv1 _ _ flags some1]) (use cur idle in simp_all)
qed

lemma MutexRelease_inv:
  assumes inv: "sched_inv s" and some: "MutexRelease E c m s = Some s'"
  shows "sched_inv s'"
proof -
  let ?mt = "Mutexes s m"
  obtain cur th where cur: "current_thread c s = Some (cur, th)"
    using some by (auto simp: MutexRelease_def bind_Some_iff)
  note pl = currentD(9,10) [OF inv cur]
  show ?thesis
  proof (cases "1 < CurrentRecursivityDepth ?mt \<or> MutexWaitingList ?mt = []")
    case True
    then obtain mt where "s' = put_mutex m mt s" "MutexWaitingList mt = MutexWaitingList ?mt"
      using some cur by (auto simp: MutexRelease_def lib_simps Let_def split: if_splits)
    then show ?thesis
      using mutex_inv [of mt s m] inv by simp
  next
    case False
    then obtain t ws where q: "MutexWaitingList ?mt = t # ws"
      by (cases "MutexWaitingList ?mt") auto
    define s1 where "s1 = put_mutex m (?mt\<lparr>MutexWaitingList := ws, Holder := Some t, CurrentRecursivityDepth := 1\<rparr>) s"
    have un: "ThreadUnblock E c t s1 = Some s'"
      using some cur q False by (simp add: MutexRelease_def lib_simps s1_def Let_def)
    have q1: "queue s (MutexQueue m) = t # ws" "queue s1 = (queue s)(MutexQueue m := ws)"
      using q by (simp_all add: s1_def queue_mutex_upd)
    have pn: "places None s"
      using inv by (simp add: sched_inv_def)
    have "places None s1"
      by (rule waiting_tl [OF pn q1]) (simp_all add: s1_def)
    moreover have "\<forall>d. IdleThread (Cpu s1 d) \<noteq> Some t"
      using waiting_okD(3) [OF placesD(3) [OF pn], of t "MutexQueue m"] q1(1) by (simp add: s1_def)
    ultimately have "places None s'"
      using ThreadUnblock_places [OF _ waiting_head_out [OF placesD(3) [OF pn] q1] _ un] by blast
    then show ?thesis
      using un by (auto simp: sched_inv_def ThreadUnblock_iff)
  qed
qed

end

subsection \<open>What a mutex promises\<close>

text \<open>
  The abstract mutex is a queue of threads, the first of which has the mutex. \<open>mutex_ok\<close> is what
  every operation leaves: only a mutex that is held is waited for.
\<close>

definition mutex_view :: "mutex \<Rightarrow> nat list" where
  "mutex_view mt = (case Holder mt of None \<Rightarrow> [] | Some t \<Rightarrow> t # MutexWaitingList mt)"

definition mutex_ok :: "mutex \<Rightarrow> bool" where
  "mutex_ok mt \<longleftrightarrow> (Holder mt = None \<longrightarrow> MutexWaitingList mt = []) \<and>
     CurrentRecursivityDepth mt \<le> MaxRecursivityDepth mt \<and>
     (Holder mt \<noteq> None \<longrightarrow> 1 \<le> CurrentRecursivityDepth mt) \<and> 1 \<le> MaxRecursivityDepth mt"

lemma mutex_ok_init: "mutex_ok (MutexInit r)" "mutex_view (MutexInit r) = []"
  by (simp_all add: mutex_ok_def MutexInit_def mutex_view_def MUTEX_MAX_RECURSIVITY_DEPTH_def)

context sched_contracts
begin

lemma MutexAcquire_free:
  assumes cur: "current_thread c s = Some (cur, th)" and free: "Holder (Mutexes s m) = None"
  shows "MutexAcquire E c m s =
    Some (True, put_mutex m ((Mutexes s m)\<lparr>Holder := Some cur, CurrentRecursivityDepth := 1\<rparr>) s)"
  using assms by (simp add: MutexAcquire_def MutexAcquire_round_def Let_def)

lemma MutexAcquire_held:
  assumes inv: "sched_inv s" and cur: "current_thread c s = Some (cur, th)"
    and flags: "Flags th \<noteq> THREAD_FLAG_FORCE_TERMINATE_PENDING" and can: "schedulable c s"
    and held: "Holder (Mutexes s m) = Some h" "h \<noteq> cur" and idle: "IdleThread (Cpu s c) \<noteq> Some cur"
  shows "\<exists>nx s'. MutexAcquire E c m s = Some (False, s') \<and> next_thread c s = Some nx \<and>
    Mutexes s' = (Mutexes s)(m := (Mutexes s m)\<lparr>MutexWaitingList := MutexWaitingList (Mutexes s m) @ [cur]\<rparr>) \<and>
    CurrentThread (Cpu s' c) = Some nx \<and> map_option State (Threads s' cur) = Some ThreadStateBlocked"
proof -
  let ?s0 = "put_mutex m ((Mutexes s m)\<lparr>MutexWaitingList := MutexWaitingList (Mutexes s m) @ [cur]\<rparr>) s"
  obtain nx s' where s': "ThreadSchedule E c (block_state c cur th ?s0) = Some s'" "next_thread c s = Some nx"
      "handed_over c cur (blocking c th) nx (block_state c cur th ?s0) s'"
    by (rule block_total [where ?s0.0 = ?s0 and q = "MutexQueue m", OF inv cur can]) (use idle in \<open>simp_all add: queue_mutex_upd\<close>)
  have "MutexAcquire E c m s = Some (False, s')"
    using cur held MutexAcquire_round_eq [OF inv cur flags, of m] s'(1) by (simp add: MutexAcquire_def Let_def)
  then show ?thesis
    using s' by (simp add: handed_over_def blocking_def)
qed

lemma MutexRelease_eq:
  assumes inv: "sched_inv s" and cur: "current_thread c s = Some (cur, th)"
    and held: "Holder (Mutexes s m) = Some cur" "\<not> 1 < CurrentRecursivityDepth (Mutexes s m)"
  shows "MutexRelease E c m s = Some (case MutexWaitingList (Mutexes s m) of
      [] \<Rightarrow> put_mutex m ((Mutexes s m)\<lparr>MutexWaitingList := [], Holder := None\<rparr>) s
    | t # ws \<Rightarrow> wake [t] (put_mutex m ((Mutexes s m)\<lparr>MutexWaitingList := ws, Holder := Some t, CurrentRecursivityDepth := 1\<rparr>) s))"
proof (cases "MutexWaitingList (Mutexes s m)")
  case Nil
  then show ?thesis
    using Nil cur held by (simp add: MutexRelease_def lib_simps Let_def)
next
  case (Cons t ws)
  let ?s1 = "put_mutex m ((Mutexes s m)\<lparr>MutexWaitingList := ws, Holder := Some t, CurrentRecursivityDepth := 1\<rparr>) s"
  have "places None s" "ReadyThreadsLock s = None"
    using inv by (simp_all add: sched_inv_def)
  then have "ThreadUnblock E c t ?s1 = Some (wake [t] ?s1)"
    using waiting_okD(4) [OF placesD(3), of None s t "MutexQueue m"] Cons
    by (intro ThreadUnblock_wake) (auto simp: can_wake_def unlocked_None)
  then show ?thesis
    using Cons cur held by (simp add: MutexRelease_def lib_simps Let_def)
qed


text \<open>Acquiring appends the caller to the abstract queue, releasing removes its head.\<close>

lemma MutexAcquire_view:
  assumes inv: "sched_inv s" and cur: "current_thread c s = Some (cur, th)"
    and flags: "Flags th \<noteq> THREAD_FLAG_FORCE_TERMINATE_PENDING" and can: "schedulable c s"
    and ok: "mutex_ok (Mutexes s m)" and other: "Holder (Mutexes s m) \<noteq> Some cur" and idle: "IdleThread (Cpu s c) \<noteq> Some cur"
  shows "\<exists>got s'. MutexAcquire E c m s = Some (got, s') \<and> (got \<longleftrightarrow> mutex_view (Mutexes s m) = []) \<and>
    mutex_view (Mutexes s' m) = mutex_view (Mutexes s m) @ [cur] \<and> mutex_ok (Mutexes s' m) \<and>
    (if got then current_thread c s' = Some (cur, th)
     else map_option State (Threads s' cur) = Some ThreadStateBlocked \<and> CurrentThread (Cpu s' c) = next_thread c s)"
proof (cases "Holder (Mutexes s m)")
  case None
  then show ?thesis
    using ok cur by (auto simp: MutexAcquire_free [OF cur None] mutex_view_def mutex_ok_def)
next
  case (Some h)
  then show ?thesis
    using MutexAcquire_held [OF inv cur flags can Some _ idle] ok other by (fastforce simp: mutex_view_def mutex_ok_def)
qed

lemma MutexRelease_view:
  assumes inv: "sched_inv s" and cur: "current_thread c s = Some (cur, th)"
    and ok: "mutex_ok (Mutexes s m)"
    and held: "Holder (Mutexes s m) = Some cur" "CurrentRecursivityDepth (Mutexes s m) = 1"
  shows "\<exists>s'. MutexRelease E c m s = Some s' \<and> mutex_view (Mutexes s' m) = tl (mutex_view (Mutexes s m)) \<and>
    mutex_ok (Mutexes s' m) \<and> ReadyThreadsList s' = ReadyThreadsList s @ take 1 (mutex_view (Mutexes s' m))"
  using MutexRelease_eq [OF inv cur held(1)] ok held
  by (cases "MutexWaitingList (Mutexes s m)") (simp_all add: mutex_view_def mutex_ok_def)

end

end
