(* ===== verification/SchedSpec.thy ===== *)
theory SchedSpec
  imports Mutex
begin

text \<open>
  What the scheduler, events and mutexes promise their callers, as properties of whole
  operations and of sequences of them.
\<close>

subsection \<open>Yielding\<close>

text \<open>The CPU schedules, and no thread is about to be terminated.\<close>

definition calm :: "nat \<Rightarrow> sched \<Rightarrow> bool" where
  "calm c s \<longleftrightarrow> schedulable c s \<and> current_thread c s \<noteq> None \<and>
     (\<forall>t th. Threads s t = Some th \<longrightarrow> Flags th \<noteq> THREAD_FLAG_FORCE_TERMINATE_PENDING)"

definition after_yield :: "nat \<Rightarrow> sched \<Rightarrow> nat list" where
  "after_yield c s = ReadyThreadsList s @
     (if CurrentThread (Cpu s c) = IdleThread (Cpu s c) then [] else map the [CurrentThread (Cpu s c)])"

fun yields :: "sched_env \<Rightarrow> nat \<Rightarrow> nat \<Rightarrow> sched \<Rightarrow> sched option" where
  "yields E c 0 s = Some s"
| "yields E c (Suc n) s = ThreadYield E c s \<bind> yields E c n"

context sched_contracts
begin

lemma ThreadYield_calm:
  assumes inv: "sched_inv s" and calm: "calm c s"
  shows "\<exists>s'. ThreadYield E c s = Some s' \<and> sched_inv s' \<and> calm c s' \<and> ReadyThreadsList s' = tl (after_yield c s) \<and>
    CurrentThread (Cpu s' c) = (case after_yield c s of [] \<Rightarrow> IdleThread (Cpu s c) | t # _ \<Rightarrow> Some t)"
proof -
  obtain cur th where cur: "current_thread c s = Some (cur, th)"
    using calm by (auto simp: calm_def)
  note c = currentD [OF inv cur]
  have flags: "Flags th \<noteq> THREAD_FLAG_FORCE_TERMINATE_PENDING" and can: "schedulable c s"
    using calm c(2) by (auto simp: calm_def)
  obtain nx s' where s': "ThreadYield E c s = Some s'" and nx: "next_thread c (yield_state c cur th s) = Some nx"
      and ho: "handed_over c cur (yielding c cur th s) nx (yield_state c cur th s) s'"
    using ThreadYield_total [OF inv cur flags can] by blast
  have inv': "sched_inv s'"
    using ThreadYield_inv [OF inv cur _ s'] flags by simp
  have ready: "ReadyThreadsList (yield_state c cur th s) = after_yield c s"
    using c(1) by (simp add: yield_state_cpu after_yield_def)
  have run: "CurrentThread (Cpu s' c) = Some nx" "ReadyThreadsList s' = tl (after_yield c s)" "IdleThread (Cpu s' c) = IdleThread (Cpu s c)"
    using ho by (simp_all add: handed_over_def ready yield_state_cpu(1-4))
  have same: "\<exists>th0. Threads s t = Some th0 \<and> Flags th1 = Flags th0 \<and> Process th1 = Process th0" if "Threads s' t = Some th1" for t th1
    using that ho c(2) by (cases "t = cur") (auto simp: handed_over_def yield_state_cpu yielding_def)
  obtain thn where "Threads s' nx = Some thn"
    using running_okD(3) [OF placesD(4), of None s' c nx] inv' run(1) by (auto simp: sched_inv_def)
  then have "calm c s'"
    using calm run(1,3) same by (auto simp: calm_def schedulable_def current_thread_def) metis+
  moreover have "CurrentThread (Cpu s' c) = (case after_yield c s of [] \<Rightarrow> IdleThread (Cpu s c) | t # _ \<Rightarrow> Some t)"
    using nx run(1) by (simp add: next_thread_def ready yield_state_cpu(1-4) split: list.splits)
  ultimately show ?thesis
    using s' inv' run(2) by blast
qed

lemma yields_reach:
  assumes "sched_inv s" and "calm c s" and "i < length (ReadyThreadsList s)"
  shows "\<exists>s'. yields E c (Suc i) s = Some s' \<and> CurrentThread (Cpu s' c) = Some (ReadyThreadsList s ! i)"
  using assms
proof (induction i arbitrary: s)
  case 0
  obtain s' where s': "ThreadYield E c s = Some s'"
      "CurrentThread (Cpu s' c) = (case after_yield c s of [] \<Rightarrow> IdleThread (Cpu s c) | t # _ \<Rightarrow> Some t)"
    using ThreadYield_calm [OF 0(1,2)] by blast
  then show ?case
    using 0(3) by (cases "ReadyThreadsList s") (simp_all add: after_yield_def)
next
  case (Suc i)
  obtain s1 where s1: "ThreadYield E c s = Some s1" "sched_inv s1" "calm c s1" "ReadyThreadsList s1 = tl (after_yield c s)"
    using ThreadYield_calm [OF Suc.prems(1,2)] by blast
  obtain t ts where ready: "ReadyThreadsList s = t # ts"
    using Suc.prems(3) by (cases "ReadyThreadsList s") auto
  have "i < length (ReadyThreadsList s1)" "ReadyThreadsList s1 ! i = ReadyThreadsList s ! Suc i"
    using s1(4) ready Suc.prems(3) by (simp_all add: after_yield_def nth_append)
  then show ?case
    using Suc.IH [OF s1(2,3)] s1(1) by simp
qed

end

lemma sched_example_calm: "calm 0 sched_example"
  using sched_example_schedulable by (auto simp: calm_def split: if_splits)

text \<open>
  C20 (functional). \<open>ThreadYield\<close> serves the ready threads in turn: in every state that satisfies
  the invariant and in which the CPU has its idle thread and nobody is being terminated, the call
  returns, the thread at the head of the ready list runs next and the caller is its new tail (the
  idle thread never is on the list, and runs only when the list is empty).
\<close>

theorem ThreadYield_round_robin:
  assumes "sched_contracts E" and "sched_inv s" and "calm c s"
  shows "\<exists>s'. ThreadYield E c s = Some s' \<and> sched_inv s' \<and> calm c s' \<and> ReadyThreadsList s' = tl (after_yield c s) \<and>
    CurrentThread (Cpu s' c) = (case after_yield c s of [] \<Rightarrow> IdleThread (Cpu s c) | t # _ \<Rightarrow> Some t)"
  by (rule sched_contracts.ThreadYield_calm [OF assms])

lemma ThreadYield_round_robin_witness:
  "\<exists>s'. ThreadYield sched_env_example 0 sched_example = Some s' \<and> ReadyThreadsList s' = [3, 1] \<and> CurrentThread (Cpu s' 0) = Some 2"
  using ThreadYield_round_robin [OF sx.sched_contracts_axioms sched_example_inv sched_example_calm]
  by (auto simp: after_yield_def)

text \<open>
  C21 (liveness). A ready thread gets the CPU: the thread at position \<open>i\<close> of the ready list runs
  on a CPU after at most \<open>i + 1\<close> calls of \<open>ThreadYield\<close> by whatever threads run there.
\<close>

theorem ready_thread_runs:
  assumes "sched_contracts E" and "sched_inv s" and "calm c s" and "i < length (ReadyThreadsList s)"
  shows "\<exists>s'. yields E c (Suc i) s = Some s' \<and> CurrentThread (Cpu s' c) = Some (ReadyThreadsList s ! i)"
  by (rule sched_contracts.yields_reach [OF assms])

lemma ready_thread_runs_witness:
  "\<exists>s'. yields sched_env_example 0 2 sched_example = Some s' \<and> CurrentThread (Cpu s' 0) = Some 3"
  using ready_thread_runs [OF sx.sched_contracts_axioms sched_example_inv sched_example_calm, of 1]
  by (simp add: numeral_2_eq_2)

subsection \<open>Events\<close>

context sched_contracts
begin

lemma ExEventSignal_can_wake:
  assumes "distinct (WaitingList (Events s e))" and "\<forall>t \<in> set (WaitingList (Events s e)). can_wake s t" and "ReadyThreadsLock s = None"
  shows "ExEventSignal E c e s = Some (wake (woken (Events s e)) (put_event e ((Events s e)
    \<lparr>Signaled := True, WaitingList := drop (length (woken (Events s e))) (WaitingList (Events s e))\<rparr>) s))"
proof -
  let ?s1 = "put_event e ((Events s e)\<lparr>Signaled := True\<rparr>) s"
  have "woken ((Events s e)\<lparr>Signaled := True\<rparr>) = woken (Events s e)"
    by (simp add: woken_def)
  then show ?thesis
    using ExEventSignal_loop_eq [of ?s1 e "WaitingList (Events s e)" "Suc (length (WaitingList (Events s e)))" c] assms
    by (simp add: ExEventSignal_def can_wake_def)
qed

lemma ExEventSignal_eq:
  assumes inv: "sched_inv s"
  shows "ExEventSignal E c e s = Some (wake (woken (Events s e)) (put_event e ((Events s e)
    \<lparr>Signaled := True, WaitingList := drop (length (woken (Events s e))) (WaitingList (Events s e))\<rparr>) s))"
proof (rule ExEventSignal_can_wake)
  have pl: "places None s"
    using inv by (simp add: sched_inv_def)
  show "distinct (WaitingList (Events s e))"
    using waiting_okD(1) [OF placesD(3) [OF pl], of "EventQueue e"] by simp
  show "\<forall>t \<in> set (WaitingList (Events s e)). can_wake s t"
    using waiting_okD(4) [OF placesD(3) [OF pl], of _ "EventQueue e"] by (auto simp: can_wake_def unlocked_None)
qed (use inv in \<open>simp add: sched_inv_def\<close>)

lemma ExEventWaitForSignal_block_total:
  assumes inv: "sched_inv s" and cur: "current_thread c s = Some (cur, th)"
    and flags: "Flags th \<noteq> THREAD_FLAG_FORCE_TERMINATE_PENDING" and can: "schedulable c s"
    and idle: "IdleThread (Cpu s c) \<noteq> Some cur"
  shows "\<exists>s'. ExEventWaitForSignal_block E c e s = Some s' \<and> sched_inv s' \<and> CurrentThread (Cpu s' c) = next_thread c s \<and>
    Events s' = (Events s)(e := (Events s e)\<lparr>WaitingList := WaitingList (Events s e) @ [cur]\<rparr>) \<and>
    map_option State (Threads s' cur) = Some ThreadStateBlocked \<and> ReadyThreadsList s' = tl (ReadyThreadsList s)"
proof -
  let ?s0 = "put_event e ((Events s e)\<lparr>WaitingList := WaitingList (Events s e) @ [cur]\<rparr>) s"
  obtain nx s' where s': "ThreadSchedule E c (block_state c cur th ?s0) = Some s'" "next_thread c s = Some nx"
      "handed_over c cur (blocking c th) nx (block_state c cur th ?s0) s'"
    by (rule block_total [where ?s0.0 = ?s0 and q = "EventQueue e", OF inv cur can]) (use idle in \<open>simp_all add: queue_event_upd\<close>)
  then have some: "ExEventWaitForSignal_block E c e s = Some s'"
    by (simp add: ExEventWaitForSignal_block_eq [OF inv cur flags])
  then show ?thesis
    using s' ExEventWaitForSignal_block_inv [OF inv cur idle flags some] by (simp add: handed_over_def blocking_def)
qed

end

text \<open>
  C22 (functional). A signal always returns, leaves the event signaled, and makes the waiting threads
  ready in the order in which they came: all of them for a notification event, the first one for a
  synchronization event, and no other thread changes.
\<close>

theorem ExEventSignal_wakes:
  assumes "sched_contracts E" and "sched_inv s"
    and ws_def: "ws = WaitingList (Events s e)"
    and n_def: "n = (if EventType (Events s e) = ExEventTypeNotification then length ws else 1)"
  shows "\<exists>s'. ExEventSignal E c e s = Some s' \<and> sched_inv s' \<and> Signaled (Events s' e) \<and>
    WaitingList (Events s' e) = drop n ws \<and> ReadyThreadsList s' = ReadyThreadsList s @ take n ws \<and> Cpu s' = Cpu s \<and>
    (\<forall>t. Threads s' t = (if t \<in> set (take n ws) then map_option (\<lambda>th. th\<lparr>State := ThreadStateReady\<rparr>) (Threads s t) else Threads s t))"
proof -
  have w: "woken (Events s e) = take n ws" "drop (length (woken (Events s e))) ws = drop n ws"
    by (cases "EventType (Events s e)"; cases "WaitingList (Events s e)"; simp add: woken_def n_def ws_def)+
  obtain s' where s': "ExEventSignal E c e s = Some s'"
    using sched_contracts.ExEventSignal_eq [OF assms(1,2)] by blast
  have "th\<lparr>State := ThreadStateReady, BlockLock := None\<rparr> = th\<lparr>State := ThreadStateReady\<rparr>"
    if "t \<in> set (take n ws)" "Threads s t = Some th" for t th
    using that waiting_okD(4) [OF placesD(3), of None s t "EventQueue e"] assms(2) in_set_takeD [of t n ws]
    by (auto simp: sched_inv_def unlocked_None ws_def)
  then have "map_option (\<lambda>th. th\<lparr>State := ThreadStateReady, BlockLock := None\<rparr>) (Threads s t) =
      map_option (\<lambda>th. th\<lparr>State := ThreadStateReady\<rparr>) (Threads s t)" if "t \<in> set (take n ws)" for t
    using that by (cases "Threads s t") auto
  then show ?thesis
    using sched_contracts.ExEventSignal_eq [OF assms(1,2), of c e] s' w sched_contracts.ExEventSignal_inv [OF assms(1,2) s']
    by (auto simp: ws_def wake_def)
qed

lemma ExEventSignal_wakes_witness:
  "\<exists>s'. ExEventSignal sched_env_example 1 (OtherEvt 0) sched_example = Some s' \<and> ReadyThreadsList s' = [2, 3, 4]"
  using ExEventSignal_wakes [OF sx.sched_contracts_axioms sched_example_inv refl refl, of 1 "OtherEvt 0"]
  by (auto simp: sched_example_def)

text \<open>
  C23 (safety). A signal that another CPU sends between the failed test of \<open>ExEventWaitForSignal\<close>
  and the insertion into the waiting list is lost: the thread blocks on an event that is signaled,
  and stays in its waiting list until the event is signaled once more.
\<close>

theorem ExEventWaitForSignal_loses_signal:
  assumes "sched_contracts E" and "sched_inv s" and "current_thread c s = Some (cur, th)"
    and "Flags th \<noteq> THREAD_FLAG_FORCE_TERMINATE_PENDING" and "schedulable c s" and "IdleThread (Cpu s c) \<noteq> Some cur"
    and "\<not> Signaled (Events s e)" and "WaitingList (Events s e) = []"
  shows "\<exists>s1 s2. ExEventWaitForSignal_test e s = (False, s) \<and> ExEventSignal E d e s = Some s1 \<and>
    ExEventWaitForSignal_block E c e s1 = Some s2 \<and> Signaled (Events s2 e) \<and> WaitingList (Events s2 e) = [cur] \<and>
    map_option State (Threads s2 cur) = Some ThreadStateBlocked"
proof -
  let ?s1 = "put_event e ((Events s e)\<lparr>Signaled := True, WaitingList := []\<rparr>) s"
  have s1: "ExEventSignal E d e s = Some ?s1"
    using sched_contracts.ExEventSignal_eq [OF assms(1,2), of d e] assms(8) by (simp add: woken_def)
  have cur1: "current_thread c ?s1 = Some (cur, th)" "schedulable c ?s1"
    using assms(3,5) by (simp_all add: current_thread_def schedulable_def)
  show ?thesis
    using sched_contracts.ExEventWaitForSignal_block_total [OF assms(1)
        sched_contracts.ExEventSignal_inv [OF assms(1,2) s1] cur1(1) assms(4) cur1(2), of e] s1 assms(6,7)
    by (auto simp: ExEventWaitForSignal_test_def Let_def)
qed

lemma ExEventWaitForSignal_loses_signal_witness:
  "\<exists>s1 s2. ExEventSignal sched_env_example 1 (OtherEvt 3) sched_example = Some s1 \<and>
    ExEventWaitForSignal_block sched_env_example 0 (OtherEvt 3) s1 = Some s2 \<and> WaitingList (Events s2 (OtherEvt 3)) = [1]"
  using ExEventWaitForSignal_loses_signal [OF sx.sched_contracts_axioms sched_example_inv, of 0 1 _ "OtherEvt 3" 1] sched_example_schedulable
  by (auto simp: sched_example_def ExEventInit_def current_thread_def)

subsection \<open>Termination\<close>

lemma ThreadGetReadyThread_frame:
  "ThreadGetReadyThread E c s = Some (nx, s1) \<Longrightarrow> Events s1 = Events s \<and> Threads s1 = Threads s \<and> Cpu s1 = Cpu s"
  by (auto simp: ThreadGetReadyThread_def bind_Some_iff Let_def split: prod.splits option.splits)

lemma ThreadCleanupPostSchedule_frame:
  assumes "ThreadCleanupPostSchedule E c s = Some s'"
  shows "Events s' = Events s" and "Threads s t = Some th \<Longrightarrow> State th = ThreadStateDying \<Longrightarrow> Threads s' t = Some x \<Longrightarrow> State x = ThreadStateDying"
proof -
  let ?s1 = "(put_cpu c ((Cpu s c)\<lparr>RunningThreadTicks := 0\<rparr>) s)\<lparr>ReadyThreadsLock := LockRelease (SK E) c (ReadyThreadsLock s)\<rparr>"
  have "s' = ?s1 \<or> (\<exists>p y. Threads s p = Some y \<and> (s' = put_thread p (y\<lparr>BlockLock := LockRelease (SK E) c (BlockLock y)\<rparr>) ?s1 \<or>
      (\<exists>s2. ThreadDereference E p ?s1 = Some s2 \<and> s' = put_cpu c ((Cpu s2 c)\<lparr>PreviousThread := None\<rparr>) s2)))"
    using assms by (auto simp: ThreadCleanupPostSchedule_def bind_Some_iff Let_def split: option.splits if_splits)
  then consider "s' = ?s1" | p y where "Threads s p = Some y" "s' = put_thread p (y\<lparr>BlockLock := LockRelease (SK E) c (BlockLock y)\<rparr>) ?s1"
    | p y s2 where "Threads s p = Some y" "ThreadDereference E p ?s1 = Some s2" "s' = put_cpu c ((Cpu s2 c)\<lparr>PreviousThread := None\<rparr>) s2"
    by blast
  then have "Events s' = Events s \<and> (Threads s t = Some th \<longrightarrow> State th = ThreadStateDying \<longrightarrow> Threads s' t = Some x \<longrightarrow> State x = ThreadStateDying)"
    for t th x
  proof cases
    case (3 p y s2)
    note f = ThreadDereference_frame [OF 3(2)]
    have "Events s' = Events s"
      using f(4) 3(3) by simp
    then show ?thesis
      using f(7) [of t] f(8) [of th] 3 by (cases "t = p") auto
  qed auto
  then show "Events s' = Events s" and "Threads s t = Some th \<Longrightarrow> State th = ThreadStateDying \<Longrightarrow> Threads s' t = Some x \<Longrightarrow> State x = ThreadStateDying"
    by blast+
qed

lemma ThreadSchedule_frame:
  assumes some: "ThreadSchedule E c s = Some s'" and cur: "CurrentThread (Cpu s c) = Some cur" "Threads s cur = Some th"
    and dying: "State th = ThreadStateDying"
  shows "Events s' = Events s" and "Threads s' cur = Some x \<Longrightarrow> State x = ThreadStateDying"
proof -
  let ?s0 = "put_cpu c ((Cpu s c)\<lparr>PreviousThread := Some cur\<rparr>) s"
  obtain nx s1 where get: "ThreadGetReadyThread E c ?s0 = Some (nx, s1)"
    using some cur by (auto simp: ThreadSchedule_def current_thread_def bind_Some_iff)
  note f = ThreadGetReadyThread_frame [OF get]
  have t1: "Threads s1 cur = Some th" "Events s1 = Events s"
    using f cur(2) by simp_all
  obtain s2 where "ThreadCleanupPostSchedule E c s2 = Some s'" "Events s2 = Events s"
      "\<exists>y. Threads s2 cur = Some y \<and> State y = ThreadStateDying"
  proof (cases "nx = cur")
    case True
    then have "ThreadCleanupPostSchedule E c (put_thread cur (th\<lparr>UninterruptedTicks := UninterruptedTicks th + 1\<rparr>) s1) = Some s'"
      using some cur get t1 by (simp add: ThreadSchedule_def current_thread_def)
    then show ?thesis
      using that t1 dying by fastforce
  next
    case False
    obtain thn where thn: "Threads s1 nx = Some thn"
      using some cur get t1(1) False by (cases "Threads s1 nx") (simp_all add: ThreadSchedule_def current_thread_def)
    define td where "td = (Cpu s1 c)\<lparr>CurrentThread := Some nx, StackTop := InitialStackBase thn, CpuStackSize := StackSize thn\<rparr>"
    define s2 where "s2 = put_cpu c td (put_thread cur (th\<lparr>UninterruptedTicks := 0\<rparr>) (if Process th = Process thn then s1
      else s1\<lparr>ActiveSpace := (ActiveSpace s1)(c := Process thn)\<rparr>))"
    have "ThreadCleanupPostSchedule E c s2 = Some s'"
    proof (cases "Process th = Process thn")
      case True
      then show ?thesis
        using some cur get t1(1) False thn
        by (simp add: ThreadSchedule_def current_thread_def SetCurrentThread_def td_def s2_def)
    next
      case diff: False
      then obtain p where "Process thn = Some p"
        using some cur get t1(1) False thn by (cases "Process thn") (simp_all add: ThreadSchedule_def current_thread_def)
      then show ?thesis
        using some cur get t1(1) False thn diff
        by (simp add: ThreadSchedule_def current_thread_def SetCurrentThread_def td_def s2_def)
    qed
    moreover have "Events s2 = Events s" "Threads s2 cur = Some (th\<lparr>UninterruptedTicks := 0\<rparr>)"
      using t1 by (simp_all add: s2_def)
    ultimately show ?thesis
      using that dying by fastforce
  qed
  then show "Events s' = Events s" and "Threads s' cur = Some x \<Longrightarrow> State x = ThreadStateDying"
    using ThreadCleanupPostSchedule_frame [of E c s2 s'] by auto
qed

context sched_contracts
begin

lemma ExEventSignal_loop_others: "ExEventSignal_loop E c e n s = Some s' \<Longrightarrow> e' \<noteq> e \<Longrightarrow> Events s' e' = Events s e'"
proof (induction n arbitrary: s)
  case (Suc n)
  show ?case
  proof (cases "WaitingList (Events s e)")
    case (Cons t ws)
    then obtain s2 where s2: "ThreadUnblock E c t (put_event e ((Events s e)\<lparr>WaitingList := ws\<rparr>) s) = Some s2"
        "(if EventType (Events s2 e) = ExEventTypeSynchronization then Some s2 else ExEventSignal_loop E c e n s2) = Some s'"
      using Suc.prems by (auto simp: lib_simps bind_Some_iff)
    then have "Events s2 e' = Events s e'"
      using Suc.prems(2) by (auto simp: ThreadUnblock_iff)
    then show ?thesis
      using s2(2) Suc.IH [of s2] Suc.prems(2) by (simp split: if_splits)
  qed (use Suc.prems in \<open>auto simp: lib_simps\<close>)
qed simp

lemma ExEventSignal_others:
  assumes sig: "ExEventSignal E c e s = Some s'" and ne: "e' \<noteq> e"
  shows "Events s' e' = Events s e'"
  using ExEventSignal_loop_others [OF sig [unfolded ExEventSignal_def] ne] ne by simp

lemma ProcessNotify_frame:
  assumes "ProcessNotifyThreadTermination E c t s = Some s'"
  shows "Events s' (OtherEvt i) = Events s (OtherEvt i)" and "Cpu s' = Cpu s"
    and "Threads s u = Some th \<Longrightarrow> State th \<noteq> ThreadStateBlocked \<Longrightarrow> Threads s' u = Some th"
proof -
  obtain p pr where step: "s' = put_process p pr s \<or> ExEventSignal E c (ProcessEvt p) (put_process p pr s) = Some s'"
    using assms by (auto simp: ProcessNotifyThreadTermination_def bind_Some_iff Let_def split: if_splits)
  then have "Events s' (OtherEvt i) = Events s (OtherEvt i) \<and> signal_frame (put_process p pr s) s'"
  proof
    assume sig: "ExEventSignal E c (ProcessEvt p) (put_process p pr s) = Some s'"
    show ?thesis
      using ExEventSignal_others [OF sig, of "OtherEvt i"] ExEventSignal_frame [OF sig] by simp
  qed simp
  then show "Events s' (OtherEvt i) = Events s (OtherEvt i)" and "Cpu s' = Cpu s"
    and "Threads s u = Some th \<Longrightarrow> State th \<noteq> ThreadStateBlocked \<Longrightarrow> Threads s' u = Some th"
    by (simp_all add: signal_frame_def)
qed

lemma ThreadExit_frame:
  assumes cur: "current_thread c s = Some (cur, th)" and lock: "BlockLock th = None \<or> BlockLock th = Some c"
    and some: "ThreadExit E c st s = Some s'"
  shows "Events s' (OtherEvt i) = Events s (OtherEvt i)" and "Threads s' cur = Some x \<Longrightarrow> State x = ThreadStateDying"
proof -
  define th1 where "th1 = th\<lparr>BlockLock := None, State := ThreadStateDying, ExitStatus := st\<rparr>"
  have "(if LockIsOwner (SK E) c (BlockLock th) then th\<lparr>BlockLock := LockRelease (SK E) c (BlockLock th)\<rparr> else th)
      \<lparr>State := ThreadStateDying, ExitStatus := st\<rparr> = th1"
    using lock by (auto simp: lib_simps th1_def)
  then obtain s1 s2 where s1: "ExEventSignal E c (ThreadEvt cur) (put_thread cur th1 s) = Some s1"
      and s2: "ProcessNotifyThreadTermination E c cur s1 = Some s2"
      and s3: "ThreadSchedule E c (s2\<lparr>ReadyThreadsLock := Some c\<rparr>) = Some s'"
    using some cur by (auto simp: ThreadExit_def bind_Some_iff lock_acquire cong: if_cong)
  have t: "Events s1 (OtherEvt i) = Events s (OtherEvt i)" "Cpu s1 = Cpu s" "Threads s1 cur = Some th1"
    using ExEventSignal_others [OF s1, of "OtherEvt i"] ExEventSignal_frame [OF s1] by (simp_all add: signal_frame_def th1_def)
  note f2 = ProcessNotify_frame [OF s2]
  have "CurrentThread (Cpu s2 c) = Some cur" "Threads s2 cur = Some th1"
    using f2(2) f2(3) [OF t(3)] t(2) cur by (simp_all add: th1_def current_thread_def bind_Some_iff)
  then have d: "CurrentThread (Cpu (s2\<lparr>ReadyThreadsLock := Some c\<rparr>) c) = Some cur"
      "Threads (s2\<lparr>ReadyThreadsLock := Some c\<rparr>) cur = Some th1" "State th1 = ThreadStateDying"
    by (simp_all add: th1_def)
  show "Events s' (OtherEvt i) = Events s (OtherEvt i)"
    using ThreadSchedule_frame(1) [OF s3 d] f2(1) t(1) by simp
  show "Threads s' cur = Some x \<Longrightarrow> State x = ThreadStateDying"
    by (rule ThreadSchedule_frame(2) [OF s3 d])
qed

end

text \<open>
  A thread that is to be terminated and waits for an event dies while it is in the
  event's waiting list: the list is left with the entry of a thread that is not blocked any more
  (or whose object was freed), and the next signal does not return.
\<close>

theorem forced_exit_leaves_entry:
  assumes "sched_contracts E" and "current_thread c s = Some (cur, th)" and "BlockLock th = None"
    and "Flags th = THREAD_FLAG_FORCE_TERMINATE_PENDING" and "WaitingList (Events s (OtherEvt i)) = []"
    and "ExEventWaitForSignal_block E c (OtherEvt i) s = Some s'"
  shows "WaitingList (Events s' (OtherEvt i)) = [cur] \<and>
    (Threads s' cur = None \<or> map_option State (Threads s' cur) = Some ThreadStateDying) \<and>
    ExEventSignal E d (OtherEvt i) s' = None"
proof -
  note lib = sched_contracts.lib_simps [OF assms(1)]
  define th1 where "th1 = th\<lparr>BlockLock := Some c, Flags := Flags th OR THREAD_FLAG_FORCE_TERMINATED\<rparr>"
  define s1 where "s1 = put_thread cur th1 (put_event (OtherEvt i) ((Events s (OtherEvt i))\<lparr>WaitingList := [cur]\<rparr>) s)"
  have c: "CurrentThread (Cpu s c) = Some cur" "Threads s cur = Some th"
    using assms(2) by (auto simp: current_thread_def bind_Some_iff)
  have c1: "current_thread c s1 = Some (cur, th1)"
    using c by (simp add: current_thread_def s1_def)
  have exit: "ThreadExit E c STATUS_JOB_INTERRUPTED s1 = Some s'"
    using assms(3-6) c by (simp add: ExEventWaitForSignal_block_def ThreadTakeBlockLock_def ThreadBlock_def
        ThreadForcedExit_def current_thread_def lib Let_def s1_def th1_def)
  note f = sched_contracts.ThreadExit_frame [OF assms(1) c1 _ exit]
  have w: "WaitingList (Events s' (OtherEvt i)) = [cur]"
    using f(1) [of i] by (simp add: th1_def s1_def)
  moreover have dead: "Threads s' cur = None \<or> map_option State (Threads s' cur) = Some ThreadStateDying"
    using f(2) by (cases "Threads s' cur") (auto simp: th1_def)
  moreover have "ThreadUnblock E d cur s2 = None" if "Threads s2 = Threads s'" for s2
    using dead that by (cases "Threads s' cur") (auto simp: ThreadUnblock_def split: bind_splits)
  ultimately show ?thesis
    by (simp add: ExEventSignal_def lib)
qed

definition sched_doomed :: sched where
  "sched_doomed = put_thread 1 ((thread_example ThreadStateRunning)\<lparr>Flags := 1\<rparr>) sched_example"

lemma forced_exit_leaves_entry_witness:
  "\<exists>s'. ExEventWaitForSignal_block sched_env_example 0 (OtherEvt 1) sched_doomed = Some s' \<and>
    WaitingList (Events s' (OtherEvt 1)) = [1] \<and> ExEventSignal sched_env_example 0 (OtherEvt 1) s' = None"
proof -
  have "case ExEventWaitForSignal_block sched_env_example 0 (OtherEvt 1) sched_doomed of None \<Rightarrow> False | Some _ \<Rightarrow> True"
    by code_simp
  then have "\<exists>s'. ExEventWaitForSignal_block sched_env_example 0 (OtherEvt 1) sched_doomed = Some s'"
    by (simp split: option.splits)
  then show ?thesis
    using forced_exit_leaves_entry [OF sx.sched_contracts_axioms, of 0 sched_doomed 1
        "(thread_example ThreadStateRunning)\<lparr>Flags := 1\<rparr>" 1 _ 0]
    by (auto simp: sched_doomed_def sched_example_def ExEventInit_def current_thread_def)
qed

text \<open>A thread that leaves while somebody still refers to it.\<close>

lemma dying_can_wake:
  assumes pl: "places (Some c) s" and cur: "CurrentThread (Cpu s c) = Some cur" "Threads s cur = Some th" "State th = ThreadStateDying"
    and lock: "ReadyThreadsLock s = None"
  shows "distinct (WaitingList (Events s e))" and "\<forall>t \<in> set (WaitingList (Events s e)). can_wake s t"
proof -
  show "distinct (WaitingList (Events s e))"
    using waiting_okD(1) [OF placesD(3) [OF pl], of "EventQueue e"] by simp
  show "\<forall>t \<in> set (WaitingList (Events s e)). can_wake s t"
    using waiting_okD(4) [OF placesD(3) [OF pl], of _ "EventQueue e"] cur by (fastforce simp: can_wake_def unlocked_def)
qed

context sched_contracts
begin

lemma ThreadDereference_dec:
  assumes "Threads s t = Some th" and "1 < RefCnt th"
  shows "ThreadDereference E t s = Some (put_thread t (th\<lparr>RefCnt := RefCnt th - 1\<rparr>) s)"
proof -
  have "RfcDereference (SR E) (RefCnt th) = RefCnt th - 1"
    using assms(2) by (intro rfc_contract.RfcDereference_dec [OF env_rfc]) auto
  moreover have "RefCnt th - 1 \<noteq> 0"
    using assms(2) by auto
  ultimately show ?thesis
    using assms(1) by (simp add: ThreadDereference_def)
qed

lemma ThreadSchedule_dying:
  assumes pl: "places (Some c) s" and lock: "ReadyThreadsLock s = Some c"
    and cur: "CurrentThread (Cpu s c) = Some cur" "Threads s cur = Some th"
    and dying: "State th = ThreadStateDying" "BlockLock th = None" "1 < RefCnt th" and can: "schedulable c s"
  shows "\<exists>nx s'. ThreadSchedule E c s = Some s' \<and> next_thread c s = Some nx \<and> handed_over c cur th nx s s' \<and>
    Processes s' = Processes s \<and> (nx \<noteq> cur \<longrightarrow> Threads s' cur = Some (th\<lparr>UninterruptedTicks := 0, RefCnt := RefCnt th - 1\<rparr>))"
proof -
  obtain nx where nx: "next_thread c s = Some nx" "process_ok s cur nx"
    by (rule schedulable_next [OF pl can])
  obtain s1 where sw: "switched c cur th nx s s1" and eq: "ThreadSchedule E c s = ThreadCleanupPostSchedule E c s1"
    using ThreadSchedule_switched [OF placesD(1) [OF pl] lock cur] nx by auto
  define th1 where "th1 = th\<lparr>UninterruptedTicks := if nx = cur then UninterruptedTicks th + 1 else 0\<rparr>"
  define s2 where "s2 = (put_cpu c ((Cpu s1 c)\<lparr>RunningThreadTicks := 0\<rparr>) s1)\<lparr>ReadyThreadsLock := None\<rparr>"
  have t2: "Threads s2 cur = Some th1" "1 < RefCnt th1"
    using sw dying(3) by (simp_all add: switched_def s2_def th1_def)
  have some: "ThreadCleanupPostSchedule E c s1 = Some (put_cpu c ((Cpu s2 c)\<lparr>PreviousThread := None\<rparr>)
      (put_thread cur (th1\<lparr>RefCnt := RefCnt th1 - 1\<rparr>) s2))"
    using sw lock dying ThreadDereference_dec [OF t2]
    by (simp add: ThreadCleanupPostSchedule_def lib_simps switched_def th1_def s2_def)
  have "leaving c s cur th"
    using dying by (simp add: leaving_def)
  then have "handed_over c cur th nx s (put_cpu c ((Cpu s2 c)\<lparr>PreviousThread := None\<rparr>)
      (put_thread cur (th1\<lparr>RefCnt := RefCnt th1 - 1\<rparr>) s2))"
    by (rule ThreadCleanup_handed(1) [OF sw _ lock some])
  then show ?thesis
    using nx some eq sw by (simp add: th1_def s2_def switched_def)
qed

end

definition exit_ready :: "nat \<Rightarrow> nat \<Rightarrow> bool \<Rightarrow> sched \<Rightarrow> nat list" where
  "exit_ready cur p lastThread s = ReadyThreadsList s @ woken (Events s (ThreadEvt cur)) @
     (if lastThread then woken (Events s (ProcessEvt p)) else [])"

lemma woken_subset: "t \<in> set (woken ev) \<Longrightarrow> t \<in> set (WaitingList ev)"
  by (auto simp: woken_def dest: in_set_takeD split: if_splits)

context sched_contracts
begin

lemma ProcessNotify_eq:
  assumes th: "Threads s t = Some th" "Process th = Some p" "Processes s p = Some pr"
    and can: "distinct (WaitingList (Events s (ProcessEvt p)))" "\<forall>u \<in> set (WaitingList (Events s (ProcessEvt p))). can_wake s u"
    and lock: "ReadyThreadsLock s = None"
  shows "\<exists>V. ProcessNotifyThreadTermination E c t s = Some (wake (if ActiveThreads pr = 1 then woken (Events s (ProcessEvt p)) else [])
    ((put_process p (pr\<lparr>ActiveThreads := ActiveThreads pr - 1,
       TerminationStatus := if ActiveThreads pr = 1 then ExitStatus th else TerminationStatus pr\<rparr>) s)\<lparr>Events := V\<rparr>)) \<and>
    (ActiveThreads pr = 1 \<longrightarrow> Signaled (V (ProcessEvt p))) \<and> (\<forall>e. e \<noteq> ProcessEvt p \<longrightarrow> V e = Events s e)"
proof (cases "ActiveThreads pr = 1")
  case True
  let ?s1 = "put_process p (pr\<lparr>ActiveThreads := 0, TerminationStatus := ExitStatus th\<rparr>) s"
  let ?e = "ProcessEvt p"
  let ?V = "(Events s)(?e := (Events s ?e)\<lparr>Signaled := True, WaitingList := drop (length (woken (Events s ?e))) (WaitingList (Events s ?e))\<rparr>)"
  have "ExEventSignal E c ?e ?s1 = Some (wake (woken (Events s ?e)) (?s1\<lparr>Events := ?V\<rparr>))"
    using ExEventSignal_can_wake [of ?s1 ?e c] can lock by (simp add: can_wake_def)
  then have "ProcessNotifyThreadTermination E c t s = Some (wake (woken (Events s ?e)) (?s1\<lparr>Events := ?V\<rparr>))"
    using th True by (simp add: ProcessNotifyThreadTermination_def Let_def)
  then show ?thesis
    using True by (intro exI [of _ ?V]) simp
next
  case False
  then have "ActiveThreads pr - 1 \<noteq> 0"
    by auto
  then show ?thesis
    using False th by (intro exI [of _ "Events s"]) (simp add: ProcessNotifyThreadTermination_def Let_def)
qed

end

lemma wake_Process: "Threads (wake ws s) t = Some x \<Longrightarrow> \<exists>y. Threads s t = Some y \<and> Process x = Process y"
  by (auto simp: wake_def split: if_splits)

text \<open>
  C24 (functional). A thread that exits while somebody holds a reference to it leaves for good: the
  call ends with another thread on the CPU, the exit status is stored, the threads that wait for
  it and, if it was the last active one, those that wait for its process are ready, in this order.
\<close>

theorem ThreadExit_notifies:
  assumes C: "sched_contracts E" and inv: "sched_inv s" and cur: "current_thread c s = Some (cur, th)"
    and idle: "IdleThread (Cpu s c) \<noteq> Some cur" and can: "schedulable c s"
    and p: "Process th = Some p" "Processes s p = Some pr" and ref: "1 < RefCnt th"
  shows "\<exists>s'. ThreadExit E c st s = Some s' \<and> sched_inv s' \<and>
    ReadyThreadsList s' = tl (exit_ready cur p (ActiveThreads pr = 1) s) \<and>
    CurrentThread (Cpu s' c) = (case exit_ready cur p (ActiveThreads pr = 1) s of [] \<Rightarrow> IdleThread (Cpu s c) | t # _ \<Rightarrow> Some t) \<and>
    map_option (\<lambda>x. (State x, ExitStatus x, RefCnt x)) (Threads s' cur) = Some (ThreadStateDying, st, RefCnt th - 1) \<and>
    Signaled (Events s' (ThreadEvt cur)) \<and> (ActiveThreads pr = 1 \<longrightarrow> Signaled (Events s' (ProcessEvt p))) \<and>
    Processes s' p = Some (pr\<lparr>ActiveThreads := ActiveThreads pr - 1,
      TerminationStatus := if ActiveThreads pr = 1 then st else TerminationStatus pr\<rparr>)"
proof -
  note d = currentD [OF inv cur]
  let ?lastThread = "ActiveThreads pr = 1"
  let ?W1 = "woken (Events s (ThreadEvt cur))" and ?W2 = "if ?lastThread then woken (Events s (ProcessEvt p)) else []"
  define th1 where "th1 = th\<lparr>State := ThreadStateDying, ExitStatus := st\<rparr>"
  have th1: "State th1 = ThreadStateDying" "BlockLock th1 = None" "Process th1 = Some p" "ExitStatus th1 = st" "RefCnt th1 = RefCnt th"
    using d(3) p(1) by (simp_all add: th1_def)
  define s0 where "s0 = put_thread cur th1 s"
  have pl0: "places (Some c) s0"
    using current_not_idle [OF inv cur idle] by (intro put_current_places [OF inv cur, of th1]) (simp_all add: s0_def th1)
  have c0: "CurrentThread (Cpu s0 c) = Some cur" "Threads s0 cur = Some th1" "ReadyThreadsLock s0 = None"
    using d(1,9) by (simp_all add: s0_def)
  define V1 where "V1 = (Events s)(ThreadEvt cur := (Events s (ThreadEvt cur))
    \<lparr>Signaled := True, WaitingList := drop (length ?W1) (WaitingList (Events s (ThreadEvt cur)))\<rparr>)"
  define s1 where "s1 = wake ?W1 (s0\<lparr>Events := V1\<rparr>)"
  have s1: "ExEventSignal E c (ThreadEvt cur) s0 = Some s1"
    using sched_contracts.ExEventSignal_can_wake [OF C dying_can_wake [OF pl0 c0(1,2) th1(1) c0(3)] c0(3), where e = "ThreadEvt cur" and c = c]
    by (simp add: s1_def V1_def s0_def)
  note pl1 = sched_contracts.ExEventSignal_places [OF C pl0 s1] and f1 = sched_contracts.ExEventSignal_frame [OF C s1]
  have c1: "CurrentThread (Cpu s1 c) = Some cur" "Threads s1 cur = Some th1" "ReadyThreadsLock s1 = None" "Processes s1 p = Some pr" "Cpu s1 = Cpu s"
    using f1 c0 th1(1) p(2) by (simp_all add: signal_frame_def s0_def)
  note w1 = dying_can_wake [OF pl1 c1(1,2) th1(1) c1(3)]
  obtain V where V: "ProcessNotifyThreadTermination E c cur s1 = Some (wake (if ?lastThread then woken (Events s1 (ProcessEvt p)) else [])
      ((put_process p (pr\<lparr>ActiveThreads := ActiveThreads pr - 1, TerminationStatus := if ?lastThread then st else TerminationStatus pr\<rparr>)
        s1)\<lparr>Events := V\<rparr>))" "?lastThread \<longrightarrow> Signaled (V (ProcessEvt p))" "\<forall>e. e \<noteq> ProcessEvt p \<longrightarrow> V e = Events s1 e"
    using sched_contracts.ProcessNotify_eq [OF C c1(2) th1(3) c1(4) w1 c1(3), where c = c] th1(4) by auto
  define s2 where "s2 = wake ?W2 ((put_process p (pr\<lparr>ActiveThreads := ActiveThreads pr - 1,
    TerminationStatus := if ?lastThread then st else TerminationStatus pr\<rparr>) s1)\<lparr>Events := V\<rparr>)"
  have s2: "ProcessNotifyThreadTermination E c cur s1 = Some s2"
    using V(1) by (simp add: s2_def s1_def V1_def cong: if_cong)
  note pl2 = sched_contracts.ProcessNotify_places [OF C pl1 s2]
  define s3 where "s3 = s2\<lparr>ReadyThreadsLock := Some c\<rparr>"
  have c3: "places (Some c) s3" "ReadyThreadsLock s3 = Some c" "CurrentThread (Cpu s3 c) = Some cur" "Threads s3 cur = Some th1"
    using pl2(1) pl2(3) pl2(4) [OF c1(2)] c1(1) th1(1) places_cong [of s3 s2 "Some c"] by (simp_all add: s3_def)
  have can3: "schedulable c s3"
    using can c1(5) pl2(3) wake_Process [of ?W1 "s0\<lparr>Events := V1\<rparr>"] p(1)
      wake_Process [of ?W2 "(put_process p (pr\<lparr>ActiveThreads := ActiveThreads pr - 1,
        TerminationStatus := if ?lastThread then st else TerminationStatus pr\<rparr>) s1)\<lparr>Events := V\<rparr>", folded s2_def]
    by (fastforce simp: schedulable_def s3_def s1_def s0_def th1(3) split: if_splits)
  have ref1: "1 < RefCnt th1"
    using ref th1(5) by simp
  obtain nx s' where s': "ThreadSchedule E c s3 = Some s'" "next_thread c s3 = Some nx" and ho: "handed_over c cur th1 nx s3 s'"
      and rest: "Processes s' = Processes s3" "nx \<noteq> cur \<longrightarrow> Threads s' cur = Some (th1\<lparr>UninterruptedTicks := 0, RefCnt := RefCnt th1 - 1\<rparr>)"
    using sched_contracts.ThreadSchedule_dying [OF C c3 th1(1,2) ref1 can3] by blast
  have exit: "ThreadExit E c st s = Some s'"
    using cur d(3) s1 s2 s'(1) pl2(2) c1(3)
    by (simp add: ThreadExit_def sched_contracts.lib_simps [OF C] th1_def [symmetric] s0_def s3_def)
  have ready: "ReadyThreadsList s3 = exit_ready cur p ?lastThread s"
    by (simp add: s3_def s2_def s1_def s0_def exit_ready_def)
  have idle3: "IdleThread (Cpu s3 c) = IdleThread (Cpu s c)"
    using pl2(3) c1(5) by (simp add: s3_def)
  have "cur \<notin> set (exit_ready cur p ?lastThread s)"
    using d(4) d(5) [of "EventQueue (ThreadEvt cur)"] d(5) [of "EventQueue (ProcessEvt p)"] woken_subset
    by (auto simp: exit_ready_def split: if_splits)
  then have "nx \<noteq> cur"
    using s'(2) idle idle3 ready by (auto simp: next_thread_def split: list.splits)
  moreover have "CurrentThread (Cpu s' c) = (case exit_ready cur p ?lastThread s of [] \<Rightarrow> IdleThread (Cpu s c) | t # _ \<Rightarrow> Some t)"
    using ho s'(2) idle3 ready by (simp add: handed_over_def next_thread_def split: list.splits)
  moreover have "sched_inv s'"
    by (rule sched_contracts.ThreadExit_inv [OF C inv cur idle exit])
  moreover have "Signaled (Events s' (ThreadEvt cur))" "?lastThread \<longrightarrow> Signaled (Events s' (ProcessEvt p))"
    using ho V(2,3) by (simp_all add: handed_over_def s3_def s2_def s1_def V1_def)
  ultimately show ?thesis
    using exit rest th1 ho ready by (simp add: handed_over_def s3_def s2_def)
qed

lemma ThreadExit_notifies_witness:
  "\<exists>s'. ThreadExit sched_env_example 0 STATUS_UNSUCCESSFUL sched_example = Some s' \<and> CurrentThread (Cpu s' 0) = Some 2 \<and>
    Signaled (Events s' (ThreadEvt 1))"
proof -
  obtain pr where pr: "Processes sched_example 0 = Some pr"
    by (simp add: sched_example_def)
  show ?thesis
    using ThreadExit_notifies [OF sx.sched_contracts_axioms sched_example_inv, of 0 1 _ 0 pr STATUS_UNSUCCESSFUL]
      sched_example_schedulable pr by (auto simp: exit_ready_def)
qed

subsection \<open>Mutexes\<close>

text \<open>
  C25 (refinement). \<open>MutexAcquire\<close> implements the enqueue operation of the abstract mutex, a queue
  of threads whose head has the mutex: the caller is appended, it has the mutex exactly if the
  queue was empty, and otherwise it is blocked and another thread runs.
\<close>

theorem MutexAcquire_refines:
  assumes "sched_contracts E" and "sched_inv s" and "current_thread c s = Some (cur, th)"
    and "Flags th \<noteq> THREAD_FLAG_FORCE_TERMINATE_PENDING" and "schedulable c s"
    and "mutex_ok (Mutexes s m)" and "Holder (Mutexes s m) \<noteq> Some cur" and "IdleThread (Cpu s c) \<noteq> Some cur"
  shows "\<exists>got s'. MutexAcquire E c m s = Some (got, s') \<and> (got \<longleftrightarrow> mutex_view (Mutexes s m) = []) \<and>
    mutex_view (Mutexes s' m) = mutex_view (Mutexes s m) @ [cur] \<and> mutex_ok (Mutexes s' m) \<and> sched_inv s' \<and>
    (if got then current_thread c s' = Some (cur, th)
     else map_option State (Threads s' cur) = Some ThreadStateBlocked \<and> CurrentThread (Cpu s' c) = next_thread c s)"
  using sched_contracts.MutexAcquire_view [OF assms] sched_contracts.MutexAcquire_inv [OF assms(1-3,8,4)] by blast

lemma MutexAcquire_refines_witness:
  "\<exists>s'. MutexAcquire sched_env_example 1 0 sched_example = Some (False, s') \<and> mutex_view (Mutexes s' 0) = [1, 5, 6]"
proof -
  have v: "mutex_view (Mutexes sched_example 0) = [1, 5]" "mutex_ok (Mutexes sched_example 0)" "Holder (Mutexes sched_example 0) = Some 1"
    by (simp_all add: sched_example_def mutex_view_def mutex_ok_def)
  show ?thesis
    using MutexAcquire_refines [OF sx.sched_contracts_axioms sched_example_inv, of 1 6 _ 0] v sched_example_schedulable by (auto simp del: One_nat_def)
qed

text \<open>
  C26 (refinement). \<open>MutexRelease\<close> implements the dequeue operation: the mutex goes to the thread that
  has waited longest, which becomes the last ready thread, or is free if nobody waits, and the
  caller keeps the CPU.
\<close>

theorem MutexRelease_refines:
  assumes "sched_contracts E" and "sched_inv s" and "current_thread c s = Some (cur, th)"
    and "mutex_ok (Mutexes s m)" and "Holder (Mutexes s m) = Some cur" and "CurrentRecursivityDepth (Mutexes s m) = 1"
  shows "\<exists>s'. MutexRelease E c m s = Some s' \<and> mutex_view (Mutexes s' m) = tl (mutex_view (Mutexes s m)) \<and>
    mutex_ok (Mutexes s' m) \<and> sched_inv s' \<and> ReadyThreadsList s' = ReadyThreadsList s @ take 1 (mutex_view (Mutexes s' m))"
  using sched_contracts.MutexRelease_view [OF assms] sched_contracts.MutexRelease_inv [OF assms(1,2)] by blast

lemma MutexRelease_refines_witness:
  "\<exists>s'. MutexRelease sched_env_example 0 0 sched_example = Some s' \<and> mutex_view (Mutexes s' 0) = [5] \<and> ReadyThreadsList s' = [2, 3, 5]"
proof -
  have v: "mutex_view (Mutexes sched_example 0) = [1, 5]" "mutex_ok (Mutexes sched_example 0)" "Holder (Mutexes sched_example 0) = Some 1"
    "CurrentRecursivityDepth (Mutexes sched_example 0) = 1"
    by (simp_all add: sched_example_def mutex_view_def mutex_ok_def)
  show ?thesis
    using MutexRelease_refines [OF sx.sched_contracts_axioms sched_example_inv, of 0 1 _ 0] v by auto
qed

text \<open>A thread that holds the mutex acquires and releases it again.\<close>

fun acquires :: "sched_env \<Rightarrow> nat \<Rightarrow> nat \<Rightarrow> nat \<Rightarrow> sched \<Rightarrow> sched option" where
  "acquires E c m 0 s = Some s"
| "acquires E c m (Suc n) s = do {
     (_, s) \<leftarrow> MutexAcquire E c m s;
     acquires E c m n s
   }"

fun releases :: "sched_env \<Rightarrow> nat \<Rightarrow> nat \<Rightarrow> nat \<Rightarrow> sched \<Rightarrow> sched option" where
  "releases E c m 0 s = Some s"
| "releases E c m (Suc n) s = MutexRelease E c m s \<bind> releases E c m n"

definition put_depth :: "nat \<Rightarrow> byte \<Rightarrow> sched \<Rightarrow> sched" where
  "put_depth m d s = put_mutex m ((Mutexes s m)\<lparr>CurrentRecursivityDepth := d\<rparr>) s"

lemma put_depth_simps [simp]:
  "put_depth m d (put_depth m d' s) = put_depth m d s" "Holder (Mutexes (put_depth m d s) m) = Holder (Mutexes s m)"
  "CurrentRecursivityDepth (Mutexes (put_depth m d s) m) = d" "MaxRecursivityDepth (Mutexes (put_depth m d s) m) = MaxRecursivityDepth (Mutexes s m)"
  "current_thread c (put_depth m d s) = current_thread c s" "CurrentThread (Cpu (put_depth m d s) c) = CurrentThread (Cpu s c)"
  by (simp_all add: put_depth_def current_thread_def)

lemma put_depth_id: "put_depth m (CurrentRecursivityDepth (Mutexes s m)) s = s"
  by (simp add: put_depth_def)

lemma MutexAcquire_again:
  assumes "current_thread c s = Some (cur, th)" and "Holder (Mutexes s m) = Some cur"
  shows "MutexAcquire E c m s = (if CurrentRecursivityDepth (Mutexes s m) < MaxRecursivityDepth (Mutexes s m)
    then Some (True, put_depth m (CurrentRecursivityDepth (Mutexes s m) + 1) s) else None)"
  using assms by (simp add: MutexAcquire_def put_depth_def Let_def)

lemma byte_inc: "d < (k :: byte) \<Longrightarrow> unat (d + 1) = Suc (unat d)"
  using unsigned_less [of k, where ?'a = nat] by (simp add: unat_word_ariths word_less_nat_alt)

lemma acquires_eq:
  assumes "current_thread c s = Some (cur, th)" and "Holder (Mutexes s m) = Some cur"
    and "CurrentRecursivityDepth (Mutexes s m) \<le> MaxRecursivityDepth (Mutexes s m)"
  shows "acquires E c m n s = (if unat (CurrentRecursivityDepth (Mutexes s m)) + n \<le> unat (MaxRecursivityDepth (Mutexes s m))
    then Some (put_depth m (CurrentRecursivityDepth (Mutexes s m) + of_nat n) s) else None)"
  using assms
proof (induction n arbitrary: s)
  case 0
  then show ?case
    by (simp add: put_depth_id word_le_nat_alt)
next
  case (Suc n)
  let ?d = "CurrentRecursivityDepth (Mutexes s m)" and ?k = "MaxRecursivityDepth (Mutexes s m)"
  show ?case
  proof (cases "?d < ?k")
    case True
    have d1: "unat (?d + 1) = Suc (unat ?d)" "?d + 1 \<le> ?k"
      using byte_inc [OF True] True by (simp_all add: word_le_nat_alt word_less_nat_alt)
    have "acquires E c m (Suc n) s = acquires E c m n (put_depth m (?d + 1) s)"
      using MutexAcquire_again [OF Suc.prems(1,2), of E] True by simp
    also have "\<dots> = (if unat (?d + 1) + n \<le> unat ?k then Some (put_depth m (?d + 1 + of_nat n) s) else None)"
      using Suc.IH [of "put_depth m (?d + 1) s"] Suc.prems(1,2) d1(2) by simp
    finally show ?thesis
      unfolding d1(1) by (simp add: ac_simps)
  next
    case False
    then show ?thesis
      using MutexAcquire_again [OF Suc.prems(1,2), of E] by (simp add: word_less_nat_alt)
  qed
qed

lemma releases_eq:
  assumes "current_thread c s = Some (cur, th)" and "Holder (Mutexes s m) = Some cur"
    and "n < unat (CurrentRecursivityDepth (Mutexes s m))"
  shows "releases E c m n s = Some (put_depth m (CurrentRecursivityDepth (Mutexes s m) - of_nat n) s)"
  using assms
proof (induction n arbitrary: s)
  case 0
  then show ?case
    by (simp add: put_depth_id)
next
  case (Suc n)
  let ?d = "CurrentRecursivityDepth (Mutexes s m)"
  have d: "1 < ?d" "unat (?d - 1) = unat ?d - 1"
    using Suc.prems(3) by (simp_all add: word_less_nat_alt unat_sub word_le_nat_alt)
  have "MutexRelease E c m s = Some (put_depth m (?d - 1) s)"
    using Suc.prems(1,2) d(1) by (simp add: MutexRelease_def put_depth_def Let_def)
  then show ?case
    using Suc.IH [of "put_depth m (?d - 1) s"] Suc.prems d(2) by (simp add: diff_diff_eq)
qed



end
