(* ===== verification/SchedSteps.thy ===== *)
theory SchedSteps
  imports SchedSpec
begin

text \<open>
  New threads, and the histories of the scheduler: every sequence of its operations, from the
  empty system on and by any number of CPUs, keeps each thread in one place.
\<close>

subsection \<open>New threads\<close>

text \<open>A thread object that is set up is blocked and in no place of the scheduler.\<close>

definition nowhere :: "sched \<Rightarrow> nat \<Rightarrow> bool" where
  "nowhere s t \<longleftrightarrow> t \<notin> set (ReadyThreadsList s) \<and> (\<forall>q. t \<notin> set (queue s q)) \<and>
     (\<forall>c. CurrentThread (Cpu s c) \<noteq> Some t \<and> IdleThread (Cpu s c) \<noteq> Some t)"

definition fresh_in :: "nat \<Rightarrow> sched \<Rightarrow> bool" where
  "fresh_in t s \<longleftrightarrow> sched_inv s \<and> nowhere s t \<and>
     map_option (\<lambda>th. (State th, BlockLock th)) (Threads s t) = Some (ThreadStateBlocked, None)"

lemma no_object_nowhere:
  assumes inv: "sched_inv s" and t: "Threads s t = None"
  shows "nowhere s t"
proof -
  have pl: "places None s"
    using inv by (simp add: sched_inv_def)
  show ?thesis
    using ready_okD(3) [OF placesD(1) [OF pl], of t] waiting_okD(4) [OF placesD(3) [OF pl], of t]
      idle_okD(1) [OF placesD(2) [OF pl], of _ t] running_okD(3) [OF placesD(4) [OF pl], of _ t] t
    by (fastforce simp: nowhere_def)
qed

lemma nowhere_inv:
  assumes inv: "sched_inv s" and out: "nowhere s t" and th: "Threads s' = (Threads s)(t \<mapsto> th)"
    and same: "ReadyThreadsList s' = ReadyThreadsList s" "ReadyThreadsLock s' = ReadyThreadsLock s" "Cpu s' = Cpu s"
    and sub: "\<And>q. queue s' q = queue s q \<or> queue s' q = []"
  shows "sched_inv s'" and "nowhere s' t"
proof -
  have pl: "places None s"
    using inv by (simp add: sched_inv_def)
  note p = placesD [OF pl]
  have o: "t \<notin> set (ReadyThreadsList s)" "t \<notin> set (queue s q)" "CurrentThread (Cpu s c) \<noteq> Some t" "IdleThread (Cpu s c) \<noteq> Some t" for q c
    using out by (simp_all add: nowhere_def)
  have upd: "Threads s' u = Threads s u" if "u \<noteq> t" for u
    using that by (simp add: th)
  have q: "set (queue s' q) \<subseteq> set (queue s q)" "distinct (queue s q) \<Longrightarrow> distinct (queue s' q)" for q
    using sub [of q] by auto
  have "ready_ok s'"
    unfolding ready_ok_def same using ready_okD [OF p(1)] upd o(1) by metis
  moreover have "idle_ok None s'"
    unfolding idle_ok_def same unlocked_None using idle_okD [OF p(2), unfolded unlocked_None] upd o(4) by metis
  moreover have "waiting_ok None s'"
    unfolding waiting_ok_def same unlocked_None
  proof (intro conjI allI ballI impI, goal_cases)
    case (1 q1)
    show ?case
      by (rule q(2) [OF waiting_okD(1) [OF p(3)]])
  next
    case (2 q1 q2)
    then show ?case
      using waiting_okD(2) [OF p(3), of q1 q2] q(1) [of q1] q(1) [of q2] by blast
  next
    case (3 q1 u c)
    then show ?case
      using waiting_okD(3) [OF p(3), of u q1 c] q(1) [of q1] by blast
  next
    case (4 q1 u)
    then have u: "u \<in> set (queue s q1)"
      using q(1) by blast
    then have "u \<noteq> t"
      using o(2) by blast
    then show ?case
      using waiting_okD(4) [OF p(3) u] upd by (simp add: unlocked_None)
  qed
  moreover have "running_ok d s'" for d
    unfolding running_ok_def same using running_okD [OF p(4)] upd o(3) by (metis option.discI)
  ultimately show "sched_inv s'"
    using inv by (simp add: sched_inv_def places_def same)
  show "nowhere s' t"
    using out q(1) unfolding nowhere_def same by blast
qed

lemma fresh_in_step:
  assumes fresh: "fresh_in t s" and others: "\<And>u. u \<noteq> t \<Longrightarrow> Threads s' u = Threads s u"
    and t: "map_option (\<lambda>th. (State th, BlockLock th)) (Threads s' t) = map_option (\<lambda>th. (State th, BlockLock th)) (Threads s t)"
    and same: "ReadyThreadsList s' = ReadyThreadsList s" "ReadyThreadsLock s' = ReadyThreadsLock s" "Cpu s' = Cpu s" "queue s' = queue s"
  shows "fresh_in t s'"
proof -
  obtain th where "Threads s' t = Some th"
    using fresh t by (auto simp: fresh_in_def)
  then have "Threads s' = (Threads s)(t \<mapsto> th)"
    using others by (auto simp: fun_eq_iff)
  then show ?thesis
    using nowhere_inv [of s t s' th] fresh t same by (simp add: fresh_in_def)
qed

lemma ProcessInsert_fresh: "fresh_in t s \<Longrightarrow> ProcessInsertThreadInList E p t s = Some s' \<Longrightarrow> fresh_in t s'"
  by (erule fresh_in_step)
    (auto simp: ProcessInsertThreadInList_def ProcessReference_def bind_Some_iff Let_def)

lemma ThreadReference_fresh: "fresh_in t s \<Longrightarrow> ThreadReference E t s = Some s' \<Longrightarrow> fresh_in t s'"
  by (erule fresh_in_step) (auto simp: ThreadReference_def bind_Some_iff)

lemma ThreadCreateEx_user_fresh:
  "fresh_in t s \<Longrightarrow> ThreadCreateEx_user E A t pr f x s = Some (st, r, s') \<Longrightarrow> fresh_in t s'"
  by (erule fresh_in_step)
    (auto simp: ThreadCreateEx_user_def ThreadSetupMainThreadUserStack_def bind_Some_iff Let_def split: if_splits)

lemma ThreadSetupInitialState_fresh:
  "fresh_in t s \<Longrightarrow> ThreadSetupInitialState E t f a b k s = Some s' \<Longrightarrow> fresh_in t s'"
  by (erule fresh_in_step) (auto simp: ThreadSetupInitialState_def bind_Some_iff Let_def)

context sched_contracts
begin

lemma ThreadInit_fails:
  assumes "Threads s t = Some th" "Process th = None" "RefCnt th = 1"
  shows "ThreadInit_failed E st t s = None"
proof -
  have "RfcDereference (SR E) 1 = 0"
    using rfc_contract.RfcDereference_dec [OF env_rfc, of 1] by simp
  then show ?thesis
    using assms by (simp add: ThreadInit_failed_def ThreadDereference_def ThreadDestroy_def ProcessRemoveThreadFromList_def Let_def)
qed

lemma ThreadInit_fresh:
  assumes inv: "sched_inv s" and t: "PoolThread A = Some t" "Threads s t = None"
    and some: "ThreadInit E sz A name prio k s = Some (st, r, s')"
  shows "fresh_in t s' \<and> r = Some t \<and> st = STATUS_SUCCESS"
proof -
  have q: "queue s1 q = queue s q \<or> queue s1 q = []"
    if "Events s1 = (Events s)(ThreadEvt t := ExEventInit ExEventTypeNotification False)" "Mutexes s1 = Mutexes s" for s1 q
    using that by (cases q) (simp_all add: ExEventInit_def)
  have "\<exists>th. Threads s' = (Threads s)(t \<mapsto> th) \<and> State th = ThreadStateBlocked \<and> BlockLock th = None \<and>
      r = Some t \<and> st = STATUS_SUCCESS \<and> ReadyThreadsList s' = ReadyThreadsList s \<and> ReadyThreadsLock s' = ReadyThreadsLock s \<and>
      Cpu s' = Cpu s \<and> Events s' = (Events s)(ThreadEvt t := ExEventInit ExEventTypeNotification False) \<and> Mutexes s' = Mutexes s"
    using some t
    by (auto simp: ThreadInit_def lib_simps Let_def zero_thread_def ThreadSystemGetNextTid_def ThreadInit_fails split: if_splits)
  then obtain th where th: "Threads s' = (Threads s)(t \<mapsto> th)" "State th = ThreadStateBlocked" "BlockLock th = None"
      and r: "r = Some t" "st = STATUS_SUCCESS" and same: "ReadyThreadsList s' = ReadyThreadsList s"
      "ReadyThreadsLock s' = ReadyThreadsLock s" "Cpu s' = Cpu s"
      "Events s' = (Events s)(ThreadEvt t := ExEventInit ExEventTypeNotification False)" "Mutexes s' = Mutexes s"
    by blast
  show ?thesis
    using nowhere_inv [OF inv no_object_nowhere [OF inv t(2)] th(1) same(1-3) q [OF same(4,5)]] th r
    by (simp add: fresh_in_def)
qed

lemma fresh_unblock:
  assumes fresh: "fresh_in t s" and some: "ThreadUnblock E c t s = Some s'"
  shows "sched_inv s'"
  using ThreadUnblock_places [OF _ _ _ some, of None] some fresh
  by (auto simp: fresh_in_def sched_inv_def nowhere_def ThreadUnblock_iff)

lemma fresh_idle:
  assumes fresh: "fresh_in t s" and t: "Threads s t = Some th" and none: "IdleThread (Cpu s c) = None"
  shows "sched_inv (put_cpu c ((Cpu s c)\<lparr>IdleThread := Some t\<rparr>) (put_thread t (th\<lparr>State := ThreadStateReady\<rparr>) s))"
    (is "sched_inv ?s'")
proof -
  have pl: "places None s" and out: "nowhere s t" and th: "BlockLock th = None" and lock: "ReadyThreadsLock s = None"
    using fresh t by (auto simp: fresh_in_def sched_inv_def)
  note p = placesD [OF pl]
  have o: "t \<notin> set (ReadyThreadsList s)" "t \<notin> set (queue s q)" "CurrentThread (Cpu s c) \<noteq> Some t" "IdleThread (Cpu s c) \<noteq> Some t" for q c
    using out by (simp_all add: nowhere_def)
  have cpu: "CurrentThread (Cpu ?s' d) = CurrentThread (Cpu s d)"
    "IdleThread (Cpu ?s' d) = (if d = c then Some t else IdleThread (Cpu s d))" for d
    by simp_all
  have upd: "Threads ?s' u = Threads s u" if "u \<noteq> t" for u
    using that by simp
  have same: "ReadyThreadsList ?s' = ReadyThreadsList s" "queue ?s' = queue s"
    by simp_all
  have r: "ready_ok ?s'"
    unfolding ready_ok_def cpu same
  proof (intro conjI ballI allI ready_okD(1) [OF p(1)], goal_cases)
    case (1 u d)
    then show ?case
      using ready_okD(2) [OF p(1) 1, of d] o(1) by auto
  next
    case (2 u)
    then show ?case
      using ready_okD(3) [OF p(1) 2] o(1) upd [of u] by auto
  qed
  have i: "idle_ok None ?s'"
    unfolding idle_ok_def cpu unlocked_None
  proof (intro allI impI conjI, goal_cases)
    case (1 d u)
    then show ?case
      using idle_okD(1) [OF p(2), of d u] th upd [of u] o(4) by (auto simp: unlocked_None split: if_splits)
  next
    case (2 d u e)
    then show ?case
      using idle_okD(2) [OF p(2), of d u e] o(3) by (auto split: if_splits)
  next
    case (3 d u e)
    then show ?case
      using idle_okD(3) [OF p(2), of d u e] o(4) by (auto split: if_splits)
  qed
  have w: "waiting_ok None ?s'"
    unfolding waiting_ok_def cpu same unlocked_None
  proof (intro conjI allI ballI impI waiting_okD(1) [OF p(3)] waiting_okD(2) [OF p(3)], goal_cases)
    case (2 q u d)
    then show ?case
      using waiting_okD(3) [OF p(3), of u q d] o(2) by auto
  next
    case (3 q u)
    then show ?case
      using waiting_okD(4) [OF p(3) 3] o(2) upd [of u] by (auto simp: unlocked_None)
  qed
  have "running_ok d ?s'" for d
    unfolding running_ok_def cpu same
  proof (intro allI impI)
    fix u
    assume u: "CurrentThread (Cpu s d) = Some u"
    then have ne: "u \<noteq> t"
      using o(3) by auto
    note ro = running_okD [OF p(4) u]
    then have "\<exists>x. Threads ?s' u = Some x \<and> BlockLock x = None \<and> (State x = ThreadStateRunning \<or> State x = ThreadStateReady \<or>
        (if d = c then Some t else IdleThread (Cpu s d)) = Some u \<and> State x = ThreadStateBlocked)"
      using ro(3) upd [OF ne] none by auto
    then show "u \<notin> set (ReadyThreadsList s) \<and> (\<exists>th. Threads ?s' u = Some th \<and> BlockLock th = None \<and>
        (State th = ThreadStateRunning \<or> State th = ThreadStateReady \<or>
         (if d = c then Some t else IdleThread (Cpu s d)) = Some u \<and> State th = ThreadStateBlocked)) \<and>
      (\<forall>e. e \<noteq> d \<longrightarrow> CurrentThread (Cpu s e) \<noteq> Some u)"
      using ro(1,2) by blast
  qed
  then show ?thesis
    using r i w lock by (simp add: sched_inv_def places_def)
qed

end

context sched_contracts
begin

lemma ThreadCreateEx_inv:
  assumes inv: "sched_inv s" and new: "\<And>t. PoolThread A = Some t \<Longrightarrow> Threads s t = None"
    and some: "ThreadCreateEx E c sz A nm prio f x outNull Proc s = Some (st, r, s')"
  shows "sched_inv s'"
proof (cases "nm = None \<or> f = 0 \<or> outNull \<or> Proc = None")
  case True
  then show ?thesis
    using some inv by (auto simp: ThreadCreateEx_def split: option.splits if_splits)
next
  case False
  then obtain name p where args: "nm = Some name" "Proc = Some p" "f \<noteq> 0" "\<not> outNull"
    by auto
  obtain st1 r1 s1 where init: "ThreadInit E sz A name prio True s = Some (st1, r1, s1)"
    using some args by (auto simp: ThreadCreateEx_def bind_Some_iff)
  show ?thesis
  proof (cases "PoolThread A")
    case None
    then show ?thesis
      using init some args inv by (auto simp: ThreadCreateEx_def ThreadInit_def bind_Some_iff)
  next
    case (Some t)
    have f1: "fresh_in t s1" "r1 = Some t"
      using ThreadInit_fresh [OF inv Some new [OF Some] init] by simp_all
    obtain s2 s3 pr st4 st5 fn a b s4 where s2: "ProcessInsertThreadInList E p t s1 = Some s2" and s3: "ThreadReference E t s2 = Some s3"
        and s4: "(if UserSpace pr then ThreadCreateEx_user E A t pr f x s3
              else Some (STATUS_SUCCESS, (ThreadKernelFunction E, f, x), s3)) = Some (st4, (fn, a, b), s4)"
        and rest: "(if \<not> SUCCEEDED st4 then Some (st4, None, s4)
          else do {
            s \<leftarrow> ThreadSetupInitialState E t fn a b (\<not> UserSpace pr) s4;
            s \<leftarrow> (if IdleThread (Cpu s c) = None then do {
                    th \<leftarrow> Threads s t;
                    Some (put_cpu c ((Cpu s c)\<lparr>IdleThread := Some t\<rparr>) (put_thread t (th\<lparr>State := ThreadStateReady\<rparr>) s))
                  }
                  else ThreadUnblock E c t s);
            Some (STATUS_SUCCESS, Some t, s)
          }) = Some (st, r, s')"
      using some args init f1(2) by (auto simp: ThreadCreateEx_def bind_Some_iff simp del: put_defs split: prod.splits)
    have f3: "fresh_in t s3"
      using ThreadReference_fresh [OF ProcessInsert_fresh [OF f1(1) s2] s3] .
    then have f4: "fresh_in t s4"
      using s4 ThreadCreateEx_user_fresh [of t s3] by (auto split: if_splits)
    show ?thesis
    proof (cases "SUCCEEDED st4")
      case False
      then show ?thesis
        using rest f4 by (simp add: fresh_in_def)
    next
      case True
      then obtain s5 where s5: "ThreadSetupInitialState E t fn a b (\<not> UserSpace pr) s4 = Some s5"
          and last: "(if IdleThread (Cpu s5 c) = None then do {
                    th \<leftarrow> Threads s5 t;
                    Some (put_cpu c ((Cpu s5 c)\<lparr>IdleThread := Some t\<rparr>) (put_thread t (th\<lparr>State := ThreadStateReady\<rparr>) s5))
                  }
                  else ThreadUnblock E c t s5) = Some s'"
        using rest by (auto simp: bind_Some_iff simp del: put_defs)
      have f5: "fresh_in t s5"
        by (rule ThreadSetupInitialState_fresh [OF f4 s5])
      show ?thesis
      proof (cases "IdleThread (Cpu s5 c)")
        case None
        then show ?thesis
          using last fresh_idle [OF f5 _ None] by (auto simp: bind_Some_iff simp del: put_defs)
      next
        case (Some i)
        then show ?thesis
          using last fresh_unblock [OF f5] by simp
      qed
    qed
  qed
qed

end

lemma fresh_running:
  assumes fresh: "fresh_in t s" and free: "CurrentThread (Cpu s c) = None"
    and th: "State th = ThreadStateRunning" "BlockLock th = None"
    and s': "Threads s' = (Threads s)(t \<mapsto> th)" "CurrentThread (Cpu s' c) = Some t" "\<And>d. d \<noteq> c \<Longrightarrow> Cpu s' d = Cpu s d"
      "IdleThread (Cpu s' c) = IdleThread (Cpu s c)" "ReadyThreadsList s' = ReadyThreadsList s"
      "ReadyThreadsLock s' = ReadyThreadsLock s" "queue s' = queue s"
  shows "sched_inv s'"
proof -
  have pl: "places None s" and out: "nowhere s t" and lock: "ReadyThreadsLock s = None"
    using fresh by (auto simp: fresh_in_def sched_inv_def)
  note p = placesD [OF pl]
  have o: "t \<notin> set (ReadyThreadsList s)" "t \<notin> set (queue s q)" "CurrentThread (Cpu s c) \<noteq> Some t" "IdleThread (Cpu s c) \<noteq> Some t" for q c
    using out by (simp_all add: nowhere_def)
  have cpu: "CurrentThread (Cpu s' d) = (if d = c then Some t else CurrentThread (Cpu s d))"
    "IdleThread (Cpu s' d) = IdleThread (Cpu s d)" for d
    using s'(2-4) by (cases "d = c"; simp)+
  have upd: "Threads s' u = Threads s u" if "u \<noteq> t" for u
    using that s'(1) by simp
  have r: "ready_ok s'"
    unfolding ready_ok_def cpu s'(5) using ready_okD [OF p(1)] upd o(1) by metis
  have i: "idle_ok None s'"
    unfolding idle_ok_def cpu unlocked_None
  proof (intro allI impI conjI, goal_cases)
    case (1 d u)
    then show ?case
      using idle_okD(1) [OF p(2) 1] upd [of u] o(4) [of d] 1 by (cases "u = t") (auto simp: unlocked_None)
  next
    case (2 d u e)
    then show ?case
      using idle_okD(2) [OF p(2), of d u e] o(4) by (auto split: if_splits)
  next
    case (3 d u e)
    then show ?case
      using idle_okD(3) [OF p(2), of d u e] by auto
  qed
  have w: "waiting_ok None s'"
    unfolding waiting_ok_def cpu s'(7) unlocked_None
  proof (intro conjI allI ballI impI waiting_okD(1,2) [OF p(3)], goal_cases)
    case (2 q u d)
    then show ?case
      using waiting_okD(3) [OF p(3), of u q d] by auto
  next
    case (3 q u)
    then show ?case
      using waiting_okD(4) [OF p(3) 3] o(2) [of q] upd [of u] 3 by (cases "u = t") (auto simp: unlocked_None)
  qed simp
  have "running_ok d s'" for d
    unfolding running_ok_def cpu s'(5)
  proof (intro allI impI)
    fix u
    assume u: "(if d = c then Some t else CurrentThread (Cpu s d)) = Some u"
    show "u \<notin> set (ReadyThreadsList s) \<and> (\<exists>th. Threads s' u = Some th \<and> BlockLock th = None \<and>
        (State th = ThreadStateRunning \<or> State th = ThreadStateReady \<or> IdleThread (Cpu s d) = Some u \<and> State th = ThreadStateBlocked)) \<and>
      (\<forall>e. e \<noteq> d \<longrightarrow> (if e = c then Some t else CurrentThread (Cpu s e)) \<noteq> Some u)"
    proof (cases "d = c")
      case True
      then show ?thesis
        using u o(1,3) s'(1) th by auto
    next
      case False
      then have cu: "CurrentThread (Cpu s d) = Some u"
        using u by simp
      then have "u \<noteq> t"
        using o(3) by auto
      then show ?thesis
        using running_okD [OF p(4) cu] upd [of u] by auto
    qed
  qed
  then show ?thesis
    using r i w lock by (simp add: sched_inv_def places_def s'(6))
qed

lemma ProcessInsert_inv: "sched_inv s \<Longrightarrow> ProcessInsertThreadInList E p t s = Some s' \<Longrightarrow> sched_inv s'"
  by (erule same_inv) (auto simp: ProcessInsertThreadInList_def ProcessReference_def bind_Some_iff Let_def)


context sched_contracts
begin

lemma ThreadSystemInitMain_inv:
  assumes inv: "sched_inv s" and new: "\<And>t. PoolThread A = Some t \<Longrightarrow> Threads s t = None"
    and free: "CurrentThread (Cpu s c) = None"
    and some: "ThreadSystemInitMainForCurrentCPU E c A name prio Proc s = Some (st, s')"
  shows "sched_inv s'"
proof -
  obtain st1 r1 s1 where init: "ThreadInit E 0 A name prio False s = Some (st1, r1, s1)"
    using some by (auto simp: ThreadSystemInitMainForCurrentCPU_def bind_Some_iff)
  show ?thesis
  proof (cases "PoolThread A")
    case None
    then show ?thesis
      using init some inv by (auto simp: ThreadSystemInitMainForCurrentCPU_def ThreadInit_def bind_Some_iff)
  next
    case (Some t)
    have f1: "fresh_in t s1" "r1 = Some t"
      using ThreadInit_fresh [OF inv Some new [OF Some] init] by simp_all
    have cpu: "Cpu s1 = Cpu s"
      using init Some by (auto simp: ThreadInit_def lib_simps Let_def zero_thread_def ThreadSystemGetNextTid_def ThreadInit_fails split: if_splits)
    obtain th where th: "Threads s1 t = Some th" "BlockLock th = None"
      using f1(1) by (auto simp: fresh_in_def)
    define th1 where "th1 = th\<lparr>InitialStackBase := StackTop (Cpu s1 c), StackSize := CpuStackSize (Cpu s1 c), State := ThreadStateRunning\<rparr>"
    define s2 where "s2 = put_cpu c ((Cpu s1 c)\<lparr>CurrentThread := Some t, StackTop := InitialStackBase th1, CpuStackSize := StackSize th1\<rparr>)
      (put_thread t th1 s1)"
    have "(case Proc of None \<Rightarrow> Some s2 | Some p \<Rightarrow> ProcessInsertThreadInList E p t s2) = Some s'"
      using some init f1(2) th(1)
      by (cases Proc) (auto simp: ThreadSystemInitMainForCurrentCPU_def SetCurrentThread_def bind_Some_iff Let_def th1_def s2_def)
    moreover have "sched_inv s2"
      by (rule fresh_running [OF f1(1), of c th1]) (use free cpu th in \<open>simp_all add: s2_def th1_def\<close>)
    ultimately show ?thesis
      using ProcessInsert_inv by (auto split: option.splits)
  qed
qed

end

subsection \<open>Histories\<close>

text \<open>
  A step is one operation on one CPU \<open>c\<close>. Its conditions are what the kernel's callers guarantee:
  the pool hands out objects that are not in use, a CPU gets its main thread once, the idle
  thread does not wait, exit or terminate its process, a handle that is closed is not the last
  reference. The wait of a thread with a pending termination is left out (see
  \<open>SchedSpec.forced_exit_leaves_entry\<close>).
\<close>

definition waits :: "nat \<Rightarrow> sched \<Rightarrow> nat \<Rightarrow> bool" where
  "waits c s cur \<longleftrightarrow> IdleThread (Cpu s c) \<noteq> Some cur \<and>
     (\<exists>th. current_thread c s = Some (cur, th) \<and> Flags th \<noteq> THREAD_FLAG_FORCE_TERMINATE_PENDING)"

inductive sched_step :: "sched_env \<Rightarrow> sched \<Rightarrow> sched \<Rightarrow> bool" for E :: sched_env where
  main: "CurrentThread (Cpu s c) = None \<Longrightarrow> (\<And>t. PoolThread A = Some t \<Longrightarrow> Threads s t = None) \<Longrightarrow>
    ThreadSystemInitMainForCurrentCPU E c A name prio p s = Some (st, s') \<Longrightarrow> sched_step E s s'"
| create: "(\<And>t. PoolThread A = Some t \<Longrightarrow> Threads s t = None) \<Longrightarrow>
    ThreadCreateEx E c sz A nm prio f x outNull p s = Some (st, r, s') \<Longrightarrow> sched_step E s s'"
| tick: "ThreadTick c s = Some s' \<Longrightarrow> sched_step E s s'"
| yield: "current_thread c s = Some (cur, th) \<Longrightarrow>
    (Flags th = THREAD_FLAG_FORCE_TERMINATE_PENDING \<Longrightarrow> IdleThread (Cpu s c) \<noteq> Some cur) \<Longrightarrow>
    ThreadYield E c s = Some s' \<Longrightarrow> sched_step E s s'"
| exit: "current_thread c s = Some (cur, th) \<Longrightarrow> IdleThread (Cpu s c) \<noteq> Some cur \<Longrightarrow> ThreadExit E c st s = Some s' \<Longrightarrow> sched_step E s s'"
| idle: "current_thread c s = Some (cur, th) \<Longrightarrow> IdleThread (Cpu s c) = Some cur \<Longrightarrow>
    Flags th \<noteq> THREAD_FLAG_FORCE_TERMINATE_PENDING \<Longrightarrow> IdleThread_block E c s = Some s' \<Longrightarrow> sched_step E s s'"
| wait: "waits c s cur \<Longrightarrow> ExEventWaitForSignal_block E c e s = Some s' \<Longrightarrow> sched_step E s s'"
| test: "ExEventWaitForSignal_test e s = (b, s') \<Longrightarrow> sched_step E s s'"
| signal: "ExEventSignal E c e s = Some s' \<Longrightarrow> sched_step E s s'"
| clear: "sched_step E s (ExEventClearSignal e s)"
| acquire: "waits c s cur \<Longrightarrow> MutexAcquire E c m s = Some (got, s') \<Longrightarrow> sched_step E s s'"
| reacquire: "waits c s cur \<Longrightarrow> MutexAcquire_round E c m s = Some (got, s') \<Longrightarrow> sched_step E s s'"
| release: "MutexRelease E c m s = Some s' \<Longrightarrow> sched_step E s s'"
| reference: "ThreadReference E t s = Some s' \<Longrightarrow> sched_step E s s'"
| close: "Threads s t = Some th \<Longrightarrow> 1 < RefCnt th \<Longrightarrow> ThreadCloseHandle E t s = Some s' \<Longrightarrow> sched_step E s s'"
| priority: "ThreadSetPriority E c pr s = Some s' \<Longrightarrow> sched_step E s s'"
| terminate: "ThreadTerminate t s = Some s' \<Longrightarrow> sched_step E s s'"
| kill: "current_thread c s = Some (cur, th) \<Longrightarrow> IdleThread (Cpu s c) \<noteq> Some cur \<Longrightarrow> ProcessTerminate E c p s = Some s' \<Longrightarrow> sched_step E s s'"

text \<open>The system after \<open>ThreadSystemPreinit\<close>: no threads, no CPU that runs one, empty waiting lists.\<close>

definition empty_system :: "sched \<Rightarrow> bool" where
  "empty_system s \<longleftrightarrow> (\<forall>t. Threads s t = None) \<and> (\<forall>q. queue s q = []) \<and>
     (\<forall>c. CurrentThread (Cpu s c) = None \<and> IdleThread (Cpu s c) = None)"

context sched_contracts
begin

lemma sched_step_inv:
  assumes step: "sched_step E s s'" and inv: "sched_inv s"
  shows "sched_inv s'"
  using step
proof cases
  case (main c A name prio p st)
  then show ?thesis
    using ThreadSystemInitMain_inv [OF inv] by blast
next
  case (create A c sz nm prio f x outNull p st r)
  then show ?thesis
    using ThreadCreateEx_inv [OF inv] by blast
next
  case (test e b)
  then show ?thesis
    using ExEventWaitForSignal_test_inv [OF inv, of e] by simp
qed (use inv in \<open>auto simp: waits_def intro: ThreadTick_inv ThreadYield_inv ThreadExit_inv IdleThread_block_inv
    ExEventWaitForSignal_block_inv ExEventSignal_inv ExEventClearSignal_inv MutexAcquire_inv MutexAcquire_round_inv
    MutexRelease_inv ThreadReference_inv ThreadCloseHandle_inv ThreadSetPriority_inv ThreadTerminate_inv ProcessTerminate_inv\<close>)

lemma preinit_inv: "empty_system s \<Longrightarrow> sched_inv (ThreadSystemPreinit E s)"
proof -
  assume e: "empty_system s"
  have q: "queue (ThreadSystemPreinit E s) q = queue s q" for q
    by (cases q) (simp_all add: ThreadSystemPreinit_def)
  show ?thesis
    using e q by (simp add: empty_system_def sched_inv_def places_def ready_ok_def idle_ok_def waiting_ok_def running_ok_def
        ThreadSystemPreinit_def lib_simps)
qed

lemma history_inv: "(sched_step E)\<^sup>*\<^sup>* s s' \<Longrightarrow> sched_inv s \<Longrightarrow> sched_inv s'"
  by (induction rule: rtranclp_induct) (auto intro: sched_step_inv)

end


definition boot_alloc :: "nat \<Rightarrow> thread_alloc" where
  "boot_alloc t = \<lparr>PoolThread = Some t, KernelStack = 0x10000, PoolName = True, UserStackAlloc = 0\<rparr>"

definition empty_example :: sched where
  "empty_example = sched_example\<lparr>Threads := (\<lambda>_. None), Cpu := (\<lambda>_. cpu_example None None),
     Events := (\<lambda>_. ExEventInit ExEventTypeNotification False), Mutexes := (\<lambda>_. MutexInit False)\<rparr>"


text \<open>
  When the kernel stack or the copy of the name of a new thread cannot be allocated,
  \<open>ThreadCreateEx\<close> does not return an error: the clean-up destroys the half-made thread, and
  \<open>ProcessRemoveThreadFromList\<close> asserts that it belongs to a process, which it does not yet.
\<close>

theorem ThreadCreateEx_out_of_memory:
  assumes "sched_contracts E" and "PoolThread A = Some t" and "KernelStack A = 0 \<or> \<not> PoolName A"
    and "f \<noteq> 0"
  shows "ThreadCreateEx E c sz A (Some name) prio f x False (Some p) s = None"
proof -
  note fails = sched_contracts.ThreadInit_fails [OF assms(1)]
  have "ThreadInit E sz A name prio True s = None"
    using assms(2,3)
    by (auto simp: ThreadInit_def sched_contracts.lib_simps [OF assms(1)] Let_def zero_thread_def fails ASSERT_bind_eq_None)
  then show ?thesis
    using assms(4) by (simp add: ThreadCreateEx_def)
qed

lemma ThreadCreateEx_out_of_memory_witness:
  "ThreadCreateEx sched_env_example 0 0x4000 ((boot_alloc 8)\<lparr>KernelStack := 0\<rparr>) (Some ''worker'') 16 0x1000 0 False (Some 0) sched_example = None"
  by (rule ThreadCreateEx_out_of_memory [OF sx.sched_contracts_axioms]) (simp_all add: boot_alloc_def)

end
