(* ===== verification/Process.thy ===== *)
theory Process
  imports SchedSpec
begin

text \<open>
  Processes (\<open>process.c\<close>, and \<open>UmApplicationRun\<close> of \<open>um_application.c\<close>): their identifiers, creation
  and destruction. The routines on a process' threads are in theory \<open>Thread\<close>, whose state holds
  the process objects. \<open>PidBitmapLock\<close> and \<open>ProcessListLock\<close> are acquired and released inside one
  routine, which is atomic with respect to what they guard, and not part of the state. What the
  allocations, the loader and the memory manager answer is an argument.
\<close>

subsection \<open>Operations\<close>

record text_lib =
  strcelem :: "string \<Rightarrow> char \<Rightarrow> dword"
  INVALID_STRING_SIZE :: dword
  snprintf :: "dword \<Rightarrow> string \<Rightarrow> status"
  strrchr :: "string \<Rightarrow> char \<Rightarrow> nat"

record process_alloc =
  PoolProcess :: "nat option"
  PoolHeaderInfo :: bool
  PoolProcessName :: bool
  PoolCommandLine :: bool

definition zero_process :: process where
  "zero_process = \<lparr>ProcRefCnt = 0, NumberOfThreads = 0, ActiveThreads = 0, ProcThreadList = [],
     TerminationStatus = STATUS_SUCCESS, ProcId = 0, ProcessName = [], FullCommandLine = [], UserSpace = False,
     EntryPoint = 0, NumberOfArguments = 0\<rparr>"

text \<open>\<open>bufferSize\<close> is the size of \<open>PidBitmapBuffer\<close> and \<open>buffer\<close> its address.\<close>

definition ProcessSystemPreinit :: "sched_env \<Rightarrow> dword \<Rightarrow> qword \<Rightarrow> sched \<Rightarrow> sched option" where
  "ProcessSystemPreinit E bufferSize buffer s = do {
     let (sz, bitmap) = BitmapPreinit (SB E) (PidBitmap s) (ucast (PCID_TOTAL_NO_OF_VALUES E));
     ASSERT (bufferSize = sz);
     let bitmap = BitmapInit (SB E) bitmap buffer;
     Some (s\<lparr>PidBitmap := BitmapSetBit (SB E) bitmap 0, SystemProcess := None, ProcessList := []\<rparr>)
   }"

definition ProcessSystemRetrieveNextPid :: "sched_env \<Rightarrow> sched \<Rightarrow> (qword \<times> sched) option" where
  "ProcessSystemRetrieveNextPid E s = do {
     let (idx, bitmap) = BitmapScanAndFlip (SB E) (PidBitmap s) 1 False;
     ASSERT (PCID_IS_VALID E (ucast idx));
     Some (ucast idx, s\<lparr>PidBitmap := bitmap\<rparr>)
   }"

definition ProcessParseCommandLine :: "text_lib \<Rightarrow> bool \<Rightarrow> process \<Rightarrow> string option \<Rightarrow> (status \<times> process) option" where
  "ProcessParseCommandLine T allocated Proc CommandLine =
     (let fullCmdLineSize = of_nat (length (ProcessName Proc)) +
            (case CommandLine of None \<Rightarrow> 0 | Some a \<Rightarrow> of_nat (length a) + 1) + 1;
          fullCmdLine = (case CommandLine of None \<Rightarrow> ProcessName Proc | Some a \<Rightarrow> ProcessName Proc @ '' '' @ a)
      in
      if \<not> allocated then Some (STATUS_HEAP_INSUFFICIENT_RESOURCES, Proc)
      else
        let st = snprintf T fullCmdLineSize fullCmdLine in
        if \<not> SUCCEEDED st then Some (st, Proc)
        else do {
          let noOfArgs = (case CommandLine of Some a \<Rightarrow> strcelem T a (CHR '' '') | None \<Rightarrow> 0);
          ASSERT (noOfArgs \<noteq> INVALID_STRING_SIZE T);
          Some (STATUS_SUCCESS, Proc\<lparr>FullCommandLine := fullCmdLine, NumberOfArguments := noOfArgs + 1\<rparr>)
        })"

text \<open>The \<open>__finally\<close> block of \<open>_ProcessInit\<close> and of \<open>ProcessCreate\<close> for an error.\<close>

definition Process_failed :: "sched_env \<Rightarrow> status \<Rightarrow> nat \<Rightarrow> sched \<Rightarrow> (status \<times> nat option \<times> sched) option" where
  "Process_failed E st p s = do {
     s \<leftarrow> ProcessDereference E p s;
     Some (st, None, s)
   }"

definition ProcessInit ::
  "sched_env \<Rightarrow> text_lib \<Rightarrow> process_alloc \<Rightarrow> string \<Rightarrow> string option \<Rightarrow> sched \<Rightarrow> (status \<times> nat option \<times> sched) option" where
  "ProcessInit E T A Name Arguments s =
     (case PoolProcess A of
        None \<Rightarrow> Some (STATUS_HEAP_INSUFFICIENT_RESOURCES, None, s)
      | Some p \<Rightarrow>
          let (st, cnt) = RfcInit (SR E) in
          if \<not> SUCCEEDED st then do {
            s \<leftarrow> ProcessDestroy E p (put_process p (zero_process\<lparr>ProcRefCnt := cnt\<rparr>) s);
            Some (st, None, s)
          }
          else
            let pr = zero_process\<lparr>ProcRefCnt := cnt\<rparr>;
                s = put_event (ProcessEvt p) (ExEventInit ExEventTypeNotification False) s in
            if \<not> PoolHeaderInfo A then Process_failed E STATUS_HEAP_INSUFFICIENT_RESOURCES p (put_process p pr s)
            else if \<not> PoolProcessName A then Process_failed E STATUS_HEAP_INSUFFICIENT_RESOURCES p (put_process p pr s)
            else do {
              (st, pr) \<leftarrow> ProcessParseCommandLine T (PoolCommandLine A) (pr\<lparr>ProcessName := Name\<rparr>) Arguments;
              if \<not> SUCCEEDED st then Process_failed E st p (put_process p pr s)
              else do {
                (pid, s) \<leftarrow> ProcessSystemRetrieveNextPid E s;
                let s = put_process p (pr\<lparr>ProcId := pid\<rparr>) s;
                Some (STATUS_SUCCESS, Some p, s\<lparr>ProcessList := InsertTailList (SL E) (ProcessList s) p\<rparr>)
              }
            })"

definition ProcessSystemInitSystemProcess ::
  "sched_env \<Rightarrow> nat \<Rightarrow> text_lib \<Rightarrow> process_alloc \<Rightarrow> sched \<Rightarrow> (status \<times> sched) option" where
  "ProcessSystemInitSystemProcess E c T A s = do {
     (st, pProcess, s) \<leftarrow> ProcessInit E T A ''System'' None s;
     if \<not> SUCCEEDED st then Some (st, s)
     else do {
       p \<leftarrow> pProcess;
       let s = s\<lparr>SystemProcess := Some p\<rparr>;
       (cur, _) \<leftarrow> current_thread c s;
       s \<leftarrow> ProcessInsertThreadInList E p cur s;
       Some (st, s)
     }
   }"

definition ProcessRetrieveSystemProcess :: "sched \<Rightarrow> nat option" where
  "ProcessRetrieveSystemProcess s = SystemProcess s"

definition ProcessActivatePagingTables :: "sched_env \<Rightarrow> nat \<Rightarrow> nat \<Rightarrow> sched \<Rightarrow> sched option" where
  "ProcessActivatePagingTables E c p s = do {
     pr \<leftarrow> Processes s p;
     ASSERT (PCID_IS_VALID E (ProcId pr));
     Some (s\<lparr>ActiveSpace := (ActiveSpace s)(c := Some p)\<rparr>)
   }"

text \<open>\<open>loadStatus\<close> is the answer of \<open>MmuLoadPe\<close>.\<close>

definition UmApplicationRun ::
  "sched_env \<Rightarrow> nat \<Rightarrow> dword \<Rightarrow> dword \<Rightarrow> thread_alloc \<Rightarrow> status \<Rightarrow> nat \<Rightarrow> sched \<Rightarrow> (status \<times> sched) option" where
  "UmApplicationRun E c stackSize defaultPriority TA loadStatus p s = do {
     pr \<leftarrow> Processes s p;
     if \<not> SUCCEEDED loadStatus then Some (loadStatus, s)
     else do {
       (st, pThread, s) \<leftarrow> ThreadCreateEx E c stackSize TA (Some ''Test'') defaultPriority (EntryPoint pr) 0 False (Some p) s;
       (case pThread of
          None \<Rightarrow> Some (st, s)
        | Some t \<Rightarrow> do {
            s \<leftarrow> ThreadCloseHandle E t s;
            Some (st, s)
          })
     }
   }"

text \<open>
  What the loader and the memory manager answer to \<open>ProcessCreate\<close>: the status of
  \<open>UmApplicationRetrieveHeader\<close> with the entry point, of \<open>MmuCreateAddressSpaceForProcess\<close> and
  of \<open>MmuLoadPe\<close>.
\<close>

record process_answers =
  HeaderStatus :: status
  HeaderEntryPoint :: qword
  SpaceStatus :: status
  LoadStatus :: status

definition ProcessCreate ::
  "sched_env \<Rightarrow> nat \<Rightarrow> dword \<Rightarrow> dword \<Rightarrow> text_lib \<Rightarrow> process_alloc \<Rightarrow> thread_alloc \<Rightarrow> process_answers \<Rightarrow>
   string option \<Rightarrow> string option \<Rightarrow> bool \<Rightarrow> sched \<Rightarrow> (status \<times> nat option \<times> sched) option" where
  "ProcessCreate E c stackSize defaultPriority T A TA R PathToExe Arguments outNull s =
     (case PathToExe of
        None \<Rightarrow> Some (STATUS_INVALID_PARAMETER1, None, s)
      | Some path \<Rightarrow>
          if outNull then Some (STATUS_INVALID_PARAMETER3, None, s)
          else do {
            (st, pProcess, s) \<leftarrow> ProcessInit E T A (drop (strrchr T path (CHR 0x5C) + 1) path) Arguments s;
            (case pProcess of
               None \<Rightarrow> Some (st, None, s)
             | Some p \<Rightarrow>
                 if \<not> SUCCEEDED (HeaderStatus R) then Process_failed E (HeaderStatus R) p s
                 else do {
                   pr \<leftarrow> Processes s p;
                   let pr = pr\<lparr>EntryPoint := HeaderEntryPoint R\<rparr>;
                   if \<not> SUCCEEDED (SpaceStatus R) then Process_failed E (SpaceStatus R) p (put_process p pr s)
                   else do {
                     (st, s) \<leftarrow> UmApplicationRun E c stackSize defaultPriority TA (LoadStatus R) p
                                 (put_process p (pr\<lparr>UserSpace := True\<rparr>) s);
                     if \<not> SUCCEEDED st then Process_failed E st p s
                     else do {
                       s \<leftarrow> ProcessReference E p s;
                       Some (st, Some p, s)
                     }
                   }
                 })
          })"

definition ProcessWaitForTermination_status :: "nat \<Rightarrow> sched \<Rightarrow> status option" where
  "ProcessWaitForTermination_status p s = map_option TerminationStatus (Processes s p)"

definition ProcessCloseHandle :: "sched_env \<Rightarrow> nat \<Rightarrow> sched \<Rightarrow> sched option" where
  "ProcessCloseHandle E p s = ProcessDereference E p s"

definition GetCurrentProcess :: "nat \<Rightarrow> sched \<Rightarrow> nat option" where
  "GetCurrentProcess c s = do {
     (_, th) \<leftarrow> current_thread c s;
     Process th
   }"

definition get_process :: "nat \<Rightarrow> nat option \<Rightarrow> sched \<Rightarrow> process option" where
  "get_process c p s = do {
     p \<leftarrow> (case p of None \<Rightarrow> GetCurrentProcess c s | Some p \<Rightarrow> Some p);
     Processes s p
   }"

definition ProcessGetName :: "nat \<Rightarrow> nat option \<Rightarrow> sched \<Rightarrow> string option" where
  "ProcessGetName c p s = map_option ProcessName (get_process c p s)"

definition ProcessGetId :: "nat \<Rightarrow> nat option \<Rightarrow> sched \<Rightarrow> qword option" where
  "ProcessGetId c p s = map_option ProcId (get_process c p s)"

subsection \<open>Process identifiers\<close>

text \<open>
  \<open>pid_ok\<close>: the bitmap has one bit for each identifier, 0 is taken, and the identifiers of the
  processes that have one (a process that is being set up has 0) are valid, taken and different.
\<close>

definition pid_range :: "sched_env \<Rightarrow> bool" where
  "pid_range E \<longleftrightarrow>
     PCID_IS_VALID E = (\<lambda>x. PCID_FIRST_VALID_VALUE E \<le> x \<and> x \<le> PCID_TOTAL_NO_OF_VALUES E - 1) \<and>
     1 \<le> PCID_FIRST_VALID_VALUE E \<and> 1 \<le> PCID_TOTAL_NO_OF_VALUES E \<and> PCID_TOTAL_NO_OF_VALUES E \<le> 0x10000"

definition pid_ok :: "sched_env \<Rightarrow> sched \<Rightarrow> bool" where
  "pid_ok E s \<longleftrightarrow> unat (BitCount (PidBitmap s)) = unat (PCID_TOTAL_NO_OF_VALUES E) \<and>
     (\<forall>p pr. Processes s p = Some pr \<longrightarrow> ProcId pr \<noteq> 0 \<longrightarrow>
        PCID_IS_VALID E (ProcId pr) \<and> Bits (PidBitmap s) (unat (ProcId pr))) \<and>
     (\<forall>p q pr qr. Processes s p = Some pr \<longrightarrow> Processes s q = Some qr \<longrightarrow> ProcId pr = ProcId qr \<longrightarrow> ProcId pr \<noteq> 0 \<longrightarrow> p = q)"

lemma pid_okD:
  assumes "pid_ok E s"
  shows "unat (BitCount (PidBitmap s)) = unat (PCID_TOTAL_NO_OF_VALUES E)"
    and "Processes s p = Some pr \<Longrightarrow> ProcId pr \<noteq> 0 \<Longrightarrow> PCID_IS_VALID E (ProcId pr) \<and> Bits (PidBitmap s) (unat (ProcId pr))"
    and "Processes s p = Some pr \<Longrightarrow> Processes s q = Some qr \<Longrightarrow> ProcId pr = ProcId qr \<Longrightarrow> ProcId pr \<noteq> 0 \<Longrightarrow> p = q"
  using assms unfolding pid_ok_def by blast+

lemma valid_pid:
  assumes "pid_range E" and "PCID_IS_VALID E x"
  shows "1 \<le> unat x" "unat x < unat (PCID_TOTAL_NO_OF_VALUES E)" "unat x < 0x10000" "unat (ucast x :: dword) = unat x"
proof -
  have t: "1 \<le> unat (PCID_TOTAL_NO_OF_VALUES E)" "unat (PCID_TOTAL_NO_OF_VALUES E) \<le> 0x10000"
    using assms(1) by (simp_all add: pid_range_def word_le_nat_alt)
  have "unat (PCID_TOTAL_NO_OF_VALUES E - 1) = unat (PCID_TOTAL_NO_OF_VALUES E) - 1"
    using t(1) by (simp add: unat_sub_le word_le_nat_alt)
  then have x: "unat x \<le> unat (PCID_TOTAL_NO_OF_VALUES E) - 1" "1 \<le> unat x"
    using assms by (auto simp: pid_range_def word_le_nat_alt)
  then show "1 \<le> unat x" "unat x < unat (PCID_TOTAL_NO_OF_VALUES E)" "unat x < 0x10000"
    using t by linarith+
  then show "unat (ucast x :: dword) = unat x"
    by (simp add: unat_ucast_qword_dword)
qed

text \<open>What leaves the identifiers alone.\<close>

lemma pid_ok_same:
  assumes ok: "pid_ok E s" and "PidBitmap s' = PidBitmap s"
    and sub: "\<And>p pr. Processes s' p = Some pr \<Longrightarrow> ProcId pr = 0 \<or> (\<exists>qr. Processes s p = Some qr \<and> ProcId qr = ProcId pr)"
  shows "pid_ok E s'"
  unfolding pid_ok_def assms(2)
proof (intro conjI allI impI pid_okD(1) [OF ok])
  fix p pr
  assume pr: "Processes s' p = Some pr" "ProcId pr \<noteq> 0"
  then obtain qr where qr: "Processes s p = Some qr" "ProcId qr = ProcId pr"
    using sub by blast
  then show "PCID_IS_VALID E (ProcId pr)" and "Bits (PidBitmap s) (unat (ProcId pr))"
    using pid_okD(2) [OF ok qr(1)] pr(2) by simp_all
  fix q qr'
  assume "Processes s' q = Some qr'" "ProcId pr = ProcId qr'"
  then obtain x where "Processes s q = Some x" "ProcId x = ProcId qr'"
    using sub pr(2) by metis
  then show "p = q"
    using pid_okD(3) [OF ok qr(1)] qr(2) pr(2) \<open>ProcId pr = ProcId qr'\<close> by simp
qed

context sched_contracts
begin

lemmas bitmap_laws = bitmap_contract.BitmapScanAndFlip_from [OF env_bitmap] bitmap_contract.BitmapClearBit_one [OF env_bitmap]
  bitmap_contract.BitmapSetBit_one [OF env_bitmap]

lemma RetrieveNextPid_free:
  assumes range: "pid_range E" and ok: "pid_ok E s" and some: "ProcessSystemRetrieveNextPid E s = Some (pid, s')"
  shows "PCID_IS_VALID E pid \<and> \<not> Bits (PidBitmap s) (unat pid) \<and>
    s' = s\<lparr>PidBitmap := (PidBitmap s)\<lparr>Bits := (Bits (PidBitmap s))(unat pid := True)\<rparr>\<rparr>"
proof -
  obtain idx b where scan: "BitmapScanFromAndFlip (SB E) (PidBitmap s) 0 1 False = (idx, b)"
    by fastforce
  have v: "PCID_IS_VALID E (ucast idx)" and r: "pid = ucast idx" "s' = s\<lparr>PidBitmap := b\<rparr>"
    using some scan by (auto simp: ProcessSystemRetrieveNextPid_def bitmap_laws)
  have small: "unat idx < 0x10000"
    using valid_pid(3) [OF range v] by simp
  then have "idx \<noteq> MAX_DWORD"
    by auto
  then have f: "bits_run (Bits (PidBitmap s)) (unat idx) 1 False"
      "b = (PidBitmap s)\<lparr>Bits := bits_set (unat idx) 1 True (Bits (PidBitmap s))\<rparr>"
    using bitmap_contract.BitmapScan_found [OF env_bitmap scan] by simp_all
  have "bits_set (unat idx) 1 True (Bits (PidBitmap s)) = (Bits (PidBitmap s))(unat idx := True)"
    by (auto simp: bits_set_def fun_eq_iff)
  then show ?thesis
    using v r f by (simp add: bits_run_def)
qed

lemma FreePid_eq:
  assumes range: "pid_range E" and ok: "pid_ok E s" and some: "ProcessSystemFreePid E pid s = Some s'"
  shows "PCID_IS_VALID E pid \<and> s' = s\<lparr>PidBitmap := (PidBitmap s)\<lparr>Bits := (Bits (PidBitmap s))(unat pid := False)\<rparr>\<rparr>"
proof -
  have v: "PCID_IS_VALID E pid"
    using some by (simp add: ProcessSystemFreePid_def)
  note n = valid_pid [OF range v]
  have "BitmapClearBits (SB E) (PidBitmap s) (ucast pid) 1 =
      (PidBitmap s)\<lparr>Bits := bits_set (unat pid) 1 False (Bits (PidBitmap s))\<rparr>"
    using bitmap_contract.BitmapClearBits_in [OF env_bitmap, of "ucast pid" 1 "PidBitmap s"] n pid_okD(1) [OF ok] by simp
  moreover have "bits_set (unat pid) 1 False (Bits (PidBitmap s)) = (Bits (PidBitmap s))(unat pid := False)"
    by (auto simp: bits_set_def fun_eq_iff)
  ultimately show ?thesis
    using some v by (simp add: ProcessSystemFreePid_def bitmap_laws)
qed

lemma ProcessDestroy_pid:
  assumes range: "pid_range E" and ok: "pid_ok E s" and some: "ProcessDestroy E p s = Some s'"
  shows "pid_ok E s'"
proof -
  define s1 where "s1 = s\<lparr>ProcessList := RemoveEntryList (SL E) (ProcessList s) p, DestroyedSpaces := p # DestroyedSpaces s\<rparr>"
  obtain pr b where pr: "Processes s p = Some pr" "ProcessIsSystem p s = Some b"
    using some by (cases "Processes s p"; cases "ProcessIsSystem p s") (auto simp: ProcessDestroy_def)
  then have "(if ProcId pr \<noteq> 0 then ProcessSystemFreePid E (ProcId pr) s1 else Some s1) \<bind>
      (\<lambda>s2. Some (s2\<lparr>Processes := (Processes s2)(p := None)\<rparr>)) = Some s'"
    using some unfolding s1_def by (simp add: ProcessDestroy_def Let_def)
  then obtain s2 where s2: "(if ProcId pr \<noteq> 0 then ProcessSystemFreePid E (ProcId pr) s1 else Some s1) = Some s2"
      and s': "s' = s2\<lparr>Processes := (Processes s2)(p := None)\<rparr>"
    by (elim bind_SomeE) simp
  have ok1: "pid_ok E s1"
    by (rule pid_ok_same [OF ok]) (auto simp: s1_def)
  show ?thesis
  proof (cases "ProcId pr = 0")
    case True
    then show ?thesis
      using s2 s' by (intro pid_ok_same [OF ok1]) (auto split: if_splits)
  next
    case False
    then have eq: "s2 = s1\<lparr>PidBitmap := (PidBitmap s1)\<lparr>Bits := (Bits (PidBitmap s1))(unat (ProcId pr) := False)\<rparr>\<rparr>"
      using FreePid_eq [OF range ok1] s2 by simp
    have others: "Processes s1 q = Some qr \<and> ProcId qr \<noteq> ProcId pr" if "Processes s' q = Some qr" "ProcId qr \<noteq> 0" for q qr
      using that pid_okD(3) [OF ok1, of q qr p pr] pr(1) by (auto simp: s' eq s1_def split: if_splits)
    have bits: "PidBitmap s' = (PidBitmap s1)\<lparr>Bits := (Bits (PidBitmap s1))(unat (ProcId pr) := False)\<rparr>"
      by (simp add: s' eq)
    show ?thesis
      unfolding pid_ok_def bits
    proof (intro conjI allI impI, goal_cases)
      case 1
      then show ?case
        using pid_okD(1) [OF ok1] by simp
    next
      case (2 q qr)
      then show ?case
        using others [OF 2] pid_okD(2) [OF ok1, of q qr] by blast
    next
      case (3 q qr)
      then have "unat (ProcId qr) \<noteq> unat (ProcId pr)"
        using others [OF 3] by (simp add: word_unat_eq_iff)
      then show ?case
        using others [OF 3] 3(2) pid_okD(2) [OF ok1, of q qr] by simp
    next
      case (4 q r qr rr)
      then show ?case
        using others [of q qr] others [of r rr] pid_okD(3) [OF ok1, of q qr r rr] by simp
    qed
  qed
qed

end

end
