(* ===== verification/ProcSteps.thy ===== *)
theory ProcSteps
  imports Process SchedSteps
begin

text \<open>
  The identifiers of processes through every history of the scheduler's and the process manager's
  operations.
\<close>

subsection \<open>Operations that keep the identifiers\<close>

lemma pid_ok_cong: "PidBitmap s' = PidBitmap s \<Longrightarrow> Processes s' = Processes s \<Longrightarrow> pid_ok E s' = pid_ok E s"
  by (simp add: pid_ok_def)

lemma pid_ok_upd [simp]:
  "pid_ok E (s\<lparr>Threads := th\<rparr>) = pid_ok E s"
  "pid_ok E (s\<lparr>AllThreadsList := l\<rparr>) = pid_ok E s"
  "pid_ok E (s\<lparr>ReadyThreadsList := l\<rparr>) = pid_ok E s"
  "pid_ok E (s\<lparr>ReadyThreadsLock := k\<rparr>) = pid_ok E s"
  "pid_ok E (s\<lparr>Cpu := cp\<rparr>) = pid_ok E s"
  "pid_ok E (s\<lparr>Events := ev\<rparr>) = pid_ok E s"
  "pid_ok E (s\<lparr>Mutexes := mt\<rparr>) = pid_ok E s"
  "pid_ok E (s\<lparr>ProcessList := l\<rparr>) = pid_ok E s"
  "pid_ok E (s\<lparr>SystemProcess := p\<rparr>) = pid_ok E s"
  "pid_ok E (s\<lparr>NextTid := x\<rparr>) = pid_ok E s"
  "pid_ok E (s\<lparr>ActiveSpace := sp\<rparr>) = pid_ok E s"
  "pid_ok E (s\<lparr>IdleUpdates := iu\<rparr>) = pid_ok E s"
  "pid_ok E (s\<lparr>FreedStacks := fs\<rparr>) = pid_ok E s"
  "pid_ok E (s\<lparr>DestroyedSpaces := l\<rparr>) = pid_ok E s"
  "pid_ok E (s\<lparr>Frames := fr\<rparr>) = pid_ok E s"
  by (simp_all add: pid_ok_def)

lemma pid_ok_process:
  assumes ok: "pid_ok E s" and P: "P = (Processes s)(p := Some pr)"
    and pid: "ProcId pr = 0 \<or> (\<exists>qr. Processes s p = Some qr \<and> ProcId qr = ProcId pr)"
  shows "pid_ok E (s\<lparr>Processes := P\<rparr>)"
  by (rule pid_ok_same [OF ok]) (use pid in \<open>auto simp: P split: if_splits\<close>)

lemma ThreadUnblock_pid: "ThreadUnblock E c t s = Some s' \<Longrightarrow> pid_ok E' s' = pid_ok E' s"
  by (auto simp: ThreadUnblock_def bind_Some_iff Let_def)

lemma ExEventSignal_loop_pid: "ExEventSignal_loop E c e n s = Some s' \<Longrightarrow> pid_ok E' s' = pid_ok E' s"
proof (induction n arbitrary: s)
  case (Suc n)
  then show ?case
    by (auto simp: Let_def bind_Some_iff dest!: ThreadUnblock_pid split: prod.splits option.splits if_splits)
qed simp

lemma ExEventSignal_pid: "ExEventSignal E c e s = Some s' \<Longrightarrow> pid_ok E' s' = pid_ok E' s"
  unfolding ExEventSignal_def by (drule ExEventSignal_loop_pid) simp

lemma ExEventWaitForSignal_test_pid: "pid_ok E (snd (ExEventWaitForSignal_test e s)) = pid_ok E s"
  by (simp add: ExEventWaitForSignal_test_def Let_def)

lemma ProcessReference_pid: "pid_ok E' s \<Longrightarrow> ProcessReference E p s = Some s' \<Longrightarrow> pid_ok E' s'"
  by (auto simp: ProcessReference_def bind_Some_iff intro!: pid_ok_process)

lemma ProcessInsert_pid: "pid_ok E' s \<Longrightarrow> ProcessInsertThreadInList E p t s = Some s' \<Longrightarrow> pid_ok E' s'"
  by (auto simp: ProcessInsertThreadInList_def bind_Some_iff Let_def intro!: pid_ok_process elim!: ProcessReference_pid [rotated])

lemma ProcessNotify_pid: "pid_ok E' s \<Longrightarrow> ProcessNotifyThreadTermination E c t s = Some s' \<Longrightarrow> pid_ok E' s'"
  by (auto simp: ProcessNotifyThreadTermination_def bind_Some_iff Let_def ExEventSignal_pid
      intro!: pid_ok_process split: if_splits)

context sched_contracts
begin

lemma ProcessDereference_pid:
  "pid_range E \<Longrightarrow> pid_ok E s \<Longrightarrow> ProcessDereference E p s = Some s' \<Longrightarrow> pid_ok E s'"
  by (auto simp: ProcessDereference_def bind_Some_iff Let_def split: if_splits
      elim!: ProcessDestroy_pid [rotated 2] intro!: pid_ok_process)

end

context sched_contracts
begin

lemma ProcessRemove_pid:
  "pid_range E \<Longrightarrow> pid_ok E s \<Longrightarrow> ProcessRemoveThreadFromList E t s = Some s' \<Longrightarrow> pid_ok E s'"
  by (auto simp: ProcessRemoveThreadFromList_def bind_Some_iff Let_def split: if_splits
      elim!: ProcessDereference_pid [rotated 2] intro!: pid_ok_process)

lemma ThreadDestroy_pid:
  assumes "pid_range E" "pid_ok E s"
  shows "returns (pid_ok E) (ThreadDestroy E t s)"
  unfolding ThreadDestroy_def Let_def
  by (rule returns_bind, rule returns_then [where Q = "pid_ok E"], rule returnsI, erule ProcessRemove_pid [OF assms(1), rotated])
    (use assms(2) in simp_all)

lemma ThreadDereference_pid:
  assumes "pid_range E" "pid_ok E s"
  shows "returns (pid_ok E) (ThreadDereference E t s)"
  unfolding ThreadDereference_def Let_def
  by (rule returns_bind) (use assms in \<open>simp add: ThreadDestroy_pid\<close>)

lemma ThreadCleanup_pid:
  assumes "pid_range E" "pid_ok E s"
  shows "returns (pid_ok E) (ThreadCleanupPostSchedule E c s)"
proof (cases "PreviousThread (Cpu s c)")
  case (Some prev)
  have "returns (pid_ok E) (ThreadDereference E prev s1 \<bind> (\<lambda>s. Some (put_cpu c (f s) s)))" if "pid_ok E s1" for s1 f
    using ThreadDereference_pid [OF assms(1) that] by (rule returns_then) simp
  then show ?thesis
    using assms(2) Some by (auto simp: ThreadCleanupPostSchedule_def Let_def intro!: returns_bind returns_ASSERT)
qed (use assms(2) in \<open>simp add: ThreadCleanupPostSchedule_def\<close>)

lemma ThreadGetReady_pid: "ThreadGetReadyThread E c s = Some (t, s') \<Longrightarrow> pid_ok E' s' = pid_ok E' s"
  by (auto simp: ThreadGetReadyThread_def bind_Some_iff Let_def split: option.splits prod.splits)

lemma SetCurrentThread_pid: "SetCurrentThread c t s = Some s' \<Longrightarrow> pid_ok E' s' = pid_ok E' s"
  by (auto simp: SetCurrentThread_def bind_Some_iff)

lemma ThreadSchedule_pid:
  assumes "pid_range E" "pid_ok E s" "ThreadSchedule E c s = Some s'"
  shows "pid_ok E s'"
proof -
  have set: "returns (pid_ok E) (SetCurrentThread c t s1)" if "pid_ok E s1" for t s1
    using SetCurrentThread_pid that by (auto intro: returnsI)
  have space: "returns (pid_ok E) (if b then q \<bind> (\<lambda>p. Some (s1\<lparr>ActiveSpace := (ActiveSpace s1)(c := Some p)\<rparr>)) else Some s1)"
    if "pid_ok E s1" for b q s1
    using that by (simp add: returns_bind)
  have switch: "returns (pid_ok E) (m \<bind> (\<lambda>s. SetCurrentThread c n (put_thread t y s)))" if "returns (pid_ok E) m" for m n t y
    using that by (rule returns_then) (simp add: set)
  have "returns (pid_ok E) (ThreadSchedule E c s)"
    unfolding ThreadSchedule_def Let_def
  proof (intro returns_ASSERT returns_bind, clarify, intro returns_bind, clarify, rule returns_bind, rule returns_then [where Q = "pid_ok E"])
    fix cur th n s1 thCur
    assume "ThreadGetReadyThread E c (put_cpu c ((Cpu s c)\<lparr>PreviousThread := Some cur\<rparr>) s) = Some (n, s1)"
    then have "pid_ok E s1"
      using ThreadGetReady_pid [of c _ n s1 E] assms(2) by simp
    then show "returns (pid_ok E)
        (if n \<noteq> cur then do {
           thNext \<leftarrow> Threads s1 n;
           s \<leftarrow> (if Process thCur \<noteq> Process thNext then do {
                    p \<leftarrow> Process thNext;
                    Some (s1\<lparr>ActiveSpace := (ActiveSpace s1)(c := Some p)\<rparr>)
                  }
                  else Some s1);
           SetCurrentThread c n (put_thread cur (thCur\<lparr>UninterruptedTicks := 0\<rparr>) s)
         }
         else Some (put_thread cur (thCur\<lparr>UninterruptedTicks := UninterruptedTicks thCur + 1\<rparr>) s1))"
      by (cases "n = cur") (simp_all add: returns_bind switch space del: put_defs, simp)
  qed (rule ThreadCleanup_pid [OF assms(1)])
  then show ?thesis
    using assms(3) by (rule returnsD)
qed

lemma ThreadExit_pid:
  assumes "pid_range E" "pid_ok E s" "ThreadExit E c st s = Some s'"
  shows "pid_ok E s'"
proof -
  obtain cur th s1 s2 k where s1: "ExEventSignal E c (ThreadEvt cur) (put_thread cur th s) = Some s1"
      and s2: "ProcessNotifyThreadTermination E c cur s1 = Some s2"
      and s3: "ThreadSchedule E c (s2\<lparr>ReadyThreadsLock := k\<rparr>) = Some s'"
    using assms(3) by (auto simp: ThreadExit_def bind_Some_iff Let_def)
  have "pid_ok E s1"
    using ExEventSignal_pid [OF s1, of E] assms(2) by simp
  then have "pid_ok E (s2\<lparr>ReadyThreadsLock := k\<rparr>)"
    using ProcessNotify_pid [OF _ s2] by simp
  then show ?thesis
    by (rule ThreadSchedule_pid [OF assms(1) _ s3])
qed

lemma ThreadForcedExit_pid:
  "pid_range E \<Longrightarrow> pid_ok E s \<Longrightarrow> ThreadForcedExit E c s = Some s' \<Longrightarrow> pid_ok E s'"
  by (auto simp: ThreadForcedExit_def bind_Some_iff elim!: ThreadExit_pid [rotated 2])

lemma ThreadYield_pid:
  "pid_range E \<Longrightarrow> pid_ok E s \<Longrightarrow> ThreadYield E c s = Some s' \<Longrightarrow> pid_ok E s'"
  by (auto simp: ThreadYield_def bind_Some_iff Let_def split: if_splits
      elim!: ThreadForcedExit_pid [rotated 2] ThreadSchedule_pid [rotated 2])

lemma ThreadTakeBlockLock_pid: "ThreadTakeBlockLock E c s = Some s' \<Longrightarrow> pid_ok E' s' = pid_ok E' s"
  by (auto simp: ThreadTakeBlockLock_def bind_Some_iff)

lemma ThreadBlock_pid:
  "pid_range E \<Longrightarrow> pid_ok E s \<Longrightarrow> ThreadBlock E c s = Some s' \<Longrightarrow> pid_ok E s'"
  by (auto simp: ThreadBlock_def bind_Some_iff Let_def split: if_splits
      elim!: ThreadForcedExit_pid [rotated 2] ThreadSchedule_pid [rotated 2])

lemma wait_pid:
  assumes "pid_range E" "pid_ok E s" "ExEventWaitForSignal_block E c e s = Some s'"
  shows "pid_ok E s'"
  using assms(3) ThreadTakeBlockLock_pid ThreadBlock_pid [OF assms(1)] assms(2)
  by (fastforce simp: ExEventWaitForSignal_block_def bind_Some_iff Let_def)

lemma idle_pid: "pid_range E \<Longrightarrow> pid_ok E s \<Longrightarrow> IdleThread_block E c s = Some s' \<Longrightarrow> pid_ok E s'"
  using ThreadTakeBlockLock_pid ThreadBlock_pid by (fastforce simp: IdleThread_block_def bind_Some_iff)

lemma MutexAcquire_round_pid:
  assumes "pid_range E" "pid_ok E s" "MutexAcquire_round E c m s = Some (got, s')"
  shows "pid_ok E s'"
  using assms(3) ThreadTakeBlockLock_pid ThreadBlock_pid [OF assms(1)] assms(2)
  by (fastforce simp: MutexAcquire_round_def bind_Some_iff Let_def split: if_splits)

lemma MutexAcquire_pid:
  assumes "pid_range E" "pid_ok E s" "MutexAcquire E c m s = Some (got, s')"
  shows "pid_ok E s'"
  using assms(3,2) by (auto simp: MutexAcquire_def bind_Some_iff Let_def split: if_splits
      elim!: MutexAcquire_round_pid [OF assms(1), rotated 1])

lemma MutexRelease_pid: "MutexRelease E c m s = Some s' \<Longrightarrow> pid_ok E' s' = pid_ok E' s"
  by (auto simp: MutexRelease_def bind_Some_iff Let_def dest!: ThreadUnblock_pid split: if_splits option.splits prod.splits)

lemma ThreadReference_pid: "ThreadReference E t s = Some s' \<Longrightarrow> pid_ok E' s' = pid_ok E' s"
  by (auto simp: ThreadReference_def bind_Some_iff)

lemma ProcessTerminate_loop_pid: "ProcessTerminate_loop cur ts s = Some (b, s') \<Longrightarrow> pid_ok E' s' = pid_ok E' s"
  by (induction ts arbitrary: b s) (fastforce simp: ThreadTerminate_def bind_Some_iff split: if_splits)+

lemma ProcessTerminate_pid:
  assumes "pid_range E" "pid_ok E s" "ProcessTerminate E c p s = Some s'"
  shows "pid_ok E s'"
  using assms(3) ProcessTerminate_loop_pid assms(2)
  by (fastforce simp: ProcessTerminate_def bind_Some_iff split: if_splits elim!: ThreadExit_pid [OF assms(1), rotated 1])

end

subsection \<open>Operations that make threads and processes\<close>

context sched_contracts
begin

lemma ThreadInit_pid:
  assumes "pid_range E" "pid_ok E s"
  shows "returns (\<lambda>(_, _, s'). pid_ok E s') (ThreadInit E sz A name prio k s)"
proof -
  have failed: "returns (\<lambda>(_, _, s'). pid_ok E s') (ThreadInit_failed E st t s1)" if "pid_ok E s1" for st t s1
    unfolding ThreadInit_failed_def by (rule returns_then [OF ThreadDereference_pid [OF assms(1) that]]) simp
  show ?thesis
    unfolding ThreadInit_def
    by (rule returns_ASSERT)
      (use assms(2) in \<open>auto simp: failed Let_def ThreadSystemGetNextTid_def split: option.split prod.split\<close>)
qed

lemma ThreadCreateEx_user_pid:
  "pid_ok E' s \<Longrightarrow> returns (\<lambda>(_, _, s'). pid_ok E' s') (ThreadCreateEx_user E A t pr f x s)"
  unfolding ThreadCreateEx_user_def
  by (rule returns_bind) (auto simp: Let_def split: prod.split intro!: returns_ASSERT)

lemma ThreadSetupInitialState_pid: "pid_ok E' s \<Longrightarrow> returns (pid_ok E') (ThreadSetupInitialState E t f x y k s)"
  unfolding ThreadSetupInitialState_def Let_def by (intro returns_ASSERT returns_bind) simp

lemma ThreadCreateEx_pid:
  assumes "pid_range E" "pid_ok E s"
  shows "returns (\<lambda>(_, _, s'). pid_ok E s') (ThreadCreateEx E c sz A nm prio f x o' p s)"
proof -
  let ?Q = "\<lambda>(_, _, s'). pid_ok E s'"
  have unblock: "returns (pid_ok E) (ThreadUnblock E c t s1)" if "pid_ok E s1" for t s1
    using ThreadUnblock_pid that by (auto intro: returnsI)
  have end_part: "returns ?Q (do {
      s \<leftarrow> ThreadSetupInitialState E t a b d k s1;
      s \<leftarrow> (if IdleThread (Cpu s c) = None then do {
              th \<leftarrow> Threads s t;
              Some (put_cpu c ((Cpu s c)\<lparr>IdleThread := Some t\<rparr>) (put_thread t (th\<lparr>State := ThreadStateReady\<rparr>) s))
            }
            else ThreadUnblock E c t s);
      Some (STATUS_SUCCESS, Some t, s)
    })" if "pid_ok E s1" for t a b d k s1
    by (rule returns_then [OF ThreadSetupInitialState_pid [OF that]], rule returns_then [where Q = "pid_ok E"])
      (auto intro!: returns_bind unblock)
  have body: "returns ?Q (do {
      s \<leftarrow> ProcessInsertThreadInList E q t s1;
      s \<leftarrow> ThreadReference E t s;
      pr \<leftarrow> Processes s q;
      (st, (start, firstArg, secondArg), s) \<leftarrow>
        (if UserSpace pr then ThreadCreateEx_user E A t pr f x s
         else Some (STATUS_SUCCESS, (ThreadKernelFunction E, f, x), s));
      if \<not> SUCCEEDED st then Some (st, None, s)
      else do {
        s \<leftarrow> ThreadSetupInitialState E t start firstArg secondArg (\<not> UserSpace pr) s;
        s \<leftarrow> (if IdleThread (Cpu s c) = None then do {
                th \<leftarrow> Threads s t;
                Some (put_cpu c ((Cpu s c)\<lparr>IdleThread := Some t\<rparr>) (put_thread t (th\<lparr>State := ThreadStateReady\<rparr>) s))
              }
              else ThreadUnblock E c t s);
        Some (STATUS_SUCCESS, Some t, s)
      }
    })" if "pid_ok E s1" for t s1 q
    by (rule returns_then [where Q = "pid_ok E"], rule returnsI, erule ProcessInsert_pid [OF that],
        rule returns_then [where Q = "pid_ok E"], rule returnsI, simp add: ThreadReference_pid,
        rule returns_bind, rule returns_then [where Q = ?Q])
      (auto simp: ThreadCreateEx_user_pid end_part)
  show ?thesis
    unfolding ThreadCreateEx_def
    by (auto split: option.split intro!: returns_then [OF ThreadInit_pid [OF assms]] body simp: assms(2))
qed

end

context sched_contracts
begin

lemma InitMain_pid:
  assumes "pid_range E" "pid_ok E s"
  shows "returns (\<lambda>(_, s'). pid_ok E s') (ThreadSystemInitMainForCurrentCPU E c A nm prio p s)"
proof -
  have insert: "returns (pid_ok E) (ProcessInsertThreadInList E q t s1)" if "pid_ok E s1" for q t s1
    using ProcessInsert_pid [OF that] by (rule returnsI)
  have set: "returns (pid_ok E) (SetCurrentThread c t s1)" if "pid_ok E s1" for t s1
    using SetCurrentThread_pid that by (auto intro: returnsI)
  have rest: "returns (\<lambda>(_, s'). pid_ok E s') (do {
      s \<leftarrow> SetCurrentThread c t s1;
      s \<leftarrow> (case p of None \<Rightarrow> Some s | Some q \<Rightarrow> ProcessInsertThreadInList E q t s);
      Some (st, s)
    })" if "pid_ok E s1" for t s1 st
    by (rule returns_then [OF set [OF that]], rule returns_then [where Q = "pid_ok E"])
      (auto simp: insert split: option.split)
  show ?thesis
    unfolding ThreadSystemInitMainForCurrentCPU_def Let_def
    by (rule returns_then [OF ThreadInit_pid [OF assms]]) (auto split: option.split intro!: returns_bind rest)
qed

lemma new_pid_ok:
  assumes range: "pid_range E" and ok: "pid_ok E s" and pid: "ProcessSystemRetrieveNextPid E s = Some (pid, s')"
    and P: "P = (Processes s)(p := Some (pr\<lparr>ProcId := pid\<rparr>))"
  shows "pid_ok E (s'\<lparr>Processes := P\<rparr>)"
proof -
  note r = RetrieveNextPid_free [OF range ok pid]
  then have bits: "\<not> Bits (PidBitmap s) (unat pid)"
    and s': "s'\<lparr>Processes := P\<rparr> = s\<lparr>PidBitmap := (PidBitmap s)\<lparr>Bits := (Bits (PidBitmap s))(unat pid := True)\<rparr>, Processes := P\<rparr>"
    by simp_all
  have neq: "ProcId qr \<noteq> pid" if "Processes s q = Some qr" "ProcId qr \<noteq> 0" for q qr
    using pid_okD(2) [OF ok that] bits by auto
  show ?thesis
    unfolding s' pid_ok_def P
    using r pid_okD(1) [OF ok] pid_okD(2) [OF ok] pid_okD(3) [OF ok] neq by (auto split: if_splits)
qed

lemma ProcessInit_pid:
  assumes "pid_range E" "pid_ok E s"
  shows "returns (\<lambda>(_, _, s'). pid_ok E s') (ProcessInit E T A nm args s)"
proof -
  let ?Q = "\<lambda>(_, _, s'). pid_ok E s'"
  have put: "pid_ok E (put_process p pr s1)" if "pid_ok E s1" "ProcId pr = 0" for p pr s1
    using that by (auto intro: pid_ok_process)
  have failed: "returns ?Q (Process_failed E st p s1)" if "pid_ok E s1" for st p s1
    unfolding Process_failed_def
    by (rule returns_then [where Q = "pid_ok E"], rule returnsI, erule ProcessDereference_pid [OF assms(1) that]) simp
  have destroyed: "returns ?Q (ProcessDestroy E p s1 \<bind> (\<lambda>s. Some (st, None, s)))" if "pid_ok E s1" for p s1 st
    by (rule returns_then [where Q = "pid_ok E"], rule returnsI, erule ProcessDestroy_pid [OF assms(1) that]) simp
  have parsed: "returns (\<lambda>(_, pr'). ProcId pr' = ProcId pr) (ProcessParseCommandLine T a pr args)" for a pr
    unfolding ProcessParseCommandLine_def Let_def by (auto intro!: returns_ASSERT)
  have numbered: "returns ?Q (do {
      (pid, s) \<leftarrow> ProcessSystemRetrieveNextPid E s1;
      let s = put_process p (pr\<lparr>ProcId := pid\<rparr>) s;
      Some (STATUS_SUCCESS, Some p, s\<lparr>ProcessList := InsertTailList (SL E) (ProcessList s) p\<rparr>)
    })" if "pid_ok E s1" for p pr s1
  proof (rule returns_bind)
    fix x
    assume x: "ProcessSystemRetrieveNextPid E s1 = Some x"
    obtain pid s2 where p: "x = (pid, s2)"
      by fastforce
    then have "Processes s2 = Processes s1"
      using RetrieveNextPid_free [OF assms(1) that] x by simp
    then show "returns ?Q (case x of (pid, s) \<Rightarrow>
        let s = put_process p (pr\<lparr>ProcId := pid\<rparr>) s in
        Some (STATUS_SUCCESS, Some p, s\<lparr>ProcessList := InsertTailList (SL E) (ProcessList s) p\<rparr>))"
      using new_pid_ok [OF assms(1) that x [unfolded p] refl, of p pr] by (simp add: p Let_def)
  qed
  have main: "returns ?Q (do {
      (st, pr) \<leftarrow> ProcessParseCommandLine T a pr0 args;
      if \<not> SUCCEEDED st then Process_failed E st p (put_process p pr s1)
      else do {
        (pid, s) \<leftarrow> ProcessSystemRetrieveNextPid E s1;
        let s = put_process p (pr\<lparr>ProcId := pid\<rparr>) s;
        Some (STATUS_SUCCESS, Some p, s\<lparr>ProcessList := InsertTailList (SL E) (ProcessList s) p\<rparr>)
      }
    })" if "pid_ok E s1" "ProcId pr0 = 0" for a pr0 p s1
    by (rule returns_then [OF parsed]) (use that in \<open>auto intro!: failed put numbered simp del: put_defs\<close>)
  show ?thesis
    unfolding ProcessInit_def
    using assms(2)
    by (auto split: option.split prod.split intro!: main failed destroyed put simp: Let_def zero_process_def
        simp del: put_thread_def put_cpu_def put_process_def)
qed

end

context sched_contracts
begin

lemma ThreadCloseHandle_pid: "pid_range E \<Longrightarrow> pid_ok E s \<Longrightarrow> returns (pid_ok E) (ThreadCloseHandle E t s)"
  unfolding ThreadCloseHandle_def by (rule ThreadDereference_pid)

lemma UmApplicationRun_pid:
  assumes "pid_range E" "pid_ok E s"
  shows "returns (\<lambda>(_, s'). pid_ok E s') (UmApplicationRun E c sz prio A load p s)"
proof -
  have closed: "returns (\<lambda>(_, s'). pid_ok E s') (ThreadCloseHandle E t s1 \<bind> (\<lambda>s. Some (st, s)))" if "pid_ok E s1" for t s1 st
    by (rule returns_then [OF ThreadCloseHandle_pid [OF assms(1) that]]) simp
  have created: "returns (\<lambda>(_, s'). pid_ok E s') (do {
      (st, pThread, s) \<leftarrow> ThreadCreateEx E c sz A nm prio f x o' q s;
      (case pThread of
         None \<Rightarrow> Some (st, s)
       | Some t \<Rightarrow> do {
           s \<leftarrow> ThreadCloseHandle E t s;
           Some (st, s)
         })
    })" for nm f x o' q
    by (rule returns_then [OF ThreadCreateEx_pid [OF assms]]) (auto split: option.split intro: closed)
  show ?thesis
    unfolding UmApplicationRun_def by (rule returns_bind) (simp add: created assms(2) del: put_defs)
qed

lemma ProcessCreate_pid:
  assumes "pid_range E" "pid_ok E s"
  shows "returns (\<lambda>(_, _, s'). pid_ok E s') (ProcessCreate E c sz prio T A TA R path args o' s)"
proof -
  let ?Q = "\<lambda>(_, _, s'). pid_ok E s'"
  have failed: "returns ?Q (Process_failed E st p s1)" if "pid_ok E s1" for st p s1
    unfolding Process_failed_def
    by (rule returns_then [where Q = "pid_ok E"], rule returnsI, erule ProcessDereference_pid [OF assms(1) that]) simp
  have referenced: "returns ?Q (ProcessReference E p s1 \<bind> (\<lambda>s. Some (st, Some p, s)))" if "pid_ok E s1" for p s1 st
    by (rule returns_then [where Q = "pid_ok E"], rule returnsI, erule ProcessReference_pid [OF that]) simp
  have run: "returns ?Q (do {
      (st, s) \<leftarrow> UmApplicationRun E c sz prio TA (LoadStatus R) p s1;
      if \<not> SUCCEEDED st then Process_failed E st p s
      else do {
        s \<leftarrow> ProcessReference E p s;
        Some (st, Some p, s)
      }
    })" if "pid_ok E s1" for p s1
    by (rule returns_then [OF UmApplicationRun_pid [OF assms(1) that]]) (auto intro: failed referenced)
  have after: "returns ?Q
      (if \<not> SUCCEEDED (HeaderStatus R) then Process_failed E (HeaderStatus R) p s1
       else do {
         pr \<leftarrow> Processes s1 p;
         let pr = pr\<lparr>EntryPoint := HeaderEntryPoint R\<rparr>;
         if \<not> SUCCEEDED (SpaceStatus R) then Process_failed E (SpaceStatus R) p (put_process p pr s1)
         else do {
           (st, s) \<leftarrow> UmApplicationRun E c sz prio TA (LoadStatus R) p (put_process p (pr\<lparr>UserSpace := True\<rparr>) s1);
           if \<not> SUCCEEDED st then Process_failed E st p s
           else do {
             s \<leftarrow> ProcessReference E p s;
             Some (st, Some p, s)
           }
         }
       })" if "pid_ok E s1" for p s1
    using that unfolding Let_def
    by (auto intro!: returns_bind failed run pid_ok_process [OF that])
  have init: "returns ?Q (do {
      (st, pProcess, s) \<leftarrow> ProcessInit E T A nm args s;
      (case pProcess of None \<Rightarrow> Some (st, None, s) | Some p \<Rightarrow> f p s)
    })" if "\<And>p s1. pid_ok E s1 \<Longrightarrow> returns ?Q (f p s1)" for nm f
    by (rule returns_then [OF ProcessInit_pid [OF assms]]) (auto split: option.split intro: that)
  show ?thesis
    unfolding ProcessCreate_def
    by (cases path; cases o') (simp_all only: option.case if_True if_False, simp_all add: assms(2) init [OF after])
qed

lemma InitSystemProcess_pid:
  assumes "pid_range E" "pid_ok E s"
  shows "returns (\<lambda>(_, s'). pid_ok E s') (ProcessSystemInitSystemProcess E c T A s)"
proof -
  have insert: "returns (\<lambda>(_, s'). pid_ok E s') (ProcessInsertThreadInList E q t s1 \<bind> (\<lambda>s. Some (st, s)))" if "pid_ok E s1" for q t s1 st
    by (rule returns_then [where Q = "pid_ok E"], rule returnsI, erule ProcessInsert_pid [OF that]) simp
  show ?thesis
    unfolding ProcessSystemInitSystemProcess_def Let_def
    by (rule returns_then [OF ProcessInit_pid [OF assms]]) (auto split: prod.split intro!: returns_bind insert)
qed

lemma sched_step_pid:
  assumes range: "pid_range E" and ok: "pid_ok E s" and step: "sched_step E s s'"
  shows "pid_ok E s'"
  using step
proof cases
  case (main c A name prio p st)
  then show ?thesis
    using returnsD [OF InitMain_pid [OF range ok]] by fastforce
next
  case (create A c sz nm prio f x o' p st r)
  then show ?thesis
    using returnsD [OF ThreadCreateEx_pid [OF range ok]] by fastforce
next
  case (tick c)
  then show ?thesis
    using ok by (auto simp: ThreadTick_def bind_Some_iff Let_def)
next
  case (test e b)
  then show ?thesis
    using ExEventWaitForSignal_test_pid [of E e s] ok by simp
next
  case (clear e)
  then show ?thesis
    using ok by (simp add: ExEventClearSignal_def)
next
  case (close t th)
  then show ?thesis
    using returnsD [OF ThreadCloseHandle_pid [OF range ok]] by blast
next
  case (priority c pr)
  then show ?thesis
    using ok by (auto simp: ThreadSetPriority_def bind_Some_iff)
next
  case (terminate t)
  then show ?thesis
    using ok by (auto simp: ThreadTerminate_def bind_Some_iff)
next
  case (signal c e)
  then show ?thesis
    using ok ExEventSignal_pid by blast
next
  case (release c m)
  then show ?thesis
    using ok MutexRelease_pid by blast
next
  case (reference t)
  then show ?thesis
    using ok ThreadReference_pid by blast
qed (use range ok in \<open>blast intro: ThreadYield_pid ThreadExit_pid idle_pid wait_pid MutexAcquire_pid MutexAcquire_round_pid
    ProcessTerminate_pid\<close>)+

end

subsection \<open>Histories\<close>

text \<open>
  What the kernel does with threads and processes: the scheduler's steps, setting up the system
  process, creating, referencing and closing processes and switching to their paging tables.
\<close>

inductive system_step :: "sched_env \<Rightarrow> sched \<Rightarrow> sched \<Rightarrow> bool" for E :: sched_env where
  sched: "sched_step E s s' \<Longrightarrow> system_step E s s'"
| system: "ProcessSystemInitSystemProcess E c T A s = Some (st, s') \<Longrightarrow> system_step E s s'"
| create_process: "ProcessCreate E c sz prio T A TA R path args outNull s = Some (st, r, s') \<Longrightarrow> system_step E s s'"
| reference_process: "ProcessReference E p s = Some s' \<Longrightarrow> system_step E s s'"
| close_process: "ProcessCloseHandle E p s = Some s' \<Longrightarrow> system_step E s s'"
| activate: "ProcessActivatePagingTables E c p s = Some s' \<Longrightarrow> system_step E s s'"

context sched_contracts
begin

lemma system_step_pid:
  assumes range: "pid_range E" and ok: "pid_ok E s" and step: "system_step E s s'"
  shows "pid_ok E s'"
  using step
proof cases
  case sched
  then show ?thesis
    by (rule sched_step_pid [OF range ok])
next
  case (system c T A st)
  then show ?thesis
    using returnsD [OF InitSystemProcess_pid [OF range ok]] by fastforce
next
  case (create_process c sz prio T A TA R path args outNull st r)
  then show ?thesis
    using returnsD [OF ProcessCreate_pid [OF range ok]] by fastforce
next
  case (reference_process p)
  then show ?thesis
    by (rule ProcessReference_pid [OF ok])
next
  case (close_process p)
  then show ?thesis
    unfolding ProcessCloseHandle_def by (rule ProcessDereference_pid [OF range ok])
next
  case (activate c p)
  then show ?thesis
    using ok by (auto simp: ProcessActivatePagingTables_def bind_Some_iff)
qed

lemma system_history_pid: "(system_step E)\<^sup>*\<^sup>* s s' \<Longrightarrow> pid_range E \<Longrightarrow> pid_ok E s \<Longrightarrow> pid_ok E s'"
  by (induction rule: rtranclp_induct) (auto intro: system_step_pid)

lemma Preinit_pid:
  assumes range: "pid_range E" and none: "\<And>p. Processes s p = None"
    and some: "ProcessSystemPreinit E n buf s = Some s'"
  shows "pid_ok E s' \<and> Bits (PidBitmap s') 0"
proof -
  have t: "1 \<le> unat (PCID_TOTAL_NO_OF_VALUES E)" "unat (PCID_TOTAL_NO_OF_VALUES E) \<le> 0x10000"
    using range by (simp_all add: pid_range_def word_le_nat_alt)
  obtain sz b where pre: "BitmapPreinit (SB E) (PidBitmap s) (ucast (PCID_TOTAL_NO_OF_VALUES E)) = (sz, b)"
    by fastforce
  define b1 where "b1 = BitmapInit (SB E) b buf"
  have count: "unat (BitCount b1) = unat (PCID_TOTAL_NO_OF_VALUES E)"
    using bitmap_contract.BitmapPreinit_count [OF env_bitmap, of "PidBitmap s" "ucast (PCID_TOTAL_NO_OF_VALUES E)"] pre t(2)
    by (simp add: b1_def bitmap_contract.BitmapInit_count [OF env_bitmap] unat_ucast_qword_dword)
  have set: "BitmapSetBit (SB E) b1 0 = b1\<lparr>Bits := bits_set 0 1 True (Bits b1)\<rparr>"
    using bitmap_contract.BitmapSetBits_in [OF env_bitmap, of 0 1 b1] count t(1) by (simp add: bitmap_laws)
  have s': "s' = s\<lparr>PidBitmap := BitmapSetBit (SB E) b1 0, SystemProcess := None, ProcessList := []\<rparr>"
    using some pre by (simp add: ProcessSystemPreinit_def b1_def)
  show ?thesis
    using count none by (simp add: s' set pid_ok_def bits_set_def)
qed

end


text \<open>A range of seven identifiers, and the boot of a system with one process.\<close>

definition pid_env_example :: sched_env where
  "pid_env_example = sched_env_example\<lparr>PCID_IS_VALID := (\<lambda>x. 1 \<le> x \<and> x \<le> 7), PCID_TOTAL_NO_OF_VALUES := 8\<rparr>"

interpretation px: sched_contracts pid_env_example
  using sx.sched_contracts_axioms by (simp add: sched_contracts_def pid_env_example_def)

definition text_example :: text_lib where
  "text_example = \<lparr>strcelem = (\<lambda>_ _. 0), INVALID_STRING_SIZE = - 1, snprintf = (\<lambda>_ _. STATUS_SUCCESS), strrchr = (\<lambda>_ _. 0)\<rparr>"

definition process_alloc_example :: "nat \<Rightarrow> process_alloc" where
  "process_alloc_example p = \<lparr>PoolProcess = Some p, PoolHeaderInfo = True, PoolProcessName = True, PoolCommandLine = True\<rparr>"

definition boot_example :: "sched \<Rightarrow> (sched \<times> sched \<times> sched) option" where
  "boot_example s = do {
     s1 \<leftarrow> ProcessSystemPreinit pid_env_example 1 0x8000 s;
     (_, s2) \<leftarrow> ThreadSystemInitMainForCurrentCPU pid_env_example 0 (boot_alloc 1) ''main-00'' 16 None s1;
     (_, s3) \<leftarrow> ProcessSystemInitSystemProcess pid_env_example 0 text_example (process_alloc_example 5) s2;
     Some (s1, s2, s3)
   }"


end
