(* ===== verification/IoApic.thy ===== *)
theory IoApic
  imports CommonLib
begin

text \<open>
  The I/O APICs (\<open>ioapic_system.c\<close>): which controller and pin an interrupt line is connected to,
  the vectors programmed for the lines, masking, and the routing of PCI interrupts.
  Each controller's lock is acquired and released inside one routine, which is atomic. What ACPI
  says of the machine is an argument: a list of entries in the order in which the iterators
  of \<open>acpi_interface.c\<close> hand them out.
\<close>

subsection \<open>The controller\<close>

text \<open>
  The redirection table of a controller, which the library outside the repository reads and
  writes: an entry for each pin, and whether the pin is masked.
\<close>

record redirection =
  RVector :: byte
  RDestinationMode :: byte
  RDestination :: byte
  RDeliveryMode :: byte
  RPinPolarity :: byte
  RTriggerMode :: byte

record redir_table =
  RTable :: "byte \<Rightarrow> redirection"
  RMask :: "byte \<Rightarrow> bool"

record ioapic_lib =
  IoApicSetRedirectionTableEntry :: "redir_table \<Rightarrow> byte \<Rightarrow> redirection \<Rightarrow> redir_table"
  IoApicGetRedirectionTableEntryVector :: "redir_table \<Rightarrow> byte \<Rightarrow> byte"
  IoApicSetRedirectionTableEntryMask :: "redir_table \<Rightarrow> byte \<Rightarrow> bool \<Rightarrow> redir_table"

locale ioapic_contract =
  fixes I :: ioapic_lib
  assumes set_entry: "RTable (IoApicSetRedirectionTableEntry I t i r) = (RTable t)(i := r)"
    and set_entry_mask: "RMask (IoApicSetRedirectionTableEntry I t i r) = RMask t"
    and get_vector: "IoApicGetRedirectionTableEntryVector I t i = RVector (RTable t i)"
    and set_mask: "RMask (IoApicSetRedirectionTableEntryMask I t i b) = (RMask t)(i := b)"
    and set_mask_entry: "RTable (IoApicSetRedirectionTableEntryMask I t i b) = RTable t"
begin

lemmas redir_simps = set_entry set_entry_mask get_vector set_mask set_mask_entry

end

definition ioapic_ops :: ioapic_lib where
  "ioapic_ops = \<lparr>IoApicSetRedirectionTableEntry = (\<lambda>t i r. t\<lparr>RTable := (RTable t)(i := r)\<rparr>),
     IoApicGetRedirectionTableEntryVector = (\<lambda>t i. RVector (RTable t i)),
     IoApicSetRedirectionTableEntryMask = (\<lambda>t i b. t\<lparr>RMask := (RMask t)(i := b)\<rparr>)\<rparr>"

interpretation io: ioapic_contract ioapic_ops
  by unfold_locales (simp_all add: ioapic_ops_def)

subsection \<open>State\<close>

record irq_override =
  SourceIrq :: byte
  DestinationIrq :: byte
  OverrideTriggerMode :: byte
  OverridePinPolarity :: byte

record prt_entry =
  PrtBus :: byte
  PrtDevice :: byte
  PrtFunction :: byte
  IoApicLine :: dword
  PrtInterruptPin :: byte

record ioapic_entry =
  ApicId :: byte
  ApicVersion :: byte
  IrqBase :: byte
  MaximumRedirectionEntry :: byte
  MappedAddress :: qword
  InterruptsWritten :: bitmap
  Redirections :: redir_table

record ioapic_data =
  ApicList :: "ioapic_entry list"
  MaskInterrupts :: bool
  SystemVersion :: byte
  NoOfInterruptOverrides :: dword
  InterruptOverrides :: "irq_override list option"
  NoOfPrtEntries :: dword
  PrtEntries :: "prt_entry list option"

text \<open>The library, the names of the modes and the state of the local APIC.\<close>

record ioapic_env =
  IA :: addr_lib
  IB :: bitmap_lib
  IL :: ioapic_lib
  ApicTriggerModeEdge :: byte
  ApicTriggerModeLevel :: byte
  ApicPinPolarityActiveHigh :: byte
  ApicPinPolarityActiveLow :: byte
  LapicSystemGetState :: bool

definition put_ioapic :: "nat \<Rightarrow> ioapic_entry \<Rightarrow> ioapic_data \<Rightarrow> ioapic_data" where
  "put_ioapic k a d = d\<lparr>ApicList := (ApicList d)[k := a]\<rparr>"

subsection \<open>Lines, controllers and pins\<close>

text \<open>
  The scan of the overrides; the last one of a line counts. Reading behind the array or through
  a null pointer does not return.
\<close>

fun IoApicReturnInterruptOverrideForIrq_loop ::
  "irq_override list option \<Rightarrow> byte \<Rightarrow> nat list \<Rightarrow> irq_override option \<Rightarrow> irq_override option option" where
  "IoApicReturnInterruptOverrideForIrq_loop ovs Irq [] pResult = Some pResult"
| "IoApicReturnInterruptOverrideForIrq_loop ovs Irq (i # is) pResult = do {
     arr \<leftarrow> ovs;
     ASSERT (i < length arr);
     IoApicReturnInterruptOverrideForIrq_loop ovs Irq is (if SourceIrq (arr ! i) = Irq then Some (arr ! i) else pResult)
   }"

definition IoApicReturnInterruptOverrideForIrq :: "ioapic_data \<Rightarrow> byte \<Rightarrow> irq_override option option" where
  "IoApicReturnInterruptOverrideForIrq d Irq =
     IoApicReturnInterruptOverrideForIrq_loop (InterruptOverrides d) Irq [0..<unat (NoOfInterruptOverrides d)] None"

fun IoApicSystemGetIoApicForIrq_loop :: "ioapic_env \<Rightarrow> byte \<Rightarrow> nat \<Rightarrow> ioapic_entry list \<Rightarrow> (nat \<times> byte) option" where
  "IoApicSystemGetIoApicForIrq_loop E finalIrq k [] = None"
| "IoApicSystemGetIoApicForIrq_loop E finalIrq k (a # as) =
     (if CHECK_BOUNDS (IA E) (ucast finalIrq) 1 (ucast (IrqBase a)) (ucast (MaximumRedirectionEntry a) + 1)
      then Some (k, finalIrq - IrqBase a)
      else IoApicSystemGetIoApicForIrq_loop E finalIrq (Suc k) as)"

text \<open>The controller (its place in the list), the pin, and the override of the line if there is one.\<close>

definition IoApicSystemGetIoApicForIrq ::
  "ioapic_env \<Rightarrow> ioapic_data \<Rightarrow> byte \<Rightarrow> ((nat \<times> byte) option \<times> irq_override option) option" where
  "IoApicSystemGetIoApicForIrq E d Irq = do {
     pInterruptOverride \<leftarrow> IoApicReturnInterruptOverrideForIrq d Irq;
     let finalIrq = (case pInterruptOverride of Some ov \<Rightarrow> DestinationIrq ov | None \<Rightarrow> Irq);
     Some (IoApicSystemGetIoApicForIrq_loop E finalIrq 0 (ApicList d), pInterruptOverride)
   }"

subsection \<open>Programming a line\<close>

definition IoApicSystemSetInterrupt ::
  "ioapic_env \<Rightarrow> byte \<Rightarrow> byte \<Rightarrow> byte \<Rightarrow> byte \<Rightarrow> byte \<Rightarrow> byte \<Rightarrow> byte \<Rightarrow> bool \<Rightarrow> ioapic_data \<Rightarrow> (status \<times> ioapic_data) option" where
  "IoApicSystemSetInterrupt E Irq Vector DestinationMode DeliveryMode PinPolarity TriggerMode Destination Overwrite d = do {
     (found, pInterruptOverride) \<leftarrow> IoApicSystemGetIoApicForIrq E d Irq;
     (case found of
        None \<Rightarrow> Some (STATUS_DEVICE_DOES_NOT_EXIST, d)
      | Some (k, offsetInIoApic) \<Rightarrow>
          let a = ApicList d ! k;
              pinPolarity = (case pInterruptOverride of Some ov \<Rightarrow> OverridePinPolarity ov | None \<Rightarrow> PinPolarity);
              triggerMode = (case pInterruptOverride of Some ov \<Rightarrow> OverrideTriggerMode ov | None \<Rightarrow> TriggerMode)
          in if BitmapGetBitValue (IB E) (InterruptsWritten a) (ucast offsetInIoApic) \<and> \<not> Overwrite
             then Some (STATUS_DEVICE_INTERRUPT_NOT_AVAILABLE, d)
             else do {
               ASSERT (LapicSystemGetState E);
               let t = IoApicSetRedirectionTableEntry (IL E) (Redirections a) offsetInIoApic
                         \<lparr>RVector = Vector, RDestinationMode = DestinationMode, RDestination = Destination,
                          RDeliveryMode = DeliveryMode, RPinPolarity = pinPolarity,
                          RTriggerMode = if Irq \<noteq> 8 then triggerMode else ApicTriggerModeLevel E\<rparr>;
               let t = (if \<not> MaskInterrupts d then IoApicSetRedirectionTableEntryMask (IL E) t offsetInIoApic False else t);
               Some (STATUS_SUCCESS,
                     put_ioapic k (a\<lparr>InterruptsWritten := BitmapSetBit (IB E) (InterruptsWritten a) (ucast offsetInIoApic),
                                    Redirections := t\<rparr>) d)
             })
   }"

definition IoApicSystemMaskInterrupt :: "ioapic_env \<Rightarrow> byte \<Rightarrow> bool \<Rightarrow> ioapic_data \<Rightarrow> ioapic_data option" where
  "IoApicSystemMaskInterrupt E Irq Mask d = do {
     (found, _) \<leftarrow> IoApicSystemGetIoApicForIrq E d Irq;
     (k, offsetInIoApic) \<leftarrow> found;
     let a = ApicList d ! k;
     Some (put_ioapic k (a\<lparr>Redirections := IoApicSetRedirectionTableEntryMask (IL E) (Redirections a) offsetInIoApic Mask\<rparr>) d)
   }"

definition IoApicSystemGetVectorForIrq :: "ioapic_env \<Rightarrow> byte \<Rightarrow> ioapic_data \<Rightarrow> (status \<times> byte option) option" where
  "IoApicSystemGetVectorForIrq E Irq d = do {
     (found, _) \<leftarrow> IoApicSystemGetIoApicForIrq E d Irq;
     (case found of
        None \<Rightarrow> Some (STATUS_DEVICE_DOES_NOT_EXIST, None)
      | Some (k, offsetInIoApic) \<Rightarrow>
          let a = ApicList d ! k in
          if \<not> BitmapGetBitValue (IB E) (InterruptsWritten a) (ucast offsetInIoApic)
          then Some (STATUS_DEVICE_INTERRUPT_NOT_CONFIGURED, None)
          else Some (STATUS_SUCCESS, Some (IoApicGetRedirectionTableEntryVector (IL E) (Redirections a) offsetInIoApic)))
   }"

text \<open>
  Unmasking the pins that are written. The counter of the inner loop is a byte: for the highest
  possible \<open>MaximumRedirectionEntry\<close> the loop would not end.
\<close>

definition EnableRegisteredInterrupts_pins :: "ioapic_env \<Rightarrow> ioapic_entry \<Rightarrow> redir_table" where
  "EnableRegisteredInterrupts_pins E a =
     fold (\<lambda>i t. if BitmapGetBitValue (IB E) (InterruptsWritten a) (of_nat i)
                 then IoApicSetRedirectionTableEntryMask (IL E) t (of_nat i) False else t)
       [0..<Suc (unat (MaximumRedirectionEntry a))] (Redirections a)"

definition IoApicSystemEnableRegisteredInterrupts :: "ioapic_env \<Rightarrow> ioapic_data \<Rightarrow> ioapic_data option" where
  "IoApicSystemEnableRegisteredInterrupts E d = do {
     ASSERT (\<forall>a \<in> set (ApicList d). MaximumRedirectionEntry a \<noteq> MAX_BYTE);
     Some (d\<lparr>MaskInterrupts := False,
             ApicList := map (\<lambda>a. a\<lparr>Redirections := EnableRegisteredInterrupts_pins E a\<rparr>) (ApicList d)\<rparr>)
   }"

subsection \<open>Initialisation\<close>

text \<open>
  What ACPI says of a controller, with what \<open>IoMapMemory\<close> answers (0 for \<open>NULL\<close>), what the registers
  of the controller hold, and whether the pool has memory for its description.
\<close>

record acpi_ioapic =
  AcpiId :: byte
  GlobalIrqBase :: dword
  PoolEntry :: bool
  Mapped :: qword
  HwId :: byte
  HwVersion :: byte
  HwMaximumRedirectionEntry :: byte
  HwRedirections :: redir_table

definition IoApicSystemPreinit :: ioapic_data where
  "IoApicSystemPreinit = \<lparr>ApicList = [], MaskInterrupts = True, SystemVersion = 0, NoOfInterruptOverrides = 0,
     InterruptOverrides = None, NoOfPrtEntries = 0, PrtEntries = None\<rparr>"

text \<open>
  \<open>bitmapMemory\<close> is the bitmap in the zeroed object and \<open>buffer\<close> the address of its \<open>BitmapBuffer\<close>.
\<close>

definition IoApicSystemInitEntry ::
  "ioapic_env \<Rightarrow> bitmap \<Rightarrow> qword \<Rightarrow> acpi_ioapic \<Rightarrow> (status \<times> ioapic_entry option) option" where
  "IoApicSystemInitEntry E bitmapMemory buffer AcpiEntry =
     (if \<not> PoolEntry AcpiEntry then Some (STATUS_HEAP_INSUFFICIENT_RESOURCES, None)
      else do {
        ASSERT (GlobalIrqBase AcpiEntry \<le> ucast MAX_BYTE);
        if Mapped AcpiEntry = 0 then Some (STATUS_MEMORY_CANNOT_BE_MAPPED, None)
        else do {
          ASSERT (HwId AcpiEntry = AcpiId AcpiEntry);
          let m = HwMaximumRedirectionEntry AcpiEntry;
          let (bitmapSize, written) = BitmapPreinit (IB E) bitmapMemory (ucast m + 1);
          ASSERT (bitmapSize \<le> 4);
          let written = BitmapInit (IB E) written buffer;
          let t = fold (\<lambda>i t. IoApicSetRedirectionTableEntryMask (IL E) t (of_nat i) True) [0..<Suc (unat m)]
                    (HwRedirections AcpiEntry);
          Some (STATUS_SUCCESS,
                Some \<lparr>ApicId = AcpiId AcpiEntry, ApicVersion = HwVersion AcpiEntry, IrqBase = ucast (GlobalIrqBase AcpiEntry),
                      MaximumRedirectionEntry = m, MappedAddress = Mapped AcpiEntry, InterruptsWritten = written,
                      Redirections = t\<rparr>)
        }
      })"

fun IoApicSystemRetrieveIoApics ::
  "ioapic_env \<Rightarrow> bitmap \<Rightarrow> qword \<Rightarrow> bool \<Rightarrow> acpi_ioapic list \<Rightarrow> ioapic_data \<Rightarrow> (status \<times> ioapic_data) option" where
  "IoApicSystemRetrieveIoApics E bm buf bRestartSearch [] d = Some (STATUS_SUCCESS, d)"
| "IoApicSystemRetrieveIoApics E bm buf bRestartSearch (pEntry # rest) d = do {
     (status, pIoApic) \<leftarrow> IoApicSystemInitEntry E bm buf pEntry;
     (case pIoApic of
        None \<Rightarrow> Some (status, d)
      | Some a \<Rightarrow> do {
          let d = d\<lparr>ApicList := ApicList d @ [a]\<rparr>;
          let d = (if bRestartSearch then d\<lparr>SystemVersion := ApicVersion a\<rparr> else d);
          ASSERT (ApicVersion a = SystemVersion d);
          IoApicSystemRetrieveIoApics E bm buf False rest d
        })
   }"

record acpi_override =
  AcpiSourceIrq :: byte
  GlobalIrq :: dword
  IntiFlags :: "16 word"
  AcpiBus :: byte

text \<open>A flag of the ACPI entry as the value that is stored for it.\<close>

definition flag_value :: "16 word \<Rightarrow> 16 word \<Rightarrow> byte" where
  "flag_value flags b = (if flags AND b = b then 1 else 0)"

fun RetrieveInterruptOverrides_fill :: "acpi_override list \<Rightarrow> irq_override list option" where
  "RetrieveInterruptOverrides_fill [] = Some []"
| "RetrieveInterruptOverrides_fill (pEntry # rest) = do {
     ASSERT (GlobalIrq pEntry \<le> ucast MAX_BYTE);
     ASSERT (AcpiBus pEntry = 0);
     ovs \<leftarrow> RetrieveInterruptOverrides_fill rest;
     Some (\<lparr>SourceIrq = AcpiSourceIrq pEntry, DestinationIrq = ucast (GlobalIrq pEntry),
            OverrideTriggerMode = flag_value (IntiFlags pEntry) 8,
            OverridePinPolarity = flag_value (IntiFlags pEntry) 2\<rparr> # ovs)
   }"

text \<open>
  The two passes of \<open>_IoApicSystemRetrieveInterruptOverrides\<close>: the first counts the entries, the
  second fills the array. \<open>allocated\<close> is whether the pool has memory for the array.
\<close>

definition IoApicSystemRetrieveInterruptOverrides ::
  "bool \<Rightarrow> acpi_override list \<Rightarrow> ioapic_data \<Rightarrow> (status \<times> ioapic_data) option" where
  "IoApicSystemRetrieveInterruptOverrides allocated entries d =
     (let noOfInterruptOverrides = of_nat (length entries);
          d = d\<lparr>NoOfInterruptOverrides := noOfInterruptOverrides\<rparr> in
      if noOfInterruptOverrides = 0 then Some (STATUS_SUCCESS, d\<lparr>NoOfInterruptOverrides := 0, InterruptOverrides := None\<rparr>)
      else if \<not> allocated then Some (STATUS_HEAP_INSUFFICIENT_RESOURCES, d)
      else do {
        ovs \<leftarrow> RetrieveInterruptOverrides_fill entries;
        Some (STATUS_SUCCESS, d\<lparr>NoOfInterruptOverrides := noOfInterruptOverrides, InterruptOverrides := Some ovs\<rparr>)
      })"

definition IoApicSystemInit ::
  "ioapic_env \<Rightarrow> bitmap \<Rightarrow> qword \<Rightarrow> acpi_ioapic list \<Rightarrow> bool \<Rightarrow> acpi_override list \<Rightarrow> ioapic_data \<Rightarrow> (status \<times> ioapic_data) option" where
  "IoApicSystemInit E bm buf apics allocated overrides d = do {
     (status, d) \<leftarrow> IoApicSystemRetrieveIoApics E bm buf True apics d;
     if \<not> SUCCEEDED status then Some (status, d)
     else IoApicSystemRetrieveInterruptOverrides allocated overrides d
   }"

record acpi_prt =
  BusNumber :: byte
  SegmentNumber :: "16 word"
  PrtAddress :: qword
  PrtPin :: dword
  SourceIndex :: dword
  PrtSource :: dword

fun RetrievePrtEntries_fill :: "acpi_prt list \<Rightarrow> prt_entry list option" where
  "RetrievePrtEntries_fill [] = Some []"
| "RetrievePrtEntries_fill (pEntry # rest) = do {
     ASSERT (SegmentNumber pEntry = 0);
     ASSERT (PrtSource pEntry = 0);
     es \<leftarrow> RetrievePrtEntries_fill rest;
     Some (\<lparr>PrtBus = BusNumber pEntry, PrtDevice = ucast (drop_bit 16 (PrtAddress pEntry)),
            PrtFunction = ucast (PrtAddress pEntry), IoApicLine = SourceIndex pEntry,
            PrtInterruptPin = ucast (PrtPin pEntry) + 1\<rparr> # es)
   }"

text \<open>
  The passes of \<open>_IoApicSystemRetrievePrtEntries\<close> keep their intermediate count in the field
  \<open>NoOfInterruptOverrides\<close> of the system's data, as the code does.
\<close>

definition IoApicSystemRetrievePrtEntries :: "bool \<Rightarrow> acpi_prt list \<Rightarrow> ioapic_data \<Rightarrow> (status \<times> ioapic_data) option" where
  "IoApicSystemRetrievePrtEntries allocated entries d = do {
     ASSERT (\<forall>e \<in> set entries. SegmentNumber e = 0);
     let noOfPrtEntries = of_nat (length entries);
     let d = d\<lparr>NoOfInterruptOverrides := noOfPrtEntries\<rparr>;
     if noOfPrtEntries = 0 then Some (STATUS_SUCCESS, d\<lparr>NoOfPrtEntries := 0, PrtEntries := None\<rparr>)
     else if \<not> allocated then Some (STATUS_HEAP_INSUFFICIENT_RESOURCES, d)
     else do {
       es \<leftarrow> RetrievePrtEntries_fill entries;
       Some (STATUS_SUCCESS, d\<lparr>NoOfPrtEntries := noOfPrtEntries, PrtEntries := Some es\<rparr>)
     }
   }"

definition IoApicLateSystemInit :: "bool \<Rightarrow> acpi_prt list \<Rightarrow> ioapic_data \<Rightarrow> (status \<times> ioapic_data) option" where
  "IoApicLateSystemInit allocated entries d = IoApicSystemRetrievePrtEntries allocated entries d"

subsection \<open>PCI interrupt lines\<close>

text \<open>\<open>ParentFunctions\<close> are the function numbers of the bridges above the device, the nearest first.\<close>

record pci_device =
  PciBus :: byte
  PciDevice :: byte
  PciFunction :: byte
  PciInterruptPin :: byte
  ParentFunctions :: "byte list"

definition prt_matches :: "prt_entry \<Rightarrow> pci_device \<Rightarrow> bool" where
  "prt_matches e dev \<longleftrightarrow> PrtBus e = PciBus dev \<and> PrtDevice e = PciDevice dev \<and>
     (PrtFunction e = MAX_BYTE \<or> PrtFunction e = PciFunction dev) \<and> PrtInterruptPin e = PciInterruptPin dev"

fun GetInterruptLine_scan :: "prt_entry list option \<Rightarrow> pci_device \<Rightarrow> nat list \<Rightarrow> dword option option" where
  "GetInterruptLine_scan prt dev [] = Some None"
| "GetInterruptLine_scan prt dev (i # is) = do {
     arr \<leftarrow> prt;
     ASSERT (i < length arr);
     if prt_matches (arr ! i) dev then Some (Some (IoApicLine (arr ! i))) else GetInterruptLine_scan prt dev is
   }"

fun GetInterruptLine_swizzle :: "byte \<Rightarrow> byte list \<Rightarrow> byte" where
  "GetInterruptLine_swizzle accumulatedOffset [] = accumulatedOffset"
| "GetInterruptLine_swizzle accumulatedOffset [f] = accumulatedOffset"
| "GetInterruptLine_swizzle accumulatedOffset (f # g # fs) = GetInterruptLine_swizzle ((accumulatedOffset + f) mod 4) (g # fs)"

definition IoApicGetInterruptLineForPciDevice :: "ioapic_data \<Rightarrow> pci_device \<Rightarrow> dword option" where
  "IoApicGetInterruptLineForPciDevice d dev = do {
     found \<leftarrow> GetInterruptLine_scan (PrtEntries d) dev [0..<unat (NoOfPrtEntries d)];
     Some (case found of
             Some irqLine \<Rightarrow> irqLine
           | None \<Rightarrow> 0x10 + ucast (GetInterruptLine_swizzle (PciInterruptPin dev) (ParentFunctions dev)))
   }"

subsection \<open>Well-formed controllers\<close>

locale ioapic_contracts =
  fixes E :: ioapic_env
  assumes env_redir: "ioapic_contract (IL E)" and env_bitmap: "bitmap_contract (IB E)" and env_addr: "addr_contract (IA E)"
begin

lemmas redir = ioapic_contract.redir_simps [OF env_redir]

end

definition ioapic_env_example :: ioapic_env where
  "ioapic_env_example = \<lparr>IA = addr_ops, IB = bitmap_ops, IL = ioapic_ops, ApicTriggerModeEdge = 0, ApicTriggerModeLevel = 1,
     ApicPinPolarityActiveHigh = 0, ApicPinPolarityActiveLow = 1, LapicSystemGetState = True\<rparr>"

interpretation ix: ioapic_contracts ioapic_env_example
  by (rule ioapic_contracts.intro) (simp_all add: ioapic_env_example_def io.ioapic_contract_axioms bm.bitmap_contract_axioms addr.addr_contract_axioms)

text \<open>One bit for each pin, and at most the 32 pins the bitmap's buffer has room for.\<close>

definition entry_ok :: "ioapic_entry \<Rightarrow> bool" where
  "entry_ok a \<longleftrightarrow> unat (MaximumRedirectionEntry a) < 32 \<and>
     unat (BitCount (InterruptsWritten a)) = Suc (unat (MaximumRedirectionEntry a))"

definition apics_ok :: "ioapic_data \<Rightarrow> bool" where
  "apics_ok d \<longleftrightarrow> (\<forall>a \<in> set (ApicList d). entry_ok a)"

text \<open>The pins that are programmed, and what they are programmed with.\<close>

definition pin_written :: "ioapic_entry \<Rightarrow> byte \<Rightarrow> bool" where
  "pin_written a i \<longleftrightarrow> Bits (InterruptsWritten a) (unat i)"

lemma unat_ucast_byte [simp]: "unat (ucast (x :: byte) :: dword) = unat x" "unat (ucast (x :: byte) :: qword) = unat x"
  by (simp_all add: unsigned_ucast_eq take_bit_nat_eq_self order_less_le_trans [OF unsigned_less])

lemma unat_byte_less: "unat (x :: byte) < 256"
  using unsigned_less [of x, where ?'a = nat] by simp

context ioapic_contracts
begin

lemma pin_in_range:
  assumes "IoApicSystemGetIoApicForIrq_loop E irq k as = Some (j, off)"
  shows "k \<le> j \<and> j < k + length as \<and> unat (IrqBase (as ! (j - k))) + unat off = unat irq \<and>
    unat off \<le> unat (MaximumRedirectionEntry (as ! (j - k)))"
  using assms
proof (induction as arbitrary: k)
  case (Cons a as)
  let ?in = "CHECK_BOUNDS (IA E) (ucast irq) 1 (ucast (IrqBase a)) (ucast (MaximumRedirectionEntry a) + 1)"
  have m: "unat (ucast (MaximumRedirectionEntry a) + 1 :: qword) = Suc (unat (MaximumRedirectionEntry a))"
    using unat_byte_less [of "MaximumRedirectionEntry a"] by (subst unat_add_less) simp_all
  have "?in \<longleftrightarrow> unat (IrqBase a) \<le> unat irq \<and> unat irq + 1 \<le> unat (IrqBase a) + Suc (unat (MaximumRedirectionEntry a))"
    using addr_contract.CHECK_BOUNDS_no_wrap [OF env_addr, of "ucast irq" 1 "ucast (IrqBase a)" "ucast (MaximumRedirectionEntry a) + 1"]
      unat_byte_less [of irq] unat_byte_less [of "IrqBase a"] unat_byte_less [of "MaximumRedirectionEntry a"] m by simp
  note in_iff = this
  show ?case
  proof (cases ?in)
    case True
    then have "unat (irq - IrqBase a) = unat irq - unat (IrqBase a)"
      using in_iff by (simp add: unat_sub word_le_nat_alt)
    then show ?thesis
      using True Cons.prems in_iff by auto
  next
    case False
    then have "IoApicSystemGetIoApicForIrq_loop E irq (Suc k) as = Some (j, off)"
      using Cons.prems by simp
    from Cons.IH [OF this] show ?thesis
      by (auto simp: nth_Cons' Suc_diff_le)
  qed
qed simp

end

lemma GetIoApicForIrq_loop_cong:
  "map (\<lambda>a. (IrqBase a, MaximumRedirectionEntry a)) as = map (\<lambda>a. (IrqBase a, MaximumRedirectionEntry a)) bs \<Longrightarrow>
    IoApicSystemGetIoApicForIrq_loop E irq k as = IoApicSystemGetIoApicForIrq_loop E irq k bs"
proof (induction as arbitrary: bs k)
  case (Cons a as)
  then obtain b bs' where "bs = b # bs'"
    by (cases bs) auto
  then show ?case
    using Cons by simp
qed simp

lemma GetIoApicForIrq_put:
  assumes "IrqBase a = IrqBase (ApicList d ! k)" and "MaximumRedirectionEntry a = MaximumRedirectionEntry (ApicList d ! k)"
  shows "IoApicSystemGetIoApicForIrq E (put_ioapic k a d) Irq = IoApicSystemGetIoApicForIrq E d Irq"
proof -
  have "map (\<lambda>a. (IrqBase a, MaximumRedirectionEntry a)) ((ApicList d)[k := a]) =
      map (\<lambda>a. (IrqBase a, MaximumRedirectionEntry a)) (ApicList d)"
    using assms by (cases "k < length (ApicList d)") (simp_all add: map_update list_update_same_conv list_update_beyond)
  from GetIoApicForIrq_loop_cong [OF this] show ?thesis
    by (simp add: IoApicSystemGetIoApicForIrq_def IoApicReturnInterruptOverrideForIrq_def put_ioapic_def)
qed

context ioapic_contracts
begin

lemma pin_found:
  assumes "IoApicSystemGetIoApicForIrq E d Irq = Some (Some (k, off), ov)"
  shows "k < length (ApicList d) \<and> unat off \<le> unat (MaximumRedirectionEntry (ApicList d ! k))"
  using assms pin_in_range [of _ 0 "ApicList d" k off]
  by (auto simp: IoApicSystemGetIoApicForIrq_def bind_Some_iff Let_def)

lemma written_bit:
  "entry_ok a \<Longrightarrow> unat i \<le> unat (MaximumRedirectionEntry a) \<Longrightarrow>
    BitmapGetBitValue (IB E) (InterruptsWritten a) (ucast i) = pin_written a i"
  using bitmap_contract.BitmapGetBitValue_in [OF env_bitmap, of "ucast i" "InterruptsWritten a"]
  by (simp add: entry_ok_def pin_written_def)

lemma set_written:
  fixes off :: byte
  assumes "entry_ok a" and "unat off \<le> unat (MaximumRedirectionEntry a)"
  shows "BitmapSetBit (IB E) (InterruptsWritten a) (ucast off) =
    (InterruptsWritten a)\<lparr>Bits := (Bits (InterruptsWritten a))(unat off := True)\<rparr>"
proof -
  have "bits_set (unat off) 1 True f = f(unat off := True)" for f
    by (auto simp: bits_set_def fun_eq_iff)
  then show ?thesis
    using bitmap_contract.BitmapSetBits_in [OF env_bitmap, of "ucast off" 1 "InterruptsWritten a"] assms
    by (simp add: bitmap_contract.BitmapSetBit_one [OF env_bitmap] entry_ok_def)
qed

text \<open>What programming a line does when it succeeds.\<close>

lemma SetInterrupt_success:
  assumes ok: "apics_ok d"
    and some: "IoApicSystemSetInterrupt E Irq V dm del pol trig dest ow d = Some (STATUS_SUCCESS, d')"
  obtains k off ov a a' where "IoApicSystemGetIoApicForIrq E d Irq = Some (Some (k, off), ov)"
    and "k < length (ApicList d)" and "a = ApicList d ! k" and "unat off \<le> unat (MaximumRedirectionEntry a)" and "entry_ok a"
    and "\<not> ow \<Longrightarrow> \<not> pin_written a off" and "d' = put_ioapic k a' d"
    and "IrqBase a' = IrqBase a" and "MaximumRedirectionEntry a' = MaximumRedirectionEntry a"
    and "InterruptsWritten a' = (InterruptsWritten a)\<lparr>Bits := (Bits (InterruptsWritten a))(unat off := True)\<rparr>"
    and "RTable (Redirections a') = (RTable (Redirections a))(off := \<lparr>RVector = V, RDestinationMode = dm, RDestination = dest,
          RDeliveryMode = del, RPinPolarity = (case ov of Some r \<Rightarrow> OverridePinPolarity r | None \<Rightarrow> pol),
          RTriggerMode = if Irq \<noteq> 8 then (case ov of Some r \<Rightarrow> OverrideTriggerMode r | None \<Rightarrow> trig) else ApicTriggerModeLevel E\<rparr>)"
    and "RMask (Redirections a') = (if MaskInterrupts d then RMask (Redirections a) else (RMask (Redirections a))(off := False))"
proof -
  obtain k off ov where f: "IoApicSystemGetIoApicForIrq E d Irq = Some (Some (k, off), ov)"
    using some by (auto simp: IoApicSystemSetInterrupt_def bind_Some_iff split: option.splits)
  note p = pin_found [OF f]
  then have a: "entry_ok (ApicList d ! k)"
    using ok by (simp add: apics_ok_def)
  note w = written_bit [OF a] and sw = set_written [OF a]
  let ?a = "ApicList d ! k"
  let ?r = "\<lparr>RVector = V, RDestinationMode = dm, RDestination = dest, RDeliveryMode = del,
      RPinPolarity = (case ov of Some r \<Rightarrow> OverridePinPolarity r | None \<Rightarrow> pol),
      RTriggerMode = if Irq \<noteq> 8 then (case ov of Some r \<Rightarrow> OverrideTriggerMode r | None \<Rightarrow> trig) else ApicTriggerModeLevel E\<rparr>"
  define t where "t = (let t = IoApicSetRedirectionTableEntry (IL E) (Redirections ?a) off ?r in
      if \<not> MaskInterrupts d then IoApicSetRedirectionTableEntryMask (IL E) t off False else t)"
  define a' where "a' = ?a\<lparr>InterruptsWritten := (InterruptsWritten ?a)\<lparr>Bits := (Bits (InterruptsWritten ?a))(unat off := True)\<rparr>,
      Redirections := t\<rparr>"
  have free: "\<not> (pin_written ?a off \<and> \<not> ow)" and d': "d' = put_ioapic k a' d"
    using some f p w [of off] sw [of off] unfolding IoApicSystemSetInterrupt_def a'_def t_def Let_def
    by (auto split: if_splits)
  show thesis
    by (rule that [OF f _ refl _ a _ d']) (use p free in \<open>simp_all add: a'_def t_def Let_def redir\<close>)
qed

end

definition line_pin :: "ioapic_env \<Rightarrow> ioapic_data \<Rightarrow> byte \<Rightarrow> (nat \<times> byte) option" where
  "line_pin E d Irq = (case IoApicSystemGetIoApicForIrq E d Irq of Some (found, _) \<Rightarrow> found | None \<Rightarrow> None)"

definition apics_inv :: "ioapic_data \<Rightarrow> bool" where
  "apics_inv d \<longleftrightarrow> (\<forall>a \<in> set (ApicList d). entry_ok a \<and>
     (\<forall>i. unat i \<le> unat (MaximumRedirectionEntry a) \<longrightarrow>
        RMask (Redirections a) i = (MaskInterrupts d \<or> \<not> pin_written a i)))"

lemma set_update_cases: "x \<in> set (xs[k := y]) \<Longrightarrow> x = y \<or> x \<in> set xs"
  using set_update_subset_insert by fastforce

context ioapic_contracts
begin

lemma SetInterrupt_failed:
  "IoApicSystemSetInterrupt E Irq V dm del pol trig dest ow d = Some (st, d') \<Longrightarrow> st \<noteq> STATUS_SUCCESS \<Longrightarrow> d' = d"
  by (auto simp: IoApicSystemSetInterrupt_def bind_Some_iff Let_def split: option.splits if_splits)

lemma SetInterrupt_ok:
  assumes ok: "apics_ok d" and some: "IoApicSystemSetInterrupt E Irq V dm del pol trig dest ow d = Some (st, d')"
  shows "apics_ok d'"
proof (cases "st = STATUS_SUCCESS")
  case True
  note s = some [unfolded True]
  show ?thesis
    by (rule SetInterrupt_success [OF ok s]) (use ok in \<open>auto simp: apics_ok_def entry_ok_def put_ioapic_def dest!: set_update_cases\<close>)
qed (use SetInterrupt_failed [OF some] ok in simp)

lemma SetInterrupt_inv:
  assumes inv: "apics_inv d" and some: "IoApicSystemSetInterrupt E Irq V dm del pol trig dest ow d = Some (st, d')"
  shows "apics_inv d' \<and> MaskInterrupts d' = MaskInterrupts d"
proof (cases "st = STATUS_SUCCESS")
  case True
  note s = some [unfolded True]
  have ok: "apics_ok d"
    using inv by (simp add: apics_inv_def apics_ok_def)
  show ?thesis
  proof (rule SetInterrupt_success [OF ok s])
    fix k off ov a a'
    assume k: "k < length (ApicList d)" and a: "a = ApicList d ! k" and d': "d' = put_ioapic k a' d"
      and same: "IrqBase a' = IrqBase a" "MaximumRedirectionEntry a' = MaximumRedirectionEntry a"
        "InterruptsWritten a' = (InterruptsWritten a)\<lparr>Bits := (Bits (InterruptsWritten a))(unat off := True)\<rparr>"
      and mask: "RMask (Redirections a') = (if MaskInterrupts d then RMask (Redirections a) else (RMask (Redirections a))(off := False))"
    have old: "entry_ok a" "\<And>i. unat i \<le> unat (MaximumRedirectionEntry a) \<Longrightarrow> RMask (Redirections a) i = (MaskInterrupts d \<or> \<not> pin_written a i)"
      using inv k a by (simp_all add: apics_inv_def)
    have "entry_ok a'" and "unat i \<le> unat (MaximumRedirectionEntry a') \<Longrightarrow> RMask (Redirections a') i = (MaskInterrupts d \<or> \<not> pin_written a' i)" for i
      using old(1) old(2) [of i] by (auto simp: entry_ok_def same pin_written_def mask word_unat_eq_iff)
    then show ?thesis
      using inv by (auto simp: d' put_ioapic_def apics_inv_def dest!: set_update_cases)
  qed
qed (use SetInterrupt_failed [OF some] inv in simp)

end

context ioapic_contracts
begin

text \<open>The loops over the pins of a controller.\<close>

lemma mask_all:
  "RMask (fold (\<lambda>i t. IoApicSetRedirectionTableEntryMask (IL E) t (of_nat i) True) is t) =
    (\<lambda>j. j \<in> of_nat ` set is \<or> RMask t j)"
  by (induction "is" arbitrary: t) (auto simp: redir fun_eq_iff)

lemma unmask_written:
  "RMask (fold (\<lambda>i t. if P i then IoApicSetRedirectionTableEntryMask (IL E) t (of_nat i) False else t) is t) =
      (\<lambda>j. (\<forall>i \<in> set is. P i \<longrightarrow> of_nat i \<noteq> j) \<and> RMask t j)"
  "RTable (fold (\<lambda>i t. if P i then IoApicSetRedirectionTableEntryMask (IL E) t (of_nat i) False else t) is t) = RTable t"
  by (induction "is" arbitrary: t) (auto simp: redir fun_eq_iff)

lemma byte_of_unat: "unat i \<le> m \<Longrightarrow> i \<in> (of_nat :: nat \<Rightarrow> byte) ` set [0..<Suc m]"
  by (rule image_eqI [of _ _ "unat i"]) (auto simp del: upt_Suc)

lemma InitEntry_fresh:
  assumes "IoApicSystemInitEntry E bm buf e = Some (st, Some a)"
  shows "entry_ok a \<and> (\<forall>i. unat i \<le> unat (MaximumRedirectionEntry a) \<longrightarrow> RMask (Redirections a) i \<and> \<not> pin_written a i)"
proof -
  let ?m = "HwMaximumRedirectionEntry e"
  obtain sz w where pre: "BitmapPreinit (IB E) bm (ucast ?m + 1) = (sz, w)"
    by fastforce
  have small: "sz \<le> 4" and a: "MaximumRedirectionEntry a = ?m" "InterruptsWritten a = BitmapInit (IB E) w buf"
      "Redirections a = fold (\<lambda>i t. IoApicSetRedirectionTableEntryMask (IL E) t (of_nat i) True) [0..<Suc (unat ?m)] (HwRedirections e)"
    using assms pre by (auto simp: IoApicSystemInitEntry_def Let_def split: if_splits)
  have n: "unat (ucast ?m + 1 :: dword) = Suc (unat ?m)"
    using unat_byte_less [of ?m] by (subst unat_word_ariths) simp
  then have "ucast ?m + 1 \<noteq> (0 :: dword)"
    by (metis nat.distinct(1) unat_0)
  then have "unat sz = (Suc (unat ?m) + 7) div 8" and count: "BitCount w = ucast ?m + 1"
    using bitmap_contract.BitmapPreinit_size [OF env_bitmap, of "ucast ?m + 1" bm]
      bitmap_contract.BitmapPreinit_count [OF env_bitmap, of bm "ucast ?m + 1"] pre n by simp_all
  then have "unat ?m < 32"
    using small by (simp add: word_le_nat_alt)
  then have ok: "entry_ok a"
    using count n by (simp add: entry_ok_def a bitmap_contract.BitmapInit_count [OF env_bitmap])
  moreover have "RMask (Redirections a) i \<and> \<not> pin_written a i" if "unat i \<le> unat (MaximumRedirectionEntry a)" for i
    using that ok byte_of_unat [of i "unat ?m"] bitmap_contract.BitmapInit_clear [OF env_bitmap, of "unat i" w buf] n count
    by (simp add: a mask_all pin_written_def entry_ok_def bitmap_contract.BitmapInit_count [OF env_bitmap] del: upt_Suc set_upt)
  ultimately show ?thesis
    by blast
qed

lemma RetrieveIoApics_inv:
  "apics_inv d \<Longrightarrow> MaskInterrupts d \<Longrightarrow> IoApicSystemRetrieveIoApics E bm buf b es d = Some (st, d') \<Longrightarrow>
    apics_inv d' \<and> MaskInterrupts d'"
proof (induction es arbitrary: b d)
  case (Cons e es)
  obtain st1 pa where e: "IoApicSystemInitEntry E bm buf e = Some (st1, pa)"
    using Cons.prems(3) by (auto simp: bind_Some_iff)
  show ?case
  proof (cases pa)
    case None
    then show ?thesis
      using Cons.prems e by simp
  next
    case (Some a)
    note fresh = InitEntry_fresh [OF e [unfolded Some]]
    let ?d = "if b then d\<lparr>ApicList := ApicList d @ [a], SystemVersion := ApicVersion a\<rparr> else d\<lparr>ApicList := ApicList d @ [a]\<rparr>"
    have "apics_inv ?d" and "MaskInterrupts ?d"
      using Cons.prems(1,2) fresh by (auto simp: apics_inv_def)
    moreover have "IoApicSystemRetrieveIoApics E bm buf False es ?d = Some (st, d')"
      using Cons.prems(3) e Some by (auto simp: Let_def split: if_splits)
    ultimately show ?thesis
      by (rule Cons.IH)
  qed
qed simp

lemma IoApicSystemInit_inv:
  assumes "IoApicSystemInit E bm buf apics al ovs IoApicSystemPreinit = Some (st, d)"
  shows "apics_inv d \<and> MaskInterrupts d"
proof -
  obtain st1 d1 where d1: "IoApicSystemRetrieveIoApics E bm buf True apics IoApicSystemPreinit = Some (st1, d1)"
    using assms by (auto simp: IoApicSystemInit_def bind_Some_iff)
  have "apics_inv d1 \<and> MaskInterrupts d1"
    by (rule RetrieveIoApics_inv [OF _ _ d1]) (simp_all add: apics_inv_def IoApicSystemPreinit_def)
  moreover have "ApicList d = ApicList d1 \<and> MaskInterrupts d = MaskInterrupts d1"
    using assms d1 by (auto simp: IoApicSystemInit_def IoApicSystemRetrieveInterruptOverrides_def Let_def bind_Some_iff split: if_splits)
  ultimately show ?thesis
    by (simp add: apics_inv_def)
qed

lemma Enable_inv:
  assumes inv: "apics_inv d" and some: "IoApicSystemEnableRegisteredInterrupts E d = Some d'"
  shows "apics_inv d' \<and> \<not> MaskInterrupts d'"
proof -
  have pins: "RMask (EnableRegisteredInterrupts_pins E a) i = (\<not> pin_written a i)"
    if a: "a \<in> set (ApicList d)" and i: "unat i \<le> unat (MaximumRedirectionEntry a)" for a i
  proof -
    have ok: "entry_ok a" and m: "RMask (Redirections a) i = (MaskInterrupts d \<or> \<not> pin_written a i)"
      using inv a i by (simp_all add: apics_inv_def)
    have bit: "BitmapGetBitValue (IB E) (InterruptsWritten a) (of_nat k) = pin_written a (of_nat k)"
      if k: "k < Suc (unat (MaximumRedirectionEntry a))" for k
    proof -
      have "unat (of_nat k :: byte) = k"
        using k unat_byte_less [of "MaximumRedirectionEntry a"] by (simp add: unsigned_of_nat take_bit_nat_eq_self)
      moreover have "(ucast (of_nat k :: byte) :: dword) = of_nat k"
        using calculation k unat_byte_less [of "MaximumRedirectionEntry a"]
        by (simp add: word_unat_eq_iff [where 'a = 32] unsigned_of_nat take_bit_nat_eq_self)
      ultimately show ?thesis
        using written_bit [OF ok, of "of_nat k"] k by simp
    qed
    show ?thesis
    proof (cases "pin_written a i")
      case True
      then have "\<exists>k \<in> set [0..<Suc (unat (MaximumRedirectionEntry a))].
          BitmapGetBitValue (IB E) (InterruptsWritten a) (of_nat k) \<and> of_nat k = i"
        using i bit [of "unat i"] by (intro bexI [of _ "unat i"]) (auto simp del: upt_Suc)
      then show ?thesis
        using True by (auto simp: EnableRegisteredInterrupts_pins_def unmask_written simp del: upt_Suc)
    next
      case False
      then show ?thesis
        using m bit by (auto simp: EnableRegisteredInterrupts_pins_def unmask_written simp del: upt_Suc)
    qed
  qed
  have d': "d' = d\<lparr>MaskInterrupts := False,
      ApicList := map (\<lambda>a. a\<lparr>Redirections := EnableRegisteredInterrupts_pins E a\<rparr>) (ApicList d)\<rparr>"
    using some by (simp add: IoApicSystemEnableRegisteredInterrupts_def)
  have "entry_ok a" if "a \<in> set (ApicList d)" for a
    using inv that by (simp add: apics_inv_def)
  then show ?thesis
    using pins by (simp add: d' apics_inv_def entry_ok_def pin_written_def)
qed

end

subsection \<open>Properties\<close>

context ioapic_contracts
begin

lemma vector_after_set:
  assumes "apics_ok d" and "IoApicSystemSetInterrupt E Irq V dm del pol trig dest ow d = Some (STATUS_SUCCESS, d')"
  shows "IoApicSystemGetVectorForIrq E Irq d' = Some (STATUS_SUCCESS, Some V) \<and>
    (\<not> ow \<longrightarrow> IoApicSystemGetVectorForIrq E Irq d = Some (STATUS_DEVICE_INTERRUPT_NOT_CONFIGURED, None)) \<and>
    (\<forall>Irq2. if IoApicSystemGetIoApicForIrq E d Irq2 \<noteq> None \<and> line_pin E d Irq2 = line_pin E d Irq
            then IoApicSystemGetVectorForIrq E Irq2 d' = Some (STATUS_SUCCESS, Some V)
            else IoApicSystemGetVectorForIrq E Irq2 d' = IoApicSystemGetVectorForIrq E Irq2 d)"
proof (rule SetInterrupt_success [OF assms])
  note bit = written_bit and found = pin_found
  fix k off ov a a'
  assume f: "IoApicSystemGetIoApicForIrq E d Irq = Some (Some (k, off), ov)"
    and k: "k < length (ApicList d)" and a: "a = ApicList d ! k" and off: "unat off \<le> unat (MaximumRedirectionEntry a)"
    and ok: "entry_ok a" and free: "\<not> ow \<Longrightarrow> \<not> pin_written a off" and d': "d' = put_ioapic k a' d"
    and same: "IrqBase a' = IrqBase a" "MaximumRedirectionEntry a' = MaximumRedirectionEntry a"
      "InterruptsWritten a' = (InterruptsWritten a)\<lparr>Bits := (Bits (InterruptsWritten a))(unat off := True)\<rparr>"
    and entry: "RTable (Redirections a') = (RTable (Redirections a))(off := \<lparr>RVector = V, RDestinationMode = dm,
        RDestination = dest, RDeliveryMode = del, RPinPolarity = (case ov of Some r \<Rightarrow> OverridePinPolarity r | None \<Rightarrow> pol),
        RTriggerMode = if Irq \<noteq> 8 then (case ov of Some r \<Rightarrow> OverrideTriggerMode r | None \<Rightarrow> trig) else ApicTriggerModeLevel E\<rparr>)"
  have find: "IoApicSystemGetIoApicForIrq E d' Irq2 = IoApicSystemGetIoApicForIrq E d Irq2" for Irq2
    using GetIoApicForIrq_put [of a' d k E Irq2] same a by (simp add: d')
  have ok': "entry_ok a'" and list: "ApicList d' = (ApicList d)[k := a']"
    using ok by (simp_all add: entry_ok_def same d' put_ioapic_def)
  have hit: "IoApicSystemGetVectorForIrq E Irq2 d' = Some (STATUS_SUCCESS, Some V)"
    if "IoApicSystemGetIoApicForIrq E d Irq2 = Some (Some (k, off), ov2)" for Irq2 ov2
    using that find bit [OF ok', of off] off k
    by (simp add: IoApicSystemGetVectorForIrq_def list same pin_written_def redir entry)
  have miss: "IoApicSystemGetVectorForIrq E Irq2 d' = IoApicSystemGetVectorForIrq E Irq2 d"
    if f2: "IoApicSystemGetIoApicForIrq E d Irq2 = Some (Some (k2, off2), ov2)" and "(k2, off2) \<noteq> (k, off)" for Irq2 k2 off2 ov2
  proof (cases "k2 = k")
    case False
    then show ?thesis
      using f2 find by (simp add: IoApicSystemGetVectorForIrq_def list)
  next
    case True
    then have "off2 \<noteq> off" and "unat off2 \<le> unat (MaximumRedirectionEntry a)"
      using that found [OF f2] a by simp_all
    then show ?thesis
      using True f2 find k a bit [OF ok', of off2] bit [OF ok, of off2] entry same
      by (simp add: IoApicSystemGetVectorForIrq_def list pin_written_def redir word_unat_eq_iff)
  qed
  have "IoApicSystemGetVectorForIrq E Irq d = Some (STATUS_DEVICE_INTERRUPT_NOT_CONFIGURED, None)" if "\<not> ow"
    using f free [OF that] bit [OF ok off] a by (simp add: IoApicSystemGetVectorForIrq_def)
  moreover have "if IoApicSystemGetIoApicForIrq E d Irq2 \<noteq> None \<and> line_pin E d Irq2 = line_pin E d Irq
        then IoApicSystemGetVectorForIrq E Irq2 d' = Some (STATUS_SUCCESS, Some V)
        else IoApicSystemGetVectorForIrq E Irq2 d' = IoApicSystemGetVectorForIrq E Irq2 d" for Irq2
  proof (cases "IoApicSystemGetIoApicForIrq E d Irq2")
    case None
    then show ?thesis
      using find by (simp add: IoApicSystemGetVectorForIrq_def)
  next
    case (Some r)
    then show ?thesis
      using f hit [of Irq2] miss [of Irq2] find [of Irq2]
      by (cases r; cases "fst r") (auto simp: line_pin_def IoApicSystemGetVectorForIrq_def)
  qed
  ultimately show ?thesis
    using hit [OF f] by blast
qed

end

text \<open>
  C30 (roundtrip). After \<open>IoApicSystemSetInterrupt\<close> has programmed a line, \<open>IoApicSystemGetVectorForIrq\<close>
  answers for this line, and for every line that is connected to the same pin, with the vector that
  was programmed, and what it answers for lines on other pins is unchanged. Unless the caller asked
  for an overwrite, no vector was programmed for the line before.
\<close>

theorem SetInterrupt_GetVector:
  assumes "ioapic_contracts E" and "apics_ok d"
    and "IoApicSystemSetInterrupt E Irq V dm del pol trig dest ow d = Some (STATUS_SUCCESS, d')"
  shows "IoApicSystemGetVectorForIrq E Irq d' = Some (STATUS_SUCCESS, Some V) \<and>
    (\<not> ow \<longrightarrow> IoApicSystemGetVectorForIrq E Irq d = Some (STATUS_DEVICE_INTERRUPT_NOT_CONFIGURED, None)) \<and>
    (\<forall>Irq2. if IoApicSystemGetIoApicForIrq E d Irq2 \<noteq> None \<and> line_pin E d Irq2 = line_pin E d Irq
            then IoApicSystemGetVectorForIrq E Irq2 d' = Some (STATUS_SUCCESS, Some V)
            else IoApicSystemGetVectorForIrq E Irq2 d' = IoApicSystemGetVectorForIrq E Irq2 d)"
  by (rule ioapic_contracts.vector_after_set [OF assms])

text \<open>A machine with one controller of 4 pins, where line 0 is connected to pin 2.\<close>

definition bitmap_example :: bitmap where
  "bitmap_example = \<lparr>BitCount = 0, BufferSize = 0, BitmapBuffer = 0, Bits = (\<lambda>_. False)\<rparr>"

definition apic_example :: acpi_ioapic where
  "apic_example = \<lparr>AcpiId = 1, GlobalIrqBase = 0, PoolEntry = True, Mapped = 0x9000, HwId = 1, HwVersion = 0x20,
     HwMaximumRedirectionEntry = 3,
     HwRedirections = \<lparr>RTable = (\<lambda>_. \<lparr>RVector = 0, RDestinationMode = 0, RDestination = 0, RDeliveryMode = 0,
       RPinPolarity = 0, RTriggerMode = 0\<rparr>), RMask = (\<lambda>_. False)\<rparr>\<rparr>"

definition override_example :: acpi_override where
  "override_example = \<lparr>AcpiSourceIrq = 0, GlobalIrq = 2, IntiFlags = 0, AcpiBus = 0\<rparr>"

lemmas ioapic_eval = IoApicSystemInit_def IoApicSystemRetrieveInterruptOverrides_def IoApicSystemInitEntry_def
  apic_example_def ioapic_env_example_def bitmap_ops_def override_example_def IoApicSystemPreinit_def
  IoApicSystemSetInterrupt_def IoApicSystemGetIoApicForIrq_def IoApicReturnInterruptOverrideForIrq_def flag_value_def
  addr_ops_def Let_def

lemma ioapic_example:
  obtains d d' where "IoApicSystemInit ioapic_env_example bitmap_example 0x100 [apic_example] True [override_example]
      IoApicSystemPreinit = Some (STATUS_SUCCESS, d)"
    and "IoApicSystemSetInterrupt ioapic_env_example 0 0x40 1 0 0 0 MAX_BYTE False d = Some (STATUS_SUCCESS, d')"
    and "IoApicSystemGetIoApicForIrq ioapic_env_example d 2 \<noteq> None"
    and "line_pin ioapic_env_example d 2 = line_pin ioapic_env_example d 0"
proof -
  have "\<exists>d d'. IoApicSystemInit ioapic_env_example bitmap_example 0x100 [apic_example] True [override_example]
      IoApicSystemPreinit = Some (STATUS_SUCCESS, d) \<and>
    IoApicSystemSetInterrupt ioapic_env_example 0 0x40 1 0 0 0 MAX_BYTE False d = Some (STATUS_SUCCESS, d') \<and>
    IoApicSystemGetIoApicForIrq ioapic_env_example d 2 \<noteq> None \<and>
    line_pin ioapic_env_example d 2 = line_pin ioapic_env_example d 0"
    by (simp add: ioapic_eval line_pin_def unsigned_minus_1_eq_mask mask_eq_exp_minus_1)
  then show thesis
    using that by blast
qed

lemma SetInterrupt_GetVector_witness:
  "\<exists>d d'. IoApicSystemSetInterrupt ioapic_env_example 0 0x40 1 0 0 0 MAX_BYTE False d = Some (STATUS_SUCCESS, d') \<and>
    IoApicSystemGetVectorForIrq ioapic_env_example 2 d' = Some (STATUS_SUCCESS, Some 0x40)"
proof (rule ioapic_example)
  fix d d'
  assume init: "IoApicSystemInit ioapic_env_example bitmap_example 0x100 [apic_example] True [override_example]
      IoApicSystemPreinit = Some (STATUS_SUCCESS, d)"
    and d': "IoApicSystemSetInterrupt ioapic_env_example 0 0x40 1 0 0 0 MAX_BYTE False d = Some (STATUS_SUCCESS, d')"
    and pins: "IoApicSystemGetIoApicForIrq ioapic_env_example d 2 \<noteq> None"
      "line_pin ioapic_env_example d 2 = line_pin ioapic_env_example d 0"
  have ok: "apics_ok d"
    using ix.IoApicSystemInit_inv [OF init] by (simp add: apics_ok_def apics_inv_def)
  have "IoApicSystemGetVectorForIrq ioapic_env_example 2 d' = Some (STATUS_SUCCESS, Some 0x40)"
    using SetInterrupt_GetVector [OF ix.ioapic_contracts_axioms ok d', THEN conjunct2, THEN conjunct2, THEN spec, of 2] pins
    by (simp only: if_True simp_thms)
  then show ?thesis
    using d' by blast
qed

text \<open>The life of the system's I/O APICs behind their initialisation.\<close>

inductive ioapic_step :: "ioapic_env \<Rightarrow> ioapic_data \<Rightarrow> ioapic_data \<Rightarrow> bool" for E :: ioapic_env where
  set: "IoApicSystemSetInterrupt E Irq V dm del pol trig dest ow d = Some (st, d') \<Longrightarrow> ioapic_step E d d'"
| enable: "IoApicSystemEnableRegisteredInterrupts E d = Some d' \<Longrightarrow> ioapic_step E d d'"
| late: "IoApicLateSystemInit al prt d = Some (st, d') \<Longrightarrow> ioapic_step E d d'"

lemma LateInit_same:
  "IoApicLateSystemInit al prt d = Some (st, d') \<Longrightarrow> ApicList d' = ApicList d \<and> MaskInterrupts d' = MaskInterrupts d"
  by (auto simp: IoApicLateSystemInit_def IoApicSystemRetrievePrtEntries_def Let_def bind_Some_iff split: if_splits)

context ioapic_contracts
begin

lemma ioapic_step_inv:
  assumes "ioapic_step E d d'" and "apics_inv d"
  shows "apics_inv d'"
  using assms(1)
proof cases
  case set
  then show ?thesis
    using SetInterrupt_inv [OF assms(2)] by blast
next
  case enable
  then show ?thesis
    using Enable_inv [OF assms(2)] by blast
next
  case late
  then show ?thesis
    using LateInit_same [OF late] assms(2) by (simp add: apics_inv_def)
qed

lemma ioapic_history_inv: "(ioapic_step E)\<^sup>*\<^sup>* d d' \<Longrightarrow> apics_inv d \<Longrightarrow> apics_inv d'"
  by (induction rule: rtranclp_induct) (auto intro: ioapic_step_inv)

end

text \<open>
  C31 (invariant). From the initialisation on, whatever lines are programmed and whenever the
  registered interrupts are enabled: a pin of a controller is unmasked exactly if interrupts are
  enabled and the pin has been programmed. In particular no interrupt gets through before
  \<open>IoApicSystemEnableRegisteredInterrupts\<close>, and none from a pin without a vector.
\<close>

theorem unmasked_pins_are_programmed:
  assumes "ioapic_contracts E"
    and "IoApicSystemInit E bm buf apics al ovs IoApicSystemPreinit = Some (st, d0)"
    and "(ioapic_step E)\<^sup>*\<^sup>* d0 d" and "a \<in> set (ApicList d)" and "unat i \<le> unat (MaximumRedirectionEntry a)"
  shows "\<not> RMask (Redirections a) i \<longleftrightarrow>
    \<not> MaskInterrupts d \<and> BitmapGetBitValue (IB E) (InterruptsWritten a) (ucast i)"
proof -
  have "apics_inv d"
    using ioapic_contracts.ioapic_history_inv [OF assms(1,3)] ioapic_contracts.IoApicSystemInit_inv [OF assms(1,2)] by blast
  then show ?thesis
    using assms(4,5) ioapic_contracts.written_bit [OF assms(1), of a i] by (auto simp: apics_inv_def)
qed

lemma unmasked_pins_are_programmed_witness:
  "\<exists>d d'. (ioapic_step ioapic_env_example)\<^sup>*\<^sup>* d d' \<and>
    (\<forall>a \<in> set (ApicList d'). 2 \<le> unat (MaximumRedirectionEntry a) \<longrightarrow>
      (\<not> RMask (Redirections a) 2 \<longleftrightarrow> \<not> MaskInterrupts d' \<and> BitmapGetBitValue bitmap_ops (InterruptsWritten a) 2))"
proof (rule ioapic_example)
  fix d d'
  assume init: "IoApicSystemInit ioapic_env_example bitmap_example 0x100 [apic_example] True [override_example]
      IoApicSystemPreinit = Some (STATUS_SUCCESS, d)"
    and set: "IoApicSystemSetInterrupt ioapic_env_example 0 0x40 1 0 0 0 MAX_BYTE False d = Some (STATUS_SUCCESS, d')"
  have step: "(ioapic_step ioapic_env_example)\<^sup>*\<^sup>* d d'"
    using ioapic_step.set [OF set] by (rule r_into_rtranclp)
  show ?thesis
    using unmasked_pins_are_programmed [OF ix.ioapic_contracts_axioms init step, of _ 2] step
    by (intro exI [of _ d] exI [of _ d']) (simp add: ioapic_env_example_def)
qed

text \<open>
  \<open>_IoApicSystemRetrievePrtEntries\<close> counts in \<open>NoOfInterruptOverrides\<close>. After \<open>IoApicLateSystemInit\<close>
  the scan of the overrides looks at as many of them as there are routing table
  entries: overrides behind that number are no longer found, and if there are more routing
  table entries than overrides, every scan runs behind the array.
\<close>

lemma ReturnInterruptOverride_loop:
  assumes "ovs = Some arr"
  shows "IoApicReturnInterruptOverrideForIrq_loop ovs Irq is r =
    (if \<forall>i \<in> set is. i < length arr
     then Some (case filter (\<lambda>ov. SourceIrq ov = Irq) (map ((!) arr) is) of [] \<Rightarrow> r | xs \<Rightarrow> Some (last xs))
     else None)"
  using assms by (induction "is" arbitrary: r) (auto simp: ASSERT_bind_eq_None split: list.split)

theorem LateInit_corrupts_overrides:
  assumes late: "IoApicLateSystemInit al prt d = Some (STATUS_SUCCESS, d')" and few: "length prt < 2 ^ 32"
    and ovs: "InterruptOverrides d = Some arr"
  shows "IoApicReturnInterruptOverrideForIrq d' Irq =
    (if length prt \<le> length arr
     then Some (case filter (\<lambda>ov. SourceIrq ov = Irq) (take (length prt) arr) of [] \<Rightarrow> None | xs \<Rightarrow> Some (last xs))
     else None)"
proof -
  have n: "unat (of_nat (length prt) :: dword) = length prt"
    using few by (simp add: unsigned_of_nat take_bit_nat_eq_self)
  have d': "NoOfInterruptOverrides d' = of_nat (length prt)" "InterruptOverrides d' = Some arr"
    using late ovs by (auto simp: IoApicLateSystemInit_def IoApicSystemRetrievePrtEntries_def Let_def bind_Some_iff split: if_splits)
  show ?thesis
  proof (cases "length prt \<le> length arr")
    case True
    then have "map ((!) arr) [0..<length prt] = take (length prt) arr"
      by (intro nth_equalityI) simp_all
    then show ?thesis
      using True n by (simp add: IoApicReturnInterruptOverrideForIrq_def d' ReturnInterruptOverride_loop [OF refl])
  next
    case False
    then have "\<not> (\<forall>i \<in> set [0..<length prt]. i < length arr)"
      by (auto intro!: bexI [of _ "length arr"])
    then show ?thesis
      using False n by (simp add: IoApicReturnInterruptOverrideForIrq_def d' ReturnInterruptOverride_loop [OF refl])
  qed
qed

end
