(* ===== verification/Interrupts.thy ===== *)
theory Interrupts
  imports IoApic
begin

text \<open>
  Interrupts: registration of service routines (\<open>IomuRegisterInterrupt\<close> of \<open>iomu.c\<close>), the table of
  installed routines and the dispatch of an interrupt to them (\<open>isr.c\<close>).
  \<open>GlobalInterruptLock\<close> is held over a whole registration and interrupts are off during a dispatch:
  both are one atomic step. Routines and devices are named by numbers.
\<close>

subsection \<open>Data\<close>

datatype io_interrupt_type = IoInterruptTypeLegacy | IoInterruptTypePci | IoInterruptTypeLapic

record io_interrupt =
  IntType :: io_interrupt_type
  IntIrql :: byte
  ServiceRoutine :: nat
  Exclusive :: bool
  BroadcastInterrupt :: bool
  LegacyIrq :: byte
  IntPciDevice :: pci_device

datatype isr_routine = IomuGenericInterrupt_routine | OtherRoutine nat

text \<open>
  \<open>MsiPrograms\<close> records the message signaled interrupts that were programmed into PCI devices, with
  vector and delivery mode, most recent first.
\<close>

record intr_data =
  InterruptBitmap :: bitmap
  RegisteredInterrupts :: "byte \<Rightarrow> (nat \<times> nat) list"
  IsrRoutines :: "byte \<Rightarrow> (isr_routine \<times> qword) option"
  IoApics :: ioapic_data
  SystemDevice :: "nat option"
  MsiPrograms :: "(pci_device \<times> byte \<times> byte) list"

text \<open>
  The library: the division of the vectors, the scan of a part of a bitmap, and what the PCI library
  answers about a device and to programming it.
\<close>

record intr_env =
  EI :: ioapic_env
  NO_OF_RESERVED_EXCEPTIONS :: byte
  NO_OF_TOTAL_INTERRUPTS :: dword
  NO_OF_USABLE_INTERRUPTS :: dword
  IRQL_TO_VECTOR :: "byte \<Rightarrow> byte"
  VECTOR_TO_IRQL :: "byte \<Rightarrow> byte"
  VECTORS_PER_IRQL :: byte
  BitmapScanFromToAndFlip :: "bitmap \<Rightarrow> dword \<Rightarrow> dword \<Rightarrow> dword \<Rightarrow> bool \<Rightarrow> dword \<times> bitmap"
  ApicDeliveryModeFixed :: byte
  ApicDeliveryModeLowest :: byte
  ApicDestinationModeLogical :: byte
  MsiCapable :: "pci_device \<Rightarrow> bool"
  PciDevDisableLegacyInterrupts :: "pci_device \<Rightarrow> status"
  PciDevProgramMsiInterrupt :: "pci_device \<Rightarrow> byte \<Rightarrow> byte \<Rightarrow> status"
  IrqSpurious :: byte
  LapicSystemIsInterruptServiced :: "byte \<Rightarrow> bool"

abbreviation PIC_MASTER_OFFSET :: byte where "PIC_MASTER_OFFSET \<equiv> 0x20"
abbreviation PIC_SLAVE_OFFSET :: byte where "PIC_SLAVE_OFFSET \<equiv> 0x28"

subsection \<open>Registration\<close>

definition IsrInstallEx :: "intr_env \<Rightarrow> byte \<Rightarrow> isr_routine \<Rightarrow> qword \<Rightarrow> intr_data \<Rightarrow> (status \<times> intr_data) option" where
  "IsrInstallEx E Vector IsrRoutine Context s = do {
     ASSERT (NO_OF_RESERVED_EXCEPTIONS E < Vector);
     let indexInRoutines = Vector - NO_OF_RESERVED_EXCEPTIONS E;
     if IsrRoutines s indexInRoutines \<noteq> None then Some (STATUS_ALREADY_INITIALIZED, s)
     else Some (STATUS_SUCCESS, s\<lparr>IsrRoutines := (IsrRoutines s)(indexInRoutines := Some (IsrRoutine, Context))\<rparr>)
   }"

definition IomuIsDeviceMsiCapable :: "intr_env \<Rightarrow> pci_device \<Rightarrow> bool" where
  "IomuIsDeviceMsiCapable E dev = MsiCapable E dev"

definition IomuProgramPciInterrupt :: "intr_env \<Rightarrow> pci_device \<Rightarrow> byte \<Rightarrow> byte \<Rightarrow> intr_data \<Rightarrow> (status \<times> intr_data) option" where
  "IomuProgramPciInterrupt E dev Vector DeliveryMode s = do {
     ASSERT (IomuIsDeviceMsiCapable E dev);
     let status = PciDevDisableLegacyInterrupts E dev;
     if \<not> SUCCEEDED status then Some (status, s)
     else
       let status = PciDevProgramMsiInterrupt E dev Vector DeliveryMode in
       if \<not> SUCCEEDED status then Some (status, s)
       else Some (STATUS_SUCCESS, s\<lparr>MsiPrograms := (dev, Vector, DeliveryMode) # MsiPrograms s\<rparr>)
   }"

definition uses_ioapic :: "intr_env \<Rightarrow> io_interrupt \<Rightarrow> bool" where
  "uses_ioapic E i \<longleftrightarrow> IntType i = IoInterruptTypeLegacy \<or>
     IntType i = IoInterruptTypePci \<and> \<not> IomuIsDeviceMsiCapable E (IntPciDevice i)"

text \<open>The line of the interrupt (\<open>MAX_BYTE\<close> if it has none).\<close>

definition IomuRegisterInterrupt_line :: "intr_env \<Rightarrow> io_interrupt \<Rightarrow> intr_data \<Rightarrow> byte option" where
  "IomuRegisterInterrupt_line E i s =
     (case IntType i of
        IoInterruptTypePci \<Rightarrow>
          if IomuIsDeviceMsiCapable E (IntPciDevice i) then Some MAX_BYTE
          else do {
            temp \<leftarrow> IoApicGetInterruptLineForPciDevice (IoApics s) (IntPciDevice i);
            ASSERT (temp \<le> ucast MAX_BYTE);
            Some (ucast temp)
          }
      | IoInterruptTypeLegacy \<Rightarrow> Some (LegacyIrq i)
      | IoInterruptTypeLapic \<Rightarrow> Some MAX_BYTE)"

text \<open>The vector the line is already programmed with, if any.\<close>

definition IomuRegisterInterrupt_existing ::
  "intr_env \<Rightarrow> io_interrupt \<Rightarrow> byte \<Rightarrow> intr_data \<Rightarrow> (status \<times> byte option) option" where
  "IomuRegisterInterrupt_existing E i interruptLine s =
     (if uses_ioapic E i then do {
        (status, v) \<leftarrow> IoApicSystemGetVectorForIrq (EI E) interruptLine (IoApics s);
        (case v of
           Some interruptVector \<Rightarrow>
             if VECTOR_TO_IRQL E interruptVector \<noteq> IntIrql i
             then Some (STATUS_DEVICE_INTERRUPT_PRIORITY_NOT_AVAILABLE, None)
             else Some (STATUS_SUCCESS, Some interruptVector)
         | None \<Rightarrow>
             if status \<noteq> STATUS_DEVICE_INTERRUPT_NOT_CONFIGURED then Some (status, None)
             else Some (STATUS_SUCCESS, None))
      }
      else Some (STATUS_SUCCESS, None))"

text \<open>The vector to use: the one of the line, a free one, or a shared one.\<close>

definition IomuRegisterInterrupt_vector ::
  "intr_env \<Rightarrow> io_interrupt \<Rightarrow> byte option \<Rightarrow> intr_data \<Rightarrow> byte option \<times> intr_data" where
  "IomuRegisterInterrupt_vector E i existing s =
     (let (bitmapResult, s) =
            (case existing of
               None \<Rightarrow>
                 let from = IRQL_TO_VECTOR E (IntIrql i);
                     (r, b) = BitmapScanFromToAndFlip E (InterruptBitmap s) (ucast from)
                                (ucast from + ucast (VECTORS_PER_IRQL E)) 1 False
                 in (r, s\<lparr>InterruptBitmap := b\<rparr>)
             | Some _ \<Rightarrow> (MAX_DWORD, s))
      in if bitmapResult = MAX_DWORD then
           (if Exclusive i then (None, s)
            else (case existing of
                    None \<Rightarrow> (Some (IRQL_TO_VECTOR E (IntIrql i)), s)
                  | Some v \<Rightarrow> (Some v, s)))
         else (Some (ucast bitmapResult), s))"

text \<open>
  The end of a registration: a device with message signaled interrupts is programmed, and a line for
  which \<open>bSetupIoApicRedirEntry\<close> is set.
\<close>

definition IomuRegisterInterrupt_program ::
  "intr_env \<Rightarrow> io_interrupt \<Rightarrow> byte \<Rightarrow> bool \<Rightarrow> byte \<Rightarrow> intr_data \<Rightarrow> (status \<times> intr_data) option" where
  "IomuRegisterInterrupt_program E i interruptLine bSetupIoApicRedirEntry interruptVector s = do {
     let apicDeliveryMode = (if BroadcastInterrupt i then ApicDeliveryModeFixed E else ApicDeliveryModeLowest E);
     let pci = (IntType i = IoInterruptTypePci);
     (status, s) \<leftarrow> (if pci \<and> IomuIsDeviceMsiCapable E (IntPciDevice i)
                     then IomuProgramPciInterrupt E (IntPciDevice i) interruptVector apicDeliveryMode s
                     else Some (STATUS_SUCCESS, s));
     if \<not> SUCCEEDED status then Some (status, s)
     else if bSetupIoApicRedirEntry then do {
       (status, d) \<leftarrow> IoApicSystemSetInterrupt (EI E) interruptLine interruptVector (ApicDestinationModeLogical E)
         apicDeliveryMode
         (if pci then ApicPinPolarityActiveLow (EI E) else ApicPinPolarityActiveHigh (EI E))
         (if pci then ApicTriggerModeLevel (EI E) else ApicTriggerModeEdge (EI E)) MAX_BYTE False (IoApics s);
       Some (status, s\<lparr>IoApics := d\<rparr>)
     }
     else Some (STATUS_SUCCESS, s)
   }"

text \<open>
  Behind the choice of the vector: the generic routine is installed for the first registration of a
  vector and the entry is appended.
\<close>

definition IomuRegisterInterrupt_install ::
  "intr_env \<Rightarrow> bool \<Rightarrow> io_interrupt \<Rightarrow> nat \<Rightarrow> byte \<Rightarrow> bool \<Rightarrow> byte \<Rightarrow> intr_data \<Rightarrow> (status \<times> intr_data) option" where
  "IomuRegisterInterrupt_install E allocated i pDevObj interruptLine bIoApicEntryRegistered interruptVector s = do {
     ASSERT (NO_OF_RESERVED_EXCEPTIONS E \<le> interruptVector \<and> ucast interruptVector < NO_OF_TOTAL_INTERRUPTS E);
     let interruptIndex = interruptVector - NO_OF_RESERVED_EXCEPTIONS E;
     let bListEmpty = (RegisteredInterrupts s interruptIndex = []);
     ASSERT (bListEmpty \<or> \<not> Exclusive i);
     (status, s) \<leftarrow> (if bListEmpty
                     then IsrInstallEx E interruptVector IomuGenericInterrupt_routine (ucast interruptIndex) s
                     else Some (STATUS_SUCCESS, s));
     if \<not> SUCCEEDED status then Some (status, s)
     else if \<not> allocated then Some (STATUS_HEAP_INSUFFICIENT_RESOURCES, s)
     else
       IomuRegisterInterrupt_program E i interruptLine (bListEmpty \<and> uses_ioapic E i \<and> \<not> bIoApicEntryRegistered) interruptVector
         (s\<lparr>RegisteredInterrupts := (RegisteredInterrupts s)
              (interruptIndex := RegisteredInterrupts s interruptIndex @ [(ServiceRoutine i, pDevObj)])\<rparr>)
   }"

text \<open>\<open>allocated\<close> is whether the pool has memory for the new entry.\<close>

definition IomuRegisterInterrupt ::
  "intr_env \<Rightarrow> bool \<Rightarrow> io_interrupt \<Rightarrow> nat option \<Rightarrow> intr_data \<Rightarrow> (status \<times> byte option \<times> intr_data) option" where
  "IomuRegisterInterrupt E allocated i DeviceObject s = do {
     pDevObj \<leftarrow> (case DeviceObject of Some dev \<Rightarrow> Some dev | None \<Rightarrow> SystemDevice s);
     interruptLine \<leftarrow> IomuRegisterInterrupt_line E i s;
     (status, existing) \<leftarrow> IomuRegisterInterrupt_existing E i interruptLine s;
     if \<not> SUCCEEDED status then Some (status, None, s)
     else (case IomuRegisterInterrupt_vector E i existing s of
             (None, s) \<Rightarrow> Some (STATUS_DEVICE_INTERRUPT_NOT_AVAILABLE, None, s)
           | (Some interruptVector, s) \<Rightarrow> do {
               (status, s) \<leftarrow> IomuRegisterInterrupt_install E allocated i pDevObj interruptLine (existing \<noteq> None) interruptVector s;
               Some (status, if SUCCEEDED status then Some interruptVector else None, s)
             })
   }"

text \<open>
  \<open>IomuPreinitSystem\<close>: \<open>bitmapSize\<close> is the size of \<open>BitmapBuffer\<close> and \<open>buffer\<close> its address, \<open>zero\<close> the
  zeroed bitmap.
\<close>

definition IomuPreinitSystem :: "intr_env \<Rightarrow> bitmap \<Rightarrow> dword \<Rightarrow> qword \<Rightarrow> intr_data option" where
  "IomuPreinitSystem E zero bufferSize buffer = do {
     let (bitmapSize, b) = BitmapPreinit (IB (EI E)) zero (NO_OF_TOTAL_INTERRUPTS E);
     ASSERT (bitmapSize = bufferSize);
     let b = BitmapInit (IB (EI E)) b buffer;
     Some \<lparr>InterruptBitmap = BitmapSetBits (IB (EI E)) b 0 (ucast (NO_OF_RESERVED_EXCEPTIONS E)),
           RegisteredInterrupts = (\<lambda>_. []), IsrRoutines = (\<lambda>_. None), IoApics = IoApicSystemPreinit,
           SystemDevice = None, MsiPrograms = []\<rparr>
   }"

subsection \<open>Dispatch\<close>

text \<open>
  What a CPU does for an interrupt. \<open>handles\<close> says whether a service routine handles the interrupt of
  its device.
\<close>

datatype isr_action =
    RaiseIrql byte
  | CallRoutine nat nat
  | SendEoi byte
  | LowerIrql byte
  | YieldCpu

fun IomuGenericInterrupt_loop :: "(nat \<Rightarrow> nat \<Rightarrow> bool) \<Rightarrow> (nat \<times> nat) list \<Rightarrow> bool \<times> isr_action list" where
  "IomuGenericInterrupt_loop handles [] = (False, [])"
| "IomuGenericInterrupt_loop handles ((f, dev) # es) =
     (if handles f dev then (True, [CallRoutine f dev])
      else let (r, acts) = IomuGenericInterrupt_loop handles es in (r, CallRoutine f dev # acts))"

definition IomuGenericInterrupt ::
  "intr_env \<Rightarrow> (nat \<Rightarrow> nat \<Rightarrow> bool) \<Rightarrow> qword \<Rightarrow> intr_data \<Rightarrow> (bool \<times> isr_action list) option" where
  "IomuGenericInterrupt E handles Context s = do {
     ASSERT (Context \<noteq> 0);
     let interrupt = (ucast Context :: byte);
     ASSERT (ucast interrupt < NO_OF_USABLE_INTERRUPTS E);
     Some (IomuGenericInterrupt_loop handles (RegisteredInterrupts s interrupt))
   }"

definition IomuIsInterruptSpurious :: "intr_env \<Rightarrow> byte \<Rightarrow> bool" where
  "IomuIsInterruptSpurious E Vector \<longleftrightarrow>
     (Vector = PIC_MASTER_OFFSET + IrqSpurious E \<or> Vector = PIC_SLAVE_OFFSET + IrqSpurious E) \<and>
     \<not> LapicSystemIsInterruptServiced E Vector"

definition IomuAckInterrupt :: "byte \<Rightarrow> isr_action list" where
  "IomuAckInterrupt InterruptIndex = [SendEoi InterruptIndex]"

text \<open>
  \<open>prevIrql\<close> is the level the CPU was at, \<open>other\<close> what the routines that are not the generic one do,
  and \<open>yield\<close> what \<open>ThreadYieldOnInterrupt\<close> answers at the end.
\<close>

definition IsrInterruptHandler ::
  "intr_env \<Rightarrow> (nat \<Rightarrow> nat \<Rightarrow> bool) \<Rightarrow> (nat \<Rightarrow> qword \<Rightarrow> bool) \<Rightarrow> bool \<Rightarrow> byte \<Rightarrow> byte \<Rightarrow> intr_data \<Rightarrow> isr_action list option" where
  "IsrInterruptHandler E handles other yield prevIrql InterruptIndex s = do {
     let indexInHandlers = InterruptIndex - NO_OF_RESERVED_EXCEPTIONS E;
     (interruptHandled, calls) \<leftarrow>
       (case IsrRoutines s indexInHandlers of
          None \<Rightarrow> Some (False, [])
        | Some (IomuGenericInterrupt_routine, Context) \<Rightarrow> IomuGenericInterrupt E handles Context s
        | Some (OtherRoutine r, Context) \<Rightarrow> Some (other r Context, []));
     let bSpuriousInterrupt = (\<not> interruptHandled \<and> IomuIsInterruptSpurious E InterruptIndex);
     ASSERT (interruptHandled \<or> bSpuriousInterrupt);
     Some ([RaiseIrql (VECTOR_TO_IRQL E InterruptIndex)] @ calls @
           (if \<not> bSpuriousInterrupt then IomuAckInterrupt InterruptIndex else []) @
           [LowerIrql prevIrql] @ (if yield then [YieldCpu] else []))
   }"

text \<open>
  \<open>IsrCommonHandler\<close>: exceptions go to \<open>_IsrExceptionHandler\<close>, which comes back only from a page fault
  that \<open>MmuSolvePageFault\<close> solves (\<open>pageFaultSolved\<close>).
\<close>

definition IsrExceptionHandler :: "byte \<Rightarrow> bool \<Rightarrow> bool \<Rightarrow> byte \<Rightarrow> unit option" where
  "IsrExceptionHandler ExceptionPageFault ErrorCodeAvailable pageFaultSolved InterruptIndex = do {
     exceptionHandled \<leftarrow> (if ExceptionPageFault = InterruptIndex then do {
                             ASSERT ErrorCodeAvailable;
                             Some pageFaultSolved
                           }
                           else Some False);
     ASSERT exceptionHandled
   }"

definition IsrCommonHandler ::
  "intr_env \<Rightarrow> byte \<Rightarrow> bool \<Rightarrow> bool \<Rightarrow> (nat \<Rightarrow> nat \<Rightarrow> bool) \<Rightarrow> (nat \<Rightarrow> qword \<Rightarrow> bool) \<Rightarrow> bool \<Rightarrow> byte \<Rightarrow> byte \<Rightarrow> intr_data \<Rightarrow>
   isr_action list option" where
  "IsrCommonHandler E ExceptionPageFault ErrorCodeAvailable pageFaultSolved handles other yield prevIrql InterruptIndex s =
     (if InterruptIndex < NO_OF_RESERVED_EXCEPTIONS E
      then do {
        _ \<leftarrow> IsrExceptionHandler ExceptionPageFault ErrorCodeAvailable pageFaultSolved InterruptIndex;
        Some []
      }
      else IsrInterruptHandler E handles other yield prevIrql InterruptIndex s)"

subsection \<open>The contract of the library, and an instance\<close>

text \<open>
  The vectors are divided into levels of consecutive vectors above the reserved ones; a scan of a
  part of a bitmap finds an index of this part whose bit has the asked value and flips it, or
  changes nothing if there is none.
\<close>

locale intr_contracts =
  fixes E :: intr_env
  assumes env_ioapic: "ioapic_contracts (EI E)"
    and level: "VECTOR_TO_IRQL E (IRQL_TO_VECTOR E l) = l \<Longrightarrow> unat (IRQL_TO_VECTOR E l) \<le> unat v \<Longrightarrow>
      unat v < unat (IRQL_TO_VECTOR E l) + unat (VECTORS_PER_IRQL E) \<Longrightarrow> VECTOR_TO_IRQL E v = l"
    and usable: "unat (NO_OF_USABLE_INTERRUPTS E) + unat (NO_OF_RESERVED_EXCEPTIONS E) = unat (NO_OF_TOTAL_INTERRUPTS E)"
    and total: "unat (NO_OF_TOTAL_INTERRUPTS E) \<le> 256"
    and per_level: "VECTORS_PER_IRQL E \<noteq> 0"
    and scan_found: "BitmapScanFromToAndFlip E b from to 1 False = (idx, b') \<Longrightarrow> idx \<noteq> MAX_DWORD \<Longrightarrow>
      unat from \<le> unat idx \<and> unat idx < unat to \<and> unat idx < unat (BitCount b) \<and> \<not> Bits b (unat idx) \<and>
      b' = b\<lparr>Bits := (Bits b)(unat idx := True)\<rparr>"
    and scan_none: "BitmapScanFromToAndFlip E b from to 1 False = (MAX_DWORD, b') \<Longrightarrow>
      b' = b \<and> (\<forall>j. unat from \<le> j \<and> j < unat to \<and> j < unat (BitCount b) \<longrightarrow> Bits b j)"

definition scan_from_to :: "bitmap \<Rightarrow> dword \<Rightarrow> dword \<Rightarrow> dword \<Rightarrow> bool \<Rightarrow> dword \<times> bitmap" where
  "scan_from_to b from to n v =
     (let (idx, b') = bitmap_scan (b\<lparr>BitCount := min to (BitCount b)\<rparr>) from n v in (idx, b\<lparr>Bits := Bits b'\<rparr>))"

definition intr_env_example :: intr_env where
  "intr_env_example = \<lparr>EI = ioapic_env_example, NO_OF_RESERVED_EXCEPTIONS = 32, NO_OF_TOTAL_INTERRUPTS = 256,
     NO_OF_USABLE_INTERRUPTS = 224, IRQL_TO_VECTOR = (\<lambda>l. l * 16), VECTOR_TO_IRQL = (\<lambda>v. v div 16), VECTORS_PER_IRQL = 16,
     BitmapScanFromToAndFlip = scan_from_to, ApicDeliveryModeFixed = 0, ApicDeliveryModeLowest = 1,
     ApicDestinationModeLogical = 1, MsiCapable = (\<lambda>_. False), PciDevDisableLegacyInterrupts = (\<lambda>_. STATUS_SUCCESS),
     PciDevProgramMsiInterrupt = (\<lambda>_ _ _. STATUS_SUCCESS), IrqSpurious = 7, LapicSystemIsInterruptServiced = (\<lambda>_. False)\<rparr>"

interpretation nx: intr_contracts intr_env_example
proof (rule intr_contracts.intro)
  show "ioapic_contracts (EI intr_env_example)"
    by (simp add: intr_env_example_def ix.ioapic_contracts_axioms)
  fix l v :: byte
  assume "VECTOR_TO_IRQL intr_env_example (IRQL_TO_VECTOR intr_env_example l) = l"
    and "unat (IRQL_TO_VECTOR intr_env_example l) \<le> unat v"
    and "unat v < unat (IRQL_TO_VECTOR intr_env_example l) + unat (VECTORS_PER_IRQL intr_env_example)"
  then have l: "l * 16 div 16 = l" and v: "unat (l * 16) \<le> unat v" "unat v < unat (l * 16) + 16"
    by (simp_all add: intr_env_example_def)
  have m: "unat (l * 16) = unat l * 16 mod 256"
    by (simp add: unat_word_ariths)
  then have "unat l * 16 mod 256 div 16 = unat l"
    using arg_cong [OF l, of unat] by (simp add: unat_div)
  then show "VECTOR_TO_IRQL intr_env_example v = l"
    using v m by (simp add: intr_env_example_def word_unat_eq_iff unat_div)
next
  fix b :: bitmap and "from" to idx b'
  assume scan: "BitmapScanFromToAndFlip intr_env_example b from to 1 False = (idx, b')"
  obtain b1 where b1: "bitmap_scan (b\<lparr>BitCount := min to (BitCount b)\<rparr>) from 1 False = (idx, b1)" "b' = b\<lparr>Bits := Bits b1\<rparr>"
    using scan by (auto simp: intr_env_example_def scan_from_to_def split: prod.splits)
  have one: "bits_set k 1 True f = f(k := True)" for k f
    by (auto simp: bits_set_def fun_eq_iff)
  show "unat from \<le> unat idx \<and> unat idx < unat to \<and> unat idx < unat (BitCount b) \<and> \<not> Bits b (unat idx) \<and>
      b' = b\<lparr>Bits := (Bits b)(unat idx := True)\<rparr>" if "idx \<noteq> MAX_DWORD"
    using bitmap_scan_found [OF b1(1)] that b1(2) one by (simp add: bits_run_def min_def word_le_nat_alt split: if_splits)
next
  fix b :: bitmap and "from" to b'
  assume scan: "BitmapScanFromToAndFlip intr_env_example b from to 1 False = (MAX_DWORD, b')"
  obtain b1 where b1: "bitmap_scan (b\<lparr>BitCount := min to (BitCount b)\<rparr>) from 1 False = (MAX_DWORD, b1)" "b' = b\<lparr>Bits := Bits b1\<rparr>"
    using scan by (auto simp: intr_env_example_def scan_from_to_def split: prod.splits)
  show "b' = b \<and> (\<forall>j. unat from \<le> j \<and> j < unat to \<and> j < unat (BitCount b) \<longrightarrow> Bits b j)"
    using bitmap_scan_none [OF b1(1)] b1(2) by (auto simp: bits_run_def min_def word_le_nat_alt split: if_splits)
qed (simp_all add: intr_env_example_def)

subsection \<open>Registrations keep routines, lists and lines together\<close>

text \<open>
  Every vector with an installed routine is taken in the bitmap. Every vector with entries has the
  generic routine, with the index of the vector as its context, and
  every programmed pin has a vector with entries.
\<close>

definition intr_inv :: "intr_env \<Rightarrow> intr_data \<Rightarrow> bool" where
  "intr_inv E s \<longleftrightarrow> apics_ok (IoApics s) \<and> BitCount (InterruptBitmap s) = NO_OF_TOTAL_INTERRUPTS E \<and>
     (\<forall>v. IsrRoutines s v \<noteq> None \<longrightarrow> Bits (InterruptBitmap s) (unat v + unat (NO_OF_RESERVED_EXCEPTIONS E))) \<and>
     (\<forall>v. RegisteredInterrupts s v \<noteq> [] \<longrightarrow> IsrRoutines s v = Some (IomuGenericInterrupt_routine, ucast v) \<and> v \<noteq> 0 \<and>
        unat v < unat (NO_OF_USABLE_INTERRUPTS E)) \<and>
     (\<forall>a \<in> set (ApicList (IoApics s)). \<forall>i. unat i \<le> unat (MaximumRedirectionEntry a) \<longrightarrow> pin_written a i \<longrightarrow>
        NO_OF_RESERVED_EXCEPTIONS E \<le> RVector (RTable (Redirections a) i) \<and>
        RegisteredInterrupts s (RVector (RTable (Redirections a) i) - NO_OF_RESERVED_EXCEPTIONS E) \<noteq> [])"

text \<open>What the end of a registration does, whether it succeeds or not.\<close>

lemma program_cases:
  assumes "IomuRegisterInterrupt_program E i line setup vec s = Some (st, s')"
  obtains d m where "s' = s\<lparr>MsiPrograms := m, IoApics := d\<rparr>"
    and "d = IoApics s \<and> (st = STATUS_SUCCESS \<longrightarrow> \<not> setup) \<or>
      setup \<and> (\<exists>dm del pol trig dest. IoApicSystemSetInterrupt (EI E) line vec dm del pol trig dest False (IoApics s) = Some (st, d))"
proof -
  let ?msi = "IntType i = IoInterruptTypePci \<and> IomuIsDeviceMsiCapable E (IntPciDevice i)"
  let ?mode = "if BroadcastInterrupt i then ApicDeliveryModeFixed E else ApicDeliveryModeLowest E"
  obtain st1 s1 where s1: "(if ?msi then IomuProgramPciInterrupt E (IntPciDevice i) vec ?mode s else Some (STATUS_SUCCESS, s)) = Some (st1, s1)"
    using assms by (auto simp: IomuRegisterInterrupt_program_def Let_def bind_Some_iff)
  then obtain m where m: "s1 = s\<lparr>MsiPrograms := m\<rparr>"
    by (cases "st1 = STATUS_SUCCESS \<and> ?msi") (auto simp: IomuProgramPciInterrupt_def Let_def split: if_splits intro: that [of "MsiPrograms s"])
  show thesis
  proof (cases "SUCCEEDED st1 \<and> setup")
    case True
    then obtain dm del pol trig dest d where d: "s' = s\<lparr>MsiPrograms := m, IoApics := d\<rparr>"
        "IoApicSystemSetInterrupt (EI E) line vec dm del pol trig dest False (IoApics s) = Some (st, d)"
      using assms s1 m by (auto simp: IomuRegisterInterrupt_program_def Let_def bind_Some_iff)
    show thesis
      by (rule that [OF d(1)]) (use d(2) True in blast)
  next
    case False
    then have "s' = s\<lparr>MsiPrograms := m, IoApics := IoApics s\<rparr>" and "st = STATUS_SUCCESS \<longrightarrow> \<not> setup"
      using assms s1 m by (auto simp: IomuRegisterInterrupt_program_def Let_def SUCCEEDED_def split: if_splits)
    then show thesis
      using that by blast
  qed
qed

text \<open>The installation of an entry.\<close>

lemma install_cases:
  fixes E :: intr_env and vec :: byte and s :: intr_data
  defines "k \<equiv> vec - NO_OF_RESERVED_EXCEPTIONS E"
  defines "routines \<equiv> (if RegisteredInterrupts s k = []
    then (IsrRoutines s)(k := Some (IomuGenericInterrupt_routine, ucast k)) else IsrRoutines s)"
  assumes some: "IomuRegisterInterrupt_install E al i dev line ex vec s = Some (st, s')"
  obtains (failed) "st \<noteq> STATUS_SUCCESS"
      and "s' = s \<or> RegisteredInterrupts s k = [] \<and> IsrRoutines s k = None \<and> s' = s\<lparr>IsrRoutines := routines\<rparr>"
  | (added) d m where "s' = s\<lparr>IsrRoutines := routines, RegisteredInterrupts := (RegisteredInterrupts s)
        (k := RegisteredInterrupts s k @ [(ServiceRoutine i, dev)]), MsiPrograms := m, IoApics := d\<rparr>"
    and "NO_OF_RESERVED_EXCEPTIONS E \<le> vec" and "unat vec < unat (NO_OF_TOTAL_INTERRUPTS E)"
    and "RegisteredInterrupts s k = [] \<Longrightarrow> NO_OF_RESERVED_EXCEPTIONS E < vec"
    and "Exclusive i \<Longrightarrow> RegisteredInterrupts s k = []"
    and "d = IoApics s \<and> (st = STATUS_SUCCESS \<longrightarrow> \<not> (RegisteredInterrupts s k = [] \<and> uses_ioapic E i \<and> \<not> ex)) \<or>
      (RegisteredInterrupts s k = [] \<and> uses_ioapic E i \<and> \<not> ex) \<and> (\<exists>dm del pol trig dest. IoApicSystemSetInterrupt (EI E) line vec dm del pol trig dest False (IoApics s) = Some (st, d))"
proof -
  let ?e = "RegisteredInterrupts s k = []"
  obtain st1 s1 where s1: "(if ?e then IsrInstallEx E vec IomuGenericInterrupt_routine (ucast k) s else Some (STATUS_SUCCESS, s)) = Some (st1, s1)"
      and rest: "(if \<not> SUCCEEDED st1 then Some (st1, s1) else if \<not> al then Some (STATUS_HEAP_INSUFFICIENT_RESOURCES, s1)
        else IomuRegisterInterrupt_program E i line (?e \<and> uses_ioapic E i \<and> \<not> ex) vec
          (s1\<lparr>RegisteredInterrupts := (RegisteredInterrupts s1)(k := RegisteredInterrupts s1 k @ [(ServiceRoutine i, dev)])\<rparr>)) = Some (st, s')"
      and rng: "NO_OF_RESERVED_EXCEPTIONS E \<le> vec" "unat vec < unat (NO_OF_TOTAL_INTERRUPTS E)" "?e \<or> \<not> Exclusive i"
    using some unfolding IomuRegisterInterrupt_install_def k_def Let_def
    by (elim bind_SomeE) (auto simp: word_less_nat_alt)
  have i1: "st1 = STATUS_SUCCESS \<and> s1 = s\<lparr>IsrRoutines := routines\<rparr> \<and> (?e \<longrightarrow> IsrRoutines s k = None \<and> NO_OF_RESERVED_EXCEPTIONS E < vec)
      \<or> st1 \<noteq> STATUS_SUCCESS \<and> s1 = s"
    using s1 by (cases "IsrRoutines s k") (auto simp: IsrInstallEx_def Let_def k_def routines_def split: if_splits)
  show thesis
  proof (cases "st1 = STATUS_SUCCESS \<and> al")
    case False
    then show thesis
      using rest i1 failed by (auto simp: SUCCEEDED_def routines_def split: if_splits)
  next
    case True
    then have s1: "s1 = s\<lparr>IsrRoutines := routines\<rparr>" and e: "?e \<Longrightarrow> IsrRoutines s k = None \<and> NO_OF_RESERVED_EXCEPTIONS E < vec"
      using i1 by simp_all
    have "IomuRegisterInterrupt_program E i line (?e \<and> uses_ioapic E i \<and> \<not> ex) vec
        (s\<lparr>IsrRoutines := routines, RegisteredInterrupts := (RegisteredInterrupts s)(k := RegisteredInterrupts s k @ [(ServiceRoutine i, dev)])\<rparr>) = Some (st, s')"
      using rest True by (simp add: s1)
    then show thesis
    proof (rule program_cases)
      fix d m
      assume "s' = s\<lparr>IsrRoutines := routines, RegisteredInterrupts := (RegisteredInterrupts s)
            (k := RegisteredInterrupts s k @ [(ServiceRoutine i, dev)])\<rparr>\<lparr>MsiPrograms := m, IoApics := d\<rparr>"
        and "d = IoApics (s\<lparr>IsrRoutines := routines, RegisteredInterrupts := (RegisteredInterrupts s)
            (k := RegisteredInterrupts s k @ [(ServiceRoutine i, dev)])\<rparr>) \<and> (st = STATUS_SUCCESS \<longrightarrow> \<not> (?e \<and> uses_ioapic E i \<and> \<not> ex)) \<or>
          (?e \<and> uses_ioapic E i \<and> \<not> ex) \<and> (\<exists>dm del pol trig dest. IoApicSystemSetInterrupt (EI E) line vec dm del pol trig dest False
            (IoApics (s\<lparr>IsrRoutines := routines, RegisteredInterrupts := (RegisteredInterrupts s)
            (k := RegisteredInterrupts s k @ [(ServiceRoutine i, dev)])\<rparr>)) = Some (st, d))"
      then show thesis
        by (intro added [of d m]) (use rng e in auto)
    qed
  qed
qed

context intr_contracts
begin

lemma index_of_vector:
  fixes v :: byte
  assumes "NO_OF_RESERVED_EXCEPTIONS E \<le> v" and "unat v < unat (NO_OF_TOTAL_INTERRUPTS E)"
  shows "unat (v - NO_OF_RESERVED_EXCEPTIONS E) < unat (NO_OF_USABLE_INTERRUPTS E)"
    and "NO_OF_RESERVED_EXCEPTIONS E < v \<Longrightarrow> v - NO_OF_RESERVED_EXCEPTIONS E \<noteq> 0"
  using assms usable by (simp_all add: unat_sub word_le_nat_alt)

lemma install_inv:
  assumes inv: "intr_inv E s" and some: "IomuRegisterInterrupt_install E al i dev line ex vec s = Some (st, s')"
    and taken: "Bits (InterruptBitmap s) (unat vec)"
  shows "intr_inv E s'"
proof -
  let ?k = "vec - NO_OF_RESERVED_EXCEPTIONS E"
  have "NO_OF_RESERVED_EXCEPTIONS E \<le> vec"
    using some by (auto simp: IomuRegisterInterrupt_install_def bind_Some_iff)
  then have k: "unat ?k + unat (NO_OF_RESERVED_EXCEPTIONS E) = unat vec"
    by (simp add: unat_sub word_le_nat_alt)
  from some show ?thesis
proof (cases rule: install_cases)
  case failed
  then show ?thesis
    using inv taken k by (auto simp: intr_inv_def split: if_splits)
next
  case (added d m)
  note idx = index_of_vector [OF added(2,3)]
  have apics: "apics_ok (IoApics s)"
    and vectors: "\<And>v. RegisteredInterrupts s v \<noteq> [] \<Longrightarrow> IsrRoutines s v = Some (IomuGenericInterrupt_routine, ucast v) \<and>
      v \<noteq> 0 \<and> unat v < unat (NO_OF_USABLE_INTERRUPTS E)"
    and pins: "\<And>a j. a \<in> set (ApicList (IoApics s)) \<Longrightarrow> unat j \<le> unat (MaximumRedirectionEntry a) \<Longrightarrow> pin_written a j \<Longrightarrow>
        NO_OF_RESERVED_EXCEPTIONS E \<le> RVector (RTable (Redirections a) j) \<and>
        RegisteredInterrupts s (RVector (RTable (Redirections a) j) - NO_OF_RESERVED_EXCEPTIONS E) \<noteq> []"
    using inv by (auto simp: intr_inv_def)
  have s': "RegisteredInterrupts s' = (RegisteredInterrupts s)(?k := RegisteredInterrupts s ?k @ [(ServiceRoutine i, dev)])"
    "IsrRoutines s' = (if RegisteredInterrupts s ?k = []
      then (IsrRoutines s)(?k := Some (IomuGenericInterrupt_routine, ucast ?k)) else IsrRoutines s)" "IoApics s' = d"
    using added(1) by simp_all
  have v': "IsrRoutines s' v = Some (IomuGenericInterrupt_routine, ucast v) \<and> v \<noteq> 0 \<and> unat v < unat (NO_OF_USABLE_INTERRUPTS E)"
    if "RegisteredInterrupts s' v \<noteq> []" for v
    using that vectors [of v] vectors [of ?k] idx(1) idx(2) [OF added(4)] by (auto simp: s'(1,2) split: if_splits)
  have "apics_ok d \<and> (\<forall>a \<in> set (ApicList d). \<forall>j. unat j \<le> unat (MaximumRedirectionEntry a) \<longrightarrow> pin_written a j \<longrightarrow>
        NO_OF_RESERVED_EXCEPTIONS E \<le> RVector (RTable (Redirections a) j) \<and>
        RegisteredInterrupts s' (RVector (RTable (Redirections a) j) - NO_OF_RESERVED_EXCEPTIONS E) \<noteq> [])"
  proof (cases "d = IoApics s")
    case True
    then show ?thesis
      using apics pins by (auto simp: s'(1))
  next
    case False
    then obtain dm del pol trig dest where set: "IoApicSystemSetInterrupt (EI E) line vec dm del pol trig dest False (IoApics s) = Some (st, d)"
      using added(6) by blast
    have st: "st = STATUS_SUCCESS"
      using ioapic_contracts.SetInterrupt_failed [OF env_ioapic set] False by blast
    note set = set [unfolded st]
    show ?thesis
    proof (rule ioapic_contracts.SetInterrupt_success [OF env_ioapic apics set])
      fix n off ov a a'
      assume n: "n < length (ApicList (IoApics s))" and a: "a = ApicList (IoApics s) ! n" and d: "d = put_ioapic n a' (IoApics s)"
        and same: "MaximumRedirectionEntry a' = MaximumRedirectionEntry a"
          "InterruptsWritten a' = (InterruptsWritten a)\<lparr>Bits := (Bits (InterruptsWritten a))(unat off := True)\<rparr>"
        and entry: "RTable (Redirections a') = (RTable (Redirections a))(off := \<lparr>RVector = vec, RDestinationMode = dm,
          RDestination = dest, RDeliveryMode = del, RPinPolarity = (case ov of Some r \<Rightarrow> OverridePinPolarity r | None \<Rightarrow> pol),
          RTriggerMode = if line \<noteq> 8 then (case ov of Some r \<Rightarrow> OverrideTriggerMode r | None \<Rightarrow> trig) else ApicTriggerModeLevel (EI E)\<rparr>)"
      have a_in: "a \<in> set (ApicList (IoApics s))"
        using n a by simp
      have pins': "NO_OF_RESERVED_EXCEPTIONS E \<le> RVector (RTable (Redirections x) j) \<and>
          RegisteredInterrupts s' (RVector (RTable (Redirections x) j) - NO_OF_RESERVED_EXCEPTIONS E) \<noteq> []"
        if "x \<in> set (ApicList d)" "unat j \<le> unat (MaximumRedirectionEntry x)" "pin_written x j" for x j
      proof -
        have "x \<in> set ((ApicList (IoApics s))[n := a'])"
          using that(1) unfolding d put_ioapic_def by simp
        then consider "x = a'" | "x \<in> set (ApicList (IoApics s))"
          using set_update_cases by fastforce
        then show ?thesis
        proof cases
          case 1
          then show ?thesis
            using that pins [OF a_in, of j] added(2)
            by (cases "j = off") (auto simp: same entry s'(1) pin_written_def word_unat_eq_iff)
        next
          case 2
          then show ?thesis
            using pins [OF 2 that(2,3)] by (simp add: s'(1))
        qed
      qed
      have "apics_ok d"
        using ioapic_contracts.SetInterrupt_ok [OF env_ioapic apics set] .
      then show ?thesis
        using pins' by blast
    qed
  qed
  moreover have "BitCount (InterruptBitmap s') = NO_OF_TOTAL_INTERRUPTS E"
    "Bits (InterruptBitmap s') (unat v + unat (NO_OF_RESERVED_EXCEPTIONS E))" if "IsrRoutines s' v \<noteq> None" for v
    using that inv taken k added(1) by (auto simp: intr_inv_def s'(2) split: if_splits)
  moreover have "BitCount (InterruptBitmap s') = NO_OF_TOTAL_INTERRUPTS E"
    using inv added(1) by (simp add: intr_inv_def)
  ultimately show ?thesis
    using v' unfolding intr_inv_def s'(3) by blast
qed
qed

lemma existing_taken:
  assumes inv: "intr_inv E s" and some: "IomuRegisterInterrupt_existing E i line s = Some (STATUS_SUCCESS, Some v)"
  shows "NO_OF_RESERVED_EXCEPTIONS E \<le> v \<and> RegisteredInterrupts s (v - NO_OF_RESERVED_EXCEPTIONS E) \<noteq> [] \<and>
    VECTOR_TO_IRQL E v = IntIrql i \<and> uses_ioapic E i"
proof -
  obtain st where get: "IoApicSystemGetVectorForIrq (EI E) line (IoApics s) = Some (st, Some v)"
      and i: "VECTOR_TO_IRQL E v = IntIrql i" "uses_ioapic E i"
    using some by (auto simp: IomuRegisterInterrupt_existing_def bind_Some_iff split: if_splits option.splits)
  then obtain k off ov where f: "IoApicSystemGetIoApicForIrq (EI E) (IoApics s) line = Some (Some (k, off), ov)"
    by (auto simp: IoApicSystemGetVectorForIrq_def bind_Some_iff split: option.splits)
  let ?a = "ApicList (IoApics s) ! k"
  note p = ioapic_contracts.pin_found [OF env_ioapic f]
  then have a: "?a \<in> set (ApicList (IoApics s))" "entry_ok ?a"
    using inv by (simp_all add: intr_inv_def apics_ok_def)
  have w: "BitmapGetBitValue (IB (EI E)) (InterruptsWritten ?a) (ucast off) = pin_written ?a off"
    using ioapic_contracts.written_bit [OF env_ioapic a(2)] p by blast
  have "pin_written ?a off \<and> v = RVector (RTable (Redirections ?a) off)"
    using get f w by (auto simp: IoApicSystemGetVectorForIrq_def ioapic_contracts.redir [OF env_ioapic] split: if_splits)
  then show ?thesis
    using inv a(1) p i unfolding intr_inv_def by blast
qed

text \<open>
  The vector of a registration: either free in the bitmap and in the level of the interrupt, or
  taken, and then the interrupt is not exclusive.
\<close>

lemma vector_cases:
  assumes inv: "intr_inv E s" and some: "IomuRegisterInterrupt_vector E i ex s = (r, s1)"
    and ex: "\<And>v. ex = Some v \<Longrightarrow> Bits (InterruptBitmap s) (unat v) \<and> VECTOR_TO_IRQL E v = IntIrql i"
  obtains b where "s1 = s\<lparr>InterruptBitmap := b\<rparr>" and "BitCount b = BitCount (InterruptBitmap s)"
    and "\<And>j. Bits (InterruptBitmap s) j \<Longrightarrow> Bits b j"
    and "\<And>v. r = Some v \<Longrightarrow> unat v < unat (NO_OF_TOTAL_INTERRUPTS E) \<Longrightarrow> Bits b (unat v)"
    and "\<And>v. r = Some v \<Longrightarrow> unat v < unat (NO_OF_TOTAL_INTERRUPTS E) \<Longrightarrow> Exclusive i \<Longrightarrow>
      \<not> Bits (InterruptBitmap s) (unat v)"
    and "\<And>v. r = Some v \<Longrightarrow> VECTOR_TO_IRQL E (IRQL_TO_VECTOR E (IntIrql i)) = IntIrql i \<Longrightarrow> VECTOR_TO_IRQL E v = IntIrql i"
proof (cases ex)
  case (Some v)
  then show thesis
    using some ex [OF Some] by (intro that [of "InterruptBitmap s"]) (auto simp: IomuRegisterInterrupt_vector_def split: if_splits)
next
  case None
  let ?from = "ucast (IRQL_TO_VECTOR E (IntIrql i)) :: dword"
  let ?to = "?from + ucast (VECTORS_PER_IRQL E)"
  have to: "unat ?to = unat (IRQL_TO_VECTOR E (IntIrql i)) + unat (VECTORS_PER_IRQL E)"
    using unat_byte_less [of "IRQL_TO_VECTOR E (IntIrql i)"] unat_byte_less [of "VECTORS_PER_IRQL E"]
    by (simp add: unat_word_ariths)
  have per: "0 < unat (VECTORS_PER_IRQL E)"
    using per_level by (simp add: unat_gt_0)
  have count: "unat (BitCount (InterruptBitmap s)) = unat (NO_OF_TOTAL_INTERRUPTS E)"
    using inv by (simp add: intr_inv_def)
  obtain idx b where scan: "BitmapScanFromToAndFlip E (InterruptBitmap s) ?from ?to 1 False = (idx, b)"
    by fastforce
  show thesis
  proof (cases "idx = MAX_DWORD")
    case True
    then have b: "b = InterruptBitmap s"
      and full: "\<And>j. unat ?from \<le> j \<Longrightarrow> j < unat ?to \<Longrightarrow> j < unat (BitCount (InterruptBitmap s)) \<Longrightarrow> Bits (InterruptBitmap s) j"
      using scan_none [of "InterruptBitmap s" ?from ?to b] scan by blast+
    have r: "r = (if Exclusive i then None else Some (IRQL_TO_VECTOR E (IntIrql i)))" and s1: "s1 = s\<lparr>InterruptBitmap := b\<rparr>"
      using some scan None True by (auto simp: IomuRegisterInterrupt_vector_def Let_def split: if_splits)
    show thesis
      by (rule that [OF s1]) (use b r full to per count in \<open>auto split: if_splits\<close>)
  next
    case False
    have f: "unat ?from \<le> unat idx" "unat idx < unat ?to" "unat idx < unat (BitCount (InterruptBitmap s))"
        "\<not> Bits (InterruptBitmap s) (unat idx)" "b = (InterruptBitmap s)\<lparr>Bits := (Bits (InterruptBitmap s))(unat idx := True)\<rparr>"
      using scan_found [OF scan False] by blast+
    then have idx: "unat (ucast idx :: byte) = unat idx"
      using total count by (simp add: unsigned_ucast_eq take_bit_nat_eq_self)
    have r: "r = Some (ucast idx)" and s1: "s1 = s\<lparr>InterruptBitmap := b\<rparr>"
      using some scan None False by (auto simp: IomuRegisterInterrupt_vector_def Let_def)
    show thesis
      by (rule that [OF s1]) (use f r idx to level [of "IntIrql i" "ucast idx"] in auto)
  qed
qed

text \<open>A successful registration, up to the programming of the line.\<close>

lemma register_cases:
  assumes inv: "intr_inv E s" and some: "IomuRegisterInterrupt E al i dev s = Some (st, r, s')"
  obtains (not_installed) b where "st \<noteq> STATUS_SUCCESS" and "s' = s\<lparr>InterruptBitmap := b\<rparr>"
      and "BitCount b = BitCount (InterruptBitmap s)" and "\<And>j. Bits (InterruptBitmap s) j \<Longrightarrow> Bits b j"
  | (installed) b vec p line ex where "(case dev of Some x \<Rightarrow> Some x | None \<Rightarrow> SystemDevice s) = Some p"
    and "IomuRegisterInterrupt_line E i s = Some line"
    and "IomuRegisterInterrupt_existing E i line s = Some (STATUS_SUCCESS, ex)"
    and "IomuRegisterInterrupt_vector E i ex s = (Some vec, s\<lparr>InterruptBitmap := b\<rparr>)"
    and "IomuRegisterInterrupt_install E al i p line (ex \<noteq> None) vec (s\<lparr>InterruptBitmap := b\<rparr>) = Some (st, s')"
    and "r = (if st = STATUS_SUCCESS then Some vec else None)"
    and "BitCount b = BitCount (InterruptBitmap s)" and "\<And>j. Bits (InterruptBitmap s) j \<Longrightarrow> Bits b j"
    and "NO_OF_RESERVED_EXCEPTIONS E \<le> vec" and "unat vec < unat (NO_OF_TOTAL_INTERRUPTS E)" and "Bits b (unat vec)"
    and "Exclusive i \<Longrightarrow> \<not> Bits (InterruptBitmap s) (unat vec)"
    and "VECTOR_TO_IRQL E (IRQL_TO_VECTOR E (IntIrql i)) = IntIrql i \<Longrightarrow> VECTOR_TO_IRQL E vec = IntIrql i"
proof -
  obtain p line st0 ex where p: "(case dev of Some x \<Rightarrow> Some x | None \<Rightarrow> SystemDevice s) = Some p"
    and line: "IomuRegisterInterrupt_line E i s = Some line"
    and ex: "IomuRegisterInterrupt_existing E i line s = Some (st0, ex)"
    and rest: "(if \<not> SUCCEEDED st0 then Some (st0, None, s)
      else (case IomuRegisterInterrupt_vector E i ex s of
              (None, s) \<Rightarrow> Some (STATUS_DEVICE_INTERRUPT_NOT_AVAILABLE, None, s)
            | (Some vec, s) \<Rightarrow> do {
                (status, s) \<leftarrow> IomuRegisterInterrupt_install E al i p line (ex \<noteq> None) vec s;
                Some (status, if SUCCEEDED status then Some vec else None, s)
              })) = Some (st, r, s')"
    using some unfolding IomuRegisterInterrupt_def by (elim bind_SomeE) (auto split: option.splits)
  show thesis
  proof (cases "st0 = STATUS_SUCCESS")
    case False
    then show thesis
      using rest by (intro not_installed [of "InterruptBitmap s"]) (auto simp: SUCCEEDED_def)
  next
    case True
    note ex = ex [unfolded True]
    have taken: "Bits (InterruptBitmap s) (unat v) \<and> VECTOR_TO_IRQL E v = IntIrql i" if "ex = Some v" for v
    proof -
      have v: "NO_OF_RESERVED_EXCEPTIONS E \<le> v" "RegisteredInterrupts s (v - NO_OF_RESERVED_EXCEPTIONS E) \<noteq> []"
          "VECTOR_TO_IRQL E v = IntIrql i"
        using existing_taken [OF inv ex [unfolded that]] by blast+
      then have "Bits (InterruptBitmap s) (unat (v - NO_OF_RESERVED_EXCEPTIONS E) + unat (NO_OF_RESERVED_EXCEPTIONS E))"
        using inv by (simp add: intr_inv_def)
      then show ?thesis
        using v by (simp add: unat_sub word_le_nat_alt)
    qed
    obtain v s1 where v: "IomuRegisterInterrupt_vector E i ex s = (v, s1)"
      by fastforce
    show thesis
    proof (rule vector_cases [OF inv v taken])
      fix b
      assume s1: "s1 = s\<lparr>InterruptBitmap := b\<rparr>" and b: "BitCount b = BitCount (InterruptBitmap s)"
          "\<And>j. Bits (InterruptBitmap s) j \<Longrightarrow> Bits b j"
        and vec: "\<And>x. v = Some x \<Longrightarrow> unat x < unat (NO_OF_TOTAL_INTERRUPTS E) \<Longrightarrow> Bits b (unat x)"
          "\<And>x. v = Some x \<Longrightarrow> unat x < unat (NO_OF_TOTAL_INTERRUPTS E) \<Longrightarrow> Exclusive i \<Longrightarrow> \<not> Bits (InterruptBitmap s) (unat x)"
          "\<And>x. v = Some x \<Longrightarrow> VECTOR_TO_IRQL E (IRQL_TO_VECTOR E (IntIrql i)) = IntIrql i \<Longrightarrow> VECTOR_TO_IRQL E x = IntIrql i"
      show thesis
      proof (cases v)
        case None
        then have "st \<noteq> STATUS_SUCCESS" and "s' = s\<lparr>InterruptBitmap := b\<rparr>"
          using rest True v s1 by (auto simp: SUCCEEDED_def)
        then show thesis
          using not_installed b by blast
      next
        case (Some x)
        then have inst: "IomuRegisterInterrupt_install E al i p line (ex \<noteq> None) x (s\<lparr>InterruptBitmap := b\<rparr>) = Some (st, s')"
          and r: "r = (if st = STATUS_SUCCESS then Some x else None)"
          using rest True v s1 by (auto simp: SUCCEEDED_def bind_Some_iff)
        have "NO_OF_RESERVED_EXCEPTIONS E \<le> x" and "unat x < unat (NO_OF_TOTAL_INTERRUPTS E)"
          using inst by (auto simp: IomuRegisterInterrupt_install_def bind_Some_iff word_less_nat_alt)
        then show thesis
          using installed [OF p line ex _ inst r b] v vec [OF Some] by (simp add: Some s1)
      qed
    qed
  qed
qed

lemma bitmap_inv:
  "intr_inv E s \<Longrightarrow> BitCount b = BitCount (InterruptBitmap s) \<Longrightarrow> (\<And>j. Bits (InterruptBitmap s) j \<Longrightarrow> Bits b j) \<Longrightarrow>
    intr_inv E (s\<lparr>InterruptBitmap := b\<rparr>)"
  unfolding intr_inv_def by simp

lemma register_inv:
  assumes inv: "intr_inv E s" and some: "IomuRegisterInterrupt E al i dev s = Some (st, r, s')"
  shows "intr_inv E s'"
proof (rule register_cases [OF assms])
  fix b
  assume "s' = s\<lparr>InterruptBitmap := b\<rparr>" and "BitCount b = BitCount (InterruptBitmap s)" and "\<And>j. Bits (InterruptBitmap s) j \<Longrightarrow> Bits b j"
  then show ?thesis
    using bitmap_inv [OF inv] by blast
next
  fix b vec p line ex
  assume "IomuRegisterInterrupt_install E al i p line (ex \<noteq> None) vec (s\<lparr>InterruptBitmap := b\<rparr>) = Some (st, s')"
    and "BitCount b = BitCount (InterruptBitmap s)" and "\<And>j. Bits (InterruptBitmap s) j \<Longrightarrow> Bits b j" and "Bits b (unat vec)"
  then show ?thesis
    using install_inv [OF bitmap_inv [OF inv]] by auto
qed

end


subsection \<open>The life of the interrupt system\<close>

text \<open>
  From \<open>IomuPreinitSystem\<close> and \<open>IoApicSystemInit\<close> on: registrations, enabling the registered lines, the
  late initialisation of the I/O APICs and the system device that \<open>IomuInitSystemDriver\<close> creates.
\<close>

definition intr_start :: "intr_env \<Rightarrow> intr_data \<Rightarrow> bool" where
  "intr_start E s \<longleftrightarrow> (\<exists>zero n buf s0 bm ap apics al ovs st d.
     IomuPreinitSystem E zero n buf = Some s0 \<and>
     IoApicSystemInit (EI E) bm ap apics al ovs IoApicSystemPreinit = Some (st, d) \<and> s = s0\<lparr>IoApics := d\<rparr>)"

inductive intr_step :: "intr_env \<Rightarrow> intr_data \<Rightarrow> intr_data \<Rightarrow> bool" for E :: intr_env where
  register: "IomuRegisterInterrupt E al i dev s = Some (st, v, s') \<Longrightarrow> intr_step E s s'"
| enable: "IoApicSystemEnableRegisteredInterrupts (EI E) (IoApics s) = Some d \<Longrightarrow> intr_step E s (s\<lparr>IoApics := d\<rparr>)"
| late: "IoApicLateSystemInit al prt (IoApics s) = Some (st, d) \<Longrightarrow> intr_step E s (s\<lparr>IoApics := d\<rparr>)"
| device: "intr_step E s (s\<lparr>SystemDevice := Some dev\<rparr>)"

context ioapic_contracts
begin

lemma RetrieveIoApics_fresh:
  "\<forall>a \<in> set (ApicList d). \<forall>i. unat i \<le> unat (MaximumRedirectionEntry a) \<longrightarrow> \<not> pin_written a i \<Longrightarrow>
    IoApicSystemRetrieveIoApics E bm buf b es d = Some (st, d') \<Longrightarrow>
    \<forall>a \<in> set (ApicList d'). \<forall>i. unat i \<le> unat (MaximumRedirectionEntry a) \<longrightarrow> \<not> pin_written a i"
proof (induction es arbitrary: b d)
  case (Cons e es)
  obtain st1 pa where e: "IoApicSystemInitEntry E bm buf e = Some (st1, pa)"
    using Cons.prems(2) by (auto simp: bind_Some_iff)
  show ?case
  proof (cases pa)
    case None
    then show ?thesis
      using Cons.prems e by simp
  next
    case (Some a)
    let ?d = "if b then d\<lparr>ApicList := ApicList d @ [a], SystemVersion := ApicVersion a\<rparr> else d\<lparr>ApicList := ApicList d @ [a]\<rparr>"
    have "\<forall>a \<in> set (ApicList ?d). \<forall>i. unat i \<le> unat (MaximumRedirectionEntry a) \<longrightarrow> \<not> pin_written a i"
      using Cons.prems(1) InitEntry_fresh [OF e [unfolded Some]] by auto
    moreover have "IoApicSystemRetrieveIoApics E bm buf False es ?d = Some (st, d')"
      using Cons.prems(2) e Some by (auto simp: Let_def split: if_splits)
    ultimately show ?thesis
      by (rule Cons.IH)
  qed
qed simp

lemma IoApicSystemInit_fresh:
  assumes "IoApicSystemInit E bm buf apics al ovs IoApicSystemPreinit = Some (st, d)" and "a \<in> set (ApicList d)"
    and "unat i \<le> unat (MaximumRedirectionEntry a)"
  shows "\<not> pin_written a i"
proof -
  obtain st1 d1 where d1: "IoApicSystemRetrieveIoApics E bm buf True apics IoApicSystemPreinit = Some (st1, d1)"
    using assms by (auto simp: IoApicSystemInit_def bind_Some_iff)
  moreover have "ApicList d = ApicList d1"
    using assms d1 by (auto simp: IoApicSystemInit_def IoApicSystemRetrieveInterruptOverrides_def Let_def bind_Some_iff split: if_splits)
  ultimately show ?thesis
    using RetrieveIoApics_fresh [OF _ d1] assms(2,3) by (simp add: IoApicSystemPreinit_def)
qed

lemma Enable_pins:
  assumes ok: "apics_ok d" and some: "IoApicSystemEnableRegisteredInterrupts E d = Some d'"
  shows "apics_ok d' \<and> (\<forall>a' \<in> set (ApicList d'). \<exists>a \<in> set (ApicList d). MaximumRedirectionEntry a' = MaximumRedirectionEntry a \<and>
    InterruptsWritten a' = InterruptsWritten a \<and> RTable (Redirections a') = RTable (Redirections a))"
proof -
  have "RTable (fold (\<lambda>i t. if BitmapGetBitValue (IB E) w (of_nat i)
      then IoApicSetRedirectionTableEntryMask (IL E) t (of_nat i) False else t) is t) = RTable t" for w "is" t
    by (induction "is" arbitrary: t) (simp_all add: redir)
  then have "RTable (EnableRegisteredInterrupts_pins E a) = RTable (Redirections a)" for a
    by (simp add: EnableRegisteredInterrupts_pins_def del: upt_Suc)
  moreover have "ApicList d' = map (\<lambda>a. a\<lparr>Redirections := EnableRegisteredInterrupts_pins E a\<rparr>) (ApicList d)"
    using some by (auto simp: IoApicSystemEnableRegisteredInterrupts_def)
  ultimately show ?thesis
    using ok by (auto simp: apics_ok_def entry_ok_def)
qed

end

context intr_contracts
begin

lemma start_inv:
  assumes "intr_start E s"
  shows "intr_inv E s"
proof -
  obtain zero n buf s0 bm ap apics al ovs st d where s0: "IomuPreinitSystem E zero n buf = Some s0"
    and d: "IoApicSystemInit (EI E) bm ap apics al ovs IoApicSystemPreinit = Some (st, d)" and s: "s = s0\<lparr>IoApics := d\<rparr>"
    using assms by (auto simp: intr_start_def)
  note bm = bitmap_contract.BitmapPreinit_count [OF ioapic_contracts.env_bitmap [OF env_ioapic]]
    bitmap_contract.BitmapInit_count [OF ioapic_contracts.env_bitmap [OF env_ioapic]]
    bitmap_contract.BitmapSetBits_in [OF ioapic_contracts.env_bitmap [OF env_ioapic]]
  have "apics_inv d"
    using ioapic_contracts.IoApicSystemInit_inv [OF env_ioapic d] by blast
  moreover have "\<not> pin_written a i" if "a \<in> set (ApicList d)" "unat i \<le> unat (MaximumRedirectionEntry a)" for a i
    using that ioapic_contracts.IoApicSystemInit_fresh [OF env_ioapic d] by blast
  moreover have "InterruptBitmap s0 = BitmapSetBits (IB (EI E))
        (BitmapInit (IB (EI E)) (snd (BitmapPreinit (IB (EI E)) zero (NO_OF_TOTAL_INTERRUPTS E))) buf) 0 (ucast (NO_OF_RESERVED_EXCEPTIONS E))"
      "RegisteredInterrupts s0 = (\<lambda>_. [])" "IsrRoutines s0 = (\<lambda>_. None)"
    using s0 by (auto simp: IomuPreinitSystem_def Let_def split: prod.splits)
  ultimately show ?thesis
    using usable bm by (simp add: s intr_inv_def apics_ok_def apics_inv_def)
qed

lemma step_inv:
  assumes inv: "intr_inv E s" and step: "intr_step E s s'"
  shows "intr_inv E s'"
  using step
proof cases
  case (register al i dev st v)
  then show ?thesis
    using register_inv [OF inv] by blast
next
  case (enable d)
  then show ?thesis
    using ioapic_contracts.Enable_pins [OF env_ioapic _ enable(2)] inv unfolding intr_inv_def pin_written_def by fastforce
next
  case (late al prt st d)
  then show ?thesis
    using LateInit_same [OF late(2)] inv by (simp add: intr_inv_def apics_ok_def)
next
  case device
  then show ?thesis
    using inv by (simp add: intr_inv_def)
qed

lemma history_inv: "(intr_step E)\<^sup>*\<^sup>* s s' \<Longrightarrow> intr_start E s \<Longrightarrow> intr_inv E s'"
  by (induction rule: rtranclp_induct) (auto intro: step_inv start_inv)

end


subsection \<open>Properties\<close>

lemma loop_calls:
  "IomuGenericInterrupt_loop handles es = (\<exists>(f, dev) \<in> set es. handles f dev, map (\<lambda>(f, dev). CallRoutine f dev)
    (takeWhile (\<lambda>(f, dev). \<not> handles f dev) es @ take 1 (dropWhile (\<lambda>(f, dev). \<not> handles f dev) es)))"
  by (induction handles es rule: IomuGenericInterrupt_loop.induct) (simp_all add: split_beta)

text \<open>
  C32 (liveness). After any history of registrations, an interrupt of a pin that is programmed reaches
  its handlers: there is at least one, they are called in the order of their registration, at the level
  of the vector, up to the first one that handles the interrupt; then the interrupt is acknowledged,
  the old level restored, and the CPU given up if \<open>ThreadYieldOnInterrupt\<close> wants that. If none of them
  handles it, the system only goes on if the interrupt is a spurious one, which is not acknowledged.
\<close>

theorem programmed_line_is_dispatched:
  assumes "intr_contracts E" and "intr_start E s0" and "(intr_step E)\<^sup>*\<^sup>* s0 s"
    and "a \<in> set (ApicList (IoApics s))" and "unat i \<le> unat (MaximumRedirectionEntry a)"
    and "BitmapGetBitValue (IB (EI E)) (InterruptsWritten a) (ucast i)"
  shows "let v = RVector (RTable (Redirections a) i);
      es = RegisteredInterrupts s (v - NO_OF_RESERVED_EXCEPTIONS E);
      not_handled = (\<lambda>(f, dev). \<not> handles f dev);
      calls = map (\<lambda>(f, dev). CallRoutine f dev);
      yields = (if yield then [YieldCpu] else [])
    in es \<noteq> [] \<and> IsrCommonHandler E pf errorCode solved handles other yield prevIrql v s =
      (if \<exists>(f, dev) \<in> set es. handles f dev
       then Some ([RaiseIrql (VECTOR_TO_IRQL E v)] @ calls (takeWhile not_handled es @ take 1 (dropWhile not_handled es)) @
                  [SendEoi v, LowerIrql prevIrql] @ yields)
       else if IomuIsInterruptSpurious E v
       then Some ([RaiseIrql (VECTOR_TO_IRQL E v)] @ calls es @ [LowerIrql prevIrql] @ yields)
       else None)"
proof -
  let ?v = "RVector (RTable (Redirections a) i)"
  let ?k = "?v - NO_OF_RESERVED_EXCEPTIONS E"
  have inv: "intr_inv E s"
    using intr_contracts.history_inv [OF assms(1,3,2)] .
  have "pin_written a i"
    using assms(4-6) inv ioapic_contracts.written_bit [OF intr_contracts.env_ioapic [OF assms(1)], of a i]
    by (auto simp: intr_inv_def apics_ok_def)
  then have v: "\<not> ?v < NO_OF_RESERVED_EXCEPTIONS E" and es: "RegisteredInterrupts s ?k \<noteq> []"
    using inv assms(4,5) by (auto simp: intr_inv_def not_less)
  then have r: "IsrRoutines s ?k = Some (IomuGenericInterrupt_routine, ucast ?k)" "?k \<noteq> 0" "unat ?k < unat (NO_OF_USABLE_INTERRUPTS E)"
    using inv by (auto simp: intr_inv_def)
  have "(ucast (ucast ?k :: qword) :: byte) = ?k"
    by (rule bit_word_eqI) (simp add: bit_ucast_iff)
  moreover have "ucast ?k \<noteq> (0 :: qword)"
    using r(2) by (simp add: word_unat_eq_iff)
  ultimately have g: "IomuGenericInterrupt E handles (ucast ?k) s = Some (IomuGenericInterrupt_loop handles (RegisteredInterrupts s ?k))"
    using r(3) by (simp add: IomuGenericInterrupt_def word_less_nat_alt Let_def)
  have none: "takeWhile (\<lambda>(f, dev). \<not> handles f dev) (RegisteredInterrupts s ?k) = RegisteredInterrupts s ?k"
    if "\<not> (\<exists>(f, dev) \<in> set (RegisteredInterrupts s ?k). handles f dev)"
    using that by (auto simp: takeWhile_eq_all_conv)
  show ?thesis
  proof (cases "\<exists>(f, dev) \<in> set (RegisteredInterrupts s ?k). handles f dev")
    case True
    then show ?thesis
      using v es r(1) g by (simp add: IsrCommonHandler_def IsrInterruptHandler_def loop_calls IomuAckInterrupt_def Let_def)
  next
    case False
    show ?thesis
      using v es r(1) g False none [OF False]
      by (simp add: IsrCommonHandler_def IsrInterruptHandler_def loop_calls IomuAckInterrupt_def Let_def ASSERT_def)
  qed
qed

lemma GetVector_status:
  "IoApicSystemGetVectorForIrq E Irq d = Some (st, v) \<Longrightarrow> st = STATUS_SUCCESS \<longleftrightarrow> v \<noteq> None"
  by (auto simp: IoApicSystemGetVectorForIrq_def bind_Some_iff Let_def split: option.splits if_splits)

text \<open>
  A registration that succeeds behind any history gives the interrupt a vector of its
  level, with the generic routine installed, and appends the service routine and the device to the
  list of this vector; for an exclusive interrupt the list was empty. The line of an interrupt that
  comes through an I/O APIC is then connected to the vector, if it was connected before or the
  list was empty. If the list was not empty and the line not connected, which happens once all
  vectors of the level are taken, the registration succeeds and the line is not programmed.
\<close>

theorem IomuRegisterInterrupt_registers:
  assumes "intr_contracts E" and "intr_start E s0" and "(intr_step E)\<^sup>*\<^sup>* s0 s"
    and "VECTOR_TO_IRQL E (IRQL_TO_VECTOR E (IntIrql i)) = IntIrql i"
    and "IomuRegisterInterrupt E al i dev s = Some (STATUS_SUCCESS, r, s')"
  shows "\<exists>v p line ex. r = Some v \<and> VECTOR_TO_IRQL E v = IntIrql i \<and>
    (case dev of Some x \<Rightarrow> Some x | None \<Rightarrow> SystemDevice s) = Some p \<and>
    IomuRegisterInterrupt_line E i s = Some line \<and>
    IomuRegisterInterrupt_existing E i line s = Some (STATUS_SUCCESS, ex) \<and>
    (let k = v - NO_OF_RESERVED_EXCEPTIONS E; old = RegisteredInterrupts s k in
     RegisteredInterrupts s' = (RegisteredInterrupts s)(k := old @ [(ServiceRoutine i, p)]) \<and>
     IsrRoutines s' = (IsrRoutines s)(k := Some (IomuGenericInterrupt_routine, ucast k)) \<and>
     (Exclusive i \<longrightarrow> old = []) \<and>
     (uses_ioapic E i \<longrightarrow>
       (if ex \<noteq> None \<or> old = [] then IoApicSystemGetVectorForIrq (EI E) line (IoApics s') = Some (STATUS_SUCCESS, Some v)
        else IoApicSystemGetVectorForIrq (EI E) line (IoApics s') = Some (STATUS_DEVICE_INTERRUPT_NOT_CONFIGURED, None))))"
proof -
  have inv: "intr_inv E s"
    using intr_contracts.history_inv [OF assms(1,3,2)] .
  note io = intr_contracts.env_ioapic [OF assms(1)]
  show ?thesis
  proof (rule intr_contracts.register_cases [OF assms(1) inv assms(5)])
    fix b v p line ex
    assume p: "(case dev of Some x \<Rightarrow> Some x | None \<Rightarrow> SystemDevice s) = Some p"
      and line: "IomuRegisterInterrupt_line E i s = Some line"
      and ex: "IomuRegisterInterrupt_existing E i line s = Some (STATUS_SUCCESS, ex)"
      and v: "IomuRegisterInterrupt_vector E i ex s = (Some v, s\<lparr>InterruptBitmap := b\<rparr>)"
      and inst: "IomuRegisterInterrupt_install E al i p line (ex \<noteq> None) v (s\<lparr>InterruptBitmap := b\<rparr>) = Some (STATUS_SUCCESS, s')"
      and r: "r = (if STATUS_SUCCESS = STATUS_SUCCESS then Some v else None)"
      and lev: "VECTOR_TO_IRQL E (IRQL_TO_VECTOR E (IntIrql i)) = IntIrql i \<Longrightarrow> VECTOR_TO_IRQL E v = IntIrql i"
    let ?k = "v - NO_OF_RESERVED_EXCEPTIONS E"
    let ?old = "RegisteredInterrupts s ?k"
    have exv: "ex' = v \<and> ?old \<noteq> []" if "ex = Some ex'" for ex'
      using v intr_contracts.existing_taken [OF assms(1) inv ex [unfolded that]] that
      by (auto simp: IomuRegisterInterrupt_vector_def split: if_splits)
    from inst show ?thesis
    proof (cases rule: install_cases)
      case (added d m)
      have routines: "IsrRoutines s' = (IsrRoutines s)(?k := Some (IomuGenericInterrupt_routine, ucast ?k))"
        using added(1) inv by (auto simp: intr_inv_def fun_upd_idem)
      have lists: "RegisteredInterrupts s' = (RegisteredInterrupts s)(?k := ?old @ [(ServiceRoutine i, p)])" and d: "IoApics s' = d"
        using added(1) by simp_all
      have before: "IoApicSystemGetVectorForIrq (EI E) line (IoApics s) = (case ex of Some x \<Rightarrow> Some (STATUS_SUCCESS, Some x)
          | None \<Rightarrow> Some (STATUS_DEVICE_INTERRUPT_NOT_CONFIGURED, None))" if u: "uses_ioapic E i"
      proof -
        obtain st v where get: "IoApicSystemGetVectorForIrq (EI E) line (IoApics s) = Some (st, v)"
          using ex u by (cases "IoApicSystemGetVectorForIrq (EI E) line (IoApics s)") (auto simp: IomuRegisterInterrupt_existing_def)
        then show ?thesis
          using ex u GetVector_status [OF get]
          by (cases v) (auto simp: IomuRegisterInterrupt_existing_def split: if_splits)
      qed
      have "if ex \<noteq> None \<or> ?old = [] then IoApicSystemGetVectorForIrq (EI E) line d = Some (STATUS_SUCCESS, Some v)
        else IoApicSystemGetVectorForIrq (EI E) line d = Some (STATUS_DEVICE_INTERRUPT_NOT_CONFIGURED, None)" if u: "uses_ioapic E i"
      proof (cases "?old = [] \<and> ex = None")
        case True
        then obtain dm del pol trig dest where "IoApicSystemSetInterrupt (EI E) line v dm del pol trig dest False (IoApics s) =
            Some (STATUS_SUCCESS, d)"
          using added(6) u by auto
        from ioapic_contracts.vector_after_set [OF io _ this] show ?thesis
          using inv True by (simp add: intr_inv_def)
      next
        case False
        then show ?thesis
          using added(6) before [OF u] exv by (cases ex) auto
      qed
      then show ?thesis
        using p line ex r lev assms(4) routines lists added(5) d by (intro exI [of _ v] exI [of _ p] exI [of _ line] exI [of _ ex])
          (simp add: Let_def)
    qed simp
  qed simp
qed

text \<open>A machine with one I/O APIC, where the service routine 5 of the device 9 is registered for line 0.\<close>

definition pci_device_example :: pci_device where
  "pci_device_example = \<lparr>PciBus = 0, PciDevice = 0, PciFunction = 0, PciInterruptPin = 0, ParentFunctions = []\<rparr>"

definition interrupt_example :: io_interrupt where
  "interrupt_example = \<lparr>IntType = IoInterruptTypeLegacy, IntIrql = 4, ServiceRoutine = 5, Exclusive = True,
     BroadcastInterrupt = True, LegacyIrq = 0, IntPciDevice = pci_device_example\<rparr>"

lemma preinit_example:
  "IomuPreinitSystem intr_env_example bitmap_example 32 0 = Some
    \<lparr>InterruptBitmap = \<lparr>BitCount = 256, BufferSize = 32, BitmapBuffer = 0, Bits = bits_set 0 32 True (\<lambda>_. False)\<rparr>,
     RegisteredInterrupts = (\<lambda>_. []), IsrRoutines = (\<lambda>_. None), IoApics = IoApicSystemPreinit,
     SystemDevice = None, MsiPrograms = []\<rparr>"
  by (simp add: IomuPreinitSystem_def intr_env_example_def ioapic_env_example_def bitmap_ops_def bitmap_example_def Let_def)

lemma vector_example:
  "Bits (InterruptBitmap s) = bits_set 0 32 True (\<lambda>_. False) \<Longrightarrow> BitCount (InterruptBitmap s) = 256 \<Longrightarrow>
    \<exists>b. IomuRegisterInterrupt_vector intr_env_example interrupt_example None s = (Some 64, s\<lparr>InterruptBitmap := b\<rparr>)"
  by (simp add: IomuRegisterInterrupt_vector_def intr_env_example_def interrupt_example_def scan_from_to_def bitmap_scan_def
    upt_rec [of 64] bits_run_def bits_set_def Let_def) blast

lemma intr_example:
  obtains s s' where "intr_start intr_env_example s"
    and "IomuRegisterInterrupt intr_env_example True interrupt_example (Some 9) s = Some (STATUS_SUCCESS, Some 64, s')"
    and "RegisteredInterrupts s = (\<lambda>_. [])"
    and "\<exists>a \<in> set (ApicList (IoApics s')). \<exists>i :: byte. unat i \<le> unat (MaximumRedirectionEntry a) \<and>
      BitmapGetBitValue (IB (EI intr_env_example)) (InterruptsWritten a) (ucast i)"
proof (rule ioapic_example)
  fix d d'
  assume init: "IoApicSystemInit ioapic_env_example bitmap_example 0x100 [apic_example] True [override_example]
      IoApicSystemPreinit = Some (STATUS_SUCCESS, d)"
    and set: "IoApicSystemSetInterrupt ioapic_env_example 0 0x40 1 0 0 0 MAX_BYTE False d = Some (STATUS_SUCCESS, d')"
  define s where "s = \<lparr>InterruptBitmap = \<lparr>BitCount = 256, BufferSize = 32, BitmapBuffer = 0, Bits = bits_set 0 32 True (\<lambda>_. False)\<rparr>,
     RegisteredInterrupts = (\<lambda>_. []), IsrRoutines = (\<lambda>_. None), IoApics = d, SystemDevice = None, MsiPrograms = []\<rparr>"
  have ei: "EI intr_env_example = ioapic_env_example"
    by (simp add: intr_env_example_def)
  have start: "intr_start intr_env_example s"
    unfolding intr_start_def ei by (intro exI conjI, rule preinit_example, rule init) (simp add: s_def)
  have ok: "apics_ok d"
    using ix.IoApicSystemInit_inv [OF init] by (simp add: apics_ok_def apics_inv_def)
  have pin: "\<exists>a \<in> set (ApicList d'). \<exists>i :: byte. unat i \<le> unat (MaximumRedirectionEntry a) \<and>
      BitmapGetBitValue (IB ioapic_env_example) (InterruptsWritten a) (ucast i)"
  proof (rule ix.SetInterrupt_success [OF ok set])
    fix k and off :: byte and a a'
    assume a: "k < length (ApicList d)" "unat off \<le> unat (MaximumRedirectionEntry a)" "entry_ok a" "d' = put_ioapic k a' d"
        "MaximumRedirectionEntry a' = MaximumRedirectionEntry a"
        "InterruptsWritten a' = (InterruptsWritten a)\<lparr>Bits := (Bits (InterruptsWritten a))(unat off := True)\<rparr>"
    then have "BitmapGetBitValue (IB ioapic_env_example) (InterruptsWritten a') (ucast off)"
      using ix.written_bit [of a' off] by (simp add: entry_ok_def pin_written_def)
    moreover have "a' \<in> set (ApicList d')"
      using a by (simp add: put_ioapic_def set_update_memI)
    ultimately show ?thesis
      using a by (intro bexI [of _ a'] exI [of _ off]) simp_all
  qed
  have "IoApicSystemGetVectorForIrq ioapic_env_example 0 d = Some (STATUS_DEVICE_INTERRUPT_NOT_CONFIGURED, None)"
    using ix.vector_after_set [OF ok set] by simp
  then have ex: "IomuRegisterInterrupt_existing intr_env_example interrupt_example 0 s = Some (STATUS_SUCCESS, None)"
    by (simp add: IomuRegisterInterrupt_existing_def s_def intr_env_example_def interrupt_example_def uses_ioapic_def)
  obtain b where v: "IomuRegisterInterrupt_vector intr_env_example interrupt_example None s = (Some 64, s\<lparr>InterruptBitmap := b\<rparr>)"
    using vector_example [of s] by (auto simp: s_def)
  have "IomuRegisterInterrupt_install intr_env_example True interrupt_example 9 0 False 64 (s\<lparr>InterruptBitmap := b\<rparr>) =
      Some (STATUS_SUCCESS, s\<lparr>InterruptBitmap := b, IsrRoutines := [32 \<mapsto> (IomuGenericInterrupt_routine, 32)],
        RegisteredInterrupts := (\<lambda>_. [])(32 := [(5, 9)]), IoApics := d'\<rparr>)"
    using set by (simp add: IomuRegisterInterrupt_install_def IomuRegisterInterrupt_program_def IsrInstallEx_def uses_ioapic_def
      intr_env_example_def interrupt_example_def s_def ioapic_env_example_def)
  then have reg: "IomuRegisterInterrupt intr_env_example True interrupt_example (Some 9) s = Some (STATUS_SUCCESS, Some 64,
      s\<lparr>InterruptBitmap := b, IsrRoutines := [32 \<mapsto> (IomuGenericInterrupt_routine, 32)],
        RegisteredInterrupts := (\<lambda>_. [])(32 := [(5, 9)]), IoApics := d'\<rparr>)"
    using ex v by (simp add: IomuRegisterInterrupt_def IomuRegisterInterrupt_line_def interrupt_example_def)
  show thesis
    by (rule that [OF start reg]) (simp_all add: s_def pin ei)
qed

lemma programmed_line_is_dispatched_witness:
  "\<exists>s a i. intr_start intr_env_example s \<and>
    (\<exists>s'. (intr_step intr_env_example)\<^sup>*\<^sup>* s s' \<and> a \<in> set (ApicList (IoApics s')) \<and>
      RegisteredInterrupts s' (RVector (RTable (Redirections a) i) - 32) \<noteq> [])"
proof (rule intr_example)
  fix s s'
  assume start: "intr_start intr_env_example s"
    and reg: "IomuRegisterInterrupt intr_env_example True interrupt_example (Some 9) s = Some (STATUS_SUCCESS, Some 64, s')"
    and pin: "\<exists>a \<in> set (ApicList (IoApics s')). \<exists>i :: byte. unat i \<le> unat (MaximumRedirectionEntry a) \<and>
      BitmapGetBitValue (IB (EI intr_env_example)) (InterruptsWritten a) (ucast i)"
  have hist: "(intr_step intr_env_example)\<^sup>*\<^sup>* s s'"
    using intr_step.register [OF reg] by (rule r_into_rtranclp)
  obtain a and i :: byte where a: "a \<in> set (ApicList (IoApics s'))" "unat i \<le> unat (MaximumRedirectionEntry a)"
      "BitmapGetBitValue (IB (EI intr_env_example)) (InterruptsWritten a) (ucast i)"
    using pin by blast
  have "RegisteredInterrupts s' (RVector (RTable (Redirections a) i) - NO_OF_RESERVED_EXCEPTIONS intr_env_example) \<noteq> []"
    using programmed_line_is_dispatched [OF nx.intr_contracts_axioms start hist a] unfolding Let_def by blast
  then show ?thesis
    using start hist a by (auto simp: intr_env_example_def)
qed

lemma IomuRegisterInterrupt_registers_witness:
  "\<exists>s s'. IomuRegisterInterrupt intr_env_example True interrupt_example (Some 9) s = Some (STATUS_SUCCESS, Some 64, s') \<and>
    RegisteredInterrupts s' 32 = [(5, 9)] \<and>
    IoApicSystemGetVectorForIrq ioapic_env_example 0 (IoApics s') = Some (STATUS_SUCCESS, Some 64)"
proof (rule intr_example)
  fix s s'
  assume start: "intr_start intr_env_example s"
    and reg: "IomuRegisterInterrupt intr_env_example True interrupt_example (Some 9) s = Some (STATUS_SUCCESS, Some 64, s')"
    and empty: "RegisteredInterrupts s = (\<lambda>_. [])"
  have "VECTOR_TO_IRQL intr_env_example (IRQL_TO_VECTOR intr_env_example (IntIrql interrupt_example)) = IntIrql interrupt_example"
    by (simp add: intr_env_example_def interrupt_example_def)
  from IomuRegisterInterrupt_registers [OF nx.intr_contracts_axioms start rtranclp.rtrancl_refl this reg]
  have "RegisteredInterrupts s' 32 = [(5, 9)] \<and> IoApicSystemGetVectorForIrq ioapic_env_example 0 (IoApics s') = Some (STATUS_SUCCESS, Some 64)"
    by (auto simp: empty intr_env_example_def interrupt_example_def uses_ioapic_def IomuRegisterInterrupt_line_def Let_def)
  then show ?thesis
    using reg by blast
qed

end
