(* ===== verification/Ipc.thy ===== *)
theory Ipc
  imports CommonLib
begin

text \<open>
  Inter-processor calls: an event is queued on every CPU of a destination, an interrupt (IPI) is sent to
  these CPUs, each of them takes one event from its list and runs the function of the event, and the
  sender can wait until all have done so (\<open>ipc.c\<close> and the IPI part of \<open>smp.c\<close>).

  The routines are translated as atomic pieces between which other CPUs run: a CPU's event list is
  protected by its \<open>EventListLock\<close>, reference counters are atomic. Events are numbered in the order of
  their allocation, CPUs are named by their position in \<open>CpuList\<close>.
\<close>

subsection \<open>Data\<close>

datatype smp_ipi_send_mode =
    SmpIpiSendToCpu
  | SmpIpiSendToSelf
  | SmpIpiSendToAllIncludingSelf
  | SmpIpiSendToAllExcludingSelf
  | SmpIpiSendToGroup
  | SmpIpiInvalid

datatype apic_destination_shorthand =
    ApicDestinationShorthandNone
  | ApicDestinationShorthandSelf
  | ApicDestinationShorthandAll
  | ApicDestinationShorthandAllExcludingSelf

text \<open>\<open>CpuEvents\<close> of an event are the entries with its number in the lists of the CPUs.\<close>

record ipc_event =
  EvRefCnt :: dword
  EvFunction :: nat
  EvContext :: nat
  SignalTermination :: bool
  TerminationEvent :: bool
  EvFreeFunction :: "nat option"
  EvFreeContext :: nat

record pcpu =
  ApicId :: byte
  LogicalApicId :: byte
  EventList :: "nat list"
  NoOfEventsInList :: dword

text \<open>What happens to the outside: functions that are called, events that are freed, waits that end.\<close>

datatype ipc_action =
    RanFunction nat nat
  | RanFreeFunction nat
  | FreedEvent nat
  | WaitOver nat

record smp_data =
  CpuList :: "pcpu list"
  IpcIpiVector :: byte
  IpcEvents :: "nat \<Rightarrow> ipc_event option"
  NextEvent :: nat
  IpcLog :: "ipc_action list"

text \<open>
  The library: reference counters, the initialisation of an \<open>EVENT\<close>, and the test of flags. \<open>Receives\<close>
  is the interrupt controller: whether a CPU gets an IPI with this shorthand, logical destination mode
  and destination, sent by the CPU with the given identifier.
\<close>

record smp_env =
  SmpRfc :: rfc_lib
  EvtInitialize :: status
  IsBooleanFlagOn :: "byte \<Rightarrow> byte \<Rightarrow> bool"
  Receives :: "apic_destination_shorthand \<Rightarrow> bool \<Rightarrow> byte \<Rightarrow> byte \<Rightarrow> pcpu \<Rightarrow> bool"

subsection \<open>\<open>ipc.c\<close>\<close>

text \<open>\<open>allocated\<close> is whether the pool has memory for the event.\<close>

definition IpcGenerateEvent ::
  "smp_env \<Rightarrow> bool \<Rightarrow> nat option \<Rightarrow> nat \<Rightarrow> nat option \<Rightarrow> nat \<Rightarrow> bool \<Rightarrow> dword \<Rightarrow> 'a smp_data_scheme \<Rightarrow>
   nat option \<times> 'a smp_data_scheme" where
  "IpcGenerateEvent E allocated BroadcastFunction Context FreeFunction FreeContext WaitForHandling NumberOfCpus s =
     (case BroadcastFunction of
        None \<Rightarrow> (None, s)
      | Some f \<Rightarrow>
          if NumberOfCpus = 0 then (None, s)
          else if \<not> allocated then (None, s)
          else if WaitForHandling \<and> \<not> SUCCEEDED (EvtInitialize E) then (None, s)
          else
            let noOfAdditionalReferences = (if WaitForHandling then NumberOfCpus else NumberOfCpus - 1);
                (status, cnt) = RfcInit (SmpRfc E)
            in if \<not> SUCCEEDED status then (None, s)
               else (Some (NextEvent s),
                     s\<lparr>NextEvent := Suc (NextEvent s),
                       IpcEvents := (IpcEvents s)(NextEvent s \<mapsto>
                         \<lparr>EvRefCnt = (RfcReference (SmpRfc E) ^^ unat noOfAdditionalReferences) cnt,
                          EvFunction = f, EvContext = Context, SignalTermination = WaitForHandling, TerminationEvent = False,
                          EvFreeFunction = FreeFunction, EvFreeContext = FreeContext\<rparr>)\<rparr>))"

definition IpcFreeEvent :: "nat \<Rightarrow> 'a smp_data_scheme \<Rightarrow> 'a smp_data_scheme option" where
  "IpcFreeEvent e s = do {
     ev \<leftarrow> IpcEvents s e;
     Some (s\<lparr>IpcEvents := (IpcEvents s)(e := None),
             IpcLog := IpcLog s @ (if EvFreeFunction ev \<noteq> None then [RanFreeFunction e] else []) @ [FreedEvent e]\<rparr>)
   }"

text \<open>\<open>RfcDereference\<close>, which calls \<open>_IpcFreeEvent\<close> for the last reference.\<close>

definition IpcDereference :: "smp_env \<Rightarrow> nat \<Rightarrow> 'a smp_data_scheme \<Rightarrow> (dword \<times> 'a smp_data_scheme) option" where
  "IpcDereference E e s = do {
     ev \<leftarrow> IpcEvents s e;
     let newRefCount = RfcDereference (SmpRfc E) (EvRefCnt ev);
     let s = s\<lparr>IpcEvents := (IpcEvents s)(e \<mapsto> ev\<lparr>EvRefCnt := newRefCount\<rparr>)\<rparr>;
     s \<leftarrow> (if newRefCount = 0 then IpcFreeEvent e s else Some s);
     Some (newRefCount, s)
   }"

text \<open>
  \<open>IpcWaitForEventHandling\<close> once the termination event is signaled; the event is a synchronization
  event, so the end of the wait clears it.
\<close>

definition IpcWaitForEventHandling :: "smp_env \<Rightarrow> nat \<Rightarrow> 'a smp_data_scheme \<Rightarrow> 'a smp_data_scheme option" where
  "IpcWaitForEventHandling E e s = do {
     ev \<leftarrow> IpcEvents s e;
     ASSERT (SignalTermination ev);
     ASSERT (TerminationEvent ev);
     (_, s) \<leftarrow> IpcDereference E e (s\<lparr>IpcEvents := (IpcEvents s)(e \<mapsto> ev\<lparr>TerminationEvent := False\<rparr>)\<rparr>);
     Some (s\<lparr>IpcLog := IpcLog s @ [WaitOver e]\<rparr>)
   }"

text \<open>The pieces of \<open>IpcProcessEvent\<close> on CPU \<open>c\<close>, and the whole of it.\<close>

definition IpcProcessEvent_call :: "nat \<Rightarrow> nat \<Rightarrow> 'a smp_data_scheme \<Rightarrow> 'a smp_data_scheme option" where
  "IpcProcessEvent_call e c s = do {
     _ \<leftarrow> IpcEvents s e;
     Some (s\<lparr>IpcLog := IpcLog s @ [RanFunction e c]\<rparr>)
   }"

definition IpcProcessEvent_dereference :: "smp_env \<Rightarrow> nat \<Rightarrow> 'a smp_data_scheme \<Rightarrow> (bool \<times> 'a smp_data_scheme) option" where
  "IpcProcessEvent_dereference E e s = do {
     ev \<leftarrow> IpcEvents s e;
     let signalTermination = SignalTermination ev;
     (newRefCount, s) \<leftarrow> IpcDereference E e s;
     Some (signalTermination \<and> newRefCount = 1, s)
   }"

definition IpcProcessEvent_signal :: "nat \<Rightarrow> 'a smp_data_scheme \<Rightarrow> 'a smp_data_scheme option" where
  "IpcProcessEvent_signal e s = do {
     ev \<leftarrow> IpcEvents s e;
     Some (s\<lparr>IpcEvents := (IpcEvents s)(e \<mapsto> ev\<lparr>TerminationEvent := True\<rparr>)\<rparr>)
   }"

definition IpcProcessEvent :: "smp_env \<Rightarrow> status \<Rightarrow> nat \<Rightarrow> nat \<Rightarrow> 'a smp_data_scheme \<Rightarrow> (status \<times> status \<times> 'a smp_data_scheme) option" where
  "IpcProcessEvent E funcStatus e c s = do {
     s \<leftarrow> IpcProcessEvent_call e c s;
     (signal, s) \<leftarrow> IpcProcessEvent_dereference E e s;
     s \<leftarrow> (if signal then IpcProcessEvent_signal e s else Some s);
     Some (STATUS_SUCCESS, funcStatus, s)
   }"

subsection \<open>\<open>smp.c\<close>\<close>

definition SmpDoesCpuMatchDestination :: "smp_env \<Rightarrow> byte \<Rightarrow> smp_ipi_send_mode \<Rightarrow> byte \<Rightarrow> pcpu \<Rightarrow> bool option" where
  "SmpDoesCpuMatchDestination E CpuGetApicId SendMode Destination Cpu =
     (case SendMode of
        SmpIpiSendToAllExcludingSelf \<Rightarrow> Some (ApicId Cpu \<noteq> CpuGetApicId)
      | SmpIpiSendToAllIncludingSelf \<Rightarrow> Some True
      | SmpIpiSendToSelf \<Rightarrow> Some (ApicId Cpu = CpuGetApicId)
      | SmpIpiSendToCpu \<Rightarrow> Some (ApicId Cpu = Destination)
      | SmpIpiSendToGroup \<Rightarrow> Some (IsBooleanFlagOn E Destination (LogicalApicId Cpu))
      | SmpIpiInvalid \<Rightarrow> None)"

text \<open>
  The scan of the CPUs behind position \<open>c\<close>, with the matches so far in \<open>cpus\<close> (\<open>None\<close> if the caller
  gave no list) and their number.
\<close>

fun SmpRetrieveMatchingCpus_loop ::
  "smp_env \<Rightarrow> byte \<Rightarrow> smp_ipi_send_mode \<Rightarrow> byte \<Rightarrow> dword \<Rightarrow> nat \<Rightarrow> pcpu list \<Rightarrow> nat list option \<Rightarrow> dword \<Rightarrow>
   (nat list option \<times> dword) option" where
  "SmpRetrieveMatchingCpus_loop E me mode dest MaximumCpuMatches c [] cpus noOfMatches = Some (cpus, noOfMatches)"
| "SmpRetrieveMatchingCpus_loop E me mode dest MaximumCpuMatches c (cpu # rest) cpus noOfMatches = do {
     matches \<leftarrow> SmpDoesCpuMatchDestination E me mode dest cpu;
     if matches then
       SmpRetrieveMatchingCpus_loop E me mode dest MaximumCpuMatches (Suc c) rest
         (if noOfMatches + 1 \<le> MaximumCpuMatches then map_option (\<lambda>xs. xs @ [c]) cpus else cpus) (noOfMatches + 1)
     else SmpRetrieveMatchingCpus_loop E me mode dest MaximumCpuMatches (Suc c) rest cpus noOfMatches
   }"

definition SmpRetrieveMatchingCpus ::
  "smp_env \<Rightarrow> byte \<Rightarrow> smp_ipi_send_mode \<Rightarrow> byte \<Rightarrow> dword \<Rightarrow> bool \<Rightarrow> 'a smp_data_scheme \<Rightarrow> (status \<times> nat list option \<times> dword) option" where
  "SmpRetrieveMatchingCpus E me SendMode Destination MaximumCpuMatches wantList s = do {
     (cpus, noOfMatches) \<leftarrow> SmpRetrieveMatchingCpus_loop E me SendMode Destination MaximumCpuMatches 0 (CpuList s)
        (if wantList then Some [] else None) 0;
     Some (if MaximumCpuMatches < noOfMatches then STATUS_BUFFER_TOO_SMALL else STATUS_SUCCESS, cpus, noOfMatches)
   }"

definition SmpSendIpcIpi :: "smp_ipi_send_mode \<Rightarrow> byte \<Rightarrow> apic_destination_shorthand \<times> bool \<times> byte" where
  "SmpSendIpcIpi SendMode Destination =
     (let apicShorthand = (case SendMode of
            SmpIpiSendToSelf \<Rightarrow> ApicDestinationShorthandSelf
          | SmpIpiSendToAllIncludingSelf \<Rightarrow> ApicDestinationShorthandAll
          | SmpIpiSendToAllExcludingSelf \<Rightarrow> ApicDestinationShorthandAllExcludingSelf
          | _ \<Rightarrow> ApicDestinationShorthandNone);
          apicId = (if SendMode = SmpIpiSendToCpu \<or> SendMode = SmpIpiSendToGroup then Destination else 0)
      in (apicShorthand, SendMode = SmpIpiSendToGroup, apicId))"

text \<open>
  The part of \<open>SmpSendGenericIpiEx\<close> before the first CPU's list is touched. The result is the event and
  the CPUs to queue it on. \<open>listAllocated\<close> and \<open>allocated\<close> are the answers of the pool.
\<close>

definition SmpSendGenericIpiEx_prepare ::
  "smp_env \<Rightarrow> bool \<Rightarrow> bool \<Rightarrow> nat option \<Rightarrow> nat \<Rightarrow> nat option \<Rightarrow> nat \<Rightarrow> bool \<Rightarrow> smp_ipi_send_mode \<Rightarrow> byte \<Rightarrow> byte \<Rightarrow>
   'a smp_data_scheme \<Rightarrow> (status \<times> (nat \<times> nat list) option \<times> 'a smp_data_scheme) option" where
  "SmpSendGenericIpiEx_prepare E listAllocated allocated BroadcastFunction Context FreeFunction FreeContext WaitForHandling
     SendMode Destination apicId s =
     (if BroadcastFunction = None then Some (STATUS_INVALID_PARAMETER1, None, s)
      else if SendMode = SmpIpiInvalid then Some (STATUS_INVALID_PARAMETER6, None, s)
      else do {
        (status, _, noOfMatchingCpus) \<leftarrow> SmpRetrieveMatchingCpus E apicId SendMode Destination 0 False s;
        let status = (if status = STATUS_BUFFER_TOO_SMALL then STATUS_SUCCESS else status);
        if \<not> SUCCEEDED status then Some (status, None, s)
        else if noOfMatchingCpus = 0 then Some (STATUS_CPU_NO_MATCHES, None, s)
        else do {
          ASSERT listAllocated;
          (status, pMatchingCpus, tempResult) \<leftarrow> SmpRetrieveMatchingCpus E apicId SendMode Destination noOfMatchingCpus True s;
          if \<not> SUCCEEDED status then Some (status, None, s)
          else do {
            ASSERT (tempResult = noOfMatchingCpus);
            cpus \<leftarrow> pMatchingCpus;
            (case IpcGenerateEvent E allocated BroadcastFunction Context FreeFunction FreeContext WaitForHandling noOfMatchingCpus s of
               (None, s) \<Rightarrow> Some (STATUS_UNSUCCESSFUL, None, s)
             | (Some e, s) \<Rightarrow> Some (STATUS_SUCCESS, Some (e, cpus), s))
          }
        }
      })"

text \<open>One round of the loop that queues the event, with the lock of the CPU's list held.\<close>

definition SmpQueueEvent :: "nat \<Rightarrow> nat \<Rightarrow> 'a smp_data_scheme \<Rightarrow> 'a smp_data_scheme" where
  "SmpQueueEvent e c s = s\<lparr>CpuList := (CpuList s)[c := (CpuList s ! c)\<lparr>
     EventList := EventList (CpuList s ! c) @ [e], NoOfEventsInList := NoOfEventsInList (CpuList s ! c) + 1\<rparr>]\<rparr>"

text \<open>
  The start of \<open>_SmpIpcIpiIsr\<close>: the removal of the first event. Taking an entry from an empty list
  or finding none does not return.
\<close>

definition SmpIpcIpiIsr_remove :: "nat \<Rightarrow> 'a smp_data_scheme \<Rightarrow> (nat \<times> 'a smp_data_scheme) option" where
  "SmpIpcIpiIsr_remove c s =
     (let pCpu = CpuList s ! c in
      do {
        ASSERT (0 < NoOfEventsInList pCpu);
        (case EventList pCpu of
           [] \<Rightarrow> None
         | e # es \<Rightarrow> Some (e, s\<lparr>CpuList := (CpuList s)[c := pCpu\<lparr>EventList := es, NoOfEventsInList := NoOfEventsInList pCpu - 1\<rparr>]\<rparr>))
      })"

definition SmpIpcIpiIsr :: "smp_env \<Rightarrow> status \<Rightarrow> nat \<Rightarrow> 'a smp_data_scheme \<Rightarrow> (bool \<times> 'a smp_data_scheme) option" where
  "SmpIpcIpiIsr E funcStatus c s = do {
     (e, s) \<leftarrow> SmpIpcIpiIsr_remove c s;
     (status, funcStatus, s) \<leftarrow> IpcProcessEvent E funcStatus e c s;
     if \<not> SUCCEEDED status then Some (SUCCEEDED status, s)
     else Some (SUCCEEDED funcStatus, s)
   }"

subsection \<open>All CPUs together\<close>

text \<open>
  Where the sender of an event is: it still has to queue the event on some CPUs and to send the IPI,
  or it waits. Senders that are done are not kept. The identifier is the one the sender has read at
  the beginning.
\<close>

datatype sender =
    Queueing "nat list" bool smp_ipi_send_mode byte byte
  | Waiting

text \<open>Where the service routine of a CPU is.\<close>

datatype handler = Idle | Calling nat | Dereferencing nat | Signaling nat

text \<open>
  \<open>PendingIpi\<close> is the bit of the IPI vector in the request register of a CPU: a second IPI that comes
  before the first one is served is not seen. \<open>Targets\<close> and \<open>Waits\<close> record how an event was sent.
\<close>

record ipc_system = smp_data +
  Sends :: "nat \<Rightarrow> sender option"
  Handlers :: "nat \<Rightarrow> handler"
  PendingIpi :: "nat set"
  Targets :: "nat \<Rightarrow> nat list"
  Waits :: "nat \<Rightarrow> bool"

definition ipi_receivers :: "smp_env \<Rightarrow> smp_ipi_send_mode \<Rightarrow> byte \<Rightarrow> byte \<Rightarrow> 'a smp_data_scheme \<Rightarrow> nat set" where
  "ipi_receivers E mode dest apicId s =
     (let (shorthand, logical, d) = SmpSendIpcIpi mode dest
      in {c. c < length (CpuList s) \<and> Receives E shorthand logical d apicId (CpuList s ! c)})"

text \<open>
  The steps of the system. With \<open>migrates\<close> the sender may run on another CPU when it sends the IPI than
  at the beginning; without it does not. \<open>full\<close> bounds the number of events the pool can hold.
\<close>

inductive ipc_step :: "smp_env \<Rightarrow> bool \<Rightarrow> ipc_system \<Rightarrow> ipc_system \<Rightarrow> bool" for E :: smp_env and migrates :: bool where
  send: "SmpSendGenericIpiEx_prepare E la al f ctx ff fctx wait mode dest (ApicId (CpuList s ! me)) s = Some (st, Some (e, cpus), s') \<Longrightarrow>
    me < length (CpuList s) \<Longrightarrow> card (dom (IpcEvents s)) < 2 ^ 32 - 1 \<Longrightarrow>
    ipc_step E migrates s (s'\<lparr>Sends := (Sends s)(e \<mapsto> Queueing cpus wait mode dest (ApicId (CpuList s ! me))),
      Targets := (Targets s)(e := cpus), Waits := (Waits s)(e := wait)\<rparr>)"
| queue: "Sends s e = Some (Queueing (c # cs) wait mode dest me) \<Longrightarrow>
    ipc_step E migrates s ((SmpQueueEvent e c s)\<lparr>Sends := (Sends s)(e \<mapsto> Queueing cs wait mode dest me)\<rparr>)"
| notify: "Sends s e = Some (Queueing [] wait mode dest me) \<Longrightarrow> migrates \<or> me' = me \<Longrightarrow>
    ipc_step E migrates s (s\<lparr>PendingIpi := PendingIpi s \<union> ipi_receivers E mode dest me' s,
      Sends := (Sends s)(e := if wait then Some Waiting else None)\<rparr>)"
| interrupt: "c \<in> PendingIpi s \<Longrightarrow> Handlers s c = Idle \<Longrightarrow> SmpIpcIpiIsr_remove c s = Some (e, s') \<Longrightarrow>
    ipc_step E migrates s (s'\<lparr>PendingIpi := PendingIpi s - {c}, Handlers := (Handlers s)(c := Calling e)\<rparr>)"
| call: "Handlers s c = Calling e \<Longrightarrow> IpcProcessEvent_call e c s = Some s' \<Longrightarrow>
    ipc_step E migrates s (s'\<lparr>Handlers := (Handlers s)(c := Dereferencing e)\<rparr>)"
| dereference: "Handlers s c = Dereferencing e \<Longrightarrow> IpcProcessEvent_dereference E e s = Some (signal, s') \<Longrightarrow>
    ipc_step E migrates s (s'\<lparr>Handlers := (Handlers s)(c := if signal then Signaling e else Idle)\<rparr>)"
| signal: "Handlers s c = Signaling e \<Longrightarrow> IpcProcessEvent_signal e s = Some s' \<Longrightarrow>
    ipc_step E migrates s (s'\<lparr>Handlers := (Handlers s)(c := Idle)\<rparr>)"
| resume: "Sends s e = Some Waiting \<Longrightarrow> IpcWaitForEventHandling E e s = Some s' \<Longrightarrow>
    ipc_step E migrates s (s'\<lparr>Sends := (Sends s)(e := None)\<rparr>)"

text \<open>The system before the first event: all lists are empty.\<close>

definition ipc_start :: "ipc_system \<Rightarrow> bool" where
  "ipc_start s \<longleftrightarrow> length (CpuList s) < 2 ^ 31 \<and> (\<forall>cpu \<in> set (CpuList s). EventList cpu = [] \<and> NoOfEventsInList cpu = 0 \<and> ApicId cpu \<noteq> MAX_BYTE) \<and>
     IpcEvents s = (\<lambda>_. None) \<and> NextEvent s = 0 \<and> IpcLog s = [] \<and> Sends s = (\<lambda>_. None) \<and> Handlers s = (\<lambda>_. Idle) \<and>
     PendingIpi s = {} \<and> Targets s = (\<lambda>_. []) \<and> Waits s = (\<lambda>_. False)"

text \<open>
  What the code relies on: the counters of the library, and that the interrupt controller delivers an
  IPI as documented. The destination \<open>MAX_BYTE\<close> of the physical mode is the broadcast.
\<close>

locale ipc_contracts =
  fixes E :: smp_env
  assumes env_rfc: "rfc_contract (SmpRfc E)"
    and flag: "IsBooleanFlagOn E flags x \<longleftrightarrow> flags AND x \<noteq> 0"
    and ipi_self: "Receives E ApicDestinationShorthandSelf l d me cpu \<longleftrightarrow> ApicId cpu = me"
    and ipi_all: "Receives E ApicDestinationShorthandAll l d me cpu"
    and ipi_others: "Receives E ApicDestinationShorthandAllExcludingSelf l d me cpu \<longleftrightarrow> ApicId cpu \<noteq> me"
    and ipi_physical: "d \<noteq> MAX_BYTE \<Longrightarrow> Receives E ApicDestinationShorthandNone False d me cpu \<longleftrightarrow> ApicId cpu = d"
    and ipi_logical: "Receives E ApicDestinationShorthandNone True d me cpu \<longleftrightarrow> d AND LogicalApicId cpu \<noteq> 0"

definition receives_example :: "apic_destination_shorthand \<Rightarrow> bool \<Rightarrow> byte \<Rightarrow> byte \<Rightarrow> pcpu \<Rightarrow> bool" where
  "receives_example shorthand logical d me cpu =
     (case shorthand of
        ApicDestinationShorthandSelf \<Rightarrow> ApicId cpu = me
      | ApicDestinationShorthandAll \<Rightarrow> True
      | ApicDestinationShorthandAllExcludingSelf \<Rightarrow> ApicId cpu \<noteq> me
      | ApicDestinationShorthandNone \<Rightarrow> if logical then d AND LogicalApicId cpu \<noteq> 0 else d = MAX_BYTE \<or> ApicId cpu = d)"

definition smp_env_example :: smp_env where
  "smp_env_example = \<lparr>SmpRfc = rfc_ops, EvtInitialize = STATUS_SUCCESS, IsBooleanFlagOn = (\<lambda>f x. f AND x \<noteq> 0),
     Receives = receives_example\<rparr>"

interpretation ic: ipc_contracts smp_env_example
  by (rule ipc_contracts.intro) (simp_all add: smp_env_example_def receives_example_def rf.rfc_contract_axioms)

subsection \<open>What a send sets up\<close>

definition matches :: "smp_env \<Rightarrow> byte \<Rightarrow> smp_ipi_send_mode \<Rightarrow> byte \<Rightarrow> pcpu \<Rightarrow> bool" where
  "matches E me mode dest cpu = the (SmpDoesCpuMatchDestination E me mode dest cpu)"

definition matching_cpus :: "smp_env \<Rightarrow> byte \<Rightarrow> smp_ipi_send_mode \<Rightarrow> byte \<Rightarrow> pcpu list \<Rightarrow> nat list" where
  "matching_cpus E me mode dest cpus = filter (\<lambda>c. matches E me mode dest (cpus ! c)) [0..<length cpus]"

lemma SmpDoesCpuMatchDestination_some:
  "mode \<noteq> SmpIpiInvalid \<Longrightarrow> SmpDoesCpuMatchDestination E me mode dest cpu = Some (matches E me mode dest cpu)"
  by (cases mode) (simp_all add: matches_def SmpDoesCpuMatchDestination_def)

lemma RetrieveMatchingCpus_loop:
  assumes "mode \<noteq> SmpIpiInvalid" and "n + length cpus < 2 ^ 32"
  shows "SmpRetrieveMatchingCpus_loop E me mode dest m c cpus xs (of_nat n) =
    (let ms = map ((+) c) (matching_cpus E me mode dest cpus)
     in Some (map_option (\<lambda>xs. xs @ take (unat m - n) ms) xs, of_nat (n + length ms)))"
  using assms(2)
proof (induction cpus arbitrary: c n xs)
  case Nil
  then show ?case
    by (simp add: matching_cpus_def option.map_id0 [unfolded id_def])
next
  case (Cons cpu cpus)
  have ms: "matching_cpus E me mode dest (cpu # cpus) =
      (if matches E me mode dest cpu then [0] else []) @ map Suc (matching_cpus E me mode dest cpus)"
    by (simp add: matching_cpus_def upt_conv_Cons filter_map comp_def del: upt_Suc flip: map_Suc_upt)
  have "of_nat n + 1 = (of_nat (Suc n) :: dword)"
    by simp
  then have n: "unat (of_nat n + 1 :: dword) = Suc n"
    using Cons.prems by (simp only: unsigned_of_nat) (simp add: take_bit_nat_eq_self)
  have plus: "map ((+) (Suc c)) zs = map ((+) c \<circ> Suc) zs" for zs
    by simp
  show ?case
  proof (cases "matches E me mode dest cpu")
    case True
    have "of_nat n + 1 \<le> m \<longleftrightarrow> n < unat m"
      by (simp add: word_le_nat_alt n Suc_le_eq)
    then show ?thesis
      using Cons.IH [of "Suc n" "Suc c" "if of_nat n + 1 \<le> m then map_option (\<lambda>xs. xs @ [c]) xs else xs"] Cons.prems True
      by (cases xs) (auto simp: ms plus SmpDoesCpuMatchDestination_some [OF assms(1)] Let_def add.commute [of 1] take_Cons'
        option.map_comp comp_def)
  next
    case False
    then show ?thesis
      using Cons.IH [of n "Suc c" xs] Cons.prems
      by (simp add: ms plus SmpDoesCpuMatchDestination_some [OF assms(1)] Let_def comp_def)
  qed
qed

lemma RetrieveMatchingCpus:
  fixes s :: "'a smp_data_scheme" and E :: smp_env and me dest :: byte
  assumes "mode \<noteq> SmpIpiInvalid" and "length (CpuList s) < 2 ^ 31"
  defines "ms \<equiv> matching_cpus E me mode dest (CpuList s)"
  shows "SmpRetrieveMatchingCpus E me mode dest m want s =
    Some (if unat m < length ms then STATUS_BUFFER_TOO_SMALL else STATUS_SUCCESS,
          if want then Some (take (unat m) ms) else None, of_nat (length ms))"
proof -
  have "length ms < 2 ^ 31"
    using assms(2) le_less_trans [OF length_filter_le, of "[0..<length (CpuList s)]"] by (simp add: ms_def matching_cpus_def)
  then have "unat (of_nat (length ms) :: dword) = length ms"
    by (simp add: unsigned_of_nat take_bit_nat_eq_self)
  then show ?thesis
    using RetrieveMatchingCpus_loop [of mode 0 "CpuList s" E me dest m 0] assms(1,2)
    by (simp add: SmpRetrieveMatchingCpus_def ms_def word_less_nat_alt Let_def map_idI)
qed

lemma prepare_success:
  assumes "SmpSendGenericIpiEx_prepare E la al f ctx ff fctx wait mode dest me s = Some (st, Some (e, cpus), s')"
    and "length (CpuList s) < 2 ^ 31" and "rfc_contract (SmpRfc E)"
  obtains ev where "e = NextEvent s" and "cpus = matching_cpus E me mode dest (CpuList s)" and "cpus \<noteq> []"
    and "mode \<noteq> SmpIpiInvalid" and "st = STATUS_SUCCESS"
    and "s' = s\<lparr>NextEvent := Suc e, IpcEvents := (IpcEvents s)(e \<mapsto> ev)\<rparr>"
    and "unat (EvRefCnt ev) = length cpus + (if wait then 1 else 0)" and "SignalTermination ev = wait" and "\<not> TerminationEvent ev"
proof -
  have m: "mode \<noteq> SmpIpiInvalid"
    using assms(1) by (auto simp: SmpSendGenericIpiEx_prepare_def split: if_splits)
  let ?ms = "matching_cpus E me mode dest (CpuList s)"
  have len: "length ?ms < 2 ^ 31"
    using assms(2) le_less_trans [OF length_filter_le, of "[0..<length (CpuList s)]"] by (simp add: matching_cpus_def)
  then have un: "unat (of_nat (length ?ms) :: dword) = length ?ms"
    by (simp add: unsigned_of_nat take_bit_nat_eq_self)
  note r = RetrieveMatchingCpus [OF m assms(2)]
  have gen: "IpcGenerateEvent E al f ctx ff fctx wait (of_nat (length ?ms)) s = (Some e, s')" and st: "st = STATUS_SUCCESS" and cpus: "cpus = ?ms"
    using assms(1) un by (auto simp: SmpSendGenericIpiEx_prepare_def r Let_def SUCCEEDED_def split: if_splits prod.splits option.splits)
  obtain g where g: "f = Some g" and pos: "of_nat (length ?ms) \<noteq> (0 :: dword)"
    using gen by (auto simp: IpcGenerateEvent_def split: option.splits if_splits)
  have refs: "(RfcReference (SmpRfc E) ^^ k) n = n + of_nat k" for k n
    by (induction k) (simp_all add: rfc_contract.RfcReference_inc [OF assms(3)])
  let ?k = "if wait then of_nat (length ?ms) else of_nat (length ?ms) - 1 :: dword"
  define ev where "ev = \<lparr>EvRefCnt = 1 + ?k, EvFunction = g, EvContext = ctx, SignalTermination = wait, TerminationEvent = False,
    EvFreeFunction = ff, EvFreeContext = fctx\<rparr>"
  have s': "e = NextEvent s" "s' = s\<lparr>NextEvent := Suc e, IpcEvents := (IpcEvents s)(e \<mapsto> ev)\<rparr>"
    using gen g pos by (auto simp: IpcGenerateEvent_def ev_def refs rfc_contract.RfcInit_one [OF assms(3)] Let_def split: if_splits)
  have "1 + of_nat (length ?ms) = (of_nat (Suc (length ?ms)) :: dword)"
    by simp
  then have "unat (1 + of_nat (length ?ms) :: dword) = Suc (length ?ms)"
    using len by (simp only: unsigned_of_nat) (simp add: take_bit_nat_eq_self)
  then have "unat (EvRefCnt ev) = length ?ms + (if wait then 1 else 0)"
    using un by (simp add: ev_def)
  then show thesis
    using that [OF s'(1) cpus _ m st s'(2)] pos cpus by (cases "?ms = []") (auto simp: ev_def)
qed

subsection \<open>The invariant\<close>

text \<open>Where an event is: still to be queued, in a list, or in the hands of a CPU.\<close>

definition todo :: "ipc_system \<Rightarrow> nat \<Rightarrow> nat list" where
  "todo s e = (case Sends s e of Some (Queueing cs _ _ _ _) \<Rightarrow> cs | _ \<Rightarrow> [])"

definition queued :: "ipc_system \<Rightarrow> nat \<Rightarrow> nat set" where
  "queued s e = {c. c < length (CpuList s) \<and> e \<in> set (EventList (CpuList s ! c))}"

definition at :: "ipc_system \<Rightarrow> (nat \<Rightarrow> handler) \<Rightarrow> nat \<Rightarrow> nat set" where
  "at s h e = {c. Handlers s c = h e}"

definition called :: "ipc_system \<Rightarrow> nat \<Rightarrow> nat set" where
  "called s e = {c. RanFunction e c \<in> set (IpcLog s)}"

text \<open>The CPUs that hold a reference to the event.\<close>

definition unref :: "ipc_system \<Rightarrow> nat \<Rightarrow> nat set" where
  "unref s e = set (todo s e) \<union> queued s e \<union> at s Calling e \<union> at s Dereferencing e"

definition lists_ok :: "ipc_system \<Rightarrow> bool" where
  "lists_ok s \<longleftrightarrow> length (CpuList s) < 2 ^ 31 \<and>
     (\<forall>c < length (CpuList s). distinct (EventList (CpuList s ! c)) \<and>
        NoOfEventsInList (CpuList s ! c) = of_nat (length (EventList (CpuList s ! c)))) \<and>
     finite (dom (IpcEvents s)) \<and> card (dom (IpcEvents s)) < 2 ^ 32"

text \<open>Events that have not been sent yet are nowhere, and nothing is on a CPU that does not exist.\<close>

definition scope_ok :: "ipc_system \<Rightarrow> bool" where
  "scope_ok s \<longleftrightarrow> (\<forall>c. Handlers s c \<noteq> Idle \<longrightarrow> c < length (CpuList s)) \<and> PendingIpi s \<subseteq> {..<length (CpuList s)} \<and>
     (\<forall>e. set (Targets s e) \<subseteq> {..<length (CpuList s)}) \<and>
     (\<forall>e \<ge> NextEvent s. IpcEvents s e = None \<and> Sends s e = None \<and> FreedEvent e \<notin> set (IpcLog s) \<and>
        RanFreeFunction e \<notin> set (IpcLog s) \<and> WaitOver e \<notin> set (IpcLog s) \<and> Targets s e = [])"

text \<open>Every target is in exactly one of the places an event goes through, and runs the function once.\<close>

definition places_ok :: "ipc_system \<Rightarrow> nat \<Rightarrow> bool" where
  "places_ok s e \<longleftrightarrow> distinct (todo s e) \<and>
     set (todo s e) \<union> queued s e \<union> at s Calling e \<union> called s e = set (Targets s e) \<and>
     set (todo s e) \<inter> queued s e = {} \<and> set (todo s e) \<inter> at s Calling e = {} \<and> set (todo s e) \<inter> called s e = {} \<and>
     queued s e \<inter> at s Calling e = {} \<and> queued s e \<inter> called s e = {} \<and> at s Calling e \<inter> called s e = {} \<and>
     at s Dereferencing e \<subseteq> called s e \<and> at s Signaling e \<subseteq> called s e"

text \<open>The reference counter counts these CPUs and the sender that waits; the last CPU signals.\<close>

definition refs_ok :: "ipc_system \<Rightarrow> nat \<Rightarrow> bool" where
  "refs_ok s e \<longleftrightarrow>
     (\<forall>cs w m d me. Sends s e = Some (Queueing cs w m d me) \<longrightarrow> w = Waits s e) \<and> (Sends s e = Some Waiting \<longrightarrow> Waits s e) \<and>
     (WaitOver e \<in> set (IpcLog s) \<longleftrightarrow> e < NextEvent s \<and> Waits s e \<and> Sends s e = None) \<and>
     (RanFreeFunction e \<in> set (IpcLog s) \<longrightarrow> FreedEvent e \<in> set (IpcLog s)) \<and>
     (case IpcEvents s e of
        None \<Rightarrow> unref s e = {} \<and> at s Signaling e = {} \<and> (Sends s e \<noteq> None \<longrightarrow> \<not> Waits s e) \<and>
          (e < NextEvent s \<longrightarrow> FreedEvent e \<in> set (IpcLog s))
      | Some ev \<Rightarrow> SignalTermination ev = Waits s e \<and> FreedEvent e \<notin> set (IpcLog s) \<and> (Waits s e \<longrightarrow> Sends s e \<noteq> None) \<and>
          unat (EvRefCnt ev) = card (unref s e) + (if Waits s e then 1 else 0) \<and> EvRefCnt ev \<noteq> 0 \<and>
          (at s Signaling e \<noteq> {} \<longrightarrow> Waits s e \<and> unref s e = {} \<and> \<not> TerminationEvent ev) \<and>
          (TerminationEvent ev \<longrightarrow> Waits s e \<and> unref s e = {}) \<and>
          (Waits s e \<and> unref s e = {} \<longrightarrow> TerminationEvent ev \<or> at s Signaling e \<noteq> {}) \<and>
          (\<exists>c. at s Signaling e \<subseteq> {c}))"

definition ipc_inv :: "ipc_system \<Rightarrow> bool" where
  "ipc_inv s \<longleftrightarrow> lists_ok s \<and> scope_ok s \<and> distinct (IpcLog s) \<and> (\<forall>e. places_ok s e \<and> refs_ok s e)"

lemma finite_unref: "scope_ok s \<Longrightarrow> finite (unref s e)"
  by (rule finite_subset [of _ "set (todo s e) \<union> {..<length (CpuList s)}"]) (force simp: unref_def queued_def at_def scope_ok_def)+

lemma ipc_start_inv:
  assumes "ipc_start s"
  shows "ipc_inv s"
proof -
  have "EventList (CpuList s ! c) = [] \<and> NoOfEventsInList (CpuList s ! c) = 0" if "c < length (CpuList s)" for c
    using assms that by (simp add: ipc_start_def)
  then show ?thesis
    using assms by (auto simp: ipc_start_def ipc_inv_def lists_ok_def scope_ok_def places_ok_def refs_ok_def todo_def queued_def at_def called_def
    unref_def)
qed

text \<open>What each step does to the places.\<close>

lemma SmpQueueEvent_fields [simp]:
  "IpcEvents (SmpQueueEvent e c s) = IpcEvents s" "IpcLog (SmpQueueEvent e c s) = IpcLog s"
  "NextEvent (SmpQueueEvent e c s) = NextEvent s" "Handlers (SmpQueueEvent e c t) = Handlers t"
  "PendingIpi (SmpQueueEvent e c t) = PendingIpi t" "Targets (SmpQueueEvent e c t) = Targets t"
  "Waits (SmpQueueEvent e c t) = Waits t" "Sends (SmpQueueEvent e c t) = Sends t"
  "length (CpuList (SmpQueueEvent e c s)) = length (CpuList s)"
  by (simp_all add: SmpQueueEvent_def)

lemma queue_places:
  assumes "Sends s e = Some (Queueing (c # cs) w m d me)" and "c < length (CpuList s)"
  defines "s' \<equiv> (SmpQueueEvent e c s)\<lparr>Sends := (Sends s)(e \<mapsto> Queueing cs w m d me)\<rparr>"
  shows "todo s' = (todo s)(e := cs)" "queued s' = (queued s)(e := insert c (queued s e))"
    "at s' = at s" "called s' = called s"
  using assms by (auto simp: fun_eq_iff todo_def queued_def at_def called_def SmpQueueEvent_def nth_list_update split: if_splits)

lemma queue_inv:
  assumes inv: "ipc_inv s" and q: "Sends s e = Some (Queueing (c # cs) w m d me)"
  shows "ipc_inv ((SmpQueueEvent e c s)\<lparr>Sends := (Sends s)(e \<mapsto> Queueing cs w m d me)\<rparr>)" (is "ipc_inv ?s'")
proof -
  have places: "places_ok s x" and refs: "refs_ok s x" for x
    using inv by (simp_all add: ipc_inv_def)
  have lists: "lists_ok s" and scope: "scope_ok s"
    using inv by (simp_all add: ipc_inv_def)
  have td: "todo s e = c # cs"
    using q by (simp add: todo_def)
  have c: "c < length (CpuList s)"
  proof -
    have "c \<in> set (Targets s e)"
      using places [of e] td by (auto simp: places_ok_def)
    then show ?thesis
      using scope by (auto simp: scope_ok_def)
  qed
  note p = queue_places [OF q c]
  have un: "unref ?s' = unref s"
    using td by (auto simp: fun_eq_iff unref_def p)
  have fresh: "e \<notin> set (EventList (CpuList s ! c))"
    using places [of e] td c by (auto simp: places_ok_def queued_def)
  have "lists_ok ?s'"
    using lists fresh c by (auto simp: lists_ok_def SmpQueueEvent_def nth_list_update)
  moreover have "scope_ok ?s'"
    using scope q by (auto simp: scope_ok_def)
  moreover have "places_ok ?s' x" for x
    using places [of x] td unfolding places_ok_def p by (cases "x = e") auto
  moreover have "refs_ok ?s' x" for x
    using refs [of x] q unfolding refs_ok_def un p by (cases "x = e") (auto split: option.splits)
  ultimately show ?thesis
    using inv by (simp add: ipc_inv_def)
qed

lemma send_inv:
  assumes inv: "ipc_inv s" and rfc: "rfc_contract (SmpRfc E)"
    and some: "SmpSendGenericIpiEx_prepare E la al f ctx ff fctx wait mode dest me s = Some (st, Some (e, cpus), t)"
    and room: "card (dom (IpcEvents s)) < 2 ^ 32 - 1"
  shows "ipc_inv (t\<lparr>Sends := (Sends s)(e \<mapsto> Queueing cpus wait mode dest me), Targets := (Targets s)(e := cpus),
    Waits := (Waits s)(e := wait)\<rparr>)" (is "ipc_inv ?s'")
proof -
  have places: "places_ok s x" and refs: "refs_ok s x" for x
    using inv by (simp_all add: ipc_inv_def)
  have lists: "lists_ok s" and scope: "scope_ok s"
    using inv by (simp_all add: ipc_inv_def)
  have few: "length (CpuList s) < 2 ^ 31"
    using lists by (simp add: lists_ok_def)
  obtain ev where e: "e = NextEvent s" and cpus: "cpus = matching_cpus E me mode dest (CpuList s)" "cpus \<noteq> []"
    and t: "t = s\<lparr>NextEvent := Suc e, IpcEvents := (IpcEvents s)(e \<mapsto> ev)\<rparr>"
    and ev: "unat (EvRefCnt ev) = length cpus + (if wait then 1 else 0)" "SignalTermination ev = wait" "\<not> TerminationEvent ev"
    using some few rfc by (rule prepare_success)
  have new: "IpcEvents s e = None" "Sends s e = None" "FreedEvent e \<notin> set (IpcLog s)" "RanFreeFunction e \<notin> set (IpcLog s)"
      "WaitOver e \<notin> set (IpcLog s)" "Targets s e = []"
    using scope by (simp_all add: scope_ok_def e)
  have none: "queued s e = {}" "at s Calling e = {}" "called s e = {}" "at s Dereferencing e = {}" "at s Signaling e = {}" "todo s e = []"
    using places [of e] new by (auto simp: places_ok_def)
  have p: "todo ?s' = (todo s)(e := cpus)" "queued ?s' = queued s" "at ?s' = at s" "called ?s' = called s"
    by (auto simp: fun_eq_iff t todo_def queued_def at_def called_def)
  have un: "unref ?s' = (unref s)(e := set cpus)"
    by (auto simp: fun_eq_iff unref_def p none)
  have d: "distinct cpus" "set cpus \<subseteq> {..<length (CpuList s)}"
    by (auto simp: cpus matching_cpus_def)
  have "lists_ok ?s'"
    using lists room by (auto simp: lists_ok_def t card_insert_if)
  moreover have "scope_ok ?s'"
    using scope d(2) unfolding scope_ok_def by (auto simp: t e)
  moreover have "places_ok ?s' x" for x
    using places [of x] none d(1) new unfolding places_ok_def p by (cases "x = e") (auto simp: t)
  moreover have "refs_ok ?s' x" for x
  proof (cases "x = e")
    case True
    have "EvRefCnt ev \<noteq> 0"
      using ev(1) cpus(2) by auto
    then show ?thesis
      using True new none ev d(1) cpus(2) unfolding refs_ok_def un p by (auto simp: t distinct_card)
  next
    case False
    then show ?thesis
      using refs [of x] e unfolding refs_ok_def un p by (auto simp: t split: option.splits)
  qed
  ultimately show ?thesis
    using inv by (simp add: ipc_inv_def t)
qed

lemma notify_inv:
  assumes inv: "ipc_inv s" and q: "Sends s e = Some (Queueing [] w m d me)"
  shows "ipc_inv (s\<lparr>PendingIpi := PendingIpi s \<union> ipi_receivers E m d me' s, Sends := (Sends s)(e := if w then Some Waiting else None)\<rparr>)"
    (is "ipc_inv ?s'")
proof -
  have places: "places_ok s x" and refs: "refs_ok s x" for x
    using inv by (simp_all add: ipc_inv_def)
  have p: "todo ?s' = todo s" "queued ?s' = queued s" "at ?s' = at s" "called ?s' = called s"
    using q by (auto simp: fun_eq_iff todo_def queued_def at_def called_def)
  have un: "unref ?s' = unref s"
    by (simp add: fun_eq_iff unref_def p)
  have "ipi_receivers E m d me' s \<subseteq> {..<length (CpuList s)}"
    by (auto simp: ipi_receivers_def split: prod.splits)
  then have "scope_ok ?s'" and "lists_ok ?s'"
    using inv q by (auto simp: ipc_inv_def scope_ok_def lists_ok_def)
  moreover have "places_ok ?s' x" for x
    using places [of x] unfolding places_ok_def p by simp
  moreover have "refs_ok ?s' x" for x
    using refs [of x] q unfolding refs_ok_def un p by (cases "x = e") (auto split: option.splits)
  ultimately show ?thesis
    using inv by (simp add: ipc_inv_def)
qed

lemma interrupt_inv:
  assumes inv: "ipc_inv s" and idle: "Handlers s c = Idle" and pend: "c \<in> PendingIpi s"
    and some: "SmpIpcIpiIsr_remove c s = Some (e, t)"
  shows "ipc_inv (t\<lparr>PendingIpi := PendingIpi s - {c}, Handlers := (Handlers s)(c := Calling e)\<rparr>)" (is "ipc_inv ?s'")
proof -
  have places: "places_ok s x" and refs: "refs_ok s x" for x
    using inv by (simp_all add: ipc_inv_def)
  have lists: "lists_ok s" and scope: "scope_ok s"
    using inv by (simp_all add: ipc_inv_def)
  have c: "c < length (CpuList s)"
    using scope pend by (auto simp: scope_ok_def)
  let ?cpu = "CpuList s ! c"
  obtain es where es: "EventList ?cpu = e # es"
      and t: "t = s\<lparr>CpuList := (CpuList s)[c := ?cpu\<lparr>EventList := es, NoOfEventsInList := NoOfEventsInList ?cpu - 1\<rparr>]\<rparr>"
    using some by (auto simp: SmpIpcIpiIsr_remove_def Let_def split: list.splits)
  have dist: "distinct (e # es)"
    using lists c es unfolding lists_ok_def by metis
  have p: "todo ?s' = todo s" "queued ?s' = (queued s)(e := queued s e - {c})" "at ?s' Calling = (at s Calling)(e := insert c (at s Calling e))"
      "at ?s' Dereferencing = at s Dereferencing" "at ?s' Signaling = at s Signaling" "called ?s' = called s"
    using c es idle dist by (auto simp: fun_eq_iff todo_def queued_def at_def called_def t nth_list_update split: if_splits)
  have here: "c \<in> queued s e"
    using c es by (simp add: queued_def)
  have un: "unref ?s' = unref s"
    using here by (auto simp: fun_eq_iff unref_def p)
  have "lists_ok ?s'"
    using lists c es dist by (auto simp: lists_ok_def t nth_list_update)
  moreover have "scope_ok ?s'"
    using scope c by (auto simp: scope_ok_def t)
  moreover have "places_ok ?s' x" for x
    using places [of x] here unfolding places_ok_def p by (cases "x = e") (auto simp: t)
  moreover have "refs_ok ?s' x" for x
    using refs [of x] unfolding refs_ok_def un p by (auto simp: t split: option.splits)
  ultimately show ?thesis
    using inv by (simp add: ipc_inv_def t)
qed

lemma call_inv:
  assumes inv: "ipc_inv s" and h: "Handlers s c = Calling e" and some: "IpcProcessEvent_call e c s = Some t"
  shows "ipc_inv (t\<lparr>Handlers := (Handlers s)(c := Dereferencing e)\<rparr>)" (is "ipc_inv ?s'")
proof -
  have places: "places_ok s x" and refs: "refs_ok s x" for x
    using inv by (simp_all add: ipc_inv_def)
  have t: "t = s\<lparr>IpcLog := IpcLog s @ [RanFunction e c]\<rparr>"
    using some by (auto simp: IpcProcessEvent_call_def bind_Some_iff)
  have p: "todo ?s' = todo s" "queued ?s' = queued s" "at ?s' Calling = (at s Calling)(e := at s Calling e - {c})"
      "at ?s' Dereferencing = (at s Dereferencing)(e := insert c (at s Dereferencing e))" "at ?s' Signaling = at s Signaling"
      "called ?s' = (called s)(e := insert c (called s e))"
    using h by (auto simp: fun_eq_iff todo_def queued_def at_def called_def t)
  have here: "c \<in> at s Calling e"
    using h by (simp add: at_def)
  have un: "unref ?s' = unref s"
    using here by (auto simp: fun_eq_iff unref_def p)
  have "RanFunction e c \<notin> set (IpcLog s)"
    using places [of e] here by (auto simp: places_ok_def called_def)
  then have "distinct (IpcLog ?s')"
    using inv by (simp add: ipc_inv_def t)
  moreover have "lists_ok ?s'" and "scope_ok ?s'"
    using inv h by (auto simp: ipc_inv_def lists_ok_def scope_ok_def t)
  moreover have "places_ok ?s' x" for x
    using places [of x] here unfolding places_ok_def p by (cases "x = e") (auto simp: t)
  moreover have "refs_ok ?s' x" for x
    using refs [of x] unfolding refs_ok_def un p by (auto simp: t split: option.splits)
  ultimately show ?thesis
    by (simp add: ipc_inv_def)
qed

definition free_log :: "nat \<Rightarrow> ipc_event \<Rightarrow> ipc_action list" where
  "free_log e ev = (if EvFreeFunction ev \<noteq> None then [RanFreeFunction e] else []) @ [FreedEvent e]"

lemma IpcDereference_eq:
  assumes "rfc_contract (SmpRfc E)" and "IpcEvents s e = Some ev" and "EvRefCnt ev \<noteq> 0"
  shows "IpcDereference E e s = Some (EvRefCnt ev - 1,
    if EvRefCnt ev = 1 then s\<lparr>IpcEvents := (IpcEvents s)(e := None), IpcLog := IpcLog s @ free_log e ev\<rparr>
    else s\<lparr>IpcEvents := (IpcEvents s)(e \<mapsto> ev\<lparr>EvRefCnt := EvRefCnt ev - 1\<rparr>)\<rparr>)"
  using assms(2,3) rfc_contract.RfcDereference_dec [OF assms(1,3)]
  by (auto simp: IpcDereference_def IpcFreeEvent_def free_log_def Let_def)

lemma unat_minus_one_dword: "(x :: dword) \<noteq> 0 \<Longrightarrow> unat (x - 1) = unat x - 1"
  by (simp add: unat_minus_one)

lemma card_dom_remove: "finite (dom f) \<Longrightarrow> card (dom f) < n \<Longrightarrow> card (dom f - {x}) < n"
  by (meson card_Diff1_le le_less_trans)

lemma dereference_inv:
  assumes inv: "ipc_inv s" and rfc: "rfc_contract (SmpRfc E)" and h: "Handlers s c = Dereferencing e"
    and some: "IpcProcessEvent_dereference E e s = Some (sig, t)"
  shows "ipc_inv (t\<lparr>Handlers := (Handlers s)(c := if sig then Signaling e else Idle)\<rparr>)" (is "ipc_inv ?s'")
proof -
  have places: "places_ok s x" and refs: "refs_ok s x" for x
    using inv by (simp_all add: ipc_inv_def)
  have lists: "lists_ok s" and scope: "scope_ok s"
    using inv by (simp_all add: ipc_inv_def)
  have here: "c \<in> at s Dereferencing e" "c \<in> unref s e"
    using h by (auto simp: at_def unref_def)
  then obtain ev where ev: "IpcEvents s e = Some ev"
    using refs [of e] by (cases "IpcEvents s e") (auto simp: refs_ok_def)
  let ?n = "EvRefCnt ev - 1"
  have cnt: "EvRefCnt ev \<noteq> 0" "unat (EvRefCnt ev) = card (unref s e) + (if Waits s e then 1 else 0)" "SignalTermination ev = Waits s e"
      "FreedEvent e \<notin> set (IpcLog s)" "at s Signaling e = {}" "\<not> TerminationEvent ev"
      and wait: "Waits s e \<Longrightarrow> Sends s e \<noteq> None"
    using refs [of e] ev here by (auto simp: refs_ok_def)
  note eq = IpcDereference_eq [OF rfc ev cnt(1)]
  have sig: "sig \<longleftrightarrow> Waits s e \<and> ?n = 1"
    and t: "t = (if EvRefCnt ev = 1 then s\<lparr>IpcEvents := (IpcEvents s)(e := None), IpcLog := IpcLog s @ free_log e ev\<rparr>
      else s\<lparr>IpcEvents := (IpcEvents s)(e \<mapsto> ev\<lparr>EvRefCnt := ?n\<rparr>)\<rparr>)"
    using some ev eq cnt(3) by (auto simp: IpcProcessEvent_dereference_def)
  have new: "e < NextEvent s"
    using scope ev by (metis scope_ok_def not_less option.distinct(1))
  have p: "todo ?s' = todo s" "queued ?s' = queued s" "at ?s' Calling = at s Calling"
      "at ?s' Dereferencing = (at s Dereferencing)(e := at s Dereferencing e - {c})"
      "at ?s' Signaling = (at s Signaling)(e := if sig then {c} else {})" "called ?s' = called s"
    using h cnt(5) by (auto simp: fun_eq_iff todo_def queued_def at_def called_def t free_log_def)
  have disj: "c \<notin> set (todo s e)" "c \<notin> queued s e" "c \<notin> at s Calling e"
    using places [of e] here by (auto simp: places_ok_def)
  then have un: "unref ?s' = (unref s)(e := unref s e - {c})"
    by (auto simp: fun_eq_iff unref_def p)
  have fin: "finite (unref s e)"
    using finite_unref [OF scope] .
  then have card: "card (unref s e - {c}) = card (unref s e) - 1" "0 < card (unref s e)"
    using here(2) by (auto simp: card_gt_0_iff)
  have n: "unat ?n = card (unref s e - {c}) + (if Waits s e then 1 else 0)"
    using unat_minus_one_dword [OF cnt(1)] cnt(2) card by auto
  have one: "EvRefCnt ev = 1 \<longleftrightarrow> ?n = 0"
    by (metis diff_self eq_iff_diff_eq_0)
  have zero: "?n = 0 \<longleftrightarrow> \<not> Waits s e \<and> unref s e - {c} = {}"
    using n fin by (auto simp flip: unat_eq_zero)
  have last: "Waits s e \<Longrightarrow> ?n = 1 \<longleftrightarrow> unref s e - {c} = {}"
    using n fin by (simp add: word_unat_eq_iff)
  have "lists_ok ?s'"
    using lists ev by (auto simp: lists_ok_def t card_dom_remove insert_absorb domI)
  moreover have "scope_ok ?s'"
    using scope h new by (auto simp: scope_ok_def t free_log_def)
  moreover have "distinct (IpcLog ?s')"
    using inv cnt(4) refs [of e] by (auto simp: ipc_inv_def t free_log_def refs_ok_def)
  moreover have "places_ok ?s' x" for x
    using places [of x] here unfolding places_ok_def p by (cases "x = e") (auto simp: t)
  moreover have "refs_ok ?s' x" for x
  proof (cases "x = e")
    case False
    then show ?thesis
      using refs [of x] unfolding refs_ok_def un p by (auto simp: t free_log_def split: option.splits)
  next
    case True
    have basic: "(\<forall>cs w m d me. Sends s e = Some (Queueing cs w m d me) \<longrightarrow> w = Waits s e) \<and> (Sends s e = Some Waiting \<longrightarrow> Waits s e) \<and>
        (WaitOver e \<in> set (IpcLog s) \<longleftrightarrow> e < NextEvent s \<and> Waits s e \<and> Sends s e = None)"
      "RanFreeFunction e \<notin> set (IpcLog s)"
      using refs [of e] cnt(4) by (auto simp: refs_ok_def)
    show ?thesis
    proof (cases "?n = 0")
      case True
      then have f: "\<not> Waits s e" "unref s e - {c} = {}" "EvRefCnt ev = 1"
        using zero one by blast+
      then have "\<not> sig"
        using sig by blast
      note f = f this
      show ?thesis
        using f basic \<open>x = e\<close> unfolding refs_ok_def un p by (auto simp: t free_log_def)
    next
      case False
      then have "EvRefCnt ev \<noteq> 1"
        using one by blast
      then show ?thesis
        using basic \<open>x = e\<close> n False cnt wait sig last unfolding refs_ok_def un p by (auto simp: t)
    qed
  qed
  ultimately show ?thesis
    by (simp add: ipc_inv_def)
qed

lemma signal_inv:
  assumes inv: "ipc_inv s" and h: "Handlers s c = Signaling e" and some: "IpcProcessEvent_signal e s = Some t"
  shows "ipc_inv (t\<lparr>Handlers := (Handlers s)(c := Idle)\<rparr>)" (is "ipc_inv ?s'")
proof -
  have places: "places_ok s x" and refs: "refs_ok s x" for x
    using inv by (simp_all add: ipc_inv_def)
  obtain ev where ev: "IpcEvents s e = Some ev" and t: "t = s\<lparr>IpcEvents := (IpcEvents s)(e \<mapsto> ev\<lparr>TerminationEvent := True\<rparr>)\<rparr>"
    using some by (auto simp: IpcProcessEvent_signal_def bind_Some_iff)
  have "c \<in> at s Signaling e"
    using h by (simp add: at_def)
  moreover have "\<exists>c'. at s Signaling e \<subseteq> {c'}"
    using refs [of e] ev by (simp add: refs_ok_def)
  ultimately have sig: "at s Signaling e = {c}"
    by blast
  have p: "todo ?s' = todo s" "queued ?s' = queued s" "at ?s' Calling = at s Calling" "at ?s' Dereferencing = at s Dereferencing"
      "at ?s' Signaling = (at s Signaling)(e := {})" "called ?s' = called s"
    using h sig by (auto simp: fun_eq_iff todo_def queued_def at_def called_def t)
  have un: "unref ?s' = unref s"
    by (auto simp: fun_eq_iff unref_def p)
  have "lists_ok ?s'" and "scope_ok ?s'"
    using inv h ev by (auto simp: ipc_inv_def lists_ok_def scope_ok_def t insert_absorb domI)
  moreover have "places_ok ?s' x" for x
    using places [of x] unfolding places_ok_def p by (cases "x = e") (auto simp: t)
  moreover have "refs_ok ?s' x" for x
  proof (cases "x = e")
    case False
    then show ?thesis
      using refs [of x] unfolding refs_ok_def un p by (cases "IpcEvents s x") (auto simp: t)
  next
    case True
    have "Sends s e = Some (Queueing cs w m d me) \<Longrightarrow> w = Waits s e" for cs w m d me
      using refs [of e] unfolding refs_ok_def by blast
    then show ?thesis
      using refs [of x] True ev sig unfolding refs_ok_def un p by (simp add: t) blast
  qed
  ultimately show ?thesis
    using inv by (simp add: ipc_inv_def t)
qed

lemma resume_inv:
  assumes inv: "ipc_inv s" and rfc: "rfc_contract (SmpRfc E)" and w: "Sends s e = Some Waiting"
    and some: "IpcWaitForEventHandling E e s = Some t"
  shows "ipc_inv (t\<lparr>Sends := (Sends s)(e := None)\<rparr>)" (is "ipc_inv ?s'")
proof -
  have places: "places_ok s x" and refs: "refs_ok s x" for x
    using inv by (simp_all add: ipc_inv_def)
  have lists: "lists_ok s" and scope: "scope_ok s"
    using inv by (simp_all add: ipc_inv_def)
  obtain ev where ev: "IpcEvents s e = Some ev" "TerminationEvent ev"
    using some by (auto simp: IpcWaitForEventHandling_def bind_Some_iff)
  have r: "unref s e = {}" "at s Signaling e = {}" "unat (EvRefCnt ev) = 1" "FreedEvent e \<notin> set (IpcLog s)" "Waits s e"
      "RanFreeFunction e \<notin> set (IpcLog s)" "WaitOver e \<notin> set (IpcLog s)"
    using refs [of e] ev w by (auto simp: refs_ok_def)
  then have cnt: "EvRefCnt ev = 1"
    by (simp add: word_unat_eq_iff)
  have "IpcDereference E e (s\<lparr>IpcEvents := (IpcEvents s)(e \<mapsto> ev\<lparr>TerminationEvent := False\<rparr>)\<rparr>) =
      Some (0, s\<lparr>IpcEvents := (IpcEvents s)(e := None), IpcLog := IpcLog s @ free_log e ev\<rparr>)"
    using IpcDereference_eq [OF rfc, of "s\<lparr>IpcEvents := (IpcEvents s)(e \<mapsto> ev\<lparr>TerminationEvent := False\<rparr>)\<rparr>" e] cnt
    by (simp add: free_log_def)
  then have t: "t = s\<lparr>IpcEvents := (IpcEvents s)(e := None), IpcLog := IpcLog s @ free_log e ev @ [WaitOver e]\<rparr>"
    using some ev by (auto simp: IpcWaitForEventHandling_def)
  have new: "e < NextEvent s"
    using scope ev by (metis scope_ok_def not_less option.distinct(1))
  have p: "todo ?s' = todo s" "queued ?s' = queued s" "at ?s' = at s" "called ?s' = called s"
    using w by (auto simp: fun_eq_iff todo_def queued_def at_def called_def t free_log_def)
  have un: "unref ?s' = unref s"
    by (auto simp: fun_eq_iff unref_def p)
  have "lists_ok ?s'"
    using lists by (auto simp: lists_ok_def t card_dom_remove)
  moreover have "scope_ok ?s'"
    using scope new by (auto simp: scope_ok_def t free_log_def)
  moreover have "distinct (IpcLog ?s')"
    using inv r by (auto simp: ipc_inv_def t free_log_def)
  moreover have "places_ok ?s' x" for x
    using places [of x] unfolding places_ok_def p by (simp add: t)
  moreover have "refs_ok ?s' x" for x
    using refs [of x] r new unfolding refs_ok_def un p by (cases "x = e") (auto simp: t free_log_def split: option.splits)
  ultimately show ?thesis
    by (simp add: ipc_inv_def)
qed

context ipc_contracts
begin

lemma step_inv:
  assumes "ipc_inv s" and "ipc_step E mig s s'"
  shows "ipc_inv s'"
  using assms(2)
proof cases
  case send
  then show ?thesis
    using send_inv [OF assms(1) env_rfc] by blast
next
  case queue
  then show ?thesis
    using queue_inv [OF assms(1)] by blast
next
  case notify
  then show ?thesis
    using notify_inv [OF assms(1)] by blast
next
  case interrupt
  then show ?thesis
    using interrupt_inv [OF assms(1)] by blast
next
  case call
  then show ?thesis
    using call_inv [OF assms(1)] by blast
next
  case dereference
  then show ?thesis
    using dereference_inv [OF assms(1) env_rfc] by blast
next
  case signal
  then show ?thesis
    using signal_inv [OF assms(1)] by blast
next
  case resume
  then show ?thesis
    using resume_inv [OF assms(1) env_rfc] by blast
qed

lemma history_inv: "(ipc_step E mig)\<^sup>*\<^sup>* s s' \<Longrightarrow> ipc_start s \<Longrightarrow> ipc_inv s'"
  by (induction rule: rtranclp_induct) (auto intro: step_inv ipc_start_inv)

end

subsection \<open>Every interrupt finds an event\<close>

definition unsent :: "ipc_system \<Rightarrow> nat \<Rightarrow> nat set" where
  "unsent s c = {e. \<exists>cs w m d me. Sends s e = Some (Queueing cs w m d me) \<and> c \<in> set (Targets s e) \<and> c \<notin> set cs}"

text \<open>
  As long as senders stay on their CPU, a list is at least as long as the number of senders that have
  queued on it and not yet sent their IPI, plus one if an IPI is pending.
\<close>

definition ipi_inv :: "smp_env \<Rightarrow> ipc_system \<Rightarrow> bool" where
  "ipi_inv E s \<longleftrightarrow> (\<forall>cpu \<in> set (CpuList s). ApicId cpu \<noteq> MAX_BYTE) \<and>
     (\<forall>e cs w m d me. Sends s e = Some (Queueing cs w m d me) \<longrightarrow> m \<noteq> SmpIpiInvalid \<and> Targets s e \<noteq> [] \<and>
        set (Targets s e) = {c. c < length (CpuList s) \<and> matches E me m d (CpuList s ! c)}) \<and>
     (\<forall>c < length (CpuList s). card (unsent s c) + (if c \<in> PendingIpi s then 1 else 0) \<le> length (EventList (CpuList s ! c)))"

lemma matches_ids:
  "ApicId cpu = ApicId cpu' \<Longrightarrow> LogicalApicId cpu = LogicalApicId cpu' \<Longrightarrow> matches E me m d cpu = matches E me m d cpu'"
  by (cases m) (simp_all add: matches_def SmpDoesCpuMatchDestination_def)

lemma matches_update [simp]:
  "matches E me m d (cpu\<lparr>EventList := es, NoOfEventsInList := n\<rparr>) = matches E me m d cpu"
  by (rule matches_ids) simp_all

lemma finite_unsent: "scope_ok s \<Longrightarrow> finite (unsent s c)"
  by (rule finite_subset [of _ "{..<NextEvent s}"]) (auto simp: unsent_def scope_ok_def not_less [symmetric])

lemma ipi_inv_same:
  "ipi_inv E s \<Longrightarrow> CpuList s' = CpuList s \<Longrightarrow> Sends s' = Sends s \<Longrightarrow> Targets s' = Targets s \<Longrightarrow> PendingIpi s' = PendingIpi s \<Longrightarrow>
    ipi_inv E s'"
  by (simp add: ipi_inv_def unsent_def)

context ipc_contracts
begin

lemma receivers:
  assumes "m \<noteq> SmpIpiInvalid" and "\<forall>cpu \<in> set (CpuList s). ApicId cpu \<noteq> MAX_BYTE"
    and "\<exists>c < length (CpuList s). matches E me m d (CpuList s ! c)"
  shows "ipi_receivers E m d me s = {c. c < length (CpuList s) \<and> matches E me m d (CpuList s ! c)}"
proof (cases m)
  case SmpIpiSendToCpu
  then have "d \<noteq> MAX_BYTE"
    using assms(2,3) by (auto simp: matches_def SmpDoesCpuMatchDestination_def)
  then show ?thesis
    using SmpIpiSendToCpu by (auto simp: ipi_receivers_def SmpSendIpcIpi_def matches_def SmpDoesCpuMatchDestination_def ipi_physical)
qed (use assms(1) in \<open>auto simp: ipi_receivers_def SmpSendIpcIpi_def matches_def SmpDoesCpuMatchDestination_def
  ipi_self ipi_all ipi_others ipi_logical flag\<close>)

lemma queue_ipi_inv:
  assumes inv: "ipc_inv s" and ipi: "ipi_inv E s" and q: "Sends s e = Some (Queueing (c # cs) w m d me)"
  shows "ipi_inv E ((SmpQueueEvent e c s)\<lparr>Sends := (Sends s)(e \<mapsto> Queueing cs w m d me)\<rparr>)" (is "ipi_inv E ?s'")
proof -
  have scope: "scope_ok s" and td: "c \<in> set (Targets s e)" "c \<notin> set cs"
    using inv q by (auto simp: ipc_inv_def places_ok_def todo_def split: option.splits dest!: spec [of _ e])
  then have c: "c < length (CpuList s)"
    by (auto simp: scope_ok_def)
  have un: "unsent ?s' = (unsent s)(c := insert e (unsent s c))"
    using q td by (auto simp: fun_eq_iff unsent_def split: if_splits)
  have one: "card (insert e (unsent s c)) \<le> Suc (card (unsent s c))"
    by (simp add: card_insert_if finite_unsent [OF scope])
  have len: "length (EventList (CpuList ?s' ! x)) = length (EventList (CpuList s ! x)) + (if x = c then 1 else 0)" for x
    using c by (simp add: SmpQueueEvent_def nth_list_update)
  have "card (unsent ?s' x) + (if x \<in> PendingIpi ?s' then 1 else 0) \<le> length (EventList (CpuList ?s' ! x))"
    if x: "x < length (CpuList s)" for x
  proof -
    have "card (unsent s x) + (if x \<in> PendingIpi s then 1 else 0) \<le> length (EventList (CpuList s ! x))"
      using ipi x by (simp add: ipi_inv_def)
    then show ?thesis
      unfolding un len using one by (cases "x = c"; cases "x \<in> PendingIpi s") auto
  qed
  moreover have "\<forall>cpu \<in> set (CpuList ?s'). ApicId cpu \<noteq> MAX_BYTE"
    using ipi c by (simp add: ipi_inv_def SmpQueueEvent_def all_set_conv_all_nth nth_list_update)
  moreover have "matches E me' m' d' (CpuList ?s' ! x) = matches E me' m' d' (CpuList s ! x)" for me' m' d' x
    using c by (simp add: SmpQueueEvent_def nth_list_update)
  ultimately show ?thesis
    using ipi q unfolding ipi_inv_def by (auto split: if_splits)
qed

lemma notify_ipi_inv:
  assumes inv: "ipc_inv s" and ipi: "ipi_inv E s" and q: "Sends s e = Some (Queueing [] w m d me)"
  shows "ipi_inv E (s\<lparr>PendingIpi := PendingIpi s \<union> ipi_receivers E m d me s, Sends := (Sends s)(e := if w then Some Waiting else None)\<rparr>)"
    (is "ipi_inv E ?s'")
proof -
  have scope: "scope_ok s"
    using inv by (simp add: ipc_inv_def)
  have t: "m \<noteq> SmpIpiInvalid" "Targets s e \<noteq> []" "set (Targets s e) = {c. c < length (CpuList s) \<and> matches E me m d (CpuList s ! c)}"
      and ids: "\<forall>cpu \<in> set (CpuList s). ApicId cpu \<noteq> MAX_BYTE"
    using ipi q by (auto simp: ipi_inv_def)
  have "set (Targets s e) \<noteq> {}"
    using t(2) by simp
  then have rc: "ipi_receivers E m d me s = set (Targets s e)"
    using receivers [OF t(1) ids, of me d] t(3) by auto
  have un: "unsent ?s' c = unsent s c - {e}" for c
    by (auto simp: unsent_def split: if_splits)
  have mem: "e \<in> unsent s c \<longleftrightarrow> c \<in> set (Targets s e)" for c
    using q by (simp add: unsent_def)
  have "card (unsent ?s' c) + (if c \<in> PendingIpi ?s' then 1 else 0) \<le> length (EventList (CpuList s ! c))" if c: "c < length (CpuList s)" for c
  proof (cases "c \<in> set (Targets s e)")
    case True
    then have "card (unsent s c) = Suc (card (unsent s c - {e}))"
      using mem finite_unsent [OF scope] by (metis card_Suc_Diff1)
    then show ?thesis
      using ipi c unfolding un by (auto simp: ipi_inv_def dest!: spec [of _ c])
  next
    case False
    then show ?thesis
      using ipi c mem [of c] unfolding un by (simp add: ipi_inv_def rc)
  qed
  then show ?thesis
    using ipi unfolding ipi_inv_def by (auto split: if_splits)
qed

lemma interrupt_ipi_inv:
  assumes inv: "ipc_inv s" and ipi: "ipi_inv E s" and pend: "c \<in> PendingIpi s"
    and some: "SmpIpcIpiIsr_remove c s = Some (e, t)"
  shows "ipi_inv E (t\<lparr>PendingIpi := PendingIpi s - {c}, Handlers := h\<rparr>)" (is "ipi_inv E ?s'")
proof -
  have c: "c < length (CpuList s)"
    using inv pend by (auto simp: ipc_inv_def scope_ok_def)
  let ?cpu = "CpuList s ! c"
  obtain es where es: "EventList ?cpu = e # es"
      and t: "t = s\<lparr>CpuList := (CpuList s)[c := ?cpu\<lparr>EventList := es, NoOfEventsInList := NoOfEventsInList ?cpu - 1\<rparr>]\<rparr>"
    using some by (auto simp: SmpIpcIpiIsr_remove_def Let_def split: list.splits)
  have un: "unsent ?s' = unsent s"
    by (simp add: fun_eq_iff unsent_def t)
  have "card (unsent ?s' x) + (if x \<in> PendingIpi ?s' then 1 else 0) \<le> length (EventList (CpuList ?s' ! x))" if x: "x < length (CpuList s)" for x
  proof -
    have "card (unsent s x) + (if x \<in> PendingIpi s then 1 else 0) \<le> length (EventList (CpuList s ! x))"
      using ipi x by (simp add: ipi_inv_def)
    then show ?thesis
      unfolding un using pend es c by (cases "x = c") (auto simp: t)
  qed
  moreover have "\<forall>cpu \<in> set (CpuList ?s'). ApicId cpu \<noteq> MAX_BYTE"
    using ipi c by (simp add: ipi_inv_def t all_set_conv_all_nth nth_list_update)
  moreover have "matches E me' m' d' (CpuList ?s' ! x) = matches E me' m' d' (CpuList s ! x)" for me' m' d' x
    using c by (simp add: t nth_list_update)
  ultimately show ?thesis
    using ipi unfolding ipi_inv_def by (auto simp: t)
qed

lemma send_ipi_inv:
  assumes inv: "ipc_inv s" and ipi: "ipi_inv E s"
    and some: "SmpSendGenericIpiEx_prepare E la al f ctx ff fctx wait mode dest me s = Some (st, Some (e, cpus), t)"
  shows "ipi_inv E (t\<lparr>Sends := (Sends s)(e \<mapsto> Queueing cpus wait mode dest me), Targets := (Targets s)(e := cpus),
    Waits := (Waits s)(e := wait)\<rparr>)" (is "ipi_inv E ?s'")
proof -
  have few: "length (CpuList s) < 2 ^ 31" and scope: "scope_ok s"
    using inv by (simp_all add: ipc_inv_def lists_ok_def)
  obtain ev where e: "e = NextEvent s" and cpus: "cpus = matching_cpus E me mode dest (CpuList s)" "cpus \<noteq> []" "mode \<noteq> SmpIpiInvalid"
    and t: "t = s\<lparr>NextEvent := Suc e, IpcEvents := (IpcEvents s)(e \<mapsto> ev)\<rparr>"
    using some few env_rfc by (rule prepare_success)
  have "Sends s e = None"
    using scope by (simp add: scope_ok_def e)
  then have un: "unsent ?s' c = unsent s c" for c
    by (auto simp: unsent_def t split: if_splits)
  have "set cpus = {c. c < length (CpuList s) \<and> matches E me mode dest (CpuList s ! c)}"
    by (auto simp: cpus matching_cpus_def)
  then show ?thesis
    using ipi cpus(2,3) unfolding ipi_inv_def un by (auto simp: t split: if_splits)
qed

lemma dereference_same:
  "IpcDereference E e t = Some (n, t') \<Longrightarrow> CpuList t' = CpuList t \<and> Sends t' = Sends t \<and> Targets t' = Targets t \<and> PendingIpi t' = PendingIpi t"
  by (auto simp: IpcDereference_def IpcFreeEvent_def Let_def bind_Some_iff split: if_splits)

lemma step_ipi_inv:
  assumes "ipc_inv s" and "ipi_inv E s" and "ipc_step E False s s'"
  shows "ipi_inv E s'"
  using assms(3)
proof cases
  case send
  then show ?thesis
    using send_ipi_inv [OF assms(1,2)] by blast
next
  case queue
  then show ?thesis
    using queue_ipi_inv [OF assms(1,2)] by blast
next
  case notify
  then show ?thesis
    using notify_ipi_inv [OF assms(1,2)] by blast
next
  case interrupt
  then show ?thesis
    using interrupt_ipi_inv [OF assms(1,2)] by blast
next
  case call
  then show ?thesis
    by (intro ipi_inv_same [OF assms(2)]) (auto simp: IpcProcessEvent_call_def bind_Some_iff)
next
  case (dereference c e sig t)
  then show ?thesis
    by (intro ipi_inv_same [OF assms(2)]) (auto simp: IpcProcessEvent_dereference_def bind_Some_iff Let_def dest!: dereference_same)
next
  case signal
  then show ?thesis
    by (intro ipi_inv_same [OF assms(2)]) (auto simp: IpcProcessEvent_signal_def bind_Some_iff)
next
  case (resume e t)
  then have "CpuList t = CpuList s \<and> Sends t = Sends s \<and> Targets t = Targets s \<and> PendingIpi t = PendingIpi s"
    by (auto simp: IpcWaitForEventHandling_def bind_Some_iff dest!: dereference_same)
  moreover have "unsent s' c = unsent s c" for c
    using resume calculation by (auto simp: unsent_def)
  ultimately show ?thesis
    using assms(2) resume by (auto simp: ipi_inv_def)
qed

lemma history_ipi_inv: "(ipc_step E False)\<^sup>*\<^sup>* s s' \<Longrightarrow> ipc_start s \<Longrightarrow> ipc_inv s' \<and> ipi_inv E s'"
proof (induction rule: rtranclp_induct)
  case base
  then show ?case
    using ipc_start_inv by (auto simp: ipc_start_def ipi_inv_def unsent_def)
next
  case (step t u)
  then show ?case
    using step_inv step_ipi_inv by blast
qed

end

lemma done_places:
  assumes "places_ok s e" and "called s e = set (Targets s e)"
  shows "todo s e = [] \<and> queued s e = {} \<and> at s Calling e = {}"
proof -
  have "set (todo s e) \<subseteq> called s e" "queued s e \<subseteq> called s e" "at s Calling e \<subseteq> called s e"
    using assms(1) unfolding assms(2) places_ok_def by auto
  moreover have "set (todo s e) \<inter> called s e = {}" "queued s e \<inter> called s e = {}" "at s Calling e \<inter> called s e = {}"
    using assms(1) by (simp_all add: places_ok_def)
  ultimately show ?thesis
    by (simp add: Int_absorb2)
qed

subsection \<open>Properties\<close>

text \<open>
  C33 (safety). However the CPUs interleave, the function of an event runs at most once on every CPU, only
  on the CPUs the event was sent to, and when the sender comes back from its wait or the event is
  freed, it has run on all of them. Nothing runs or frees an event twice, and an event that is freed
  is in no list and in the hands of no CPU.
\<close>

theorem ipc_runs_everywhere_once:
  assumes "ipc_contracts E" and "ipc_start s0" and "(ipc_step E migrates)\<^sup>*\<^sup>* s0 s"
  shows "distinct (IpcLog s) \<and>
    (\<forall>e c. RanFunction e c \<in> set (IpcLog s) \<longrightarrow> c \<in> set (Targets s e)) \<and>
    (\<forall>e c. c \<in> set (Targets s e) \<and> (WaitOver e \<in> set (IpcLog s) \<or> FreedEvent e \<in> set (IpcLog s)) \<longrightarrow>
       RanFunction e c \<in> set (IpcLog s)) \<and>
    (\<forall>e. FreedEvent e \<in> set (IpcLog s) \<longrightarrow> IpcEvents s e = None \<and>
       (\<forall>cpu \<in> set (CpuList s). e \<notin> set (EventList cpu)) \<and>
       (\<forall>c. Handlers s c \<notin> {Calling e, Dereferencing e, Signaling e}))"
proof -
  have inv: "ipc_inv s"
    using ipc_contracts.history_inv [OF assms(1,3,2)] .
  have gone: "unref s e = {} \<and> at s Signaling e = {} \<and> called s e = set (Targets s e) \<and> IpcEvents s e = None"
    if "WaitOver e \<in> set (IpcLog s) \<or> FreedEvent e \<in> set (IpcLog s)" for e
  proof -
    have refs: "refs_ok s e" and places: "places_ok s e"
      using inv by (simp_all add: ipc_inv_def)
    have "IpcEvents s e = None"
      using refs that by (cases "IpcEvents s e") (auto simp: refs_ok_def)
    moreover from this have "unref s e = {} \<and> at s Signaling e = {}"
      using refs by (simp add: refs_ok_def)
    ultimately show ?thesis
      using places by (auto simp: places_ok_def unref_def)
  qed
  have "e \<notin> set (EventList cpu)" if "unref s e = {}" and "cpu \<in> set (CpuList s)" for e cpu
    using that by (auto simp: unref_def queued_def in_set_conv_nth)
  moreover have "Handlers s c \<notin> {Calling e, Dereferencing e, Signaling e}" if "unref s e = {}" and "at s Signaling e = {}" for e c
    using that by (auto simp: unref_def at_def)
  moreover have "c \<in> set (Targets s e)" if "RanFunction e c \<in> set (IpcLog s)" for e c
  proof -
    have "called s e \<subseteq> set (Targets s e)"
      using inv by (auto simp: ipc_inv_def places_ok_def)
    then show ?thesis
      using that by (auto simp: called_def)
  qed
  moreover have "RanFunction e c \<in> set (IpcLog s)"
    if "c \<in> set (Targets s e)" and "WaitOver e \<in> set (IpcLog s) \<or> FreedEvent e \<in> set (IpcLog s)" for e c
    using gone [OF that(2)] that(1) by (auto simp: called_def)
  moreover have "distinct (IpcLog s)"
    using inv by (simp add: ipc_inv_def)
  ultimately show ?thesis
    using gone by blast
qed

text \<open>
  C34 (liveness). As long as senders are not moved to another CPU while they send, nothing gets stuck: a
  CPU that takes an IPI finds an event in its list, every piece of the service routine finds its event
  allocated, and once the function has run on all CPUs and these have given their references back, the
  sender that waits can go on.
\<close>

theorem ipc_never_stuck:
  assumes "ipc_contracts E" and "ipc_start s0" and "(ipc_step E False)\<^sup>*\<^sup>* s0 s"
  shows "(\<forall>c \<in> PendingIpi s. SmpIpcIpiIsr_remove c s \<noteq> None) \<and>
    (\<forall>c e. Handlers s c = Calling e \<longrightarrow> IpcProcessEvent_call e c s \<noteq> None) \<and>
    (\<forall>c e. Handlers s c = Dereferencing e \<longrightarrow> IpcProcessEvent_dereference E e s \<noteq> None) \<and>
    (\<forall>c e. Handlers s c = Signaling e \<longrightarrow> IpcProcessEvent_signal e s \<noteq> None) \<and>
    (\<forall>e. Sends s e = Some Waiting \<and>
      (\<forall>c \<in> set (Targets s e). RanFunction e c \<in> set (IpcLog s) \<and> Handlers s c \<notin> {Dereferencing e, Signaling e}) \<longrightarrow>
      IpcWaitForEventHandling E e s \<noteq> None)"
proof -
  have inv: "ipc_inv s" and ipi: "ipi_inv E s"
    using ipc_contracts.history_ipi_inv [OF assms(1,3,2)] by blast+
  have refs: "refs_ok s e" and places: "places_ok s e" for e
    using inv by (simp_all add: ipc_inv_def)
  have rfc: "rfc_contract (SmpRfc E)"
    using ipc_contracts.env_rfc [OF assms(1)] .
  have "SmpIpcIpiIsr_remove c s \<noteq> None" if "c \<in> PendingIpi s" for c
  proof -
    have c: "c < length (CpuList s)"
      using inv that by (auto simp: ipc_inv_def scope_ok_def)
    let ?l = "EventList (CpuList s ! c)"
    have "?l \<noteq> []"
      using ipi that c by (auto simp: ipi_inv_def)
    moreover have "length ?l < 2 ^ 32"
    proof -
      have lists: "distinct ?l" "finite (dom (IpcEvents s))" "card (dom (IpcEvents s)) < 2 ^ 32"
        using inv c by (simp_all add: ipc_inv_def lists_ok_def)
      have "x \<in> dom (IpcEvents s)" if "x \<in> set ?l" for x
        using refs [of x] that c by (cases "IpcEvents s x") (auto simp: refs_ok_def unref_def queued_def)
      then have "card (set ?l) \<le> card (dom (IpcEvents s))"
        using lists by (intro card_mono) auto
      then show ?thesis
        using lists by (simp add: distinct_card)
    qed
    moreover have "NoOfEventsInList (CpuList s ! c) = of_nat (length ?l)"
      using inv c by (simp add: ipc_inv_def lists_ok_def)
    ultimately have "0 < NoOfEventsInList (CpuList s ! c)"
      by (simp add: word_less_nat_alt unsigned_of_nat take_bit_nat_eq_self)
    then show ?thesis
      using \<open>?l \<noteq> []\<close> by (auto simp: SmpIpcIpiIsr_remove_def Let_def split: list.split)
  qed
  moreover have alive: "\<exists>ev. IpcEvents s e = Some ev \<and> EvRefCnt ev \<noteq> 0" if "Handlers s c \<in> {Calling e, Dereferencing e, Signaling e}" for c e
  proof -
    have "c \<in> unref s e \<union> at s Signaling e"
      using that by (auto simp: unref_def at_def)
    then show ?thesis
      using refs [of e] by (cases "IpcEvents s e") (auto simp: refs_ok_def)
  qed
  have "IpcProcessEvent_call e c s \<noteq> None" if "Handlers s c = Calling e" for c e
    using alive [of c e] that by (auto simp: IpcProcessEvent_call_def)
  moreover have "IpcProcessEvent_dereference E e s \<noteq> None" if "Handlers s c = Dereferencing e" for c e
    using alive [of c e] that IpcDereference_eq [OF rfc, of s e] by (auto simp: IpcProcessEvent_dereference_def)
  moreover have "IpcProcessEvent_signal e s \<noteq> None" if "Handlers s c = Signaling e" for c e
    using alive [of c e] that by (auto simp: IpcProcessEvent_signal_def)
  moreover have "IpcWaitForEventHandling E e s \<noteq> None" if w: "Sends s e = Some Waiting"
      and ran: "\<forall>c \<in> set (Targets s e). RanFunction e c \<in> set (IpcLog s) \<and> Handlers s c \<notin> {Dereferencing e, Signaling e}" for e
  proof -
    have "set (Targets s e) \<subseteq> called s e"
      using ran by (auto simp: called_def)
    then have all: "called s e = set (Targets s e)"
      using places [of e] unfolding places_ok_def by blast
    have "at s Dereferencing e \<subseteq> called s e" "at s Signaling e \<subseteq> called s e"
      using places [of e] unfolding places_ok_def by blast+
    then have hd: "Handlers s c = Dereferencing e \<or> Handlers s c = Signaling e \<Longrightarrow> c \<in> set (Targets s e)" for c
      unfolding all at_def by auto
    have "Handlers s c \<noteq> Dereferencing e \<and> Handlers s c \<noteq> Signaling e" for c
    proof (cases "c \<in> set (Targets s e)")
      case True
      then show ?thesis
        using bspec [OF ran True] by simp
    next
      case False
      then show ?thesis
        using hd [of c] by blast
    qed
    then have "at s Dereferencing e = {}" "at s Signaling e = {}"
      by (simp_all add: at_def)
    moreover have un: "unref s e = {}"
      using done_places [OF places all] calculation(1) by (simp add: unref_def)
    moreover have waits: "Waits s e"
      using refs [of e] w by (simp add: refs_ok_def)
    moreover obtain ev where ev: "IpcEvents s e = Some ev"
      using refs [of e] w waits by (cases "IpcEvents s e") (simp_all add: refs_ok_def)
    ultimately have "SignalTermination ev" "TerminationEvent ev" "EvRefCnt ev \<noteq> 0"
      using refs [of e] by (simp_all add: refs_ok_def)
    moreover note IpcDereference_eq [OF rfc, of "s\<lparr>IpcEvents := (IpcEvents s)(e \<mapsto> ev\<lparr>TerminationEvent := False\<rparr>)\<rparr>" e
      "ev\<lparr>TerminationEvent := False\<rparr>"]
    ultimately show ?thesis
      using ev by (simp add: IpcWaitForEventHandling_def)
  qed
  ultimately show ?thesis
    by blast
qed

subsection \<open>Runs\<close>

text \<open>The steps as functions, to evaluate runs. Events are sent with function 0.\<close>

datatype ipc_act =
    Send nat smp_ipi_send_mode byte bool
  | Queue nat
  | Notify nat byte
  | Interrupt nat
  | Call nat
  | Dereference nat
  | Signal nat
  | Resume nat

fun ipc_exec :: "smp_env \<Rightarrow> bool \<Rightarrow> ipc_act \<Rightarrow> ipc_system \<Rightarrow> ipc_system option" where
  "ipc_exec E migrates (Send me mode dest wait) s =
     (case SmpSendGenericIpiEx_prepare E True True (Some 0) 0 None 0 wait mode dest (ApicId (CpuList s ! me)) s of
        Some (st, Some (e, cpus), s') \<Rightarrow>
          if me < length (CpuList s) \<and> card (dom (IpcEvents s)) < 2 ^ 32 - 1
          then Some (s'\<lparr>Sends := (Sends s)(e \<mapsto> Queueing cpus wait mode dest (ApicId (CpuList s ! me))),
                        Targets := (Targets s)(e := cpus), Waits := (Waits s)(e := wait)\<rparr>)
          else None
      | _ \<Rightarrow> None)"
| "ipc_exec E migrates (Queue e) s =
     (case Sends s e of
        Some (Queueing (c # cs) wait mode dest me) \<Rightarrow> Some ((SmpQueueEvent e c s)\<lparr>Sends := (Sends s)(e \<mapsto> Queueing cs wait mode dest me)\<rparr>)
      | _ \<Rightarrow> None)"
| "ipc_exec E migrates (Notify e me') s =
     (case Sends s e of
        Some (Queueing [] wait mode dest me) \<Rightarrow>
          if migrates \<or> me' = me
          then Some (s\<lparr>PendingIpi := PendingIpi s \<union> ipi_receivers E mode dest me' s,
                       Sends := (Sends s)(e := if wait then Some Waiting else None)\<rparr>)
          else None
      | _ \<Rightarrow> None)"
| "ipc_exec E migrates (Interrupt c) s =
     (if c \<in> PendingIpi s \<and> Handlers s c = Idle
      then map_option (\<lambda>(e, s'). s'\<lparr>PendingIpi := PendingIpi s - {c}, Handlers := (Handlers s)(c := Calling e)\<rparr>) (SmpIpcIpiIsr_remove c s)
      else None)"
| "ipc_exec E migrates (Call c) s =
     (case Handlers s c of
        Calling e \<Rightarrow> map_option (\<lambda>s'. s'\<lparr>Handlers := (Handlers s)(c := Dereferencing e)\<rparr>) (IpcProcessEvent_call e c s)
      | _ \<Rightarrow> None)"
| "ipc_exec E migrates (Dereference c) s =
     (case Handlers s c of
        Dereferencing e \<Rightarrow> map_option (\<lambda>(signal, s'). s'\<lparr>Handlers := (Handlers s)(c := if signal then Signaling e else Idle)\<rparr>)
                             (IpcProcessEvent_dereference E e s)
      | _ \<Rightarrow> None)"
| "ipc_exec E migrates (Signal c) s =
     (case Handlers s c of
        Signaling e \<Rightarrow> map_option (\<lambda>s'. s'\<lparr>Handlers := (Handlers s)(c := Idle)\<rparr>) (IpcProcessEvent_signal e s)
      | _ \<Rightarrow> None)"
| "ipc_exec E migrates (Resume e) s =
     (if Sends s e = Some Waiting then map_option (\<lambda>s'. s'\<lparr>Sends := (Sends s)(e := None)\<rparr>) (IpcWaitForEventHandling E e s) else None)"

lemma ipc_exec_step:
  assumes "ipc_exec E migrates a s = Some s'"
  shows "ipc_step E migrates s s'"
proof (cases a)
  case (Notify e me')
  then obtain w m d me where q: "Sends s e = Some (Queueing [] w m d me)" "migrates \<or> me' = me"
      "s' = s\<lparr>PendingIpi := PendingIpi s \<union> ipi_receivers E m d me' s, Sends := (Sends s)(e := if w then Some Waiting else None)\<rparr>"
    using assms by (auto split: option.splits if_split_asm sender.splits list.splits)
  show ?thesis
    unfolding q(3) by (rule ipc_step.notify [OF q(1,2)])
next
  case (Dereference c)
  then show ?thesis
    using assms by (auto split: handler.splits intro: ipc_step.dereference)
qed (use assms in \<open>auto split: option.splits prod.splits if_splits sender.splits handler.splits list.splits intro: ipc_step.intros\<close>)

fun ipc_run :: "smp_env \<Rightarrow> bool \<Rightarrow> ipc_act list \<Rightarrow> ipc_system \<Rightarrow> ipc_system option" where
  "ipc_run E migrates [] s = Some s"
| "ipc_run E migrates (a # as) s = do { s \<leftarrow> ipc_exec E migrates a s; ipc_run E migrates as s }"

lemma ipc_run_steps: "ipc_run E migrates as s = Some s' \<Longrightarrow> (ipc_step E migrates)\<^sup>*\<^sup>* s s'"
  by (induction as arbitrary: s) (auto simp: bind_Some_iff intro: converse_rtranclp_into_rtranclp ipc_exec_step)

text \<open>Two CPUs.\<close>

definition cpu_example :: "byte \<Rightarrow> pcpu" where
  "cpu_example i = \<lparr>ApicId = i, LogicalApicId = push_bit (unat i) 1, EventList = [], NoOfEventsInList = 0\<rparr>"

definition ipc_example :: ipc_system where
  "ipc_example = \<lparr>CpuList = [cpu_example 0, cpu_example 1], IpcIpiVector = 0xE0, IpcEvents = (\<lambda>_. None), NextEvent = 0, IpcLog = [],
     Sends = (\<lambda>_. None), Handlers = (\<lambda>_. Idle), PendingIpi = {}, Targets = (\<lambda>_. []), Waits = (\<lambda>_. False)\<rparr>"

lemma ipc_example_start: "ipc_start ipc_example"
  by (simp add: ipc_start_def ipc_example_def cpu_example_def)

lemmas ipc_eval = SmpSendGenericIpiEx_prepare_def SmpRetrieveMatchingCpus_def SmpDoesCpuMatchDestination_def IpcGenerateEvent_def
  SmpQueueEvent_def ipi_receivers_def SmpSendIpcIpi_def SmpIpcIpiIsr_remove_def IpcProcessEvent_call_def
  IpcProcessEvent_dereference_def IpcDereference_def IpcFreeEvent_def IpcProcessEvent_signal_def IpcWaitForEventHandling_def
  smp_env_example_def receives_example_def rfc_ops_def cpu_example_def Let_def

lemma receivers_of_two: "{c. c < Suc (Suc 0) \<and> P c} = (if P 0 then {0} else {}) \<union> (if P (Suc 0) then {Suc 0} else {})"
proof -
  have two: "c < Suc (Suc 0) \<longleftrightarrow> c = 0 \<or> c = Suc 0" for c
    by auto
  show ?thesis
    unfolding two by auto (metis gr0I)
qed

lemma call_example:
  obtains s s' where "(ipc_step smp_env_example False)\<^sup>*\<^sup>* ipc_example s" and "1 \<in> PendingIpi s"
    and "(ipc_step smp_env_example False)\<^sup>*\<^sup>* ipc_example s'" and "IpcLog s' = [RanFunction 0 1, FreedEvent 0, WaitOver 0]"
    and "Targets s' 0 = [1]"
proof -
  let ?run = "[Send 0 SmpIpiSendToAllExcludingSelf 0 True, Queue 0, Notify 0 0]"
  have "\<exists>s. ipc_run smp_env_example False ?run ipc_example = Some s \<and> 1 \<in> PendingIpi s"
    by (simp add: ipc_eval ipc_example_def)
  moreover have "\<exists>s. ipc_run smp_env_example False (?run @ [Interrupt 1, Call 1, Dereference 1, Signal 1, Resume 0]) ipc_example = Some s \<and>
      IpcLog s = [RanFunction 0 1, FreedEvent 0, WaitOver 0] \<and> Targets s 0 = [1]"
    by (simp add: ipc_eval ipc_example_def)
  ultimately show thesis
    using that ipc_run_steps by meson
qed

lemma ipc_runs_everywhere_once_witness:
  "\<exists>s. (ipc_step smp_env_example False)\<^sup>*\<^sup>* ipc_example s \<and> WaitOver 0 \<in> set (IpcLog s) \<and> RanFunction 0 1 \<in> set (IpcLog s)"
proof (rule call_example)
  fix s
  assume s: "(ipc_step smp_env_example False)\<^sup>*\<^sup>* ipc_example s" "IpcLog s = [RanFunction 0 1, FreedEvent 0, WaitOver 0]"
    and t: "Targets s 0 = [1]"
  have "RanFunction 0 1 \<in> set (IpcLog s)"
    using ipc_runs_everywhere_once [OF ic.ipc_contracts_axioms ipc_example_start s(1), THEN conjunct2, THEN conjunct2, THEN conjunct1,
      THEN spec [of _ 0], THEN spec [of _ 1]] s(2) t by simp
  then show ?thesis
    using s by auto
qed

lemma ipc_never_stuck_witness:
  "\<exists>s. (ipc_step smp_env_example False)\<^sup>*\<^sup>* ipc_example s \<and> 1 \<in> PendingIpi s \<and> SmpIpcIpiIsr_remove 1 s \<noteq> None"
proof (rule call_example)
  fix s
  assume s: "(ipc_step smp_env_example False)\<^sup>*\<^sup>* ipc_example s" "1 \<in> PendingIpi s"
  then have "SmpIpcIpiIsr_remove 1 s \<noteq> None"
    using ipc_never_stuck [OF ic.ipc_contracts_axioms ipc_example_start s(1), THEN conjunct1] by blast
  then show ?thesis
    using s by blast
qed

text \<open>
  C35 (safety). The service routine takes one event for each interrupt, and two IPIs that arrive before the
  CPU serves the first one are one interrupt: the second event then stays in the list and its
  sender waits although no CPU has anything to do, until somebody sends yet another event.
\<close>

theorem merged_ipi_strands_event:
  "\<exists>s. (ipc_step smp_env_example False)\<^sup>*\<^sup>* ipc_example s \<and> Sends s 1 = Some Waiting \<and> EventList (CpuList s ! 1) = [1] \<and>
    PendingIpi s = {} \<and> (\<forall>c. Handlers s c = Idle) \<and>
    NextEvent ` {s'. ipc_step smp_env_example False s s'} \<subseteq> {Suc (NextEvent s)}"
proof -
  let ?run = "[Send 0 SmpIpiSendToAllExcludingSelf 0 True, Queue 0, Notify 0 0, Send 0 SmpIpiSendToAllExcludingSelf 0 True, Queue 1,
    Notify 1 0, Interrupt 1, Call 1, Dereference 1, Signal 1, Resume 0]"
  have "\<exists>s. ipc_run smp_env_example False ?run ipc_example = Some s \<and> Sends s = (\<lambda>_. None)(0 := None, 1 := Some Waiting) \<and>
      EventList (CpuList s ! 1) = [1] \<and> PendingIpi s = {} \<and> Handlers s = (\<lambda>_. Idle) \<and> length (CpuList s) < 2 ^ 31 \<and>
      map_option TerminationEvent (IpcEvents s 1) = Some False"
    by (simp add: ipc_eval ipc_example_def fun_eq_iff receivers_of_two)
  then obtain s where run: "ipc_run smp_env_example False ?run ipc_example = Some s"
    and s: "Sends s = (\<lambda>_. None)(1 := Some Waiting)" "EventList (CpuList s ! 1) = [1]" "PendingIpi s = {}" "Handlers s = (\<lambda>_. Idle)"
      "length (CpuList s) < 2 ^ 31" and ev: "map_option TerminationEvent (IpcEvents s 1) = Some False"
    by (auto simp: fun_upd_idem)
  have "NextEvent s' = Suc (NextEvent s)" if "ipc_step smp_env_example False s s'" for s'
    using that
  proof cases
    case (send la al f ctx ff fctx wait mode dest me st e cpus t)
    show ?thesis
      by (rule prepare_success [OF send(2) s(5) ic.env_rfc]) (simp add: send(1))
  qed (use s ev in \<open>auto simp: IpcWaitForEventHandling_def bind_Some_iff split: if_splits\<close>)
  then show ?thesis
    using ipc_run_steps [OF run] s by (intro exI [of _ s]) auto
qed

text \<open>
  If the sender is moved to another CPU while it sends to all CPUs but itself, the IPI reaches a CPU
  the event was not queued on, and the service routine of this CPU stops at its assertion.
\<close>

lemma migrating_sender_stops_cpu:
  "\<exists>s. (ipc_step smp_env_example True)\<^sup>*\<^sup>* ipc_example s \<and> 0 \<in> PendingIpi s \<and> SmpIpcIpiIsr_remove 0 s = None"
proof -
  let ?run = "[Send 0 SmpIpiSendToAllExcludingSelf 0 True, Queue 0, Notify 0 1]"
  have "\<exists>s. ipc_run smp_env_example True ?run ipc_example = Some s \<and> 0 \<in> PendingIpi s \<and> SmpIpcIpiIsr_remove 0 s = None"
    by (simp add: ipc_eval ipc_example_def)
  then show ?thesis
    using ipc_run_steps by blast
qed

end
