(* ===== verification/Devices.thy ===== *)
theory Devices
  imports CommonLib "HOL-Library.Multiset"
begin

text \<open>
  The device objects, their drivers and the requests (IRPs) that travel down a stack of attached devices
  (\<open>io_devices.c\<close>, and the lists of drivers and volumes kept by \<open>iomu.c\<close>).

  Objects live in a pool and are named by the number of their allocation. The routines of the drivers are
  not part of the kernel: a dispatch routine is an argument of the model that may call \<open>IoCallDriver\<close>,
  which it gets as a function. \<open>IoCallDriver\<close> counts the nesting of these calls down from a bound;
  the theory shows which bound is enough.
\<close>

subsection \<open>Data\<close>

datatype io_parameters =
    NoParameters
  | ReadWrite (RwLength: qword) (RwOffset: qword)
  | DeviceControl (IoControlCode: dword) (InputBufferLength: dword) (OutputBufferLength: dword) (OutputBuffer: qword)
  | QueryFile (QfLength: dword)
  | QueryDirectory (QdLength: dword)

record io_stack_location =
  MajorFunction :: byte
  MinorFunction :: byte
  Parameters :: io_parameters
  LocDeviceObject :: "nat option"
  LocFileObject :: "nat option"

record irp =
  CurrentStackLocation :: byte
  StackLocations :: "io_stack_location list"
  IrpBuffer :: qword
  IrpAsynchronous :: bool
  IrpCompleted :: bool
  IrpMdl :: "nat option"
  IoStatusStatus :: status
  IoStatusInformation :: qword

record device_object =
  DriverObject :: nat
  DeviceExtensionSize :: dword
  DeviceExtension :: "nat option"
  DeviceType :: nat
  StackSize :: byte
  DeviceAlignment :: qword
  AttachedDevice :: "nat option"
  DeviceVpb :: "nat option"
  DeviceLock :: bool

record driver_object =
  DriverName :: string
  DriverNameBlock :: nat
  DeviceList :: "nat list"
  NoOfDevices :: dword
  DispatchFunctions :: "byte \<Rightarrow> nat option"
  DriverExtension :: "nat option"

record vpb =
  VolumeLetter :: byte
  VolumeDevice :: nat
  VpbMounted :: bool
  VpbSwapSpace :: bool
  VpbFilesystemDevice :: "nat option"

text \<open>
  \<open>Pool\<close> are the blocks that are allocated, \<open>Mdls\<close> the descriptor lists that are in use. Drivers may
  extend the state by their own data.
\<close>

record io_system =
  Devices :: "nat \<Rightarrow> device_object option"
  Drivers :: "nat \<Rightarrow> driver_object option"
  Irps :: "nat \<Rightarrow> irp option"
  Vpbs :: "nat \<Rightarrow> vpb option"
  Mdls :: "nat set"
  DriverList :: "nat list"
  VpbList :: "nat list"
  CurrentVolumeLetter :: byte
  IoSystemDevice :: "nat option"
  Pool :: "nat set"
  Allocations :: nat

type_synonym 'a io_call = "nat \<Rightarrow> nat \<Rightarrow> 'a io_system_scheme \<Rightarrow> (status \<times> 'a io_system_scheme) option"

text \<open>
  What is outside: the library, the numbers of device types and functions, whether an allocation
  succeeds, and the dispatch routines of the drivers, each called with \<open>IoCallDriver\<close>, the device and
  the request.
\<close>

record 'a io_env =
  IoA :: addr_lib
  IoL :: list_lib
  InsertOrderedList :: "(nat \<Rightarrow> nat \<Rightarrow> int) \<Rightarrow> nat list \<Rightarrow> nat \<Rightarrow> nat list"
  ListSearchForElement :: "(nat \<Rightarrow> int) \<Rightarrow> nat list \<Rightarrow> nat option"
  DeviceTypeMin :: nat
  DeviceTypeMax :: nat
  DeviceTypeVolume :: nat
  DeviceTypeSystem :: nat
  IRP_MJ_CREATE :: byte
  IRP_MJ_CLOSE :: byte
  IRP_MJ_READ :: byte
  IRP_MJ_WRITE :: byte
  IRP_MJ_DEVICE_CONTROL :: byte
  IRP_MJ_QUERY_INFORMATION :: byte
  IRP_MJ_DIRECTORY_CONTROL :: byte
  PoolHas :: "nat \<Rightarrow> bool"
  DriverRoutine :: "nat \<Rightarrow> 'a io_call \<Rightarrow> 'a io_call"

definition put_device :: "nat \<Rightarrow> device_object \<Rightarrow> 'a io_system_scheme \<Rightarrow> 'a io_system_scheme" where
  "put_device d dev s = s\<lparr>Devices := (Devices s)(d \<mapsto> dev)\<rparr>"

definition put_driver :: "nat \<Rightarrow> driver_object \<Rightarrow> 'a io_system_scheme \<Rightarrow> 'a io_system_scheme" where
  "put_driver drv D s = s\<lparr>Drivers := (Drivers s)(drv \<mapsto> D)\<rparr>"

definition put_irp :: "nat \<Rightarrow> irp \<Rightarrow> 'a io_system_scheme \<Rightarrow> 'a io_system_scheme" where
  "put_irp i p s = s\<lparr>Irps := (Irps s)(i \<mapsto> p)\<rparr>"

subsection \<open>The pool\<close>

definition ExAllocatePoolWithTag :: "'a io_env \<Rightarrow> 'a io_system_scheme \<Rightarrow> nat option \<times> 'a io_system_scheme" where
  "ExAllocatePoolWithTag E s =
     (if PoolHas E (Allocations s)
      then (Some (Allocations s), s\<lparr>Pool := insert (Allocations s) (Pool s), Allocations := Suc (Allocations s)\<rparr>)
      else (None, s\<lparr>Allocations := Suc (Allocations s)\<rparr>))"

text \<open>Freeing a block that is not allocated destroys the pool, after which nothing is known.\<close>

definition ExFreePoolWithTag :: "nat \<Rightarrow> 'a io_system_scheme \<Rightarrow> 'a io_system_scheme option" where
  "ExFreePoolWithTag b s = do {
     ASSERT (b \<in> Pool s);
     Some (s\<lparr>Pool := Pool s - {b}\<rparr>)
   }"

subsection \<open>Volumes\<close>

text \<open>The letters are characters of the C library's standard encoding.\<close>

definition tolower :: "byte \<Rightarrow> byte" where
  "tolower c = (if 0x41 \<le> c \<and> c \<le> 0x5A then c + 0x20 else c)"

definition toupper :: "byte \<Rightarrow> byte" where
  "toupper c = (if 0x61 \<le> c \<and> c \<le> 0x7A then c - 0x20 else c)"

definition IomuGetNextVolumeLetter :: "'a io_system_scheme \<Rightarrow> (byte \<times> 'a io_system_scheme) option" where
  "IomuGetNextVolumeLetter s = do {
     let letter = CurrentVolumeLetter s + 1;
     ASSERT (letter \<le> 0x5A);
     Some (letter, s\<lparr>CurrentVolumeLetter := letter\<rparr>)
   }"

definition VpbCompareFunction :: "byte \<Rightarrow> byte \<Rightarrow> int" where
  "VpbCompareFunction FirstLetter SecondLetter = uint (tolower FirstLetter) - uint (tolower SecondLetter)"

definition letter_of :: "'a io_system_scheme \<Rightarrow> nat \<Rightarrow> byte" where
  "letter_of s v = (case Vpbs s v of Some vp \<Rightarrow> VolumeLetter vp | None \<Rightarrow> 0)"

definition IomuNewVpbCreated :: "'a io_env \<Rightarrow> nat \<Rightarrow> 'a io_system_scheme \<Rightarrow> 'a io_system_scheme option" where
  "IomuNewVpbCreated E v s = do {
     (letter, s) \<leftarrow> IomuGetNextVolumeLetter s;
     vp \<leftarrow> Vpbs s v;
     let s = s\<lparr>Vpbs := (Vpbs s)(v \<mapsto> vp\<lparr>VolumeLetter := letter\<rparr>)\<rparr>;
     Some (s\<lparr>VpbList := InsertOrderedList E (\<lambda>x y. VpbCompareFunction (letter_of s x) (letter_of s y)) (VpbList s) v\<rparr>)
   }"

definition IomuSearchForVpb :: "'a io_env \<Rightarrow> byte \<Rightarrow> 'a io_system_scheme \<Rightarrow> nat option" where
  "IomuSearchForVpb E DriveLetter s =
     ListSearchForElement E (\<lambda>x. VpbCompareFunction DriveLetter (letter_of s x)) (VpbList s)"

definition IoAllocateVpb :: "'a io_env \<Rightarrow> nat \<Rightarrow> 'a io_system_scheme \<Rightarrow> 'a io_system_scheme option" where
  "IoAllocateVpb E d s = do {
     dev \<leftarrow> Devices s d;
     ASSERT (DeviceType dev = DeviceTypeVolume E);
     let (vpb, s) = ExAllocatePoolWithTag E s;
     v \<leftarrow> vpb;
     let s = s\<lparr>Vpbs := (Vpbs s)(v \<mapsto> \<lparr>VolumeLetter = 0, VolumeDevice = d, VpbMounted = False, VpbSwapSpace = False,
               VpbFilesystemDevice = None\<rparr>)\<rparr>;
     IomuNewVpbCreated E v (put_device d (dev\<lparr>DeviceVpb := Some v\<rparr>) s)
   }"

subsection \<open>Devices and drivers\<close>

definition IoIsValidDeviceType :: "'a io_env \<Rightarrow> nat \<Rightarrow> bool" where
  "IoIsValidDeviceType E t \<longleftrightarrow> DeviceTypeMin E \<le> t \<and> t \<le> DeviceTypeMax E"

text \<open>The device with its extension, or nothing if one of the two cannot be allocated.\<close>

definition IoCreateDevice_allocate ::
  "'a io_env \<Rightarrow> dword \<Rightarrow> nat \<Rightarrow> 'a io_system_scheme \<Rightarrow> ((nat \<times> device_object) option \<times> 'a io_system_scheme) option" where
  "IoCreateDevice_allocate E ExtensionSize Type s = do {
     let (device, s) = ExAllocatePoolWithTag E s;
     case device of
       None \<Rightarrow> Some (None, s)
     | Some d \<Rightarrow> do {
         let (extension, s) = (if ExtensionSize \<noteq> 0 then ExAllocatePoolWithTag E s else (None, s));
         if ExtensionSize \<noteq> 0 \<and> extension = None then do {
           s \<leftarrow> ExFreePoolWithTag d s;
           Some (None, s)
         } else
           Some (Some (d, \<lparr>DriverObject = 0, DeviceExtensionSize = ExtensionSize, DeviceExtension = extension,
             DeviceType = Type, StackSize = 0, DeviceAlignment = 0, AttachedDevice = None, DeviceVpb = None,
             DeviceLock = False\<rparr>), s)
       }
   }"

definition IoCreateDevice ::
  "'a io_env \<Rightarrow> nat \<Rightarrow> dword \<Rightarrow> nat \<Rightarrow> 'a io_system_scheme \<Rightarrow> (nat option \<times> 'a io_system_scheme) option" where
  "IoCreateDevice E Driver ExtensionSize Type s = do {
     ASSERT (IoIsValidDeviceType E Type);
     (device, s) \<leftarrow> IoCreateDevice_allocate E ExtensionSize Type s;
     case device of
       None \<Rightarrow> Some (None, s)
     | Some (d, dev) \<Rightarrow> do {
         let s = put_device d dev s;
         s \<leftarrow> (if Type = DeviceTypeVolume E then IoAllocateVpb E d s else Some s);
         dev \<leftarrow> Devices s d;
         D \<leftarrow> Drivers s Driver;
         let s = put_driver Driver (D\<lparr>DeviceList := InsertTailList (IoL E) (DeviceList D) d, NoOfDevices := NoOfDevices D + 1\<rparr>) s;
         Some (Some d, put_device d (dev\<lparr>StackSize := 1, DeviceLock := False, DriverObject := Driver\<rparr>) s)
       }
   }"

definition IoGetDeviceExtension :: "nat \<Rightarrow> 'a io_system_scheme \<Rightarrow> nat option option" where
  "IoGetDeviceExtension d s = map_option DeviceExtension (Devices s d)"

definition IoDeleteDevice :: "'a io_env \<Rightarrow> nat \<Rightarrow> 'a io_system_scheme \<Rightarrow> 'a io_system_scheme option" where
  "IoDeleteDevice E d s = do {
     dev \<leftarrow> Devices s d;
     D \<leftarrow> Drivers s (DriverObject dev);
     let s = put_driver (DriverObject dev)
               (D\<lparr>DeviceList := RemoveEntryList (IoL E) (DeviceList D) d, NoOfDevices := NoOfDevices D - 1\<rparr>) s;
     s \<leftarrow> (if DeviceExtensionSize dev \<noteq> 0 then do {
             x \<leftarrow> DeviceExtension dev;
             ExFreePoolWithTag x s
           } else Some s);
     s \<leftarrow> ExFreePoolWithTag d s;
     Some (s\<lparr>Devices := (Devices s)(d := None)\<rparr>)
   }"

definition IomuDriverInstalled :: "'a io_env \<Rightarrow> nat \<Rightarrow> 'a io_system_scheme \<Rightarrow> 'a io_system_scheme" where
  "IomuDriverInstalled E drv s = s\<lparr>DriverList := InsertTailList (IoL E) (DriverList s) drv\<rparr>"

definition IoCreateDriver ::
  "'a io_env \<Rightarrow> string \<Rightarrow> (nat \<Rightarrow> 'a io_system_scheme \<Rightarrow> (status \<times> 'a io_system_scheme) option) \<Rightarrow> 'a io_system_scheme \<Rightarrow>
   (nat option \<times> 'a io_system_scheme) option" where
  "IoCreateDriver E Name DriverEntry s = do {
     let (driver, s) = ExAllocatePoolWithTag E s;
     case driver of
       None \<Rightarrow> Some (None, s)
     | Some drv \<Rightarrow> do {
         let (name, s) = ExAllocatePoolWithTag E s;
         case name of
           None \<Rightarrow> do {
             s \<leftarrow> ExFreePoolWithTag drv s;
             Some (None, s)
           }
         | Some nb \<Rightarrow> do {
             (status, s) \<leftarrow> DriverEntry drv (put_driver drv \<lparr>DriverName = Name, DriverNameBlock = nb, DeviceList = [],
                 NoOfDevices = 0, DispatchFunctions = (\<lambda>_. None), DriverExtension = None\<rparr> s);
             if SUCCEEDED status then Some (Some drv, IomuDriverInstalled E drv s)
             else do {
               s \<leftarrow> ExFreePoolWithTag nb s;
               s \<leftarrow> ExFreePoolWithTag drv s;
               Some (None, s\<lparr>Drivers := (Drivers s)(drv := None)\<rparr>)
             }
           }
       }
   }"

definition IoGetDriverExtension :: "nat \<Rightarrow> 'a io_system_scheme \<Rightarrow> nat option option" where
  "IoGetDriverExtension d s = do {
     dev \<leftarrow> Devices s d;
     D \<leftarrow> Drivers s (DriverObject dev);
     Some (DriverExtension D)
   }"

definition IoAttachDevice :: "nat \<Rightarrow> nat \<Rightarrow> 'a io_system_scheme \<Rightarrow> 'a io_system_scheme option" where
  "IoAttachDevice SourceDevice TargetDevice s = do {
     src \<leftarrow> Devices s SourceDevice;
     ASSERT (AttachedDevice src = None);
     let s = put_device SourceDevice (src\<lparr>AttachedDevice := Some TargetDevice\<rparr>) s;
     tgt \<leftarrow> Devices s TargetDevice;
     src \<leftarrow> Devices s SourceDevice;
     Some (put_device SourceDevice (src\<lparr>StackSize := StackSize tgt + 1\<rparr>) s)
   }"

text \<open>The driver of the system device (\<open>system_driver.c\<close>), and how \<open>iomu.c\<close> starts it.\<close>

definition SystemDriverEntry :: "'a io_env \<Rightarrow> nat \<Rightarrow> 'a io_system_scheme \<Rightarrow> (status \<times> 'a io_system_scheme) option" where
  "SystemDriverEntry E drv s = do {
     (dev, s) \<leftarrow> IoCreateDevice E drv 0 (DeviceTypeSystem E) s;
     ASSERT (dev \<noteq> None);
     Some (STATUS_SUCCESS, s)
   }"

definition IomuInitSystemDriver :: "'a io_env \<Rightarrow> 'a io_system_scheme \<Rightarrow> (status \<times> 'a io_system_scheme) option" where
  "IomuInitSystemDriver E s = do {
     (driver, s) \<leftarrow> IoCreateDriver E ''system.sys'' (SystemDriverEntry E) s;
     case driver of
       None \<Rightarrow> Some (STATUS_DEVICE_DRIVER_COULD_NOT_BE_CREATED, s)
     | Some drv \<Rightarrow> do {
         D \<leftarrow> Drivers s drv;
         ASSERT (NoOfDevices D = 1);
         ASSERT (DeviceList D \<noteq> []);
         Some (STATUS_SUCCESS, s\<lparr>IoSystemDevice := Some (hd (DeviceList D))\<rparr>)
       }
   }"

text \<open>The other drivers: name, entry and whether the system cannot do without.\<close>

fun IomuInitDrivers ::
  "'a io_env \<Rightarrow> (string \<times> (nat \<Rightarrow> 'a io_system_scheme \<Rightarrow> (status \<times> 'a io_system_scheme) option) \<times> bool) list \<Rightarrow>
   'a io_system_scheme \<Rightarrow> (status \<times> 'a io_system_scheme) option" where
  "IomuInitDrivers E [] s = Some (STATUS_SUCCESS, s)"
| "IomuInitDrivers E ((name, entry, mandatory) # ds) s = do {
     (driver, s) \<leftarrow> IoCreateDriver E name entry s;
     if driver = None \<and> mandatory then Some (STATUS_DEVICE_DRIVER_COULD_NOT_BE_CREATED, s)
     else IomuInitDrivers E ds s
   }"

fun IomuGetDriverByName_loop :: "string \<Rightarrow> 'a io_system_scheme \<Rightarrow> nat list \<Rightarrow> nat option option" where
  "IomuGetDriverByName_loop name s [] = Some None"
| "IomuGetDriverByName_loop name s (drv # ds) = do {
     D \<leftarrow> Drivers s drv;
     if DriverName D = name then Some (Some drv) else IomuGetDriverByName_loop name s ds
   }"

definition IomuGetDriverByName :: "string \<Rightarrow> 'a io_system_scheme \<Rightarrow> nat option option" where
  "IomuGetDriverByName name s = IomuGetDriverByName_loop name s (DriverList s)"

text \<open>
  Both passes of \<open>IomuGetDevicesByType\<close> over the drivers and their devices. The first counts, the second
  fills the array, whose end it must not pass.
\<close>

fun GetDevicesByType_devices ::
  "nat \<Rightarrow> bool \<Rightarrow> 'a io_system_scheme \<Rightarrow> nat list \<Rightarrow> dword \<times> nat list \<times> dword \<Rightarrow> (dword \<times> nat list \<times> dword) option" where
  "GetDevicesByType_devices t second s [] acc = Some acc"
| "GetDevicesByType_devices t second s (d # ds) (cnt, found, indexInArray) = do {
     dev \<leftarrow> Devices s d;
     if DeviceType dev = t
     then if \<not> second then GetDevicesByType_devices t second s ds (cnt + 1, found, indexInArray)
       else do {
         ASSERT (unat indexInArray < length found);
         GetDevicesByType_devices t second s ds (cnt, found[unat indexInArray := d], indexInArray + 1)
       }
     else GetDevicesByType_devices t second s ds (cnt, found, indexInArray)
   }"

fun GetDevicesByType_drivers ::
  "nat \<Rightarrow> bool \<Rightarrow> 'a io_system_scheme \<Rightarrow> nat list \<Rightarrow> dword \<times> nat list \<times> dword \<Rightarrow> (dword \<times> nat list \<times> dword) option" where
  "GetDevicesByType_drivers t second s [] acc = Some acc"
| "GetDevicesByType_drivers t second s (drv # ds) acc = do {
     D \<leftarrow> Drivers s drv;
     acc \<leftarrow> GetDevicesByType_devices t second s (DeviceList D) acc;
     GetDevicesByType_drivers t second s ds acc
   }"

text \<open>The answer: status, and with \<open>STATUS_SUCCESS\<close> the array (if any device was found) and its size.\<close>

definition IomuGetDevicesByType ::
  "'a io_env \<Rightarrow> nat \<Rightarrow> 'a io_system_scheme \<Rightarrow> (status \<times> (nat \<times> nat list) option \<times> dword \<times> 'a io_system_scheme) option" where
  "IomuGetDevicesByType E t s = do {
     (cnt, _, _) \<leftarrow> GetDevicesByType_drivers t False s (DriverList s) (0, [], 0);
     if cnt = 0 then Some (STATUS_SUCCESS, None, 0, s)
     else do {
       let (array, s) = ExAllocatePoolWithTag E s;
       case array of
         None \<Rightarrow> Some (STATUS_HEAP_NO_MORE_MEMORY, None, 0, s)
       | Some a \<Rightarrow> do {
           (cnt, found, indexInArray) \<leftarrow> GetDevicesByType_drivers t True s (DriverList s) (cnt, replicate (unat cnt) 0, 0);
           ASSERT (indexInArray = cnt);
           Some (STATUS_SUCCESS, Some (a, found), cnt, s)
         }
     }
   }"

definition IoGetDevicesByType ::
  "'a io_env \<Rightarrow> nat \<Rightarrow> 'a io_system_scheme \<Rightarrow> (status \<times> (nat \<times> nat list) option \<times> dword \<times> 'a io_system_scheme) option" where
  "IoGetDevicesByType E t s = do {
     ASSERT (IoIsValidDeviceType E t);
     IomuGetDevicesByType E t s
   }"

definition IoFreeTemporaryData :: "nat \<Rightarrow> 'a io_system_scheme \<Rightarrow> 'a io_system_scheme option" where
  "IoFreeTemporaryData Data s = ExFreePoolWithTag Data s"

subsection \<open>Requests\<close>

definition empty_location :: io_stack_location where
  "empty_location = \<lparr>MajorFunction = 0, MinorFunction = 0, Parameters = NoParameters, LocDeviceObject = None, LocFileObject = None\<rparr>"

definition IoAllocateIrp :: "'a io_env \<Rightarrow> byte \<Rightarrow> 'a io_system_scheme \<Rightarrow> (nat option \<times> 'a io_system_scheme) option" where
  "IoAllocateIrp E Size s = do {
     ASSERT (Size > 0);
     let (irp, s) = ExAllocatePoolWithTag E s;
     case irp of
       None \<Rightarrow> Some (None, s)
     | Some i \<Rightarrow> Some (Some i, put_irp i
         \<lparr>CurrentStackLocation = Size, StackLocations = replicate (unat Size) empty_location, IrpBuffer = 0,
          IrpAsynchronous = False, IrpCompleted = False, IrpMdl = None, IoStatusStatus = STATUS_SUCCESS,
          IoStatusInformation = 0\<rparr> s)
   }"

text \<open>\<open>MdlFree\<close> of the theory of descriptor lists; here a list is in use or not.\<close>

definition IoFreeMdl :: "nat \<Rightarrow> 'a io_system_scheme \<Rightarrow> 'a io_system_scheme option" where
  "IoFreeMdl m s = do {
     ASSERT (m \<in> Mdls s);
     Some (s\<lparr>Mdls := Mdls s - {m}\<rparr>)
   }"

text \<open>\<open>MdlAllocate\<close> gives a list that was not in use, or nothing: \<open>allocated\<close>.\<close>

definition IoAllocateMdl ::
  "nat option \<Rightarrow> qword \<Rightarrow> dword \<Rightarrow> nat option \<Rightarrow> bool \<Rightarrow> 'a io_system_scheme \<Rightarrow> (status \<times> nat option \<times> 'a io_system_scheme) option" where
  "IoAllocateMdl allocated VirtualAddress Length Irp MdlPointer s =
     (if VirtualAddress = 0 then Some (STATUS_INVALID_PARAMETER1, None, s)
      else if Length = 0 then Some (STATUS_INVALID_PARAMETER2, None, s)
      else if \<not> MdlPointer then Some (STATUS_INVALID_PARAMETER4, None, s)
      else case allocated of
        None \<Rightarrow> Some (STATUS_UNSUCCESSFUL, None, s)
      | Some m \<Rightarrow> do {
          let s = s\<lparr>Mdls := insert m (Mdls s)\<rparr>;
          s \<leftarrow> (case Irp of
                  None \<Rightarrow> Some s
                | Some i \<Rightarrow> do {
                    p \<leftarrow> Irps s i;
                    Some (put_irp i (p\<lparr>IrpMdl := Some m\<rparr>) s)
                  });
          Some (STATUS_SUCCESS, Some m, s)
        })"

definition IoFreeIrp :: "nat \<Rightarrow> 'a io_system_scheme \<Rightarrow> 'a io_system_scheme option" where
  "IoFreeIrp i s = do {
     p \<leftarrow> Irps s i;
     s \<leftarrow> (case IrpMdl p of None \<Rightarrow> Some s | Some m \<Rightarrow> IoFreeMdl m s);
     s \<leftarrow> ExFreePoolWithTag i s;
     Some (s\<lparr>Irps := (Irps s)(i := None)\<rparr>)
   }"

text \<open>A stack location is named by its index; reading behind the array of the request is not modelled.\<close>

definition IoGetCurrentIrpStackLocation :: "irp \<Rightarrow> nat option" where
  "IoGetCurrentIrpStackLocation p = do {
     ASSERT (CurrentStackLocation p \<noteq> MAX_BYTE);
     ASSERT (unat (CurrentStackLocation p) < length (StackLocations p));
     Some (unat (CurrentStackLocation p))
   }"

definition IoGetNextIrpStackLocation :: "irp \<Rightarrow> nat option" where
  "IoGetNextIrpStackLocation p = do {
     ASSERT (CurrentStackLocation p \<noteq> 0);
     ASSERT (unat (CurrentStackLocation p) - 1 < length (StackLocations p));
     Some (unat (CurrentStackLocation p) - 1)
   }"

definition IoCopyCurrentStackLocationToNext :: "irp \<Rightarrow> irp option" where
  "IoCopyCurrentStackLocationToNext p = do {
     let currentStackLocation = unat (CurrentStackLocation p);
     ASSERT (currentStackLocation \<noteq> 0);
     ASSERT (currentStackLocation < length (StackLocations p));
     Some (p\<lparr>StackLocations := (StackLocations p)[currentStackLocation - 1 := StackLocations p ! currentStackLocation]\<rparr>)
   }"

text \<open>
  The lock of a device is a mutex that is not recursive: the thread that holds it stops the system when
  it acquires it again, and another thread has to wait.
\<close>

definition DeviceLock_acquire :: "nat \<Rightarrow> 'a io_system_scheme \<Rightarrow> 'a io_system_scheme option" where
  "DeviceLock_acquire d s = do {
     dev \<leftarrow> Devices s d;
     ASSERT (\<not> DeviceLock dev);
     Some (put_device d (dev\<lparr>DeviceLock := True\<rparr>) s)
   }"

definition DeviceLock_release :: "nat \<Rightarrow> 'a io_system_scheme \<Rightarrow> 'a io_system_scheme option" where
  "DeviceLock_release d s = do {
     dev \<leftarrow> Devices s d;
     ASSERT (DeviceLock dev);
     Some (put_device d (dev\<lparr>DeviceLock := False\<rparr>) s)
   }"

text \<open>
  The check of length and offset. The parameters are a union: reading the lengths of a read or write
  from other parameters than these is not modelled, except that the zeroed union has zeros.
\<close>

definition ReadWrite_aligned :: "'a io_env \<Rightarrow> qword \<Rightarrow> io_stack_location \<Rightarrow> bool option" where
  "ReadWrite_aligned E Alignment loc =
     (if MajorFunction loc = IRP_MJ_READ E \<or> MajorFunction loc = IRP_MJ_WRITE E
      then case Parameters loc of
          ReadWrite len off \<Rightarrow> Some (IsAddressAligned (IoA E) len Alignment \<and> IsAddressAligned (IoA E) off Alignment)
        | NoParameters \<Rightarrow> Some (IsAddressAligned (IoA E) 0 Alignment)
        | _ \<Rightarrow> None
      else Some True)"

fun IoCallDriver :: "'a io_env \<Rightarrow> nat \<Rightarrow> 'a io_call" where
  "IoCallDriver E 0 Device Irp s = None"
| "IoCallDriver E (Suc n) Device Irp s = do {
     p \<leftarrow> Irps s Irp;
     ASSERT (CurrentStackLocation p \<noteq> 0);
     let p = p\<lparr>CurrentStackLocation := CurrentStackLocation p - 1\<rparr>;
     let s = put_irp Irp p s;
     k \<leftarrow> IoGetCurrentIrpStackLocation p;
     let loc = StackLocations p ! k;
     dev \<leftarrow> Devices s Device;
     aligned \<leftarrow> ReadWrite_aligned E (DeviceAlignment dev) loc;
     if \<not> aligned then Some (STATUS_DEVICE_ALIGNMENT_NO_SATISFIED, s)
     else do {
       D \<leftarrow> Drivers s (DriverObject dev);
       case DispatchFunctions D (MajorFunction loc) of
         None \<Rightarrow> Some (STATUS_DEVICE_INVALID_OPERATION, s)
       | Some f \<Rightarrow> do {
           s \<leftarrow> DeviceLock_acquire Device s;
           (status, s) \<leftarrow> DriverRoutine E f (IoCallDriver E n) Device Irp s;
           s \<leftarrow> DeviceLock_release Device s;
           Some (status, s)
         }
     }
   }"

text \<open>A request has at most 255 stack locations.\<close>

definition IO_DEPTH :: nat where
  "IO_DEPTH = 256"

definition IoCompleteIrp :: "nat \<Rightarrow> 'a io_system_scheme \<Rightarrow> 'a io_system_scheme option" where
  "IoCompleteIrp i s = do {
     p \<leftarrow> Irps s i;
     ASSERT (\<not> IrpCompleted p);
     Some (put_irp i (p\<lparr>IrpCompleted := True\<rparr>) s)
   }"

text \<open>The request of \<open>_IoReadWriteDevice\<close>, then the whole of it; the answer has the new length.\<close>

definition IoReadWriteDevice_request ::
  "'a io_env \<Rightarrow> irp \<Rightarrow> qword \<Rightarrow> qword \<Rightarrow> qword \<Rightarrow> bool \<Rightarrow> bool \<Rightarrow> irp option" where
  "IoReadWriteDevice_request E p Buffer Length Offset Write Asynchronous = do {
     k \<leftarrow> IoGetNextIrpStackLocation p;
     Some (p\<lparr>StackLocations := (StackLocations p)[k := (StackLocations p ! k)
               \<lparr>MajorFunction := if Write then IRP_MJ_WRITE E else IRP_MJ_READ E, Parameters := ReadWrite Length Offset\<rparr>],
             IrpBuffer := Buffer, IrpAsynchronous := Asynchronous\<rparr>)
   }"

definition IoReadWriteDevice ::
  "'a io_env \<Rightarrow> nat \<Rightarrow> qword \<Rightarrow> qword \<Rightarrow> qword \<Rightarrow> bool \<Rightarrow> bool \<Rightarrow> 'a io_system_scheme \<Rightarrow>
   (status \<times> qword \<times> 'a io_system_scheme) option" where
  "IoReadWriteDevice E d Buffer Length Offset Write Asynchronous s = do {
     ASSERT (Buffer \<noteq> 0);
     dev \<leftarrow> Devices s d;
     (irp, s) \<leftarrow> IoAllocateIrp E (StackSize dev) s;
     i \<leftarrow> irp;
     p \<leftarrow> Irps s i;
     p \<leftarrow> IoReadWriteDevice_request E p Buffer Length Offset Write Asynchronous;
     (status, s) \<leftarrow> IoCallDriver E IO_DEPTH d i (put_irp i p s);
     if \<not> SUCCEEDED status then do {
       s \<leftarrow> IoFreeIrp i s;
       Some (status, Length, s)
     } else do {
       p \<leftarrow> Irps s i;
       s \<leftarrow> IoFreeIrp i s;
       Some (IoStatusStatus p, IoStatusInformation p, s)
     }
   }"

definition IoReadDeviceEx ::
  "'a io_env \<Rightarrow> nat \<Rightarrow> qword \<Rightarrow> qword \<Rightarrow> qword \<Rightarrow> bool \<Rightarrow> 'a io_system_scheme \<Rightarrow> (status \<times> qword \<times> 'a io_system_scheme) option" where
  "IoReadDeviceEx E d Buffer Length Offset Asynchronous s = IoReadWriteDevice E d Buffer Length Offset False Asynchronous s"

definition IoWriteDeviceEx ::
  "'a io_env \<Rightarrow> nat \<Rightarrow> qword \<Rightarrow> qword \<Rightarrow> qword \<Rightarrow> bool \<Rightarrow> 'a io_system_scheme \<Rightarrow> (status \<times> qword \<times> 'a io_system_scheme) option" where
  "IoWriteDeviceEx E d Buffer Length Offset Asynchronous s = IoReadWriteDevice E d Buffer Length Offset True Asynchronous s"

definition IoBuildDeviceIoControlRequest ::
  "'a io_env \<Rightarrow> dword \<Rightarrow> nat \<Rightarrow> qword \<Rightarrow> dword \<Rightarrow> qword \<Rightarrow> dword \<Rightarrow> 'a io_system_scheme \<Rightarrow> (nat option \<times> 'a io_system_scheme) option" where
  "IoBuildDeviceIoControlRequest E Code d InputBuffer InputLength Output OutputLength s = do {
     dev \<leftarrow> Devices s d;
     (irp, s) \<leftarrow> IoAllocateIrp E (StackSize dev) s;
     case irp of
       None \<Rightarrow> Some (None, s)
     | Some i \<Rightarrow> do {
         p \<leftarrow> Irps s i;
         k \<leftarrow> IoGetNextIrpStackLocation p;
         Some (Some i, put_irp i (p\<lparr>StackLocations := (StackLocations p)[k := (StackLocations p ! k)
             \<lparr>MajorFunction := IRP_MJ_DEVICE_CONTROL E,
              Parameters := DeviceControl Code InputLength OutputLength Output\<rparr>], IrpBuffer := InputBuffer\<rparr>) s)
       }
   }"

subsection \<open>The nesting of calls\<close>

text \<open>
  A driver hands on its request if what it does depends on \<open>IoCallDriver\<close> only for this request, in states
  where the request has no more stack locations left than the driver got it with.
\<close>

definition same_calls :: "nat \<Rightarrow> nat \<Rightarrow> 'a io_call \<Rightarrow> 'a io_call \<Rightarrow> bool" where
  "same_calls c i f g \<longleftrightarrow> (\<forall>d s p. Irps s i = Some p \<longrightarrow> unat (CurrentStackLocation p) \<le> c \<longrightarrow> f d i s = g d i s)"

definition hands_on_requests :: "'a io_env \<Rightarrow> bool" where
  "hands_on_requests E \<longleftrightarrow> (\<forall>r f g d i s p. Irps s i = Some p \<longrightarrow> same_calls (unat (CurrentStackLocation p)) i f g \<longrightarrow>
     DriverRoutine E r f d i s = DriverRoutine E r g d i s)"

lemma hands_on_requestsD:
  "hands_on_requests E \<Longrightarrow> Irps s i = Some p \<Longrightarrow> same_calls (unat (CurrentStackLocation p)) i f g \<Longrightarrow>
   DriverRoutine E r f d i s = DriverRoutine E r g d i s"
  unfolding hands_on_requests_def by blast

lemma put_irp_simps [simp]:
  "Irps (put_irp i p s) j = (if j = i then Some p else Irps s j)"
  "Devices (put_irp i p s) = Devices s"
  "Drivers (put_irp i p s) = Drivers s"
  "Pool (put_irp i p s) = Pool s"
  "Mdls (put_irp i p s) = Mdls s"
  "put_irp i q (put_irp i p s) = put_irp i q s"
  by (simp_all add: put_irp_def)

lemma put_device_simps [simp]:
  "Devices (put_device d dev s) = (Devices s)(d \<mapsto> dev)"
  "Irps (put_device d dev s) = Irps s"
  "Drivers (put_device d dev s) = Drivers s"
  "Pool (put_device d dev s) = Pool s"
  "Vpbs (put_device d dev s) = Vpbs s"
  by (simp_all add: put_device_def)

lemma put_driver_simps [simp]:
  "Drivers (put_driver drv D s) = (Drivers s)(drv \<mapsto> D)"
  "Irps (put_driver drv D s) = Irps s"
  "Devices (put_driver drv D s) = Devices s"
  "Pool (put_driver drv D s) = Pool s"
  "Vpbs (put_driver drv D s) = Vpbs s"
  "Allocations (put_driver drv D s) = Allocations s"
  "Allocations (put_device d dev s) = Allocations s"
  "put_device d dev (put_device d dev' s) = put_device d dev s"
  by (simp_all add: put_driver_def put_device_def)

lemma DeviceLock_acquire_Irps: "DeviceLock_acquire d s = Some t \<Longrightarrow> Irps t = Irps s"
  by (auto simp: DeviceLock_acquire_def bind_Some_iff)

lemma unat_byte_pred: "(c :: byte) \<noteq> 0 \<Longrightarrow> unat (c - 1) = unat c - 1"
  by (simp add: unat_minus_one)

lemma IoCallDriver_depth:
  assumes "hands_on_requests E" and "Irps s i = Some p" and "unat (CurrentStackLocation p) < n" and "unat (CurrentStackLocation p) < m"
  shows "IoCallDriver E n d i s = IoCallDriver E m d i s"
  using assms(2-)
proof (induction "unat (CurrentStackLocation p)" arbitrary: n m d s p rule: less_induct)
  case less
  show ?case
  proof (cases "CurrentStackLocation p = 0")
    case True
    with less.prems show ?thesis
      by (cases n; cases m) simp_all
  next
    case False
    obtain n' m' where n: "n = Suc n'" "m = Suc m'"
      using less.prems by (cases n; cases m) auto
    define q where "q = p\<lparr>CurrentStackLocation := CurrentStackLocation p - 1\<rparr>"
    have c: "unat (CurrentStackLocation p) = Suc (unat (CurrentStackLocation q))"
      using False by (simp add: q_def unat_byte_pred unat_gt_0)
    have "same_calls (unat (CurrentStackLocation q)) i (IoCallDriver E n') (IoCallDriver E m')"
      unfolding same_calls_def
    proof (intro allI impI)
      fix e r and t :: "'a io_system_scheme"
      assume r: "Irps t i = Some r" "unat (CurrentStackLocation r) \<le> unat (CurrentStackLocation q)"
      show "IoCallDriver E n' e i t = IoCallDriver E m' e i t"
        by (rule less.hyps [OF _ r(1)]) (use r(2) less.prems c n in simp_all)
    qed
    then have "DriverRoutine E r (IoCallDriver E n') d i t = DriverRoutine E r (IoCallDriver E m') d i t"
      if "Irps t i = Some q" for r t
      using that by (intro hands_on_requestsD [OF assms(1)])
    then have same: "(DeviceLock_acquire d t \<bind> (\<lambda>t. DriverRoutine E r (IoCallDriver E n') d i t \<bind> F)) =
        (DeviceLock_acquire d t \<bind> (\<lambda>t. DriverRoutine E r (IoCallDriver E m') d i t \<bind> F))"
      if "Irps t i = Some q" for r t F
      using that by (cases "DeviceLock_acquire d t") (simp_all add: DeviceLock_acquire_Irps)
    have q: "Irps (put_irp i q s) i = Some q"
      by simp
    show ?thesis
      by (simp add: n less.prems(1) Let_def same [OF q, unfolded q_def] cong: if_cong option.case_cong)
  qed
qed

declare IoCallDriver.simps(2) [simp del]


subsection \<open>A stack of devices\<close>

text \<open>A dispatch routine that adapts a request by \<open>g\<close> and hands it on to the device below.\<close>

definition forward :: "(io_stack_location \<Rightarrow> io_stack_location) \<Rightarrow> 'a io_call \<Rightarrow> 'a io_call" where
  "forward g call d i s = do {
     p \<leftarrow> Irps s i;
     p \<leftarrow> IoCopyCurrentStackLocationToNext p;
     k \<leftarrow> IoGetNextIrpStackLocation p;
     let s = put_irp i (p\<lparr>StackLocations := (StackLocations p)[k := g (StackLocations p ! k)]\<rparr>) s;
     dev \<leftarrow> Devices s d;
     t \<leftarrow> AttachedDevice dev;
     call t i s
   }"

text \<open>The routine a device has for a request, if the request is aligned for it and the device is not locked.\<close>

definition accepts :: "'a io_env \<Rightarrow> 'a io_system_scheme \<Rightarrow> nat \<Rightarrow> io_stack_location \<Rightarrow> nat \<Rightarrow> bool" where
  "accepts E s d loc r \<longleftrightarrow> (\<exists>dev D. Devices s d = Some dev \<and> \<not> DeviceLock dev \<and>
     ReadWrite_aligned E (DeviceAlignment dev) loc = Some True \<and> Drivers s (DriverObject dev) = Some D \<and>
     DispatchFunctions D (MajorFunction loc) = Some r)"

text \<open>
  A stack of devices that hand a request on: each with its change of the request, at the bottom the
  device \<open>b\<close> with its routine \<open>r\<close>. The location a device gets is the one above it, changed.
\<close>

fun top_of :: "(nat \<times> (io_stack_location \<Rightarrow> io_stack_location)) list \<Rightarrow> nat \<Rightarrow> nat" where
  "top_of [] b = b"
| "top_of ((d, g) # ds) b = d"

fun hands_down ::
  "'a io_env \<Rightarrow> 'a io_system_scheme \<Rightarrow> (nat \<times> (io_stack_location \<Rightarrow> io_stack_location)) list \<Rightarrow> nat \<Rightarrow> nat \<Rightarrow>
   io_stack_location \<Rightarrow> bool" where
  "hands_down E s [] b r loc \<longleftrightarrow> accepts E s b loc r"
| "hands_down E s ((d, g) # ds) b r loc \<longleftrightarrow>
     (\<exists>f. accepts E s d loc f \<and> DriverRoutine E f = forward g) \<and>
     (\<exists>dev. Devices s d = Some dev \<and> AttachedDevice dev = Some (top_of ds b)) \<and> hands_down E s ds b r (g loc)"

text \<open>The request as the bottom device gets it, and the devices above it locked.\<close>

fun handed_down :: "(nat \<times> (io_stack_location \<Rightarrow> io_stack_location)) list \<Rightarrow> irp \<Rightarrow> irp" where
  "handed_down [] p = p\<lparr>CurrentStackLocation := CurrentStackLocation p - 1\<rparr>"
| "handed_down ((d, g) # ds) p =
     (let k = unat (CurrentStackLocation p) - 1
      in handed_down ds (p\<lparr>CurrentStackLocation := CurrentStackLocation p - 1,
           StackLocations := (StackLocations p)[k - 1 := g (StackLocations p ! k)]\<rparr>))"

definition lock_devices :: "nat set \<Rightarrow> 'a io_system_scheme \<Rightarrow> 'a io_system_scheme" where
  "lock_devices A s = s\<lparr>Devices := (\<lambda>d. if d \<in> A then map_option (DeviceLock_update (\<lambda>_. True)) (Devices s d) else Devices s d)\<rparr>"

lemma lock_devices_simps [simp]:
  "Irps (lock_devices A s) = Irps s"
  "Drivers (lock_devices A s) = Drivers s"
  "lock_devices {} s = s"
  by (simp_all add: lock_devices_def)

lemma lock_devices_apply [simp]:
  "Devices (lock_devices A s) = (\<lambda>d. if d \<in> A then map_option (DeviceLock_update (\<lambda>_. True)) (Devices s d) else Devices s d)"
  by (simp add: lock_devices_def)

lemma accepts_cong:
  "Devices s' d = Devices s d \<Longrightarrow> Drivers s' = Drivers s \<Longrightarrow> accepts E s' d loc r \<longleftrightarrow> accepts E s d loc r"
  by (simp add: accepts_def)

lemma hands_down_cong:
  assumes "\<And>d. d \<in> insert b (fst ` set ds) \<Longrightarrow> Devices s' d = Devices s d" and "Drivers s' = Drivers s"
  shows "hands_down E s' ds b r loc \<longleftrightarrow> hands_down E s ds b r loc"
  using assms(1)
proof (induction ds arbitrary: loc)
  case Nil
  then show ?case
    using assms(2) by (simp add: accepts_def)
next
  case (Cons x ds)
  obtain d g where [simp]: "x = (d, g)"
    by (cases x)
  have "hands_down E s' ds b r (g loc) \<longleftrightarrow> hands_down E s ds b r (g loc)"
  proof (rule Cons.IH)
    show "Devices s' e = Devices s e" if "e \<in> insert b (fst ` set ds)" for e
      using that by (intro Cons.prems) auto
  qed
  moreover have "Devices s' d = Devices s d"
    using Cons.prems [of d] by simp
  ultimately show ?case
    using assms(2) by (simp add: accepts_def)
qed

text \<open>One call of \<open>IoCallDriver\<close> for a request that the device accepts.\<close>

lemma IoCallDriver_accepts:
  assumes "Irps s i = Some p" and c: "CurrentStackLocation p \<noteq> 0" "unat (CurrentStackLocation p) \<le> length (StackLocations p)"
    and acc: "accepts E s d (StackLocations p ! (unat (CurrentStackLocation p) - 1)) r"
    and q: "q = p\<lparr>CurrentStackLocation := CurrentStackLocation p - 1\<rparr>"
    and run: "DriverRoutine E r (IoCallDriver E n) d i (put_irp i q (lock_devices {d} s)) = Some (st, t)"
    and dev: "Devices t = Devices (lock_devices {d} s)"
  shows "IoCallDriver E (Suc n) d i s = Some (st, t\<lparr>Devices := Devices s\<rparr>)"
proof -
  obtain D dv where D: "Devices s d = Some dv" "\<not> DeviceLock dv" "Drivers s (DriverObject dv) = Some D"
    and al: "ReadWrite_aligned E (DeviceAlignment dv) (StackLocations p ! (unat (CurrentStackLocation p) - 1)) = Some True"
    and r: "DispatchFunctions D (MajorFunction (StackLocations p ! (unat (CurrentStackLocation p) - 1))) = Some r"
    using acc by (auto simp: accepts_def)
  have k: "unat (CurrentStackLocation p - 1) = unat (CurrentStackLocation p) - 1"
    using c(1) by (rule unat_byte_pred)
  have "CurrentStackLocation p - 1 \<noteq> MAX_BYTE"
    using c(1) by simp
  then have cur: "IoGetCurrentIrpStackLocation q = Some (unat (CurrentStackLocation p) - 1)"
    using c k unat_gt_0 [of "CurrentStackLocation p"] by (simp add: IoGetCurrentIrpStackLocation_def q)
  have eq: "put_device d (dv\<lparr>DeviceLock := True\<rparr>) (put_irp i q s) = put_irp i q (lock_devices {d} s)"
    using D(1) by (simp add: put_device_def put_irp_def lock_devices_def fun_eq_iff)
  have "(Devices t)(d \<mapsto> dv\<lparr>DeviceLock := False\<rparr>) = Devices s"
    using D dev by (auto simp: fun_eq_iff)
  then show ?thesis
    using assms(1) c(1) D al r cur run eq dev
    by (simp add: IoCallDriver.simps(2) q Let_def DeviceLock_acquire_def DeviceLock_release_def put_device_def [of _ _ t])
qed

lemma lock_devices_put_irp: "lock_devices A (put_irp i p s) = put_irp i p (lock_devices A s)"
  by (cases s) (simp add: lock_devices_def put_irp_def cong: if_cong)

lemma lock_devices_twice: "lock_devices A (lock_devices B s) = lock_devices (A \<union> B) s"
  by (auto simp: lock_devices_def fun_eq_iff option.map_comp o_def)

lemma forward_step:
  assumes "Irps s i = Some q" and "CurrentStackLocation q \<noteq> 0" and "unat (CurrentStackLocation q) < length (StackLocations q)"
    and "Devices s d = Some dev" and "AttachedDevice dev = Some e"
  shows "forward g call d i s = call e i (put_irp i (q\<lparr>StackLocations := (StackLocations q)
    [unat (CurrentStackLocation q) - 1 := g (StackLocations q ! unat (CurrentStackLocation q))]\<rparr>) s)"
  using assms by (simp add: forward_def IoCopyCurrentStackLocationToNext_def IoGetNextIrpStackLocation_def Let_def unat_gt_0 less_imp_diff_less)

lemma hands_down_calls:
  assumes "Irps s i = Some p" and "length ds < unat (CurrentStackLocation p)"
    and "unat (CurrentStackLocation p) \<le> length (StackLocations p)"
    and "hands_down E s ds b r (StackLocations p ! (unat (CurrentStackLocation p) - 1))"
    and "distinct (map fst ds @ [b])" and "length ds < n"
    and "DriverRoutine E r (IoCallDriver E (n - Suc (length ds))) b i
      (put_irp i (handed_down ds p) (lock_devices (insert b (fst ` set ds)) s)) = Some (st, t)"
    and "Devices t = Devices (lock_devices (insert b (fst ` set ds)) s)"
  shows "IoCallDriver E n (top_of ds b) i s = Some (st, t\<lparr>Devices := Devices s\<rparr>)"
  using assms
proof (induction ds arbitrary: s p n)
  case Nil
  obtain n' where n: "n = Suc n'"
    using Nil.prems(6) by (cases n) auto
  have nz: "CurrentStackLocation p \<noteq> 0"
    using Nil.prems(2) by auto
  have acc: "accepts E s b (StackLocations p ! (unat (CurrentStackLocation p) - 1)) r"
    using Nil.prems(4) by simp
  have "IoCallDriver E (Suc n') b i s = Some (st, t\<lparr>Devices := Devices s\<rparr>)"
    by (rule IoCallDriver_accepts [OF Nil.prems(1) nz Nil.prems(3) acc refl]) (use Nil.prems(7,8) n in simp_all)
  then show ?case
    by (simp add: n)
next
  case (Cons x ds)
  obtain d g where x: "x = (d, g)"
    by (cases x)
  obtain n' where n: "n = Suc n'"
    using Cons.prems by (cases n) auto
  define q where "q = p\<lparr>CurrentStackLocation := CurrentStackLocation p - 1\<rparr>"
  define p2 where "p2 = q\<lparr>StackLocations := (StackLocations q)
    [unat (CurrentStackLocation q) - 1 := g (StackLocations q ! unat (CurrentStackLocation q))]\<rparr>"
  define s2 where "s2 = put_irp i p2 (lock_devices {d} s)"
  obtain f dev where acc: "accepts E s d (StackLocations p ! (unat (CurrentStackLocation p) - 1)) f"
    and f: "DriverRoutine E f = forward g"
    and dev: "Devices s d = Some dev" "AttachedDevice dev = Some (top_of ds b)"
    and down: "hands_down E s ds b r (g (StackLocations p ! (unat (CurrentStackLocation p) - 1)))"
    using Cons.prems(4) x by auto
  have nz: "CurrentStackLocation p \<noteq> 0"
    using Cons.prems(2) by auto
  then have k: "unat (CurrentStackLocation q) = unat (CurrentStackLocation p) - 1"
    by (simp add: q_def unat_byte_pred)
  then have q: "CurrentStackLocation q \<noteq> 0" "unat (CurrentStackLocation q) < length (StackLocations q)"
    using Cons.prems(2,3) by (auto simp: q_def)
  have p2: "handed_down (x # ds) p = handed_down ds p2"
    by (simp add: x p2_def q_def k [unfolded q_def, simplified] Let_def)
  have set: "lock_devices (insert b (fst ` set ds)) s2 = put_irp i p2 (lock_devices (insert b (fst ` set (x # ds))) s)"
    by (simp add: s2_def lock_devices_put_irp lock_devices_twice x insert_commute Un_commute)
  have other: "d \<noteq> b" "d \<notin> fst ` set ds"
    using Cons.prems(5) x by auto
  have "IoCallDriver E n' (top_of ds b) i s2 = Some (st, t\<lparr>Devices := Devices s2\<rparr>)"
  proof (rule Cons.IH)
    have "hands_down E s2 ds b r (g (StackLocations p ! (unat (CurrentStackLocation p) - 1)))"
      using down by (subst hands_down_cong [where s = s]) (use other in \<open>auto simp: s2_def\<close>)
    moreover have "StackLocations p2 ! (unat (CurrentStackLocation p2) - 1) = g (StackLocations p ! (unat (CurrentStackLocation p) - 1))"
      using q k by (simp add: p2_def q_def)
    ultimately show "hands_down E s2 ds b r (StackLocations p2 ! (unat (CurrentStackLocation p2) - 1))"
      by simp
    show "DriverRoutine E r (IoCallDriver E (n' - Suc (length ds))) b i
        (put_irp i (handed_down ds p2) (lock_devices (insert b (fst ` set ds)) s2)) = Some (st, t)"
      using Cons.prems(7) by (simp add: set p2 n)
    show "Devices t = Devices (lock_devices (insert b (fst ` set ds)) s2)"
      using Cons.prems(8) by (simp add: set)
  qed (use Cons.prems k n x in \<open>auto simp: s2_def p2_def q_def\<close>)
  moreover have "DriverRoutine E f (IoCallDriver E n') d i (put_irp i q (lock_devices {d} s)) = IoCallDriver E n' (top_of ds b) i s2"
    unfolding f s2_def p2_def using q dev
    by (subst forward_step [where q = q and dev = "dev\<lparr>DeviceLock := True\<rparr>" and e = "top_of ds b"]) simp_all
  ultimately have "IoCallDriver E (Suc n') d i s = Some (st, t\<lparr>Devices := Devices s2, Devices := Devices s\<rparr>)"
    by (intro IoCallDriver_accepts [OF Cons.prems(1) nz Cons.prems(3) acc q_def]) (simp_all add: s2_def)
  then show ?case
    by (simp add: n x)
qed

text \<open>The sizes of the stacks as \<open>IoAttachDevice\<close> sets them when each device is attached to a finished stack.\<close>

definition stack_sizes_ok :: "'a io_system_scheme \<Rightarrow> (nat \<times> (io_stack_location \<Rightarrow> io_stack_location)) list \<Rightarrow> nat \<Rightarrow> bool" where
  "stack_sizes_ok s ds b \<longleftrightarrow> (\<forall>dev. Devices s (top_of ds b) = Some dev \<longrightarrow> length ds < unat (StackSize dev))"

definition device_request :: "'a io_env \<Rightarrow> byte \<Rightarrow> qword \<Rightarrow> qword \<Rightarrow> qword \<Rightarrow> bool \<Rightarrow> bool \<Rightarrow> irp" where
  "device_request E Size Buffer Length Offset Write Asynchronous =
     \<lparr>CurrentStackLocation = Size,
      StackLocations = (replicate (unat Size) empty_location)[unat Size - 1 := empty_location
        \<lparr>MajorFunction := if Write then IRP_MJ_WRITE E else IRP_MJ_READ E, Parameters := ReadWrite Length Offset\<rparr>],
      IrpBuffer = Buffer, IrpAsynchronous = Asynchronous, IrpCompleted = False, IrpMdl = None,
      IoStatusStatus = STATUS_SUCCESS, IoStatusInformation = 0\<rparr>"

text \<open>A stack that is built from the bottom up by \<open>IoAttachDevice\<close>.\<close>

fun attach_all :: "(nat \<times> (io_stack_location \<Rightarrow> io_stack_location)) list \<Rightarrow> nat \<Rightarrow> 'a io_system_scheme \<Rightarrow> 'a io_system_scheme option" where
  "attach_all [] b s = Some s"
| "attach_all ((d, g) # ds) b s = do {
     s \<leftarrow> attach_all ds b s;
     IoAttachDevice d (top_of ds b) s
   }"

lemma top_of_in: "top_of ds b \<in> insert b (fst ` set ds)"
  by (cases "(ds, b)" rule: top_of.cases) auto

lemma attach_all_frame:
  "attach_all ds b s = Some t \<Longrightarrow> d \<notin> fst ` set ds \<Longrightarrow> Devices t d = Devices s d"
  by (induction ds b s arbitrary: t rule: attach_all.induct)
    (auto simp: bind_Some_iff IoAttachDevice_def Let_def split: if_splits)

lemma attach_all_size:
  assumes "attach_all ds b s = Some t" and "distinct (map fst ds @ [b])" and "Devices s b = Some db"
  shows "\<exists>dev. Devices t (top_of ds b) = Some dev \<and> StackSize dev = StackSize db + of_nat (length ds)"
  using assms
proof (induction ds arbitrary: t)
  case (Cons x ds)
  obtain d g where x: "x = (d, g)"
    by (cases x)
  obtain u where u: "attach_all ds b s = Some u" "IoAttachDevice d (top_of ds b) u = Some t"
    using Cons.prems(1) by (auto simp: x bind_Some_iff)
  obtain dev where dev: "Devices u (top_of ds b) = Some dev" "StackSize dev = StackSize db + of_nat (length ds)"
    using Cons.IH [OF u(1)] Cons.prems by auto
  have "d \<noteq> top_of ds b"
    using Cons.prems(2) top_of_in [of ds b] by (auto simp: x)
  with u(2) dev show ?case
    by (auto simp: x IoAttachDevice_def bind_Some_iff Let_def)
qed simp

lemma IoAllocateIrp_allocates:
  assumes "Size \<noteq> 0" and "PoolHas E (Allocations s)"
  shows "\<exists>s1. IoAllocateIrp E Size s = Some (Some (Allocations s), s1) \<and>
    put_irp (Allocations s) p s1 = put_irp (Allocations s) p
      (s\<lparr>Pool := insert (Allocations s) (Pool s), Allocations := Suc (Allocations s)\<rparr>) \<and>
    Irps s1 (Allocations s) = Some \<lparr>CurrentStackLocation = Size, StackLocations = replicate (unat Size) empty_location,
      IrpBuffer = 0, IrpAsynchronous = False, IrpCompleted = False, IrpMdl = None, IoStatusStatus = STATUS_SUCCESS,
      IoStatusInformation = 0\<rparr>"
  using assms by (simp add: IoAllocateIrp_def ExAllocatePoolWithTag_def Let_def word_neq_0_conv)

lemma IoReadWriteDevice_request_fresh:
  assumes "Size \<noteq> 0"
  shows "IoReadWriteDevice_request E \<lparr>CurrentStackLocation = Size, StackLocations = replicate (unat Size) empty_location,
      IrpBuffer = 0, IrpAsynchronous = False, IrpCompleted = False, IrpMdl = None, IoStatusStatus = STATUS_SUCCESS,
      IoStatusInformation = 0\<rparr> Buffer Length Offset Write Asynchronous =
    Some (device_request E Size Buffer Length Offset Write Asynchronous)"
proof -
  have "unat Size - 1 < unat Size"
    using assms by (simp add: unat_gt_0)
  then show ?thesis
    using assms by (simp add: IoReadWriteDevice_request_def IoGetNextIrpStackLocation_def device_request_def)
qed

lemma device_request_simps [simp]:
  "CurrentStackLocation (device_request E Size Buffer Length Offset Write Asynchronous) = Size"
  "length (StackLocations (device_request E Size Buffer Length Offset Write Asynchronous)) = unat Size"
  "IrpMdl (device_request E Size Buffer Length Offset Write Asynchronous) = None"
  "Size \<noteq> 0 \<Longrightarrow> StackLocations (device_request E Size Buffer Length Offset Write Asynchronous) ! (unat Size - Suc 0) =
    empty_location\<lparr>MajorFunction := if Write then IRP_MJ_WRITE E else IRP_MJ_READ E, Parameters := ReadWrite Length Offset\<rparr>"
  using unat_gt_0 [of Size] by (simp_all add: device_request_def)

text \<open>The bottom device answers a request with status \<open>st\<close> and leaves the objects of the devices alone.\<close>

definition answers ::
  "'a io_env \<Rightarrow> nat \<Rightarrow> nat \<Rightarrow> nat \<Rightarrow> 'a io_system_scheme \<Rightarrow> status \<Rightarrow> irp \<Rightarrow> 'a io_system_scheme \<Rightarrow> bool" where
  "answers E r b i s st q t \<longleftrightarrow> (\<forall>call. DriverRoutine E r call b i s = Some (st, t)) \<and> Devices t = Devices s \<and>
     Irps t i = Some q \<and> IrpMdl q = None \<and> i \<in> Pool t"

text \<open>
  C38 (functional). A read or write of the top device of a stack reaches the device at the bottom, changed by the devices
  on the way, with exactly one stack location for each of them; the caller gets the answer of the bottom
  device, every lock is released again and the request is freed.
\<close>

theorem stacked_request_reaches_bottom:
  fixes s :: "'a io_system_scheme"
  assumes attached: "attach_all ds b s0 = Some s" "Devices s0 b = Some db" "StackSize db = 1" "length ds < 255"
    and distinct: "distinct (map fst ds @ [b])"
    and down: "hands_down E s ds b r (empty_location\<lparr>MajorFunction := if Write then IRP_MJ_WRITE E else IRP_MJ_READ E,
      Parameters := ReadWrite Length Offset\<rparr>)"
    and alloc: "PoolHas E (Allocations s)" "Buffer \<noteq> 0"
    and k: "k = of_nat (Suc (length ds))"
    and sent: "sent = put_irp (Allocations s) (handed_down ds (device_request E k Buffer Length Offset Write Asynchronous))
      (lock_devices (insert b (fst ` set ds)) (s\<lparr>Pool := insert (Allocations s) (Pool s), Allocations := Suc (Allocations s)\<rparr>))"
    and answer: "answers E r b (Allocations s) sent st q t"
  shows "IoReadWriteDevice E (top_of ds b) Buffer Length Offset Write Asynchronous s =
    Some (if SUCCEEDED st then IoStatusStatus q else st, if SUCCEEDED st then IoStatusInformation q else Length,
      t\<lparr>Devices := Devices s, Pool := Pool t - {Allocations s}, Irps := (Irps t)(Allocations s := None)\<rparr>)"
proof -
  let ?i = "Allocations s" and ?p = "device_request E k Buffer Length Offset Write Asynchronous"
  let ?s = "s\<lparr>Pool := insert ?i (Pool s), Allocations := Suc ?i\<rparr>"
  obtain dev where dev: "Devices s (top_of ds b) = Some dev" "StackSize dev = k"
    using attach_all_size [OF attached(1) distinct attached(2)] attached(3) k by auto
  have n: "unat k = Suc (length ds)"
    unfolding k unat_of_nat using attached(4) by simp
  then have nz: "k \<noteq> 0"
    by auto
  obtain s1 where s1: "IoAllocateIrp E k s = Some (Some ?i, s1)" "put_irp ?i ?p s1 = put_irp ?i ?p ?s"
    "Irps s1 ?i = Some \<lparr>CurrentStackLocation = k, StackLocations = replicate (unat k) empty_location,
      IrpBuffer = 0, IrpAsynchronous = False, IrpCompleted = False, IrpMdl = None, IoStatusStatus = STATUS_SUCCESS,
      IoStatusInformation = 0\<rparr>"
    using IoAllocateIrp_allocates [OF nz alloc(1)] by blast
  have "IoCallDriver E IO_DEPTH (top_of ds b) ?i (put_irp ?i ?p ?s) =
      Some (st, t\<lparr>Devices := Devices (put_irp ?i ?p ?s)\<rparr>)"
  proof (rule hands_down_calls)
    show "hands_down E (put_irp ?i ?p ?s) ds b r (StackLocations ?p ! (unat (CurrentStackLocation ?p) - 1))"
      using down nz by (subst hands_down_cong [where s = s]) simp_all
    show "DriverRoutine E r (IoCallDriver E (IO_DEPTH - Suc (length ds))) b ?i
        (put_irp ?i (handed_down ds ?p) (lock_devices (insert b (fst ` set ds)) (put_irp ?i ?p ?s))) = Some (st, t)"
      using answer by (simp add: answers_def sent lock_devices_put_irp)
    show "Devices t = Devices (lock_devices (insert b (fst ` set ds)) (put_irp ?i ?p ?s))"
      using answer by (simp add: answers_def sent cong: if_cong)
  qed (use n attached(4) distinct in \<open>simp_all add: IO_DEPTH_def\<close>)
  then show ?thesis
    using answer alloc(2) dev s1 IoReadWriteDevice_request_fresh [OF nz, of E]
    by (simp add: IoReadWriteDevice_def IoFreeIrp_def ExFreePoolWithTag_def answers_def)
qed

text \<open>
  A read or write whose length or offset is no multiple of the alignment of the device does not
  reach its driver: the caller gets the error, and nothing but the number of allocations has changed.
\<close>

theorem misaligned_request_refused:
  assumes "Devices s d = Some dev" and "StackSize dev \<noteq> 0" and "PoolHas E (Allocations s)" and "Buffer \<noteq> 0"
    and "Irps s (Allocations s) = None" and "Allocations s \<notin> Pool s"
    and "\<not> IsAddressAligned (IoA E) Length (DeviceAlignment dev) \<or> \<not> IsAddressAligned (IoA E) Offset (DeviceAlignment dev)"
  shows "IoReadWriteDevice E d Buffer Length Offset Write Asynchronous s =
    Some (STATUS_DEVICE_ALIGNMENT_NO_SATISFIED, Length, s\<lparr>Allocations := Suc (Allocations s)\<rparr>)"
proof -
  let ?i = "Allocations s" and ?p = "device_request E (StackSize dev) Buffer Length Offset Write Asynchronous"
  let ?s = "s\<lparr>Pool := insert ?i (Pool s), Allocations := Suc ?i\<rparr>"
  let ?q = "?p\<lparr>CurrentStackLocation := StackSize dev - 1\<rparr>"
  obtain s1 where s1: "IoAllocateIrp E (StackSize dev) s = Some (Some ?i, s1)" "put_irp ?i ?p s1 = put_irp ?i ?p ?s"
    "Irps s1 ?i = Some \<lparr>CurrentStackLocation = StackSize dev, StackLocations = replicate (unat (StackSize dev)) empty_location,
      IrpBuffer = 0, IrpAsynchronous = False, IrpCompleted = False, IrpMdl = None, IoStatusStatus = STATUS_SUCCESS,
      IoStatusInformation = 0\<rparr>"
    using IoAllocateIrp_allocates [OF assms(2,3)] by blast
  have "StackSize dev - 1 \<noteq> MAX_BYTE" "unat (StackSize dev) - 1 < unat (StackSize dev)"
    using assms(2) by (simp_all add: unat_gt_0)
  then have loc: "IoGetCurrentIrpStackLocation ?q = Some (unat (StackSize dev) - 1)"
    and al: "ReadWrite_aligned E (DeviceAlignment dev) (StackLocations ?p ! (unat (StackSize dev) - 1)) = Some False"
    using assms(2,7) by (auto simp: IoGetCurrentIrpStackLocation_def unat_byte_pred ReadWrite_aligned_def)
  have depth: "IO_DEPTH = Suc 255"
    by (simp add: IO_DEPTH_def)
  have "IoCallDriver E IO_DEPTH d ?i (put_irp ?i ?p ?s) = Some (STATUS_DEVICE_ALIGNMENT_NO_SATISFIED, put_irp ?i ?q ?s)"
    unfolding depth IoCallDriver.simps(2) using assms(1,2) loc al by (simp add: Let_def)
  moreover have "IoFreeIrp ?i (put_irp ?i ?q ?s) = Some (s\<lparr>Allocations := Suc ?i\<rparr>)"
    using assms(5,6) by (cases s) (simp add: IoFreeIrp_def ExFreePoolWithTag_def put_irp_def fun_upd_idem)
  ultimately show ?thesis
    using assms(1,4) s1 IoReadWriteDevice_request_fresh [OF assms(2), of E]
    by (simp add: IoReadWriteDevice_def SUCCEEDED_def)
qed

subsection \<open>The contracts of the library\<close>

locale io_contracts = list_contract "IoL E" for E :: "'a io_env" +
  assumes InsertOrderedList_sorted:
      "sorted (map f q) \<Longrightarrow> sorted (map f (InsertOrderedList E (\<lambda>x y. f x - f y) q x))"
    and InsertOrderedList_mset:
      "mset (InsertOrderedList E c q x) = add_mset x (mset q)"
    and ListSearchForElement_Some:
      "sorted (map f q) \<Longrightarrow> ListSearchForElement E (\<lambda>x. k - f x) q = Some x \<Longrightarrow> x \<in> set q \<and> f x = k"
    and ListSearchForElement_None:
      "sorted (map f q) \<Longrightarrow> ListSearchForElement E (\<lambda>x. k - f x) q = None \<Longrightarrow> x \<in> set q \<Longrightarrow> f x \<noteq> k"

definition insert_ordered :: "(nat \<Rightarrow> nat \<Rightarrow> int) \<Rightarrow> nat list \<Rightarrow> nat \<Rightarrow> nat list" where
  "insert_ordered c q x = takeWhile (\<lambda>y. c y x \<le> 0) q @ x # dropWhile (\<lambda>y. c y x \<le> 0) q"

lemma insert_ordered_sorted:
  fixes f :: "nat \<Rightarrow> int"
  assumes "sorted (map f q)"
  shows "sorted (map f (insert_ordered (\<lambda>x y. f x - f y) q x))"
  using assms by (induction q) (auto simp: insert_ordered_def split: if_splits dest!: set_takeWhileD set_dropWhileD)

lemma insert_ordered_mset: "mset (insert_ordered c q x) = add_mset x (mset q)"
proof -
  have "mset (takeWhile P q) + mset (dropWhile P q) = mset q" for P
    by (simp flip: mset_append)
  then show ?thesis
    by (simp add: insert_ordered_def)
qed

definition partition_offset :: "io_stack_location \<Rightarrow> io_stack_location" where
  "partition_offset loc = (case Parameters loc of ReadWrite n off \<Rightarrow> loc\<lparr>Parameters := ReadWrite n (off + 0x2000)\<rparr> | _ \<Rightarrow> loc)"

definition complete_request :: "'a io_call" where
  "complete_request d i s = do {
     p \<leftarrow> Irps s i;
     Some (STATUS_SUCCESS, put_irp i (p\<lparr>IoStatusStatus := STATUS_SUCCESS,
       IoStatusInformation := (case Parameters (StackLocations p ! unat (CurrentStackLocation p)) of
         ReadWrite n off \<Rightarrow> off | _ \<Rightarrow> 0)\<rparr>) s)
   }"

definition io_env_example :: "unit io_env" where
  "io_env_example = \<lparr>IoA = addr_ops, IoL = list_ops, InsertOrderedList = insert_ordered,
     ListSearchForElement = (\<lambda>c q. find (\<lambda>x. c x = 0) q), DeviceTypeMin = 1, DeviceTypeMax = 8, DeviceTypeVolume = 3,
     DeviceTypeSystem = 1, IRP_MJ_CREATE = 0, IRP_MJ_CLOSE = 1, IRP_MJ_READ = 2, IRP_MJ_WRITE = 3,
     IRP_MJ_DEVICE_CONTROL = 4, IRP_MJ_QUERY_INFORMATION = 5, IRP_MJ_DIRECTORY_CONTROL = 6, PoolHas = (\<lambda>_. True),
     DriverRoutine = (\<lambda>r call. if r = 0 then forward partition_offset call else complete_request)\<rparr>"

interpretation iox: io_contracts io_env_example
proof unfold_locales
  fix f :: "nat \<Rightarrow> int" and k and q and x :: nat
  assume "ListSearchForElement io_env_example (\<lambda>x. k - f x) q = Some x"
  then show "x \<in> set q \<and> f x = k"
    by (auto simp: io_env_example_def find_Some_iff)
qed (auto simp: io_env_example_def list_ops_def insert_ordered_sorted insert_ordered_mset find_None_iff remove1_idem)

subsection \<open>Well-typed states\<close>

text \<open>The blocks of the pool by what they hold.\<close>

datatype block_owner =
    ADevice nat
  | AnExtension nat
  | ADriver nat
  | AName nat
  | AVpb nat
  | AnIrp nat

fun owned :: "'a io_system_scheme \<Rightarrow> block_owner \<Rightarrow> nat option" where
  "owned s (ADevice d) = map_option (\<lambda>_. d) (Devices s d)"
| "owned s (AnExtension d) = Option.bind (Devices s d) DeviceExtension"
| "owned s (ADriver drv) = map_option (\<lambda>_. drv) (Drivers s drv)"
| "owned s (AName drv) = map_option DriverNameBlock (Drivers s drv)"
| "owned s (AVpb v) = map_option (\<lambda>_. v) (Vpbs s v)"
| "owned s (AnIrp i) = map_option (\<lambda>_. i) (Irps s i)"

definition pool_typed :: "'a io_system_scheme \<Rightarrow> bool" where
  "pool_typed s \<longleftrightarrow> (\<forall>x y b. owned s x = Some b \<longrightarrow> owned s y = Some b \<longrightarrow> x = y) \<and>
     (\<forall>x b. owned s x = Some b \<longrightarrow> b \<in> Pool s) \<and> (\<forall>b \<in> Pool s. b < Allocations s)"

definition device_typed :: "'a io_env \<Rightarrow> 'a io_system_scheme \<Rightarrow> nat \<Rightarrow> device_object \<Rightarrow> bool" where
  "device_typed E s d dev \<longleftrightarrow> IoIsValidDeviceType E (DeviceType dev) \<and>
     (DeviceExtension dev = None \<longleftrightarrow> DeviceExtensionSize dev = 0) \<and>
     (DeviceVpb dev = None \<longleftrightarrow> DeviceType dev \<noteq> DeviceTypeVolume E) \<and>
     (\<exists>D. Drivers s (DriverObject dev) = Some D \<and> d \<in> set (DeviceList D))"

definition driver_typed :: "'a io_system_scheme \<Rightarrow> nat \<Rightarrow> driver_object \<Rightarrow> bool" where
  "driver_typed s drv D \<longleftrightarrow> distinct (DeviceList D) \<and> NoOfDevices D = of_nat (length (DeviceList D)) \<and>
     (\<forall>d \<in> set (DeviceList D). \<exists>dev. Devices s d = Some dev \<and> DriverObject dev = drv)"

definition volume_key :: "'a io_system_scheme \<Rightarrow> nat \<Rightarrow> int" where
  "volume_key s v = uint (tolower (letter_of s v))"

definition volumes_typed :: "'a io_system_scheme \<Rightarrow> bool" where
  "volumes_typed s \<longleftrightarrow> sorted (map (volume_key s) (VpbList s)) \<and> distinct (map (volume_key s) (VpbList s)) \<and>
     0x42 \<le> CurrentVolumeLetter s \<and> CurrentVolumeLetter s \<le> 0x5A \<and>
     (\<forall>v \<in> set (VpbList s). Vpbs s v \<noteq> None \<and> 0x43 \<le> letter_of s v \<and> letter_of s v \<le> CurrentVolumeLetter s)"

definition io_typed :: "'a io_env \<Rightarrow> 'a io_system_scheme \<Rightarrow> bool" where
  "io_typed E s \<longleftrightarrow> pool_typed s \<and> volumes_typed s \<and> (\<forall>d dev. Devices s d = Some dev \<longrightarrow> device_typed E s d dev) \<and>
     (\<forall>drv D. Drivers s drv = Some D \<longrightarrow> driver_typed s drv D)"

text \<open>What an operation does to the pool: blocks get new owners or are released with their owners.\<close>

lemma pool_typed_insert:
  assumes "pool_typed s" and "owned s' = (owned s)(x := Some b)" and "\<forall>y. owned s y \<noteq> Some b"
    and "Pool s' = insert b (Pool s)" and "b < Allocations s'" and "Allocations s \<le> Allocations s'"
  shows "pool_typed s'"
  using assms unfolding pool_typed_def by (auto simp: order_less_le_trans split: if_splits)

lemma pool_typed_same:
  assumes "pool_typed s" and "owned s' = owned s" and "Pool s' = Pool s" and "Allocations s \<le> Allocations s'"
  shows "pool_typed s'"
  using assms unfolding pool_typed_def by (auto simp: order_less_le_trans)

lemma pool_typed_release:
  assumes "pool_typed s" and "owned s x = Some b" and "owned s' = (owned s)(x := None)" and "Pool s' = Pool s - {b}"
    and "Allocations s \<le> Allocations s'"
  shows "pool_typed s'"
  using assms unfolding pool_typed_def by (auto simp: order_less_le_trans split: if_splits)

lemma pool_typed_owned: "pool_typed s \<Longrightarrow> owned s x = Some b \<Longrightarrow> b \<in> Pool s"
  by (simp add: pool_typed_def)

lemma pool_typed_fresh: "pool_typed s \<Longrightarrow> Allocations s \<le> b \<Longrightarrow> owned s x \<noteq> Some b"
  by (meson leD pool_typed_def)

text \<open>The owners only depend on the objects.\<close>

lemma owned_cong:
  assumes "Devices s' = Devices s" "Drivers s' = Drivers s" "Vpbs s' = Vpbs s" "Irps s' = Irps s"
  shows "owned s' = owned s"
proof
  show "owned s' x = owned s x" for x
    using assms by (cases x) simp_all
qed

lemma owned_device:
  assumes "Devices s' = (Devices s)(d := v)" and "Drivers s' = Drivers s" "Vpbs s' = Vpbs s" "Irps s' = Irps s"
  shows "owned s' = (owned s)(ADevice d := map_option (\<lambda>_. d) v, AnExtension d := Option.bind v DeviceExtension)"
proof
  show "owned s' x = ((owned s)(ADevice d := map_option (\<lambda>_. d) v, AnExtension d := Option.bind v DeviceExtension)) x" for x
    using assms by (cases x) simp_all
qed

lemma owned_driver:
  assumes "Drivers s' = (Drivers s)(drv := v)" and "Devices s' = Devices s" "Vpbs s' = Vpbs s" "Irps s' = Irps s"
  shows "owned s' = (owned s)(ADriver drv := map_option (\<lambda>_. drv) v, AName drv := map_option DriverNameBlock v)"
proof
  show "owned s' x = ((owned s)(ADriver drv := map_option (\<lambda>_. drv) v, AName drv := map_option DriverNameBlock v)) x" for x
    using assms by (cases x) simp_all
qed

lemma owned_irp:
  assumes "Irps s' = (Irps s)(i := v)" and "Devices s' = Devices s" "Vpbs s' = Vpbs s" "Drivers s' = Drivers s"
  shows "owned s' = (owned s)(AnIrp i := map_option (\<lambda>_. i) v)"
proof
  show "owned s' x = ((owned s)(AnIrp i := map_option (\<lambda>_. i) v)) x" for x
    using assms by (cases x) simp_all
qed

lemma owned_vpb:
  assumes "Vpbs s' = (Vpbs s)(i := v)" and "Devices s' = Devices s" "Irps s' = Irps s" "Drivers s' = Drivers s"
  shows "owned s' = (owned s)(AVpb i := map_option (\<lambda>_. i) v)"
proof
  show "owned s' x = ((owned s)(AVpb i := map_option (\<lambda>_. i) v)) x" for x
    using assms by (cases x) simp_all
qed

text \<open>Typing of what is left alone.\<close>

lemma volumes_typed_cong:
  "VpbList s' = VpbList s \<Longrightarrow> Vpbs s' = Vpbs s \<Longrightarrow> CurrentVolumeLetter s' = CurrentVolumeLetter s \<Longrightarrow>
   volumes_typed s' \<longleftrightarrow> volumes_typed s"
  by (simp add: volumes_typed_def volume_key_def letter_of_def cong: map_cong)

lemma pool_typedI:
  assumes "\<And>x y b. owned s x = Some b \<Longrightarrow> owned s y = Some b \<Longrightarrow> x = y" and "\<And>x b. owned s x = Some b \<Longrightarrow> b \<in> Pool s"
    and "\<And>b. b \<in> Pool s \<Longrightarrow> b < Allocations s"
  shows "pool_typed s"
  using assms unfolding pool_typed_def by blast

lemma pool_typed_inj: "pool_typed s \<Longrightarrow> owned s x = Some b \<Longrightarrow> owned s y = Some b \<Longrightarrow> x = y"
  unfolding pool_typed_def by blast

lemma pool_typed_less: "pool_typed s \<Longrightarrow> b \<in> Pool s \<Longrightarrow> b < Allocations s"
  unfolding pool_typed_def by blast

lemma io_typedI:
  assumes "pool_typed s" and "volumes_typed s" and "\<And>d dev. Devices s d = Some dev \<Longrightarrow> device_typed E s d dev"
    and "\<And>drv D. Drivers s drv = Some D \<Longrightarrow> driver_typed s drv D"
  shows "io_typed E s"
  using assms unfolding io_typed_def by blast

lemma io_typedD:
  assumes "io_typed E s"
  shows "pool_typed s" and "volumes_typed s" and "Devices s d = Some dev \<Longrightarrow> device_typed E s d dev"
    and "Drivers s drv = Some D \<Longrightarrow> driver_typed s drv D"
  using assms unfolding io_typed_def by blast+

definition unowned :: "'a io_system_scheme \<Rightarrow> nat \<Rightarrow> bool" where
  "unowned s b \<longleftrightarrow> b \<in> Pool s \<and> b < Allocations s \<and> (\<forall>y. owned s y \<noteq> Some b)"

lemma unownedD: "unowned s b \<Longrightarrow> b \<in> Pool s" "unowned s b \<Longrightarrow> b < Allocations s" "unowned s b \<Longrightarrow> owned s y \<noteq> Some b"
  by (simp_all add: unowned_def)

lemma io_typed_cong:
  assumes "io_typed E s" and "Devices s' = Devices s" "Drivers s' = Drivers s" "Vpbs s' = Vpbs s" "Irps s' = Irps s"
    "VpbList s' = VpbList s" "CurrentVolumeLetter s' = CurrentVolumeLetter s" and "pool_typed s'"
  shows "io_typed E s'"
proof (rule io_typedI)
  show "volumes_typed s'"
    using io_typedD(2) [OF assms(1)] volumes_typed_cong [of s' s] assms by simp
  show "device_typed E s' d dev" if "Devices s' d = Some dev" for d dev
    using io_typedD(3) [OF assms(1)] that assms by (simp add: device_typed_def)
  show "driver_typed s' drv D" if "Drivers s' drv = Some D" for drv D
    using io_typedD(4) [OF assms(1)] that assms by (simp add: driver_typed_def)
qed (rule assms)

lemma ExAllocatePoolWithTag_typed:
  assumes "io_typed E s" and "ExAllocatePoolWithTag F s = (r, t)"
  shows "io_typed E t" and "owned t = owned s" and "Devices t = Devices s" and "Drivers t = Drivers s"
    and "r = Some b \<Longrightarrow> unowned t b" and "r = Some b \<Longrightarrow> b \<notin> Pool s" and "unowned s c \<Longrightarrow> unowned t c"
    and "VpbList t = VpbList s" and "Vpbs t = Vpbs s" and "Irps t = Irps s" and "CurrentVolumeLetter t = CurrentVolumeLetter s"
proof -
  have t: "t = s\<lparr>Pool := Pool t, Allocations := Allocations t\<rparr>"
    and P: "Pool t = (if r = None then Pool s else insert (Allocations s) (Pool s))" "Allocations t = Suc (Allocations s)"
    and r: "r = Some b \<Longrightarrow> b = Allocations s" for b
    using assms(2) by (auto simp: ExAllocatePoolWithTag_def split: if_splits)
  show same: "Devices t = Devices s" "Drivers t = Drivers s" "VpbList t = VpbList s" "Vpbs t = Vpbs s" "Irps t = Irps s"
    "CurrentVolumeLetter t = CurrentVolumeLetter s"
    by (subst t, simp)+
  then show ow: "owned t = owned s"
    by (intro owned_cong)
  note pt = io_typedD(1) [OF assms(1)]
  have "pool_typed t"
  proof (rule pool_typedI)
    show "x = y" if "owned t x = Some b" "owned t y = Some b" for x y b
      using that by (simp add: ow pool_typed_inj [OF pt])
    show "b \<in> Pool t" if "owned t x = Some b" for x b
      using pool_typed_owned [OF pt, of x b] that by (simp add: ow P)
    show "b < Allocations t" if "b \<in> Pool t" for b
      using pool_typed_less [OF pt, of b] that by (auto simp: P split: if_splits)
  qed
  with same show "io_typed E t"
    by (intro io_typed_cong [OF assms(1)])
  show "unowned t b" if "r = Some b"
    using pool_typed_fresh [OF pt order_refl] r [OF that] P that by (simp add: unowned_def ow)
  show "b \<notin> Pool s" if "r = Some b"
    using pool_typed_less [OF pt, of b] r [OF that] by auto
  show "unowned s c \<Longrightarrow> unowned t c"
    using P by (auto simp: unowned_def ow)
qed

lemma ExFreePoolWithTag_typed:
  assumes "io_typed E s" and "unowned s b" and "ExFreePoolWithTag b s = Some t"
  shows "io_typed E t"
proof -
  have t: "t = s\<lparr>Pool := Pool s - {b}\<rparr>"
    using assms(3) by (simp add: ExFreePoolWithTag_def)
  have ow: "owned t = owned s"
    by (rule owned_cong) (simp_all add: t)
  note pt = io_typedD(1) [OF assms(1)]
  have "pool_typed t"
  proof (rule pool_typedI)
    show "x = y" if "owned t x = Some b" "owned t y = Some b" for x y b
      using that by (simp add: ow pool_typed_inj [OF pt])
    show "c \<in> Pool t" if "owned t x = Some c" for x c
      using pool_typed_owned [OF pt, of x c] that [unfolded ow] unownedD(3) [OF assms(2), of x] by (auto simp: t)
    show "c < Allocations t" if "c \<in> Pool t" for c
      using pool_typed_less [OF pt, of c] that by (simp add: t)
  qed
  then show ?thesis
    by (intro io_typed_cong [OF assms(1)]) (simp_all add: t)
qed

text \<open>Changing the fields of an object that the types do not speak of.\<close>

lemma put_device_typed:
  assumes "io_typed E s" and "Devices s d = Some dev"
    and "DriverObject dev' = DriverObject dev" "DeviceExtension dev' = DeviceExtension dev"
      "DeviceExtensionSize dev' = DeviceExtensionSize dev" "DeviceType dev' = DeviceType dev" "DeviceVpb dev' = DeviceVpb dev"
  shows "io_typed E (put_device d dev' s)"
proof (rule io_typedI)
  let ?s = "put_device d dev' s"
  have "owned ?s = (owned s)(ADevice d := Some d, AnExtension d := DeviceExtension dev)"
    using owned_device [of ?s s d "Some dev'"] assms by (simp add: put_device_def)
  then have "owned ?s = owned s"
    using assms(2) by (simp add: fun_upd_idem)
  then show "pool_typed ?s"
    by (intro pool_typed_same [OF io_typedD(1) [OF assms(1)]]) (simp_all add: put_device_def)
  show "volumes_typed ?s"
    using io_typedD(2) [OF assms(1)] volumes_typed_cong [of ?s s] by (simp add: put_device_def)
  show "device_typed E ?s e ev" if "Devices ?s e = Some ev" for e ev
    using io_typedD(3) [OF assms(1), of e] io_typedD(3) [OF assms(1,2)] that assms
    by (cases "e = d") (simp_all add: device_typed_def)
  show "driver_typed ?s drv D" if "Drivers ?s drv = Some D" for drv D
    using io_typedD(4) [OF assms(1), of drv D] that assms by (fastforce simp: driver_typed_def)
qed

lemma put_driver_typed:
  assumes "io_typed E s" and "Drivers s drv = Some D"
    and "DeviceList D' = DeviceList D" "NoOfDevices D' = NoOfDevices D" "DriverNameBlock D' = DriverNameBlock D"
  shows "io_typed E (put_driver drv D' s)"
proof (rule io_typedI)
  let ?s = "put_driver drv D' s"
  have "owned ?s = (owned s)(ADriver drv := Some drv, AName drv := Some (DriverNameBlock D))"
    using owned_driver [of ?s s drv "Some D'"] assms by (simp add: put_driver_def)
  then have "owned ?s = owned s"
    using assms(2) by (simp add: fun_upd_idem)
  then show "pool_typed ?s"
    by (intro pool_typed_same [OF io_typedD(1) [OF assms(1)]]) (simp_all add: put_driver_def)
  show "volumes_typed ?s"
    using io_typedD(2) [OF assms(1)] volumes_typed_cong [of ?s s] by (simp add: put_driver_def)
  show "device_typed E ?s e ev" if "Devices ?s e = Some ev" for e ev
    using io_typedD(3) [OF assms(1), of e ev] that assms by (auto simp: device_typed_def put_driver_def)
  show "driver_typed ?s r R" if "Drivers ?s r = Some R" for r R
    using io_typedD(4) [OF assms(1), of r] io_typedD(4) [OF assms(1,2)] that assms
    by (cases "r = drv") (simp_all add: driver_typed_def put_driver_def)
qed

text \<open>A device that is linked to its driver, with blocks that nobody owns.\<close>

lemma link_device_typed:
  assumes typed: "io_typed E s" and D: "Drivers s drv = Some D" and d: "unowned s d"
    and x: "\<And>x. DeviceExtension dev = Some x \<Longrightarrow> unowned s x \<and> x \<noteq> d"
    and dev: "DriverObject dev = drv" "IoIsValidDeviceType E (DeviceType dev)"
      "DeviceExtension dev = None \<longleftrightarrow> DeviceExtensionSize dev = 0" "DeviceVpb dev = None \<longleftrightarrow> DeviceType dev \<noteq> DeviceTypeVolume E"
  shows "io_typed E (put_device d dev (put_driver drv (D\<lparr>DeviceList := DeviceList D @ [d], NoOfDevices := NoOfDevices D + 1\<rparr>) s))"
    (is "io_typed E ?s")
proof (rule io_typedI)
  let ?t = "put_device d dev s"
  note pt = io_typedD(1) [OF typed]
  have no: "Devices s d = None"
    using unownedD(3) [OF d, of "ADevice d"] by (cases "Devices s d") auto
  have "owned ?s y = owned ?t y" for y
    using D by (cases y) (simp_all add: put_driver_def put_device_def)
  moreover have "owned ?t = (owned s)(ADevice d := Some d, AnExtension d := DeviceExtension dev)"
    using owned_device [of ?t s d "Some dev"] by (simp add: put_device_def)
  ultimately have ow: "owned ?s y = (if y = ADevice d then Some d else if y = AnExtension d then DeviceExtension dev else owned s y)" for y
    by simp
  have P: "Pool ?s = Pool s" "Allocations ?s = Allocations s"
    by (simp_all add: put_driver_def put_device_def)
  show "pool_typed ?s"
  proof (rule pool_typedI)
    show "y = z" if "owned ?s y = Some b" "owned ?s z = Some b" for y z b
      using that unownedD(3) [OF d] x unownedD(3) [of s] pool_typed_inj [OF pt] by (fastforce simp: ow split: if_splits)
    show "b \<in> Pool ?s" if "owned ?s y = Some b" for y b
      using that unownedD(1) [OF d] x unownedD(1) [of s] pool_typed_owned [OF pt, of y b] by (auto simp: ow P split: if_splits)
    show "b < Allocations ?s" if "b \<in> Pool ?s" for b
      using that pool_typed_less [OF pt] by (simp add: P)
  qed
  show "volumes_typed ?s"
    using io_typedD(2) [OF typed] volumes_typed_cong [of ?s s] by (simp add: put_device_def put_driver_def)
  show "device_typed E ?s e ev" if "Devices ?s e = Some ev" for e ev
    using io_typedD(3) [OF typed, of e ev] that D dev
    by (cases "e = d") (auto simp: device_typed_def put_driver_def)
  show "driver_typed ?s r R" if "Drivers ?s r = Some R" for r R
  proof -
    have "d \<notin> set (DeviceList C)" if "Drivers s c = Some C" for c C
      using io_typedD(4) [OF typed that] no by (auto simp: driver_typed_def)
    then show ?thesis
      using io_typedD(4) [OF typed, of r] io_typedD(4) [OF typed D] that D dev
      by (cases "r = drv") (auto simp: driver_typed_def put_driver_def)
  qed
qed

lemma of_nat_length_remove1: "x \<in> set xs \<Longrightarrow> (of_nat (length (remove1 x xs)) :: dword) = of_nat (length xs) - 1"
  using length_pos_if_in_set [of x xs] by (cases "length xs") (simp_all add: length_remove1)

context io_contracts
begin

lemma IoDeleteDevice_typed:
  assumes typed: "io_typed E s" and dev: "Devices s d = Some dev"
  shows "\<exists>t. IoDeleteDevice E d s = Some t \<and> io_typed E t \<and> Devices t = (Devices s)(d := None) \<and> DriverList t = DriverList s"
proof -
  note pt = io_typedD(1) [OF typed]
  have dt: "device_typed E s d dev"
    using typed dev by (rule io_typedD)
  then obtain D where D: "Drivers s (DriverObject dev) = Some D" "d \<in> set (DeviceList D)"
    by (auto simp: device_typed_def)
  have Dt: "driver_typed s (DriverObject dev) D"
    using typed D(1) by (rule io_typedD)
  define D' where "D' = D\<lparr>DeviceList := remove1 d (DeviceList D), NoOfDevices := NoOfDevices D - 1\<rparr>"
  define t where "t = s\<lparr>Drivers := (Drivers s)(DriverObject dev \<mapsto> D'), Pool := Pool s - set_option (DeviceExtension dev) - {d},
    Devices := (Devices s)(d := None)\<rparr>"
  have "d \<in> Pool s" "x \<in> Pool s" "x \<noteq> d" if "DeviceExtension dev = Some x" for x
    using pool_typed_owned [OF pt, of "ADevice d"] pool_typed_owned [OF pt, of "AnExtension d"]
      pool_typed_inj [OF pt, of "ADevice d" d "AnExtension d"] dev that by auto
  moreover have "d \<in> Pool s"
    using pool_typed_owned [OF pt, of "ADevice d"] dev by simp
  ultimately have del: "IoDeleteDevice E d s = Some t"
    using dev D dt Dt by (cases "DeviceExtension dev")
      (auto simp: IoDeleteDevice_def ExFreePoolWithTag_def RemoveEntryList_member driver_typed_def device_typed_def
        put_driver_def t_def D'_def Let_def)
  have ow: "owned t y = (if y = ADevice d \<or> y = AnExtension d then None else owned s y)" for y
    using D by (cases y) (auto simp: t_def D'_def)
  have "io_typed E t"
  proof (rule io_typedI)
    show "pool_typed t"
    proof (rule pool_typedI)
      show "y = z" if "owned t y = Some b" "owned t z = Some b" for y z b
        using that pool_typed_inj [OF pt, of y b z] by (auto simp: ow split: if_splits)
      show "b \<in> Pool t" if "owned t y = Some b" for y b
        using that [unfolded ow] pool_typed_owned [OF pt, of y b] pool_typed_inj [OF pt, of y b "ADevice d"]
          pool_typed_inj [OF pt, of y b "AnExtension d"] dev by (auto simp: t_def split: if_splits)
      show "b < Allocations t" if "b \<in> Pool t" for b
        using that pool_typed_less [OF pt, of b] by (simp add: t_def)
    qed
    show "volumes_typed t"
      using io_typedD(2) [OF typed] volumes_typed_cong [of t s] by (simp add: t_def)
    show "device_typed E t e ev" if "Devices t e = Some ev" for e ev
      using io_typedD(3) [OF typed, of e ev] that D Dt
      by (auto simp: device_typed_def driver_typed_def t_def D'_def split: if_splits)
    show "driver_typed t r R" if "Drivers t r = Some R" for r R
    proof (cases "r = DriverObject dev")
      case True
      then show ?thesis
        using that Dt D(2) by (auto simp: driver_typed_def t_def D'_def of_nat_length_remove1)
    next
      case False
      then have "driver_typed s r R"
        using io_typedD(4) [OF typed, of r R] that by (simp add: t_def)
      then show ?thesis
        using False dev by (fastforce simp: driver_typed_def t_def)
    qed
  qed
  with del show ?thesis
    by (simp add: t_def)
qed

end

lemma tolower_letter: "0x43 \<le> c \<Longrightarrow> c \<le> 0x5A \<Longrightarrow> uint (tolower c) = uint c + 0x20"
  by (auto simp: tolower_def word_le_def uint_word_ariths)

lemma next_letter:
  fixes c :: byte
  assumes "0x42 \<le> c" and "c \<le> 0x5A" and "c + 1 \<le> 0x5A"
  shows "0x43 \<le> c + 1" and "uint (c + 1) = uint c + 1" and "x \<le> c \<Longrightarrow> x \<le> c + 1" and "x \<le> c \<Longrightarrow> uint x < uint (c + 1)"
    and "0x42 \<le> c + 1"
proof -
  have c: "uint (0x42 :: byte) \<le> uint c" "uint c \<le> uint (0x5A :: byte)"
    using assms by (simp_all add: word_le_def)
  then show u: "uint (c + 1) = uint c + 1"
    by (simp add: uint_word_ariths)
  show "0x43 \<le> c + 1" "x \<le> c \<Longrightarrow> x \<le> c + 1" "x \<le> c \<Longrightarrow> uint x < uint (c + 1)" "0x42 \<le> c + 1"
    using c by (simp_all add: word_le_def u)
qed

context io_contracts
begin

text \<open>Entering a new volume with the next letter.\<close>

lemma new_volume_typed:
  assumes typed: "volumes_typed s" and v: "Vpbs s v = None" and le: "CurrentVolumeLetter s + 1 \<le> 0x5A"
    and u: "Vpbs u = (Vpbs s)(v \<mapsto> vp)" "VolumeLetter vp = CurrentVolumeLetter s + 1"
      "CurrentVolumeLetter u = CurrentVolumeLetter s + 1"
      "VpbList u = InsertOrderedList E (\<lambda>x y. volume_key u x - volume_key u y) (VpbList s) v"
  shows "volumes_typed u"
proof -
  note nl = next_letter [of "CurrentVolumeLetter s"]
  have bounds: "0x42 \<le> CurrentVolumeLetter s" "CurrentVolumeLetter s \<le> 0x5A"
    and old: "\<And>w. w \<in> set (VpbList s) \<Longrightarrow> Vpbs s w \<noteq> None \<and> 0x43 \<le> letter_of s w \<and> letter_of s w \<le> CurrentVolumeLetter s"
    and sorted: "sorted (map (volume_key s) (VpbList s))" "distinct (map (volume_key s) (VpbList s))"
    using typed unfolding volumes_typed_def by blast+
  have new: "letter_of u v = CurrentVolumeLetter s + 1"
    by (simp add: letter_of_def u)
  have same: "letter_of u w = letter_of s w" if "w \<in> set (VpbList s)" for w
    using old [OF that] v by (auto simp: letter_of_def u)
  have keys: "map (volume_key u) (VpbList s) = map (volume_key s) (VpbList s)"
    by (simp add: volume_key_def same)
  have key_v: "volume_key u v = uint (CurrentVolumeLetter s + 1) + 0x20"
    unfolding volume_key_def new using nl(1) [OF bounds le] le by (rule tolower_letter)
  have below: "volume_key u w < volume_key u v" if "w \<in> set (VpbList s)" for w
  proof -
    have "letter_of s w \<le> 0x5A"
      using old [OF that] bounds by (metis order_trans)
    then have "volume_key u w = uint (letter_of s w) + 0x20"
      unfolding volume_key_def same [OF that] using old [OF that] by (intro tolower_letter) simp_all
    then show ?thesis
      using nl(4) [OF bounds le, of "letter_of s w"] old [OF that] by (simp add: key_v)
  qed
  have "volume_key u v \<notin> volume_key u ` set (VpbList s)"
    using below by fastforce
  then have "distinct (map (volume_key u) (v # VpbList s))"
    using sorted(2) unfolding list.map keys by simp (metis image_set keys)
  moreover have m: "mset (VpbList u) = mset (v # VpbList s)"
    by (simp add: u InsertOrderedList_mset)
  then have "mset (map (volume_key u) (VpbList u)) = mset (map (volume_key u) (v # VpbList s))"
    by (metis mset_map)
  ultimately have "distinct (map (volume_key u) (VpbList u))"
    using mset_eq_imp_distinct_iff by blast
  moreover have "sorted (map (volume_key u) (VpbList u))"
    unfolding u(4) by (rule InsertOrderedList_sorted) (simp add: keys sorted)
  moreover have "set (VpbList u) = insert v (set (VpbList s))"
    using mset_eq_setD [OF m] by simp
  ultimately show ?thesis
    unfolding volumes_typed_def using nl(1,5) [OF bounds le] nl(3) [OF bounds le] old same new le u(1,3) by auto
qed

text \<open>A volume parameter block for a device that is about to be linked.\<close>

lemma IoAllocateVpb_typed:
  assumes typed: "io_typed E s" and d: "unowned s d"
    and run: "IoAllocateVpb E d (put_device d dev s) = Some t"
  obtains v u where "t = put_device d (dev\<lparr>DeviceVpb := Some v\<rparr>) u" and "io_typed E u" and "Drivers u = Drivers s"
    and "\<And>b. unowned s b \<Longrightarrow> unowned u b" and "DriverList u = DriverList s"
proof -
  obtain r s1 where alloc: "ExAllocatePoolWithTag E s = (r, s1)"
    by fastforce
  note al = ExAllocatePoolWithTag_typed [OF typed alloc]
  have alloc': "ExAllocatePoolWithTag E (put_device d dev s) = (r, put_device d dev s1)"
    using alloc by (auto simp: ExAllocatePoolWithTag_def put_device_def split: if_splits)
  obtain v where v: "r = Some v"
    using run alloc' by (auto simp: IoAllocateVpb_def bind_Some_iff)
  have no: "Vpbs s1 v = None"
    using unownedD(3) [OF al(5) [OF v], of "AVpb v"] by (cases "Vpbs s1 v") auto
  define vp where "vp = \<lparr>VolumeLetter = CurrentVolumeLetter s + 1, VolumeDevice = d, VpbMounted = False, VpbSwapSpace = False,
    VpbFilesystemDevice = None\<rparr>"
  define s2 where "s2 = s1\<lparr>CurrentVolumeLetter := CurrentVolumeLetter s + 1, Vpbs := (Vpbs s1)(v \<mapsto> vp)\<rparr>"
  define u where "u = s2\<lparr>VpbList := InsertOrderedList E (\<lambda>x y. volume_key s2 x - volume_key s2 y) (VpbList s) v\<rparr>"
  have t: "t = put_device d (dev\<lparr>DeviceVpb := Some v\<rparr>) u" and le: "CurrentVolumeLetter s + 1 \<le> 0x5A"
    using run alloc' v al
    by (auto simp: IoAllocateVpb_def bind_Some_iff IomuNewVpbCreated_def IomuGetNextVolumeLetter_def Let_def u_def s2_def vp_def
        put_device_def volume_key_def letter_of_def VpbCompareFunction_def cong: if_cong option.case_cong)
  have key: "volume_key u = volume_key s2"
    by (simp add: fun_eq_iff volume_key_def letter_of_def u_def)
  have ow: "owned u y = (if y = AVpb v then Some v else owned s1 y)" for y
    by (cases y) (simp_all add: u_def s2_def)
  have Pu: "Pool u = Pool s1" "Allocations u = Allocations s1"
    by (simp_all add: u_def s2_def)
  have "io_typed E u"
  proof (rule io_typedI)
    have vfree: "v \<in> Pool s1" "owned s1 y \<noteq> Some v" for y
      using unownedD [OF al(5) [OF v]] by simp_all
    show "pool_typed u"
      using vfree io_typedD(1) [OF al(1)] unownedD(2) [OF al(5) [OF v]]
      by (intro pool_typed_insert [of s1 u "AVpb v" v]) (auto simp: fun_eq_iff ow Pu)
    show "volumes_typed u"
      by (rule new_volume_typed [of s1 v u vp]) (use io_typedD(2) [OF al(1)] no le al key in \<open>simp_all add: u_def s2_def vp_def\<close>)
    show "device_typed E u e ev" if "Devices u e = Some ev" for e ev
      using io_typedD(3) [OF al(1), of e ev] that by (simp add: device_typed_def u_def s2_def)
    show "driver_typed u r R" if "Drivers u r = Some R" for r R
      using io_typedD(4) [OF al(1), of r R] that by (simp add: driver_typed_def u_def s2_def)
  qed
  moreover have "unowned u b" if "unowned s b" for b
    using al(7) [OF that] al(6) [OF v] unownedD(1) [OF that] by (auto simp: unowned_def ow Pu)
  moreover have "Drivers u = Drivers s" "DriverList u = DriverList s"
    using alloc al by (auto simp: u_def s2_def ExAllocatePoolWithTag_def split: if_splits)
  ultimately show thesis
    using t that by blast
qed

end

context io_contracts
begin

lemma IoCreateDevice_allocate_typed:
  assumes typed: "io_typed E s" and run: "IoCreateDevice_allocate E n ty s = Some (r, t)"
  shows "io_typed E t" and "Drivers t = Drivers s"
    and "r = Some (d, dev) \<Longrightarrow> unowned t d \<and> DeviceType dev = ty \<and> DeviceExtensionSize dev = n \<and> DeviceVpb dev = None \<and>
      (DeviceExtension dev = None \<longleftrightarrow> n = 0) \<and> (\<forall>x. DeviceExtension dev = Some x \<longrightarrow> unowned t x \<and> x \<noteq> d)"
proof -
  obtain r1 s1 where alloc1: "ExAllocatePoolWithTag E s = (r1, s1)"
    by fastforce
  note al1 = ExAllocatePoolWithTag_typed [OF typed alloc1]
  obtain r2 s2 where alloc2: "ExAllocatePoolWithTag E s1 = (r2, s2)"
    by fastforce
  note al2 = ExAllocatePoolWithTag_typed [OF al1(1) alloc2]
  consider (none) "r1 = None" "r = None" "t = s1"
    | (plain) d1 where "r1 = Some d1" "n = 0" "t = s1"
    | (fail) d1 where "r1 = Some d1" "n \<noteq> 0" "r2 = None" "r = None" "ExFreePoolWithTag d1 s2 = Some t"
    | (ext) d1 x where "r1 = Some d1" "n \<noteq> 0" "r2 = Some x" "t = s2"
    using run alloc1 alloc2
    by (cases r1; cases "n = 0"; cases r2) (auto simp: IoCreateDevice_allocate_def bind_Some_iff)
  note cases = this
  from cases show "io_typed E t"
  proof cases
    case fail
    then show ?thesis
      using ExFreePoolWithTag_typed [OF al2(1) al2(7) [OF al1(5)]] by blast
  qed (use al1(1) al2(1) in simp_all)
  from cases show "Drivers t = Drivers s"
    by cases (use al1(4) al2(4) in \<open>auto simp: ExFreePoolWithTag_def\<close>)
  show "unowned t d \<and> DeviceType dev = ty \<and> DeviceExtensionSize dev = n \<and> DeviceVpb dev = None \<and>
      (DeviceExtension dev = None \<longleftrightarrow> n = 0) \<and> (\<forall>x. DeviceExtension dev = Some x \<longrightarrow> unowned t x \<and> x \<noteq> d)" if r: "r = Some (d, dev)"
    using cases
  proof cases
    case (plain d1)
    then show ?thesis
      using run r alloc1 al1(5) by (auto simp: IoCreateDevice_allocate_def)
  next
    case (ext d1 x)
    moreover have "unowned s2 d1" "unowned s2 x" "x \<noteq> d1"
      using al2(7) [OF al1(5) [OF ext(1)]] al2(5,6) [OF ext(3)] unownedD(1) [OF al1(5) [OF ext(1)]] by auto
    ultimately show ?thesis
      using run r alloc1 alloc2 by (auto simp: IoCreateDevice_allocate_def)
  qed (use r in simp_all)
qed

lemma IoCreateDevice_typed:
  assumes typed: "io_typed E s" and run: "IoCreateDevice E drv n ty s = Some (r, t)"
  shows "io_typed E t \<and> (\<forall>c D. Drivers s c = Some D \<longrightarrow> (\<exists>D'. Drivers t c = Some D' \<and> DriverNameBlock D' = DriverNameBlock D))"
proof -
  obtain a s1 where valid: "IoIsValidDeviceType E ty" and alloc: "IoCreateDevice_allocate E n ty s = Some (a, s1)"
    using run by (auto simp: IoCreateDevice_def bind_Some_iff)
  note al = IoCreateDevice_allocate_typed [OF typed alloc]
  show ?thesis
  proof (cases a)
    case None
    then show ?thesis
      using run alloc al(1,2) by (simp add: IoCreateDevice_def ASSERT_def split: if_splits)
  next
    case (Some ad)
    obtain d dev where ad: "a = Some (d, dev)"
      using Some by (cases ad) simp
    note new = al(3) [OF ad]
    obtain u dev' where u: "io_typed E u" "Drivers u = Drivers s" "\<And>b. unowned s1 b \<Longrightarrow> unowned u b"
      and s2: "(if ty = DeviceTypeVolume E then IoAllocateVpb E d (put_device d dev s1) else Some (put_device d dev s1)) =
        Some (put_device d dev' u)"
      and dev': "DeviceType dev' = ty" "DeviceExtensionSize dev' = n" "DeviceExtension dev' = DeviceExtension dev"
        "DeviceVpb dev' = None \<longleftrightarrow> ty \<noteq> DeviceTypeVolume E"
    proof (cases "ty = DeviceTypeVolume E")
      case False
      then show thesis
        using that [of s1 dev] al(1,2) new by simp
    next
      case True
      then obtain s2 where s2: "IoAllocateVpb E d (put_device d dev s1) = Some s2"
        using run alloc ad by (auto simp: IoCreateDevice_def bind_Some_iff)
      obtain v u where "s2 = put_device d (dev\<lparr>DeviceVpb := Some v\<rparr>) u" "io_typed E u" "Drivers u = Drivers s1"
        "\<And>b. unowned s1 b \<Longrightarrow> unowned u b"
        using IoAllocateVpb_typed [OF al(1) _ s2] new by metis
      then show thesis
        using that [of u "dev\<lparr>DeviceVpb := Some v\<rparr>"] al(2) new s2 True by simp
    qed
    define dev2 where "dev2 = dev'\<lparr>StackSize := 1, DeviceLock := False, DriverObject := drv\<rparr>"
    obtain D where D: "Drivers s drv = Some D"
      using run alloc ad s2 u(2) valid by (auto simp: IoCreateDevice_def bind_Some_iff)
    define D2 where "D2 = D\<lparr>DeviceList := DeviceList D @ [d], NoOfDevices := NoOfDevices D + 1\<rparr>"
    have "t = put_device d dev2 (put_driver drv D2 (put_device d dev' u))"
      using run alloc ad s2 u(2) valid D by (simp add: IoCreateDevice_def InsertTailList_snoc Let_def dev2_def D2_def)
    then have t: "t = put_device d dev2 (put_driver drv D2 u)"
      by (simp add: put_device_def put_driver_def)
    have "io_typed E t"
      unfolding t D2_def by (rule link_device_typed) (use u new D dev' valid in \<open>simp_all add: dev2_def\<close>)
    then show ?thesis
      using D u(2) by (simp add: t D2_def)
  qed
qed

end

subsection \<open>Histories\<close>

text \<open>What a driver does to its own objects, and what can happen to the whole.\<close>

inductive dev_step :: "'a io_env \<Rightarrow> nat \<Rightarrow> 'a io_system_scheme \<Rightarrow> 'a io_system_scheme \<Rightarrow> bool"
  for E :: "'a io_env" and drv :: nat where
  create_device: "IoCreateDevice E drv n ty s = Some (r, t) \<Longrightarrow> dev_step E drv s t"
| delete_device: "IoDeleteDevice E d s = Some t \<Longrightarrow> dev_step E drv s t"
| attach_device: "IoAttachDevice d e s = Some t \<Longrightarrow> dev_step E drv s t"
| set_device: "Devices s d = Some dev \<Longrightarrow>
    dev_step E drv s (put_device d (dev\<lparr>DeviceAlignment := a, DeviceLock := l\<rparr>) s)"
| set_driver: "Drivers s drv = Some D \<Longrightarrow>
    dev_step E drv s (put_driver drv (D\<lparr>DispatchFunctions := f, DriverExtension := x\<rparr>) s)"

text \<open>An entry routine works on the objects of its driver, and if it fails it leaves no device.\<close>

definition entry_ok ::
  "'a io_env \<Rightarrow> (nat \<Rightarrow> 'a io_system_scheme \<Rightarrow> (status \<times> 'a io_system_scheme) option) \<Rightarrow> bool" where
  "entry_ok E entry \<longleftrightarrow> (\<forall>drv s st t. entry drv s = Some (st, t) \<longrightarrow> (dev_step E drv)\<^sup>*\<^sup>* s t \<and>
     (\<not> SUCCEEDED st \<longrightarrow> (\<forall>D. Drivers t drv = Some D \<longrightarrow> DeviceList D = [])))"

inductive io_step :: "'a io_env \<Rightarrow> 'a io_system_scheme \<Rightarrow> 'a io_system_scheme \<Rightarrow> bool" for E :: "'a io_env" where
  driver_works: "dev_step E drv s t \<Longrightarrow> io_step E s t"
| create_driver: "IoCreateDriver E name entry s = Some (r, t) \<Longrightarrow> entry_ok E entry \<Longrightarrow> io_step E s t"
| allocate_irp: "IoAllocateIrp E n s = Some (r, t) \<Longrightarrow> io_step E s t"
| change_irp: "Irps s i = Some p \<Longrightarrow> io_step E s (put_irp i q s)"
| free_irp: "IoFreeIrp i s = Some t \<Longrightarrow> io_step E s t"

lemma entry_okD:
  assumes "entry_ok E entry" and "entry drv s = Some (st, t)"
  shows "(dev_step E drv)\<^sup>*\<^sup>* s t" and "\<not> SUCCEEDED st \<Longrightarrow> Drivers t drv = Some D \<Longrightarrow> DeviceList D = []"
  using assms unfolding entry_ok_def by blast+

lemma SystemDriverEntry_ok: "entry_ok E (SystemDriverEntry E)"
  unfolding entry_ok_def SystemDriverEntry_def by (auto simp: bind_Some_iff intro: create_device)

definition same_drivers :: "'a io_system_scheme \<Rightarrow> 'a io_system_scheme \<Rightarrow> bool" where
  "same_drivers s t \<longleftrightarrow> (\<forall>c D. Drivers s c = Some D \<longrightarrow> (\<exists>D'. Drivers t c = Some D' \<and> DriverNameBlock D' = DriverNameBlock D))"

lemma same_driversD:
  "same_drivers s t \<Longrightarrow> Drivers s c = Some D \<Longrightarrow> \<exists>D'. Drivers t c = Some D' \<and> DriverNameBlock D' = DriverNameBlock D"
  by (simp add: same_drivers_def)

lemma same_drivers_trans: "same_drivers s t \<Longrightarrow> same_drivers t u \<Longrightarrow> same_drivers s u"
  unfolding same_drivers_def by metis

lemma new_driver_typed:
  assumes typed: "io_typed E s" and b: "unowned s drv" "unowned s nb" "drv \<noteq> nb"
    and D: "DeviceList D = []" "NoOfDevices D = 0" "DriverNameBlock D = nb"
  shows "io_typed E (put_driver drv D s)"
proof (rule io_typedI)
  let ?s = "put_driver drv D s"
  note pt = io_typedD(1) [OF typed]
  have no: "Drivers s drv = None"
    using unownedD(3) [OF b(1), of "ADriver drv"] by (cases "Drivers s drv") auto
  have ow: "owned ?s y = (if y = ADriver drv then Some drv else if y = AName drv then Some nb else owned s y)" for y
    using D by (cases y) (simp_all add: put_driver_def)
  show "pool_typed ?s"
  proof (rule pool_typedI)
    show "y = z" if "owned ?s y = Some c" "owned ?s z = Some c" for y z c
      using that b unownedD(3) [OF b(1)] unownedD(3) [OF b(2)] pool_typed_inj [OF pt, of y c z] by (auto simp: ow split: if_splits)
    show "c \<in> Pool ?s" if "owned ?s y = Some c" for y c
      using that unownedD(1) [OF b(1)] unownedD(1) [OF b(2)] pool_typed_owned [OF pt, of y c] by (auto simp: ow split: if_splits)
    show "c < Allocations ?s" if "c \<in> Pool ?s" for c
      using that pool_typed_less [OF pt] by simp
  qed
  show "volumes_typed ?s"
    using io_typedD(2) [OF typed] volumes_typed_cong [of ?s s] by (simp add: put_driver_def)
  show "device_typed E ?s e ev" if "Devices ?s e = Some ev" for e ev
    using io_typedD(3) [OF typed, of e ev] that no by (auto simp: device_typed_def)
  show "driver_typed ?s r R" if "Drivers ?s r = Some R" for r R
    using io_typedD(4) [OF typed, of r R] that D by (cases "r = drv") (auto simp: driver_typed_def)
qed

lemma remove_driver_typed:
  assumes typed: "io_typed E s" and D: "Drivers s drv = Some D" "DeviceList D = []" "DriverNameBlock D = nb"
  shows "nb \<in> Pool s \<and> drv \<in> Pool s - {nb} \<and> io_typed E (s\<lparr>Pool := Pool s - {nb} - {drv}, Drivers := (Drivers s)(drv := None)\<rparr>)"
proof -
  let ?s = "s\<lparr>Pool := Pool s - {nb} - {drv}, Drivers := (Drivers s)(drv := None)\<rparr>"
  note pt = io_typedD(1) [OF typed]
  have ow: "owned ?s y = (if y = ADriver drv \<or> y = AName drv then None else owned s y)" for y
    by (cases y) simp_all
  have own: "owned s (ADriver drv) = Some drv" "owned s (AName drv) = Some nb"
    using D by simp_all
  have "io_typed E ?s"
  proof (rule io_typedI)
    show "pool_typed ?s"
    proof (rule pool_typedI)
      show "y = z" if "owned ?s y = Some b" "owned ?s z = Some b" for y z b
        using that pool_typed_inj [OF pt, of y b z] by (simp add: ow split: if_splits)
      show "b \<in> Pool ?s" if "owned ?s y = Some b" for y b
        using that [unfolded ow] pool_typed_owned [OF pt, of y b] pool_typed_inj [OF pt, of y b "ADriver drv"]
          pool_typed_inj [OF pt, of y b "AName drv"] own by (auto split: if_splits)
      show "b < Allocations ?s" if "b \<in> Pool ?s" for b
        using that pool_typed_less [OF pt, of b] by simp
    qed
    show "volumes_typed ?s"
      using io_typedD(2) [OF typed] volumes_typed_cong [of ?s s] by simp
    show "device_typed E ?s e ev" if "Devices ?s e = Some ev" for e ev
      using io_typedD(3) [OF typed, of e ev] that D by (auto simp: device_typed_def)
    show "driver_typed ?s r R" if "Drivers ?s r = Some R" for r R
      using io_typedD(4) [OF typed, of r R] that by (auto simp: driver_typed_def split: if_splits)
  qed
  moreover have "nb \<in> Pool s" "drv \<in> Pool s" "nb \<noteq> drv"
    using pool_typed_owned [OF pt own(1)] pool_typed_owned [OF pt own(2)] pool_typed_inj [OF pt own(1), of "AName drv"] own by auto
  ultimately show ?thesis
    by simp
qed

text \<open>The drivers that are installed exist, once each.\<close>

definition drivers_listed :: "'a io_system_scheme \<Rightarrow> bool" where
  "drivers_listed s \<longleftrightarrow> distinct (DriverList s) \<and> (\<forall>drv \<in> set (DriverList s). Drivers s drv \<noteq> None)"

lemma ExAllocatePoolWithTag_DriverList: "ExAllocatePoolWithTag E s = (r, t) \<Longrightarrow> DriverList t = DriverList s"
  by (auto simp: ExAllocatePoolWithTag_def split: if_splits)

lemma ExFreePoolWithTag_DriverList: "ExFreePoolWithTag b s = Some t \<Longrightarrow> DriverList t = DriverList s"
  by (auto simp: ExFreePoolWithTag_def)

lemma DriverList_simps [simp]:
  "DriverList (put_device d dev s) = DriverList s" "DriverList (put_driver drv D s) = DriverList s" "DriverList (put_irp i p s) = DriverList s"
  by (simp_all add: put_device_def put_driver_def put_irp_def)

lemma IoAllocateVpb_DriverList: "IoAllocateVpb E d s = Some t \<Longrightarrow> DriverList t = DriverList s"
  by (cases "ExAllocatePoolWithTag E s")
    (auto simp: IoAllocateVpb_def IomuNewVpbCreated_def IomuGetNextVolumeLetter_def bind_Some_iff Let_def
      dest!: ExAllocatePoolWithTag_DriverList)

lemma IoCreateDevice_DriverList:
  assumes "IoCreateDevice E drv n ty s = Some (r, t)"
  shows "DriverList t = DriverList s"
proof -
  have "DriverList u = DriverList s" if run: "IoCreateDevice_allocate E n ty s = Some (a, u)" for a u
  proof -
    obtain r1 s1 r2 s2 where alloc: "ExAllocatePoolWithTag E s = (r1, s1)" "ExAllocatePoolWithTag E s1 = (r2, s2)"
      by fastforce
    show ?thesis
      using run alloc [THEN ExAllocatePoolWithTag_DriverList] alloc
      by (cases r1; cases r2) (auto simp: IoCreateDevice_allocate_def bind_Some_iff split: if_splits dest!: ExFreePoolWithTag_DriverList)
  qed
  moreover obtain a u where alloc: "IoCreateDevice_allocate E n ty s = Some (a, u)"
    using assms by (auto simp: IoCreateDevice_def bind_Some_iff)
  ultimately have u: "DriverList u = DriverList s"
    by blast
  show ?thesis
  proof (cases a)
    case (Some ad)
    then show ?thesis
      using assms alloc u by (cases ad; cases "ty = DeviceTypeVolume E")
        (auto simp: IoCreateDevice_def bind_Some_iff Let_def dest!: IoAllocateVpb_DriverList)
  qed (use assms alloc u in \<open>auto simp: IoCreateDevice_def bind_Some_iff\<close>)
qed

lemma dev_step_DriverList: "dev_step E drv s t \<Longrightarrow> DriverList t = DriverList s"
  by (cases rule: dev_step.cases)
    (auto simp: IoCreateDevice_DriverList IoDeleteDevice_def IoAttachDevice_def bind_Some_iff Let_def
      split: if_splits dest!: ExFreePoolWithTag_DriverList)

lemma dev_steps_DriverList: "(dev_step E drv)\<^sup>*\<^sup>* s t \<Longrightarrow> DriverList t = DriverList s"
  by (induction rule: rtranclp_induct) (auto dest: dev_step_DriverList)

lemma drivers_listed_same: "drivers_listed s \<Longrightarrow> same_drivers s t \<Longrightarrow> DriverList t = DriverList s \<Longrightarrow> drivers_listed t"
  by (fastforce simp: drivers_listed_def same_drivers_def)

context io_contracts
begin

lemma dev_step_typed:
  assumes "dev_step E drv s t" and "io_typed E s"
  shows "io_typed E t \<and> same_drivers s t"
  using assms(1)
proof cases
  case (create_device n ty r)
  then show ?thesis
    using IoCreateDevice_typed [OF assms(2)] unfolding same_drivers_def by blast
next
  case (delete_device d)
  then obtain dev where dev: "Devices s d = Some dev"
    by (auto simp: IoDeleteDevice_def bind_Some_iff)
  have "same_drivers s t"
    using delete_device by (auto simp: same_drivers_def IoDeleteDevice_def bind_Some_iff ExFreePoolWithTag_def Let_def split: if_splits)
  then show ?thesis
    using IoDeleteDevice_typed [OF assms(2) dev] delete_device by simp
next
  case (attach_device d e)
  then obtain dev where dev: "Devices s d = Some dev"
    by (auto simp: IoAttachDevice_def bind_Some_iff)
  have "\<exists>z. t = put_device d (dev\<lparr>AttachedDevice := Some e, StackSize := z\<rparr>) s"
    using attach_device dev by (auto simp: IoAttachDevice_def bind_Some_iff Let_def split: if_splits)
  then show ?thesis
    using put_device_typed [OF assms(2) dev] by (auto simp: same_drivers_def)
next
  case (set_device d dev a l)
  then show ?thesis
    using put_device_typed [OF assms(2) set_device(2)] by (simp add: same_drivers_def)
next
  case (set_driver D f x)
  then show ?thesis
    using put_driver_typed [OF assms(2) set_driver(2)] by (simp add: same_drivers_def)
qed

lemma dev_steps_typed:
  assumes "(dev_step E drv)\<^sup>*\<^sup>* s t" and "io_typed E s"
  shows "io_typed E t \<and> same_drivers s t"
  using assms
proof (induction rule: rtranclp_induct)
  case base
  then show ?case
    by (simp add: same_drivers_def)
next
  case (step t u)
  then show ?case
    using dev_step_typed [OF step.hyps(2)] same_drivers_trans by blast
qed

lemma IoCreateDriver_typed:
  assumes typed: "io_typed E s" and run: "IoCreateDriver E name entry s = Some (r, t)" and ok: "entry_ok E entry"
  shows "io_typed E t \<and> (drivers_listed s \<longrightarrow> drivers_listed t)"
proof -
  obtain r1 s1 where alloc1: "ExAllocatePoolWithTag E s = (r1, s1)"
    by fastforce
  note al1 = ExAllocatePoolWithTag_typed [OF typed alloc1]
  obtain r2 s2 where alloc2: "ExAllocatePoolWithTag E s1 = (r2, s2)"
    by fastforce
  note al2 = ExAllocatePoolWithTag_typed [OF al1(1) alloc2]
  have DL: "DriverList s1 = DriverList s" "DriverList s2 = DriverList s" "Drivers s2 = Drivers s"
    using alloc1 alloc2 al1(4) al2(4) by (auto dest!: ExAllocatePoolWithTag_DriverList)
  show ?thesis
  proof (cases r1)
    case None
    then show ?thesis
      using run alloc1 al1(1,4) DL by (simp add: IoCreateDriver_def drivers_listed_def)
  next
    case (Some drv)
    note r1 = Some
    show ?thesis
    proof (cases r2)
      case None
      then show ?thesis
        using run alloc1 alloc2 r1 ExFreePoolWithTag_typed [OF al2(1) al2(7) [OF al1(5)]] DL
        by (auto simp: IoCreateDriver_def bind_Some_iff drivers_listed_def ExFreePoolWithTag_def)
    next
      case (Some nb)
      define D where "D = \<lparr>DriverName = name, DriverNameBlock = nb, DeviceList = [], NoOfDevices = 0,
        DispatchFunctions = (\<lambda>_. None), DriverExtension = None\<rparr>"
      have b: "unowned s2 drv" "unowned s2 nb" "drv \<noteq> nb"
        using al2(7) [OF al1(5) [OF r1]] al2(5,6) [OF Some] unownedD(1) [OF al1(5) [OF r1]] by auto
      have "io_typed E (put_driver drv D s2)"
        by (rule new_driver_typed [OF al2(1) b]) (simp_all add: D_def)
      moreover obtain st u where e: "entry drv (put_driver drv D s2) = Some (st, u)"
        and t: "if SUCCEEDED st then t = IomuDriverInstalled E drv u
          else \<exists>v w. ExFreePoolWithTag nb u = Some v \<and> ExFreePoolWithTag drv v = Some w \<and> t = w\<lparr>Drivers := (Drivers w)(drv := None)\<rparr>"
        using run alloc1 alloc2 r1 Some by (auto simp: IoCreateDriver_def bind_Some_iff D_def split: if_splits)
      ultimately have u: "io_typed E u" "same_drivers (put_driver drv D s2) u"
        using dev_steps_typed [OF entry_okD(1) [OF ok e]] by simp_all
      have uL: "DriverList u = DriverList s"
        using dev_steps_DriverList [OF entry_okD(1) [OF ok e]] DL by simp
      have no: "Drivers s drv = None"
        using unownedD(3) [OF b(1), of "ADriver drv"] DL by (cases "Drivers s drv") auto
      have listed: "(\<forall>c \<in> set (DriverList s). c \<noteq> drv \<and> Drivers u c \<noteq> None) \<and> distinct (DriverList s)" if "drivers_listed s"
      proof -
        have "c \<noteq> drv \<and> Drivers u c \<noteq> None" if c: "c \<in> set (DriverList s)" for c
        proof -
          obtain C where C: "Drivers s c = Some C"
            using \<open>drivers_listed s\<close> c by (auto simp: drivers_listed_def)
          then have "c \<noteq> drv"
            using no by auto
          then show ?thesis
            using same_driversD [OF u(2), of c C] C DL(3) by auto
        qed
        then show ?thesis
          using that by (simp add: drivers_listed_def)
      qed
      show ?thesis
      proof (cases "SUCCEEDED st")
        case True
        then have "t = IomuDriverInstalled E drv u"
          using t by simp
        moreover have "owned (IomuDriverInstalled E drv u) = owned u"
          by (rule owned_cong) (simp_all add: IomuDriverInstalled_def)
        then have "pool_typed (IomuDriverInstalled E drv u)"
          by (rule pool_typed_same [OF io_typedD(1) [OF u(1)]]) (simp_all add: IomuDriverInstalled_def)
        ultimately have "io_typed E t"
          by (intro io_typed_cong [OF u(1)]) (simp_all add: IomuDriverInstalled_def)
        moreover have "drivers_listed t" if "drivers_listed s"
          using listed [OF that] uL same_driversD [OF u(2), of drv D] \<open>t = _\<close>
          by (auto simp: drivers_listed_def IomuDriverInstalled_def InsertTailList_snoc)
        ultimately show ?thesis
          by blast
      next
        case False
        obtain D' where D': "Drivers u drv = Some D'" "DriverNameBlock D' = nb"
          using same_driversD [OF u(2), of drv D] by (auto simp: D_def)
        have t': "t = u\<lparr>Pool := Pool u - {nb} - {drv}, Drivers := (Drivers u)(drv := None)\<rparr>"
          using t False by (auto simp: ExFreePoolWithTag_def)
        have "drivers_listed t" if "drivers_listed s"
          using listed [OF that] uL by (auto simp: drivers_listed_def t')
        then show ?thesis
          using remove_driver_typed [OF u(1) D'(1) entry_okD(2) [OF ok e False D'(1)] D'(2)] by (simp add: t')
      qed
    qed
  qed
qed

end

lemma owned_put_irp: "owned (put_irp i p s) = (owned s)(AnIrp i \<mapsto> i)"
  using owned_irp [of "put_irp i p s" s i "Some p"] by (simp add: put_irp_def)

lemma put_irp_io_simps [simp]:
  "VpbList (put_irp i p s) = VpbList s" "Vpbs (put_irp i p s) = Vpbs s"
  "CurrentVolumeLetter (put_irp i p s) = CurrentVolumeLetter s" "Allocations (put_irp i p s) = Allocations s"
  by (simp_all add: put_irp_def)

lemma io_typed_irps:
  assumes typed: "io_typed E s" and "pool_typed t" and "Devices t = Devices s" "Drivers t = Drivers s" "Vpbs t = Vpbs s"
    "VpbList t = VpbList s" "CurrentVolumeLetter t = CurrentVolumeLetter s"
  shows "io_typed E t"
proof (rule io_typedI)
  show "volumes_typed t"
    using io_typedD(2) [OF typed] volumes_typed_cong [of t s] assms by simp
  show "device_typed E t d dev" if "Devices t d = Some dev" for d dev
    using io_typedD(3) [OF typed, of d dev] that assms by (simp add: device_typed_def)
  show "driver_typed t r R" if "Drivers t r = Some R" for r R
    using io_typedD(4) [OF typed, of r R] that assms by (simp add: driver_typed_def)
qed (rule assms)

lemma IoAllocateIrp_typed:
  assumes typed: "io_typed E s" and run: "IoAllocateIrp E n s = Some (r, t)"
  shows "io_typed E t"
proof -
  obtain r1 s1 where alloc: "ExAllocatePoolWithTag E s = (r1, s1)"
    by fastforce
  note al = ExAllocatePoolWithTag_typed [OF typed alloc]
  show ?thesis
  proof (cases r1)
    case None
    then show ?thesis
      using run alloc al(1) by (simp add: IoAllocateIrp_def)
  next
    case (Some i)
    then obtain p where t: "t = put_irp i p s1"
      using run alloc by (auto simp: IoAllocateIrp_def)
    have "pool_typed t"
      using io_typedD(1) [OF al(1)] unownedD [OF al(5) [OF Some]]
      by (intro pool_typed_insert [of s1 t "AnIrp i" i]) (auto simp: t owned_put_irp)
    then show ?thesis
      by (rule io_typed_irps [OF al(1)]) (simp_all add: t)
  qed
qed

lemma IoFreeIrp_typed:
  assumes typed: "io_typed E s" and run: "IoFreeIrp i s = Some t"
  shows "io_typed E t"
proof -
  obtain p where p: "Irps s i = Some p"
    using run by (auto simp: IoFreeIrp_def bind_Some_iff)
  have t: "Irps t = (Irps s)(i := None)" "Pool t = Pool s - {i}" "Devices t = Devices s" "Drivers t = Drivers s" "Vpbs t = Vpbs s"
    "VpbList t = VpbList s" "CurrentVolumeLetter t = CurrentVolumeLetter s" "Allocations t = Allocations s"
    using run by (auto simp: IoFreeIrp_def bind_Some_iff ExFreePoolWithTag_def IoFreeMdl_def split: option.splits)
  have "owned t = (owned s)(AnIrp i := None)"
    using owned_irp [of t s i None] by (simp add: t)
  then have "pool_typed t"
    using p by (intro pool_typed_release [OF io_typedD(1) [OF typed], of "AnIrp i" i]) (simp_all add: t)
  then show ?thesis
    by (rule io_typed_irps [OF typed]) (simp_all add: t)
qed

context io_contracts
begin

lemma io_step_typed:
  assumes "io_step E s t" and "io_typed E s" and "drivers_listed s"
  shows "io_typed E t \<and> drivers_listed t"
  using assms(1)
proof cases
  case (driver_works drv)
  then show ?thesis
    using dev_step_typed [OF driver_works assms(2)] dev_step_DriverList drivers_listed_same [OF assms(3)] by blast
next
  case (create_driver name entry r)
  then show ?thesis
    using IoCreateDriver_typed [OF assms(2)] assms(3) by blast
next
  case (allocate_irp n r)
  have "DriverList t = DriverList s \<and> Drivers t = Drivers s"
    using allocate_irp by (cases "ExAllocatePoolWithTag E s")
      (auto simp: IoAllocateIrp_def ExAllocatePoolWithTag_def split: option.splits if_splits)
  then show ?thesis
    using IoAllocateIrp_typed [OF assms(2) allocate_irp] assms(3) by (simp add: drivers_listed_def)
next
  case (change_irp i p q)
  have "owned t = owned s"
    using change_irp by (simp add: owned_put_irp fun_upd_idem)
  then have "pool_typed t"
    by (rule pool_typed_same [OF io_typedD(1) [OF assms(2)]]) (simp_all add: change_irp)
  then have "io_typed E t"
    by (rule io_typed_irps [OF assms(2)]) (simp_all add: change_irp)
  then show ?thesis
    using assms(3) by (simp add: change_irp drivers_listed_def)
next
  case (free_irp i)
  have "DriverList t = DriverList s \<and> Drivers t = Drivers s"
    using free_irp by (auto simp: IoFreeIrp_def bind_Some_iff ExFreePoolWithTag_def IoFreeMdl_def split: option.splits)
  then show ?thesis
    using IoFreeIrp_typed [OF assms(2) free_irp] assms(3) by (simp add: drivers_listed_def)
qed

lemma io_steps_typed:
  "(io_step E)\<^sup>*\<^sup>* s t \<Longrightarrow> io_typed E s \<Longrightarrow> drivers_listed s \<Longrightarrow> io_typed E t \<and> drivers_listed t"
  by (induction rule: rtranclp_induct) (use io_step_typed in blast)+

end

definition io_initial :: "'a io_system_scheme \<Rightarrow> bool" where
  "io_initial s \<longleftrightarrow> Devices s = Map.empty \<and> Drivers s = Map.empty \<and> Irps s = Map.empty \<and> Vpbs s = Map.empty \<and>
     DriverList s = [] \<and> VpbList s = [] \<and> CurrentVolumeLetter s = 0x42 \<and> Pool s = {}"

lemma io_initial_typed: "io_initial s \<Longrightarrow> io_typed E s"
proof (rule io_typedI)
  assume init: "io_initial s"
  have "owned s x = None" for x
    using init by (cases x) (simp_all add: io_initial_def)
  then show "pool_typed s"
    using init by (simp add: pool_typed_def io_initial_def)
qed (simp_all add: io_initial_def volumes_typed_def)

lemma io_initial_listed: "io_initial s \<Longrightarrow> drivers_listed s"
  by (simp add: io_initial_def drivers_listed_def)


subsection \<open>Looking up devices and volumes\<close>

definition devices_of :: "'a io_system_scheme \<Rightarrow> nat list" where
  "devices_of s = concat (map (\<lambda>drv. case Drivers s drv of None \<Rightarrow> [] | Some D \<Rightarrow> DeviceList D) (DriverList s))"

definition of_type :: "'a io_system_scheme \<Rightarrow> nat \<Rightarrow> nat \<Rightarrow> bool" where
  "of_type s t d \<longleftrightarrow> (\<exists>dev. Devices s d = Some dev \<and> DeviceType dev = t)"

lemma GetDevicesByType_devices_append:
  "GetDevicesByType_devices t b s (xs @ ys) acc = GetDevicesByType_devices t b s xs acc \<bind> GetDevicesByType_devices t b s ys"
  by (induction t b s xs acc rule: GetDevicesByType_devices.induct) (auto simp: Let_def intro!: Option.bind_cong [OF refl])

lemma GetDevicesByType_drivers_flat:
  assumes "\<forall>drv \<in> set ds. Drivers s drv \<noteq> None"
  shows "GetDevicesByType_drivers t b s ds acc =
    GetDevicesByType_devices t b s (concat (map (\<lambda>drv. case Drivers s drv of None \<Rightarrow> [] | Some D \<Rightarrow> DeviceList D) ds)) acc"
  using assms by (induction t b s ds acc rule: GetDevicesByType_drivers.induct) (auto simp: GetDevicesByType_devices_append intro!: Option.bind_cong [OF refl])

lemma first_pass:
  "\<forall>d \<in> set ds. Devices s d \<noteq> None \<Longrightarrow>
   GetDevicesByType_devices t False s ds (c, f, i) = Some (c + of_nat (length (filter (of_type s t) ds)), f, i)"
  by (induction ds arbitrary: c) (auto simp: of_type_def algebra_simps)

lemma second_pass:
  assumes "\<forall>d \<in> set ds. Devices s d \<noteq> None" and "length xs + length (filter (of_type s t) ds) < 2 ^ 32"
    and "length ys = length (filter (of_type s t) ds)"
  shows "GetDevicesByType_devices t True s ds (c, xs @ ys, of_nat (length xs)) =
    Some (c, xs @ filter (of_type s t) ds, of_nat (length xs + length ys))"
  using assms
proof (induction ds arbitrary: xs ys)
  case (Cons d ds)
  obtain dev where dev: "Devices s d = Some dev"
    using Cons.prems(1) by auto
  show ?case
  proof (cases "DeviceType dev = t")
    case True
    then have ty: "of_type s t d"
      by (simp add: of_type_def dev)
    then obtain y zs where ys: "ys = y # zs"
      using Cons.prems(3) by (cases ys) auto
    have idx: "unat (of_nat (length xs) :: dword) = length xs"
      using Cons.prems(2) by (simp add: unat_of_nat)
    have next_idx: "(of_nat (length xs) :: dword) + 1 = of_nat (length (xs @ [d]))"
      by simp
    have "GetDevicesByType_devices t True s ds (c, (xs @ [d]) @ zs, of_nat (length (xs @ [d]))) =
        Some (c, (xs @ [d]) @ filter (of_type s t) ds, of_nat (length (xs @ [d]) + length zs))"
      by (rule Cons.IH) (use Cons.prems ty ys in simp_all)
    then show ?thesis
      unfolding ys GetDevicesByType_devices.simps dev idx next_idx using True ty by (simp add: idx)
  next
    case False
    then have "\<not> of_type s t d"
      by (simp add: of_type_def dev)
    then show ?thesis
      using Cons False dev by simp
  qed
qed simp

lemma devices_of_typed:
  assumes "io_typed E s" and "drivers_listed s"
  shows "distinct (devices_of s)" and "set (devices_of s) = {d. \<exists>dev. Devices s d = Some dev \<and> DriverObject dev \<in> set (DriverList s)}"
proof -
  have D: "driver_typed s drv D" if "Drivers s drv = Some D" for drv D
    using assms(1) that by (rule io_typedD)
  have dev: "\<exists>D. Drivers s (DriverObject dev) = Some D \<and> d \<in> set (DeviceList D)" if "Devices s d = Some dev" for d dev
    using io_typedD(3) [OF assms(1) that] by (simp add: device_typed_def)
  have "distinct (concat (map (\<lambda>drv. case Drivers s drv of None \<Rightarrow> [] | Some D \<Rightarrow> DeviceList D) ds))"
    if "distinct ds" "\<forall>drv \<in> set ds. Drivers s drv \<noteq> None" for ds
    using that
  proof (induction ds)
    case (Cons drv ds)
    obtain C where C: "Drivers s drv = Some C"
      using Cons.prems by auto
    have "d \<notin> set (DeviceList C)" if "d \<in> set (DeviceList B)" "Drivers s e = Some B" "e \<noteq> drv" for d e B
      using D [OF C] D [OF that(2)] that by (fastforce simp: driver_typed_def)
    then have "d \<notin> set (DeviceList C)" if "e \<in> set ds" "d \<in> set (case Drivers s e of None \<Rightarrow> [] | Some B \<Rightarrow> DeviceList B)" for d e
      using that Cons.prems(1) by (cases "Drivers s e") auto
    moreover have "distinct (DeviceList C)"
      using D [OF C] by (simp add: driver_typed_def)
    ultimately show ?case
      using Cons.IH Cons.prems C by auto
  qed simp
  then show "distinct (devices_of s)"
    using assms(2) by (simp add: devices_of_def drivers_listed_def)
  show "set (devices_of s) = {d. \<exists>dev. Devices s d = Some dev \<and> DriverObject dev \<in> set (DriverList s)}"
  proof (intro equalityI subsetI)
    fix d assume "d \<in> set (devices_of s)"
    then obtain drv where drv: "drv \<in> set (DriverList s)" "d \<in> set (case Drivers s drv of None \<Rightarrow> [] | Some B \<Rightarrow> DeviceList B)"
      by (auto simp: devices_of_def)
    then obtain B where B: "Drivers s drv = Some B" "d \<in> set (DeviceList B)"
      by (cases "Drivers s drv") auto
    then show "d \<in> {d. \<exists>dev. Devices s d = Some dev \<and> DriverObject dev \<in> set (DriverList s)}"
      using D [OF B(1)] drv(1) by (auto simp: driver_typed_def)
  next
    fix d assume "d \<in> {d. \<exists>dev. Devices s d = Some dev \<and> DriverObject dev \<in> set (DriverList s)}"
    then obtain dv where dv: "Devices s d = Some dv" "DriverObject dv \<in> set (DriverList s)"
      by blast
    then show "d \<in> set (devices_of s)"
      using dev [OF dv(1)] by (force simp: devices_of_def)
  qed
qed

text \<open>
  In a well-typed system \<open>IoGetDevicesByType\<close> answers exactly the devices of the type that belong to
  installed drivers, each once, in an array of exactly their number: the two passes agree.
\<close>

theorem IoGetDevicesByType_finds:
  assumes "io_typed E s" and "drivers_listed s" and "IoIsValidDeviceType E t" and "PoolHas E (Allocations s)"
    and "length (devices_of s) < 2 ^ 32"
  shows "\<exists>found array u. IoGetDevicesByType E t s = Some (STATUS_SUCCESS, array, of_nat (length found), u) \<and>
    (found = [] \<and> array = None \<and> u = s \<or>
     found \<noteq> [] \<and> array = Some (Allocations s, found) \<and>
     u = s\<lparr>Pool := insert (Allocations s) (Pool s), Allocations := Suc (Allocations s)\<rparr>) \<and>
    distinct found \<and>
    set found = {d. \<exists>dev. Devices s d = Some dev \<and> DriverObject dev \<in> set (DriverList s) \<and> DeviceType dev = t}"
proof -
  let ?found = "filter (of_type s t) (devices_of s)" and ?u = "s\<lparr>Pool := insert (Allocations s) (Pool s), Allocations := Suc (Allocations s)\<rparr>"
  have listed: "\<forall>drv \<in> set (DriverList s). Drivers s drv \<noteq> None"
    using assms(2) by (simp add: drivers_listed_def)
  have devs: "\<forall>d \<in> set (devices_of s). Devices s d \<noteq> None"
    unfolding devices_of_typed(2) [OF assms(1,2)] by auto
  have len: "length ?found < 2 ^ 32"
    using assms(5) length_filter_le [of "of_type s t" "devices_of s"] by linarith
  have one: "GetDevicesByType_drivers t False s (DriverList s) (0, [], 0) = Some (of_nat (length ?found), [], 0)"
    using first_pass [OF devs, of t 0 "[]" 0] by (simp add: GetDevicesByType_drivers_flat [OF listed] devices_of_def)
  have cnt: "unat (of_nat (length ?found) :: dword) = length ?found"
    using len by (simp add: unat_of_nat)
  have "GetDevicesByType_devices t True ?u ds acc = GetDevicesByType_devices t True s ds acc" for ds acc
    by (induction t True s ds acc rule: GetDevicesByType_devices.induct) (auto intro!: Option.bind_cong [OF refl])
  then have "GetDevicesByType_drivers t True ?u (DriverList s) acc = GetDevicesByType_drivers t True s (DriverList s) acc" for acc
    using listed by (subst (1 2) GetDevicesByType_drivers_flat) simp_all
  moreover have "GetDevicesByType_drivers t True s (DriverList s) (of_nat (length ?found), replicate (length ?found) 0, 0) =
      Some (of_nat (length ?found), ?found, of_nat (length ?found))"
    using second_pass [OF devs, of "[]" t "replicate (length ?found) 0" "of_nat (length ?found)"] len
    by (simp add: GetDevicesByType_drivers_flat [OF listed] devices_of_def)
  ultimately have "IoGetDevicesByType E t s = Some (STATUS_SUCCESS, if ?found = [] then None else Some (Allocations s, ?found),
      of_nat (length ?found), if ?found = [] then s else ?u)"
    using assms(3,4) one cnt by (auto simp: IoGetDevicesByType_def IomuGetDevicesByType_def ExAllocatePoolWithTag_def)
  moreover have "distinct ?found" "set ?found = {d. \<exists>dev. Devices s d = Some dev \<and> DriverObject dev \<in> set (DriverList s) \<and> DeviceType dev = t}"
    using devices_of_typed [OF assms(1,2)] by (auto simp: of_type_def)
  ultimately show ?thesis
    by (intro exI [of _ ?found]) auto
qed

subsection \<open>Examples\<close>

definition example_device :: "nat \<Rightarrow> device_object" where
  "example_device drv = \<lparr>DriverObject = drv, DeviceExtensionSize = 0, DeviceExtension = None, DeviceType = 2, StackSize = 1,
     DeviceAlignment = 0x200, AttachedDevice = None, DeviceVpb = None, DeviceLock = False\<rparr>"

definition example_driver :: "nat \<Rightarrow> nat \<Rightarrow> nat \<Rightarrow> driver_object" where
  "example_driver nb d r = \<lparr>DriverName = ''disk.sys'', DriverNameBlock = nb, DeviceList = [d], NoOfDevices = 1,
     DispatchFunctions = (\<lambda>_. Some r), DriverExtension = None\<rparr>"

text \<open>A partition (device 2 of driver 0) and a disk (device 5 of driver 3), both installed.\<close>

definition io_example :: "unit io_system_scheme" where
  "io_example = \<lparr>Devices = [2 \<mapsto> example_device 0, 5 \<mapsto> example_device 3],
     Drivers = [0 \<mapsto> example_driver 1 2 0, 3 \<mapsto> example_driver 4 5 1], Irps = Map.empty, Vpbs = Map.empty, Mdls = {},
     DriverList = [0, 3], VpbList = [], CurrentVolumeLetter = 0x42, IoSystemDevice = None, Pool = {0, 1, 2, 3, 4, 5},
     Allocations = 6\<rparr>"

definition stack_example :: "unit io_system_scheme" where
  "stack_example = put_device 2 ((example_device 0)\<lparr>AttachedDevice := Some 5, StackSize := 2\<rparr>) io_example"

lemmas io_eval = io_env_example_def io_example_def stack_example_def example_device_def example_driver_def put_device_def put_irp_def

lemma io_env_example_hands_on: "hands_on_requests io_env_example"
  by (auto simp: hands_on_requests_def io_env_example_def forward_def same_calls_def IoCopyCurrentStackLocationToNext_def
      IoGetNextIrpStackLocation_def Let_def intro!: Option.bind_cong [OF refl])


lemma stacked_request_reaches_bottom_witness:
  "\<exists>t. attach_all [(2, partition_offset)] 5 io_example = Some stack_example \<and>
    IoReadWriteDevice io_env_example 2 0x1000 0x200 0x400 False False stack_example = Some (STATUS_SUCCESS, 0x2400, t)"
proof -
  let ?sent = "put_irp (Allocations stack_example)
      (handed_down [(2, partition_offset)] (device_request io_env_example (of_nat (Suc (length [(2 :: nat, partition_offset)]))) 0x1000 0x200 0x400 False False))
      (lock_devices (insert 5 (fst ` set [(2, partition_offset)]))
        (stack_example\<lparr>Pool := insert (Allocations stack_example) (Pool stack_example), Allocations := Suc (Allocations stack_example)\<rparr>))"
  have attach: "attach_all [(2, partition_offset)] 5 io_example = Some stack_example"
    by (simp add: io_eval IoAttachDevice_def Let_def)
  obtain p where p: "Irps ?sent 6 = Some p" "Parameters (StackLocations p ! unat (CurrentStackLocation p)) = ReadWrite 0x200 0x2400"
    "IrpMdl p = None" "6 \<in> Pool ?sent"
    by (simp add: device_request_def io_eval partition_offset_def empty_location_def Let_def lock_devices_def)
  have answer: "answers io_env_example 1 5 (Allocations stack_example) ?sent STATUS_SUCCESS
      (p\<lparr>IoStatusStatus := STATUS_SUCCESS, IoStatusInformation := 0x2400\<rparr>)
      (put_irp 6 (p\<lparr>IoStatusStatus := STATUS_SUCCESS, IoStatusInformation := 0x2400\<rparr>) ?sent)"
    using p by (simp add: answers_def io_env_example_def complete_request_def stack_example_def io_example_def)
  have down: "hands_down io_env_example stack_example [(2, partition_offset)] 5 1
      (empty_location\<lparr>MajorFunction := if False then IRP_MJ_WRITE io_env_example else IRP_MJ_READ io_env_example,
        Parameters := ReadWrite 0x200 0x400\<rparr>)"
    by (simp add: accepts_def io_eval ReadWrite_aligned_def addr_ops_def partition_offset_def empty_location_def)
  show ?thesis
    using stacked_request_reaches_bottom [OF attach _ _ _ _ down _ _ refl refl answer] attach
    by (simp add: io_example_def example_device_def io_env_example_def)
qed

lemma misaligned_request_refused_witness:
  "IoReadWriteDevice io_env_example 2 0x1000 0x200 0x123 True False stack_example =
    Some (STATUS_DEVICE_ALIGNMENT_NO_SATISFIED, 0x200, stack_example\<lparr>Allocations := 7\<rparr>)"
  using misaligned_request_refused [where s = stack_example and d = 2 and E = io_env_example and Buffer = "0x1000" and Length = "0x200"
      and Offset = "0x123" and Write = True and Asynchronous = False]
  by (simp add: io_eval addr_ops_def)

lemma io_example_typed: "io_typed io_env_example io_example" "drivers_listed io_example"
proof -
  show "io_typed io_env_example io_example"
  proof (rule io_typedI)
    have "owned io_example x = Some b \<longleftrightarrow>
        (x, b) \<in> {(ADevice 2, 2), (ADevice 5, 5), (ADriver 0, 0), (ADriver 3, 3), (AName 0, 1), (AName 3, 4)}" for x b
      by (cases x) (auto simp: io_eval split: if_splits)
    then show "pool_typed io_example"
      by (intro pool_typedI) (auto simp: io_example_def)
  qed (auto simp: io_eval volumes_typed_def device_typed_def driver_typed_def IoIsValidDeviceType_def split: if_splits)
  show "drivers_listed io_example"
    by (simp add: drivers_listed_def io_example_def)
qed

lemma IoGetDevicesByType_finds_witness:
  "\<exists>found u. IoGetDevicesByType io_env_example 2 io_example = Some (STATUS_SUCCESS, Some (6, found), of_nat (length found), u) \<and>
    distinct found \<and> set found = {2, 5}"
proof -
  have set: "{d. \<exists>dev. Devices io_example d = Some dev \<and> DriverObject dev \<in> set (DriverList io_example) \<and> DeviceType dev = 2} = {2, 5}"
    by (auto simp: io_example_def example_device_def split: if_splits)
  have hyps: "IoIsValidDeviceType io_env_example 2" "PoolHas io_env_example (Allocations io_example)" "length (devices_of io_example) < 2 ^ 32"
    by (simp_all add: io_eval IoIsValidDeviceType_def devices_of_def)
  show ?thesis
    using IoGetDevicesByType_finds [OF io_example_typed hyps, unfolded set] by (auto simp: io_example_def)
qed

definition io_start :: "unit io_system_scheme" where
  "io_start = \<lparr>Devices = Map.empty, Drivers = Map.empty, Irps = Map.empty, Vpbs = Map.empty, Mdls = {}, DriverList = [],
     VpbList = [], CurrentVolumeLetter = 0x42, IoSystemDevice = None, Pool = {}, Allocations = 0\<rparr>"

lemmas create_eval = IoCreateDriver_def IoCreateDevice_def IoCreateDevice_allocate_def ExAllocatePoolWithTag_def
  ExFreePoolWithTag_def IoIsValidDeviceType_def put_driver_def put_device_def IomuDriverInstalled_def io_env_example_def
  list_ops_def io_start_def Let_def


text \<open>
  An entry routine that creates a device and then fails: the driver is freed, its device stays, with a
  driver that no longer exists.
\<close>

lemma failed_entry_leaves_device:
  "\<exists>t dev. IoCreateDriver io_env_example ''bad.sys''
      (\<lambda>drv s. do { (d, s) \<leftarrow> IoCreateDevice io_env_example drv 0 2 s; Some (STATUS_UNSUCCESSFUL, s) }) io_start = Some (None, t) \<and>
    Devices t 2 = Some dev \<and> Drivers t (DriverObject dev) = None"
  by (simp add: create_eval SUCCEEDED_def)

text \<open>The volume of a letter, in whatever case the letter is written.\<close>

lemma IomuSearchForVpb_finds:
  assumes "io_contracts E" and "volumes_typed s"
  shows "IomuSearchForVpb E c s = Some v \<longleftrightarrow> v \<in> set (VpbList s) \<and> tolower c = tolower (letter_of s v)"
proof -
  let ?find = "ListSearchForElement E (\<lambda>x. uint (tolower c) - volume_key s x) (VpbList s)"
  have search: "IomuSearchForVpb E c s = ?find"
    by (simp add: IomuSearchForVpb_def VpbCompareFunction_def volume_key_def)
  have sorted: "sorted (map (volume_key s) (VpbList s))" and inj: "inj_on (volume_key s) (set (VpbList s))"
    using assms(2) by (simp_all add: volumes_typed_def distinct_map)
  have key: "volume_key s x = uint (tolower c) \<longleftrightarrow> tolower c = tolower (letter_of s x)" for x
    unfolding volume_key_def by (metis word_uint_eqI)
  show ?thesis
  proof (cases ?find)
    case None
    then show ?thesis
      using io_contracts.ListSearchForElement_None [OF assms(1) sorted None] by (auto simp: search simp flip: key)
  next
    case (Some w)
    note w = io_contracts.ListSearchForElement_Some [OF assms(1) sorted Some]
    have "v = w" if "v \<in> set (VpbList s)" "volume_key s v = uint (tolower c)"
      using inj_onD [OF inj, of v w] w that by simp
    then show ?thesis
      using w Some by (auto simp: search simp flip: key)
  qed
qed

text \<open>Deleting a volume leaves its parameter block in the list: its letter still finds it.\<close>

lemma IoDeleteDevice_keeps_volumes:
  "IoDeleteDevice E d s = Some t \<Longrightarrow> IomuSearchForVpb E c t = IomuSearchForVpb E c s \<and> Vpbs t = Vpbs s"
  by (auto simp: IoDeleteDevice_def IomuSearchForVpb_def letter_of_def bind_Some_iff ExFreePoolWithTag_def put_driver_def Let_def
      cong: if_cong split: if_splits)

end
