(* ===== verification/Files.thy ===== *)
theory Files
  imports Devices
begin

text \<open>
  Files (\<open>io_files.c\<close>): a file is opened through the volume of its drive letter, and every operation is
  a request to the device of the file system that is mounted there. The file systems are drivers, so
  their routines are arguments of the model as in the theory of the devices. The theory also holds
  the search for the system partition and the swap file of \<open>iomu.c\<close>.
\<close>

subsection \<open>Data\<close>

text \<open>Names are sequences of characters without the terminating zero.\<close>

record file_object =
  FileName :: "byte list"
  FileAsynchronous :: bool
  FileCreate :: bool
  FileDirectory :: bool
  FileSystemDevice :: "nat option"
  CurrentByteOffset :: qword
  FileSize :: qword

record io_files = io_system +
  FileObjects :: "nat \<Rightarrow> file_object option"
  SwapFile :: "nat option"
  SystemDrive :: "byte list"

type_synonym 'b file_env = "'b io_files_ext io_env"

text \<open>
  The position of the last occurrence of a character (\<open>strrchr\<close> of the string library), and the numbers
  of the minor functions.
\<close>

record file_lib =
  strrchr :: "byte list \<Rightarrow> byte \<Rightarrow> nat option"
  IRP_MN_INFORMATION_FILE_INFORMATION :: byte
  IRP_MN_QUERY_DIRECTORY :: byte
  FILE_INFORMATION_SIZE :: dword

subsection \<open>Opening a file\<close>

definition IoIsFilePathValid :: "file_lib \<Rightarrow> byte list \<Rightarrow> bool" where
  "IoIsFilePathValid F Name =
     (if length Name < 3 then False
      else if strrchr F Name 0x5C = Some 0 then False
      else True)"

definition IoFreeFileObject :: "nat \<Rightarrow> 'b io_files_scheme \<Rightarrow> 'b io_files_scheme option" where
  "IoFreeFileObject f s = do {
     s \<leftarrow> ExFreePoolWithTag f s;
     Some (s\<lparr>FileObjects := (FileObjects s)(f := None)\<rparr>)
   }"

text \<open>The stack location \<open>k\<close> of request \<open>i\<close>.\<close>

definition location :: "nat \<Rightarrow> nat \<Rightarrow> 'a io_system_scheme \<Rightarrow> io_stack_location option" where
  "location i k s = do {
     p \<leftarrow> Irps s i;
     ASSERT (k < length (StackLocations p));
     Some (StackLocations p ! k)
   }"

definition set_location :: "nat \<Rightarrow> nat \<Rightarrow> io_stack_location \<Rightarrow> 'a io_system_scheme \<Rightarrow> 'a io_system_scheme option" where
  "set_location i k loc s = do {
     p \<leftarrow> Irps s i;
     Some (put_irp i (p\<lparr>StackLocations := (StackLocations p)[k := loc]\<rparr>) s)
   }"

definition IoAllocateFileObject ::
  "'b file_env \<Rightarrow> nat \<Rightarrow> nat \<Rightarrow> byte list \<Rightarrow> bool \<Rightarrow> bool \<Rightarrow> bool \<Rightarrow> 'b io_files_scheme \<Rightarrow> 'b io_files_scheme option" where
  "IoAllocateFileObject E i k Name Asynchronous Create Directory s = do {
     loc \<leftarrow> location i k s;
     let (object, s) = ExAllocatePoolWithTag E s;
     f \<leftarrow> object;
     let s = s\<lparr>FileObjects := (FileObjects s)(f \<mapsto> \<lparr>FileName = Name, FileAsynchronous = Asynchronous, FileCreate = Create,
        FileDirectory = Directory, FileSystemDevice = LocDeviceObject loc, CurrentByteOffset = 0, FileSize = 0\<rparr>)\<rparr>;
     set_location i k (loc\<lparr>LocFileObject := Some f\<rparr>) s
   }"

text \<open>The request to a file system is set up in the first stack location, whose index is returned.\<close>

definition file_request :: "'a io_env \<Rightarrow> nat \<Rightarrow> 'a io_system_scheme \<Rightarrow> ((nat \<times> nat) option \<times> 'a io_system_scheme) option" where
  "file_request E fs s = do {
     dev \<leftarrow> Devices s fs;
     (irp, s) \<leftarrow> IoAllocateIrp E (StackSize dev) s;
     case irp of
       None \<Rightarrow> Some (None, s)
     | Some i \<Rightarrow> do {
         p \<leftarrow> Irps s i;
         k \<leftarrow> IoGetNextIrpStackLocation p;
         Some (Some (i, k), s)
       }
   }"

definition IoCreateFile ::
  "file_lib \<Rightarrow> 'b file_env \<Rightarrow> byte list \<Rightarrow> bool \<Rightarrow> bool \<Rightarrow> bool \<Rightarrow> 'b io_files_scheme \<Rightarrow>
   (status \<times> nat option \<times> 'b io_files_scheme) option" where
  "IoCreateFile F E Name Directory Create Asynchronous s = do {
     let driveLetter = toupper (case Name of [] \<Rightarrow> 0 | c # _ \<Rightarrow> c);
     if \<not> IoIsFilePathValid F Name then Some (STATUS_INVALID_FILE_NAME, None, s)
     else case IomuSearchForVpb E driveLetter s of
       None \<Rightarrow> Some (STATUS_DEVICE_DOES_NOT_EXIST, None, s)
     | Some v \<Rightarrow> do {
         vp \<leftarrow> Vpbs s v;
         if \<not> VpbMounted vp then Some (STATUS_DEVICE_NO_FILESYSTEM_MOUNTED, None, s)
         else do {
           fs \<leftarrow> VpbFilesystemDevice vp;
           (request, s) \<leftarrow> file_request E fs s;
           case request of
             None \<Rightarrow> Some (STATUS_HEAP_NO_MORE_MEMORY, None, s)
           | Some (i, k) \<Rightarrow> do {
               loc \<leftarrow> location i k s;
               s \<leftarrow> set_location i k (loc\<lparr>MajorFunction := IRP_MJ_CREATE E, LocDeviceObject := Some fs\<rparr>) s;
               s \<leftarrow> IoAllocateFileObject E i k (drop 2 Name) Asynchronous Create Directory s;
               (status, s) \<leftarrow> IoCallDriver E IO_DEPTH fs i s;
               p \<leftarrow> Irps s i;
               let status = (if SUCCEEDED status then IoStatusStatus p else status);
               loc \<leftarrow> location i k s;
               f \<leftarrow> LocFileObject loc;
               if \<not> SUCCEEDED status then do {
                 s \<leftarrow> IoFreeFileObject f s;
                 s \<leftarrow> IoFreeIrp i s;
                 Some (status, None, s)
               } else do {
                 s \<leftarrow> IoFreeIrp i s;
                 Some (status, Some f, s)
               }
             }
         }
       }
   }"

subsection \<open>Requests for an open file\<close>

text \<open>The request is sent; if the call succeeds its status and information are the answer.\<close>

definition call_file_system ::
  "'b file_env \<Rightarrow> nat \<Rightarrow> nat \<Rightarrow> 'b io_files_scheme \<Rightarrow> (status \<times> qword option \<times> 'b io_files_scheme) option" where
  "call_file_system E fs i s = do {
     (status, s) \<leftarrow> IoCallDriver E IO_DEPTH fs i s;
     if \<not> SUCCEEDED status then Some (status, None, s)
     else do {
       p \<leftarrow> Irps s i;
       Some (IoStatusStatus p, Some (IoStatusInformation p), s)
     }
   }"

definition IoCloseFile :: "'b file_env \<Rightarrow> nat \<Rightarrow> 'b io_files_scheme \<Rightarrow> (status \<times> 'b io_files_scheme) option" where
  "IoCloseFile E f s = do {
     fo \<leftarrow> FileObjects s f;
     fs \<leftarrow> FileSystemDevice fo;
     (request, s) \<leftarrow> file_request E fs s;
     case request of
       None \<Rightarrow> Some (STATUS_HEAP_NO_MORE_MEMORY, s)
     | Some (i, k) \<Rightarrow> do {
         loc \<leftarrow> location i k s;
         s \<leftarrow> set_location i k (loc\<lparr>MajorFunction := IRP_MJ_CLOSE E, LocFileObject := Some f\<rparr>) s;
         (status, _, s) \<leftarrow> call_file_system E fs i s;
         s \<leftarrow> IoFreeIrp i s;
         Some (status, s)
       }
   }"

definition IoGetFileSize :: "nat option \<Rightarrow> bool \<Rightarrow> 'b io_files_scheme \<Rightarrow> (status \<times> qword option) option" where
  "IoGetFileSize FileHandle SizePointer s =
     (case FileHandle of
        None \<Rightarrow> Some (STATUS_INVALID_PARAMETER1, None)
      | Some f \<Rightarrow>
          if \<not> SizePointer then Some (STATUS_INVALID_PARAMETER2, None)
          else do {
            fo \<leftarrow> FileObjects s f;
            Some (STATUS_SUCCESS, Some (FileSize fo))
          })"

definition IoQueryInformationFile ::
  "file_lib \<Rightarrow> 'b file_env \<Rightarrow> nat \<Rightarrow> qword \<Rightarrow> 'b io_files_scheme \<Rightarrow> (status \<times> 'b io_files_scheme) option" where
  "IoQueryInformationFile F E f FileInformation s = do {
     ASSERT (FileInformation \<noteq> 0);
     fo \<leftarrow> FileObjects s f;
     fs \<leftarrow> FileSystemDevice fo;
     (request, s) \<leftarrow> file_request E fs s;
     case request of
       None \<Rightarrow> Some (STATUS_HEAP_NO_MORE_MEMORY, s)
     | Some (i, k) \<Rightarrow> do {
         loc \<leftarrow> location i k s;
         s \<leftarrow> set_location i k (loc\<lparr>MajorFunction := IRP_MJ_QUERY_INFORMATION E,
                MinorFunction := IRP_MN_INFORMATION_FILE_INFORMATION F, LocDeviceObject := Some fs,
                LocFileObject := Some f, Parameters := QueryFile (FILE_INFORMATION_SIZE F)\<rparr>) s;
         p \<leftarrow> Irps s i;
         (status, _, s) \<leftarrow> call_file_system E fs i (put_irp i (p\<lparr>IrpBuffer := FileInformation\<rparr>) s);
         s \<leftarrow> IoFreeIrp i s;
         Some (status, s)
       }
   }"

definition IoQueryDirectoryFile ::
  "file_lib \<Rightarrow> 'b file_env \<Rightarrow> nat \<Rightarrow> dword \<Rightarrow> qword \<Rightarrow> 'b io_files_scheme \<Rightarrow> (status \<times> dword option \<times> 'b io_files_scheme) option" where
  "IoQueryDirectoryFile F E f Size DirectoryInformation s = do {
     ASSERT (DirectoryInformation \<noteq> 0 \<or> Size = 0);
     fo \<leftarrow> FileObjects s f;
     fs \<leftarrow> FileSystemDevice fo;
     (request, s) \<leftarrow> file_request E fs s;
     case request of
       None \<Rightarrow> Some (STATUS_HEAP_NO_MORE_MEMORY, None, s)
     | Some (i, k) \<Rightarrow> do {
         loc \<leftarrow> location i k s;
         s \<leftarrow> set_location i k (loc\<lparr>MajorFunction := IRP_MJ_DIRECTORY_CONTROL E, MinorFunction := IRP_MN_QUERY_DIRECTORY F,
                LocDeviceObject := Some fs, LocFileObject := Some f, Parameters := QueryDirectory Size\<rparr>) s;
         p \<leftarrow> Irps s i;
         (status, information, s) \<leftarrow> call_file_system E fs i (put_irp i (p\<lparr>IrpBuffer := DirectoryInformation\<rparr>) s);
         case information of
           None \<Rightarrow> do {
             s \<leftarrow> IoFreeIrp i s;
             Some (status, None, s)
           }
         | Some n \<Rightarrow> do {
             ASSERT (n \<le> ucast MAX_DWORD);
             s \<leftarrow> IoFreeIrp i s;
             Some (status, Some (ucast n), s)
           }
       }
   }"

text \<open>
  A read or write; the number of bytes is returned when the call succeeded, whatever the status of the
  request. A synchronous file has a position that moves on by what was transferred.
\<close>

definition IoReadWriteFile ::
  "'b file_env \<Rightarrow> nat \<Rightarrow> qword \<Rightarrow> qword \<Rightarrow> qword option \<Rightarrow> bool \<Rightarrow> 'b io_files_scheme \<Rightarrow>
   (status \<times> qword option \<times> 'b io_files_scheme) option" where
  "IoReadWriteFile E f Buffer Length FileOffset Write s = do {
     ASSERT (Buffer \<noteq> 0);
     fo \<leftarrow> FileObjects s f;
     fileOffset \<leftarrow> (if FileAsynchronous fo then FileOffset
                    else Some (case FileOffset of None \<Rightarrow> CurrentByteOffset fo | Some off \<Rightarrow> off));
     fs \<leftarrow> FileSystemDevice fo;
     (request, s) \<leftarrow> file_request E fs s;
     case request of
       None \<Rightarrow> Some (STATUS_HEAP_NO_MORE_MEMORY, None, s)
     | Some (i, k) \<Rightarrow> do {
         p \<leftarrow> Irps s i;
         let s = put_irp i (p\<lparr>IrpBuffer := Buffer, IrpAsynchronous := FileAsynchronous fo\<rparr>) s;
         loc \<leftarrow> location i k s;
         s \<leftarrow> set_location i k (loc\<lparr>MajorFunction := if Write then IRP_MJ_WRITE E else IRP_MJ_READ E,
                LocDeviceObject := Some fs, Parameters := ReadWrite Length fileOffset, LocFileObject := Some f\<rparr>) s;
         (status, transferred, s) \<leftarrow> call_file_system E fs i s;
         s \<leftarrow> (case transferred of
                 None \<Rightarrow> Some s
               | Some n \<Rightarrow> do {
                   fo \<leftarrow> FileObjects s f;
                   Some (if SUCCEEDED status \<and> \<not> FileAsynchronous fo
                         then s\<lparr>FileObjects := (FileObjects s)(f \<mapsto> fo\<lparr>CurrentByteOffset := CurrentByteOffset fo + n\<rparr>)\<rparr>
                         else s)
                 });
         s \<leftarrow> IoFreeIrp i s;
         Some (status, transferred, s)
       }
   }"

definition IoReadFile ::
  "'b file_env \<Rightarrow> nat \<Rightarrow> qword \<Rightarrow> qword option \<Rightarrow> qword \<Rightarrow> 'b io_files_scheme \<Rightarrow> (status \<times> qword option \<times> 'b io_files_scheme) option" where
  "IoReadFile E f BytesToRead FileOffset Buffer s = IoReadWriteFile E f Buffer BytesToRead FileOffset False s"

definition IoWriteFile ::
  "'b file_env \<Rightarrow> nat \<Rightarrow> qword \<Rightarrow> qword option \<Rightarrow> qword \<Rightarrow> 'b io_files_scheme \<Rightarrow> (status \<times> qword option \<times> 'b io_files_scheme) option" where
  "IoWriteFile E f BytesToWrite FileOffset Buffer s = IoReadWriteFile E f Buffer BytesToWrite FileOffset True s"

subsection \<open>System partition and swap file\<close>

text \<open>\<open>snprintf\<close> of the pattern \<open>%c:\\<close> writes the three characters of a root, and the name of the file follows.\<close>

definition root_path :: "byte \<Rightarrow> byte list" where
  "root_path letter = [letter, 0x3A, 0x5C]"

text \<open>\<open>HAL9000.ini\<close>\<close>

definition HAL9000_SYSTEM_FILE_NAME :: "byte list" where
  "HAL9000_SYSTEM_FILE_NAME = [0x48, 0x41, 0x4C, 0x39, 0x30, 0x30, 0x30, 0x2E, 0x69, 0x6E, 0x69]"

definition IomuIsSystemPartitionOnDrive ::
  "file_lib \<Rightarrow> 'b file_env \<Rightarrow> byte \<Rightarrow> 'b io_files_scheme \<Rightarrow> (bool \<times> 'b io_files_scheme) option" where
  "IomuIsSystemPartitionOnDrive F E DriveLetter s = do {
     (status, handle, s) \<leftarrow> IoCreateFile F E (root_path DriveLetter @ HAL9000_SYSTEM_FILE_NAME) False False False s;
     if \<not> SUCCEEDED status then Some (False, s)
     else do {
       f \<leftarrow> handle;
       (_, s) \<leftarrow> IoCloseFile E f s;
       Some (True, s)
     }
   }"

fun IomuDetermineSystemPartition_loop ::
  "file_lib \<Rightarrow> 'b file_env \<Rightarrow> nat list \<Rightarrow> 'b io_files_scheme \<Rightarrow> (bool \<times> 'b io_files_scheme) option" where
  "IomuDetermineSystemPartition_loop F E [] s = Some (False, s)"
| "IomuDetermineSystemPartition_loop F E (v # vs) s = do {
     vp \<leftarrow> Vpbs s v;
     if \<not> VpbMounted vp then IomuDetermineSystemPartition_loop F E vs s
     else do {
       (found, s) \<leftarrow> IomuIsSystemPartitionOnDrive F E (VolumeLetter vp) s;
       if found then Some (True, s\<lparr>SystemDrive := root_path (VolumeLetter vp)\<rparr>)
       else IomuDetermineSystemPartition_loop F E vs s
     }
   }"

definition IomuDetermineSystemPartition ::
  "file_lib \<Rightarrow> 'b file_env \<Rightarrow> 'b io_files_scheme \<Rightarrow> (status \<times> 'b io_files_scheme) option" where
  "IomuDetermineSystemPartition F E s = do {
     (found, s) \<leftarrow> IomuDetermineSystemPartition_loop F E (VpbList s) s;
     Some (if found then STATUS_SUCCESS else STATUS_FILE_NOT_FOUND, s)
   }"

fun IomuInitializeSwapFile_loop ::
  "file_lib \<Rightarrow> 'b file_env \<Rightarrow> nat list \<Rightarrow> bool \<Rightarrow> 'b io_files_scheme \<Rightarrow> (bool \<times> 'b io_files_scheme) option" where
  "IomuInitializeSwapFile_loop F E [] opened s = Some (opened, s)"
| "IomuInitializeSwapFile_loop F E (v # vs) opened s = do {
     vp \<leftarrow> Vpbs s v;
     if \<not> VpbMounted vp then IomuInitializeSwapFile_loop F E vs opened s
     else if \<not> VpbSwapSpace vp then IomuInitializeSwapFile_loop F E vs opened s
     else do {
       (status, handle, s) \<leftarrow> IoCreateFile F E (root_path (VolumeLetter vp)) False False False s;
       if \<not> SUCCEEDED status then IomuInitializeSwapFile_loop F E vs opened s
       else IomuInitializeSwapFile_loop F E vs True (s\<lparr>SwapFile := handle\<rparr>)
     }
   }"

definition IomuInitializeSwapFile ::
  "file_lib \<Rightarrow> 'b file_env \<Rightarrow> 'b io_files_scheme \<Rightarrow> (status \<times> 'b io_files_scheme) option" where
  "IomuInitializeSwapFile F E s = do {
     (opened, s) \<leftarrow> IomuInitializeSwapFile_loop F E (VpbList s) False s;
     Some (if opened then STATUS_SUCCESS else STATUS_FILE_NOT_FOUND, s)
   }"

text \<open>Drivers, system partition and swap file; that a partition is missing is no error.\<close>

definition IomuLateInit ::
  "file_lib \<Rightarrow> 'b file_env \<Rightarrow> (string \<times> (nat \<Rightarrow> 'b io_files_scheme \<Rightarrow> (status \<times> 'b io_files_scheme) option) \<times> bool) list \<Rightarrow>
   'b io_files_scheme \<Rightarrow> (status \<times> 'b io_files_scheme) option" where
  "IomuLateInit F E drivers s = do {
     (status, s) \<leftarrow> IomuInitDrivers E drivers s;
     if \<not> SUCCEEDED status then Some (status, s)
     else do {
       (_, s) \<leftarrow> IomuDetermineSystemPartition F E s;
       (_, s) \<leftarrow> IomuInitializeSwapFile F E s;
       Some (STATUS_SUCCESS, s)
     }
   }"

subsection \<open>A file system that answers\<close>

text \<open>
  The file system device \<open>fs\<close> is ready: not locked, installed with a routine \<open>r\<close> for the function \<open>maj\<close>,
  and with an alignment that every request satisfies.
\<close>

definition ready :: "'a io_env \<Rightarrow> nat \<Rightarrow> nat \<Rightarrow> byte \<Rightarrow> 'a io_system_scheme \<Rightarrow> bool" where
  "ready E fs r maj s \<longleftrightarrow> (\<exists>dev D. Devices s fs = Some dev \<and> \<not> DeviceLock dev \<and> StackSize dev = 1 \<and>
     (\<forall>n. IsAddressAligned (IoA E) n (DeviceAlignment dev)) \<and> Drivers s (DriverObject dev) = Some D \<and>
     DispatchFunctions D maj = Some r)"

text \<open>
  Routine \<open>r\<close> is a file system routine with answer \<open>A\<close>: for the request in location 0 it gives the status
  \<open>st\<close> of the call and sets status and information of the request, and it leaves the rest alone.
\<close>

definition file_system_routine ::
  "'a io_env \<Rightarrow> nat \<Rightarrow> (io_stack_location \<Rightarrow> status \<times> status \<times> qword) \<Rightarrow> bool" where
  "file_system_routine E r A \<longleftrightarrow> (\<forall>call d i s p. Irps s i = Some p \<longrightarrow> StackLocations p \<noteq> [] \<longrightarrow>
     (case A (StackLocations p ! 0) of (st, ist, info) \<Rightarrow>
        DriverRoutine E r call d i s = Some (st, put_irp i (p\<lparr>IoStatusStatus := ist, IoStatusInformation := info\<rparr>) s)))"

lemma file_system_routineD:
  assumes "file_system_routine E r A" and "Irps s i = Some p" and "StackLocations p = [loc]" and "A loc = (st, ist, info)"
  shows "DriverRoutine E r call d i s = Some (st, put_irp i (p\<lparr>IoStatusStatus := ist, IoStatusInformation := info\<rparr>) s)"
  using assms(1) [unfolded file_system_routine_def, rule_format, OF assms(2)] by (simp add: assms)

lemma IoCallDriver_file_system:
  assumes ready: "ready E fs r (MajorFunction loc) s" and routine: "file_system_routine E r A"
    and p: "Irps s i = Some p" "CurrentStackLocation p = 1" "StackLocations p = [loc]"
    and par: "\<exists>n off. Parameters loc = ReadWrite n off \<or> MajorFunction loc \<noteq> IRP_MJ_READ E \<and> MajorFunction loc \<noteq> IRP_MJ_WRITE E"
    and A: "A loc = (st, ist, info)"
  shows "IoCallDriver E IO_DEPTH fs i s =
    Some (st, put_irp i (p\<lparr>CurrentStackLocation := 0, IoStatusStatus := ist, IoStatusInformation := info\<rparr>) s)"
proof -
  have acc: "accepts E s fs (StackLocations p ! (unat (CurrentStackLocation p) - 1)) r"
    using ready par by (auto simp: accepts_def ready_def ReadWrite_aligned_def p)
  have depth: "IO_DEPTH = Suc 255"
    by (simp add: IO_DEPTH_def)
  let ?q = "p\<lparr>CurrentStackLocation := CurrentStackLocation p - 1\<rparr>"
  have "DriverRoutine E r (IoCallDriver E 255) fs i (put_irp i ?q (lock_devices {fs} s)) =
      Some (st, put_irp i (?q\<lparr>IoStatusStatus := ist, IoStatusInformation := info\<rparr>) (put_irp i ?q (lock_devices {fs} s)))"
    by (rule file_system_routineD [OF routine _ _ A]) (simp_all add: p)
  then have "IoCallDriver E (Suc 255) fs i s = Some (st, put_irp i (?q\<lparr>IoStatusStatus := ist, IoStatusInformation := info\<rparr>)
      (put_irp i ?q (lock_devices {fs} s))\<lparr>Devices := Devices s\<rparr>)"
    by (intro IoCallDriver_accepts [OF p(1) _ _ acc refl]) (simp_all add: p)
  then show ?thesis
    by (simp add: depth p put_irp_def lock_devices_def)
qed

subsection \<open>Reading an open file\<close>

definition fresh_irp :: irp where
  "fresh_irp = \<lparr>CurrentStackLocation = 1, StackLocations = [empty_location], IrpBuffer = 0, IrpAsynchronous = False,
     IrpCompleted = False, IrpMdl = None, IoStatusStatus = STATUS_SUCCESS, IoStatusInformation = 0\<rparr>"

lemma file_request_fresh:
  assumes "ready E fs r maj s" and "PoolHas E (Allocations s)"
  shows "file_request E fs s = Some (Some (Allocations s, 0), put_irp (Allocations s) fresh_irp
    (s\<lparr>Pool := insert (Allocations s) (Pool s), Allocations := Suc (Allocations s)\<rparr>))"
  using assms by (auto simp: ready_def file_request_def IoAllocateIrp_def ExAllocatePoolWithTag_def IoGetNextIrpStackLocation_def
      fresh_irp_def)

lemma ready_cong:
  "Devices t = Devices s \<Longrightarrow> Drivers t = Drivers s \<Longrightarrow> ready E fs r maj t \<longleftrightarrow> ready E fs r maj s"
  by (simp add: ready_def)

lemma pool_typed_no_irp: "pool_typed s \<Longrightarrow> Irps s (Allocations s) = None \<and> Allocations s \<notin> Pool s"
  using pool_typed_fresh [of s "Allocations s" "AnIrp (Allocations s)"] pool_typed_less [of s "Allocations s"]
  by (cases "Irps s (Allocations s)") auto

lemma FileObjects_put_irp [simp]: "FileObjects (put_irp i p s) = FileObjects s"
  by (simp add: put_irp_def)

text \<open>Freeing the request of a finished operation gives back the state before, up to the number of allocations.\<close>

lemma IoFreeIrp_undoes:
  assumes "pool_typed s" and "IrpMdl q = None"
  shows "IoFreeIrp (Allocations s) (put_irp (Allocations s) q
      (s\<lparr>Pool := insert (Allocations s) (Pool s), Allocations := Suc (Allocations s)\<rparr>)) = Some (s\<lparr>Allocations := Suc (Allocations s)\<rparr>)"
  using pool_typed_no_irp [OF assms(1)] assms(2)
  by (cases s) (simp add: IoFreeIrp_def ExFreePoolWithTag_def put_irp_def fun_upd_idem)

text \<open>The request for a read of \<open>len\<close> bytes at \<open>off\<close> of file \<open>f\<close>.\<close>

definition read_location :: "'a io_env \<Rightarrow> nat \<Rightarrow> nat \<Rightarrow> qword \<Rightarrow> qword \<Rightarrow> io_stack_location" where
  "read_location E fs f len off = \<lparr>MajorFunction = IRP_MJ_READ E, MinorFunction = 0, Parameters = ReadWrite len off,
     LocDeviceObject = Some fs, LocFileObject = Some f\<rparr>"

lemma IoReadFile_step:
  fixes s :: "'b io_files_scheme"
  assumes f: "FileObjects s f = Some fo" "\<not> FileAsynchronous fo" "FileSystemDevice fo = Some fs"
    and ready: "ready E fs r (IRP_MJ_READ E) s" and routine: "file_system_routine E r A"
    and A: "A (read_location E fs f len (CurrentByteOffset fo)) = (STATUS_SUCCESS, STATUS_SUCCESS, n)"
    and s: "pool_typed s" "PoolHas E (Allocations s)" "Buffer \<noteq> 0"
  shows "IoReadFile E f len None Buffer s = Some (STATUS_SUCCESS, Some n, s\<lparr>Allocations := Suc (Allocations s),
    FileObjects := (FileObjects s)(f \<mapsto> fo\<lparr>CurrentByteOffset := CurrentByteOffset fo + n\<rparr>)\<rparr>)"
proof -
  let ?i = "Allocations s" and ?loc = "read_location E fs f len (CurrentByteOffset fo)"
  let ?s = "s\<lparr>Pool := insert ?i (Pool s), Allocations := Suc ?i\<rparr>"
  let ?p = "fresh_irp\<lparr>IrpBuffer := Buffer, StackLocations := [?loc]\<rparr>"
  have "ready E fs r (MajorFunction ?loc) (put_irp ?i ?p ?s)"
    using ready by (simp add: ready_def read_location_def)
  then have call: "IoCallDriver E IO_DEPTH fs ?i (put_irp ?i ?p ?s) = Some (STATUS_SUCCESS,
      put_irp ?i (?p\<lparr>CurrentStackLocation := 0, IoStatusStatus := STATUS_SUCCESS, IoStatusInformation := n\<rparr>) (put_irp ?i ?p ?s))"
    by (rule IoCallDriver_file_system [OF _ routine _ _ _ _ A]) (simp_all add: fresh_irp_def read_location_def)
  have free: "IoFreeIrp ?i ((put_irp ?i q ?s)\<lparr>FileObjects := G\<rparr>) = Some (s\<lparr>Allocations := Suc ?i, FileObjects := G\<rparr>)"
    if "IrpMdl q = None" for q G
    using pool_typed_no_irp [OF s(1)] that
    by (cases s) (simp add: IoFreeIrp_def ExFreePoolWithTag_def put_irp_def fun_upd_idem)
  show ?thesis
    using f file_request_fresh [OF ready s(2)] s(3) call free
    by (simp add: IoReadFile_def IoReadWriteFile_def location_def set_location_def call_file_system_def read_location_def
        fresh_irp_def empty_location_def)
qed

text \<open>Reading on from the position of the file, in pieces.\<close>

fun read_chunks :: "'b file_env \<Rightarrow> nat \<Rightarrow> qword \<Rightarrow> qword list \<Rightarrow> 'b io_files_scheme \<Rightarrow> (qword list \<times> 'b io_files_scheme) option" where
  "read_chunks E f Buffer [] s = Some ([], s)"
| "read_chunks E f Buffer (n # ns) s = do {
     (status, transferred, s) \<leftarrow> IoReadFile E f n None Buffer s;
     ASSERT (SUCCEEDED status);
     k \<leftarrow> transferred;
     (ks, s) \<leftarrow> read_chunks E f Buffer ns s;
     Some (k # ks, s)
   }"

text \<open>What a read of \<open>n\<close> bytes at \<open>off\<close> transfers from a file of \<open>sz\<close> bytes, and a file system that does so.\<close>

definition file_bytes :: "qword \<Rightarrow> qword \<Rightarrow> qword \<Rightarrow> qword" where
  "file_bytes sz n off = (if sz \<le> off then 0 else if n \<le> sz - off then n else sz - off)"

definition serves_reads :: "'a io_env \<Rightarrow> nat \<Rightarrow> nat \<Rightarrow> nat \<Rightarrow> qword \<Rightarrow> (io_stack_location \<Rightarrow> status \<times> status \<times> qword) \<Rightarrow> bool" where
  "serves_reads E fs f r sz A \<longleftrightarrow> file_system_routine E r A \<and>
     (\<forall>n off. A (read_location E fs f n off) = (STATUS_SUCCESS, STATUS_SUCCESS, file_bytes sz n off))"

lemma unat_file_bytes: "off \<le> sz \<Longrightarrow> unat (file_bytes sz n off) = min (unat n) (unat sz - unat off)"
  by (auto simp: file_bytes_def min_def word_le_nat_alt unat_sub)

lemma unat_file_position:
  assumes "off \<le> sz"
  shows "unat (off + file_bytes sz n off) = unat off + min (unat n) (unat sz - unat off)" and "off + file_bytes sz n off \<le> sz"
proof -
  have "unat off + unat (file_bytes sz n off) \<le> unat sz"
    using assms by (simp add: unat_file_bytes word_le_nat_alt)
  then show u: "unat (off + file_bytes sz n off) = unat off + min (unat n) (unat sz - unat off)"
    using unat_qword_less [of sz] assms by (simp add: unat_add_less unat_file_bytes)
  then show "off + file_bytes sz n off \<le> sz"
    using assms by (simp add: word_le_nat_alt)
qed

text \<open>
  C40 (functional). A synchronous file that is read in pieces from its position on: the pieces follow each other without
  gap or overlap, together they are as long as one read of the sum of the lengths (up to the end of the
  file), and apart from the position nothing has changed.
\<close>

theorem chunked_reads_are_contiguous:
  fixes s :: "'b io_files_scheme"
  assumes "FileObjects s f = Some fo" and "\<not> FileAsynchronous fo" and "FileSystemDevice fo = Some fs"
    and "ready E fs r (IRP_MJ_READ E) s" and "serves_reads E fs f r sz A" and "CurrentByteOffset fo \<le> sz"
    and "pool_typed s" and "\<forall>k. PoolHas E k" and "Buffer \<noteq> 0"
  shows "\<exists>ks. read_chunks E f Buffer ns s = Some (ks, s\<lparr>Allocations := Allocations s + length ns,
      FileObjects := (FileObjects s)(f \<mapsto> fo\<lparr>CurrentByteOffset := CurrentByteOffset fo + sum_list ks\<rparr>)\<rparr>) \<and>
    length ks = length ns \<and>
    (\<forall>j < length ks. ks ! j = file_bytes sz (ns ! j) (CurrentByteOffset fo + sum_list (take j ks))) \<and>
    unat (CurrentByteOffset fo + sum_list ks) = unat (CurrentByteOffset fo) +
      min (sum_list (map unat ns)) (unat sz - unat (CurrentByteOffset fo))"
  using assms
proof (induction ns arbitrary: s fo)
  case Nil
  then show ?case
    by (cases s) (auto simp: fun_upd_idem intro: exI [of _ "[]"])
next
  case (Cons n ns)
  let ?off = "CurrentByteOffset fo" and ?k = "file_bytes sz n (CurrentByteOffset fo)"
  let ?fo = "fo\<lparr>CurrentByteOffset := ?off + ?k\<rparr>"
  let ?s = "s\<lparr>Allocations := Suc (Allocations s), FileObjects := (FileObjects s)(f \<mapsto> ?fo)\<rparr>"
  have routine: "file_system_routine E r A" and A: "A (read_location E fs f n ?off) = (STATUS_SUCCESS, STATUS_SUCCESS, ?k)"
    using Cons.prems(5) by (simp_all add: serves_reads_def)
  have step: "IoReadFile E f n None Buffer s = Some (STATUS_SUCCESS, Some ?k, ?s)"
    using Cons.prems(8) by (intro IoReadFile_step [OF Cons.prems(1-4) routine A Cons.prems(7) _ Cons.prems(9)]) simp
  have pos: "unat (?off + ?k) = unat ?off + min (unat n) (unat sz - unat ?off)" "?off + ?k \<le> sz"
    using unat_file_position [OF Cons.prems(6)] by simp_all
  have "owned ?s = owned s"
    by (rule owned_cong) simp_all
  then have "pool_typed ?s"
    by (rule pool_typed_same [OF Cons.prems(7)]) simp_all
  then have "\<exists>ks. read_chunks E f Buffer ns ?s = Some (ks, ?s\<lparr>Allocations := Allocations ?s + length ns,
      FileObjects := (FileObjects ?s)(f \<mapsto> ?fo\<lparr>CurrentByteOffset := CurrentByteOffset ?fo + sum_list ks\<rparr>)\<rparr>) \<and>
    length ks = length ns \<and>
    (\<forall>j < length ks. ks ! j = file_bytes sz (ns ! j) (CurrentByteOffset ?fo + sum_list (take j ks))) \<and>
    unat (CurrentByteOffset ?fo + sum_list ks) = unat (CurrentByteOffset ?fo) +
      min (sum_list (map unat ns)) (unat sz - unat (CurrentByteOffset ?fo))"
    by (intro Cons.IH [OF _ _ _ _ Cons.prems(5) _ _ Cons.prems(8,9)]) (use Cons.prems(2-4) pos(2) in \<open>simp_all add: ready_def\<close>)
  then obtain ks where ks: "read_chunks E f Buffer ns ?s = Some (ks, ?s\<lparr>Allocations := Allocations ?s + length ns,
      FileObjects := (FileObjects ?s)(f \<mapsto> ?fo\<lparr>CurrentByteOffset := CurrentByteOffset ?fo + sum_list ks\<rparr>)\<rparr>)"
    "length ks = length ns"
    "\<forall>j < length ks. ks ! j = file_bytes sz (ns ! j) (CurrentByteOffset ?fo + sum_list (take j ks))"
    "unat (CurrentByteOffset ?fo + sum_list ks) = unat (CurrentByteOffset ?fo) +
      min (sum_list (map unat ns)) (unat sz - unat (CurrentByteOffset ?fo))"
    by blast
  show ?case
  proof (intro exI [of _ "?k # ks"] conjI allI impI)
    show "read_chunks E f Buffer (n # ns) s = Some (?k # ks, s\<lparr>Allocations := Allocations s + length (n # ns),
        FileObjects := (FileObjects s)(f \<mapsto> fo\<lparr>CurrentByteOffset := ?off + sum_list (?k # ks)\<rparr>)\<rparr>)"
      using step ks(1) by (simp add: add.assoc)
    show "(?k # ks) ! j = file_bytes sz ((n # ns) ! j) (?off + sum_list (take j (?k # ks)))" if "j < length (?k # ks)" for j
      using that ks(3) by (cases j) (simp_all add: add.assoc)
    show "unat (?off + sum_list (?k # ks)) = unat ?off + min (sum_list (map unat (n # ns))) (unat sz - unat ?off)"
      using ks(4) pos(1) by (auto simp: add.assoc min_def)
  qed (simp add: ks(2))
qed

subsection \<open>Opening a file\<close>

text \<open>The request that opens a file: its object is allocated after the request.\<close>

definition create_location :: "'a io_env \<Rightarrow> nat \<Rightarrow> nat \<Rightarrow> io_stack_location" where
  "create_location E fs f = \<lparr>MajorFunction = IRP_MJ_CREATE E, MinorFunction = 0, Parameters = NoParameters,
     LocDeviceObject = Some fs, LocFileObject = Some f\<rparr>"


subsection \<open>Example\<close>

text \<open>Volume C with a file system that has one file of 592 bytes and refuses names that end in a dot.\<close>

definition fs_answer :: "io_stack_location \<Rightarrow> status \<times> status \<times> qword" where
  "fs_answer loc = (case Parameters loc of
     ReadWrite n off \<Rightarrow> (STATUS_SUCCESS, STATUS_SUCCESS, file_bytes 0x250 n off)
   | _ \<Rightarrow> (STATUS_SUCCESS, if LocFileObject loc = Some 5 then STATUS_SUCCESS else STATUS_FILE_NOT_FOUND, 0))"

definition fs_routine :: "('a io_system_scheme \<Rightarrow> (status \<times> 'a io_system_scheme) option) \<Rightarrow> nat \<Rightarrow> 'a io_system_scheme \<Rightarrow>
    (status \<times> 'a io_system_scheme) option" where
  "fs_routine call i s = do {
     p \<leftarrow> Irps s i;
     ASSERT (StackLocations p \<noteq> []);
     let (st, ist, info) = fs_answer (StackLocations p ! 0);
     Some (st, put_irp i (p\<lparr>IoStatusStatus := ist, IoStatusInformation := info\<rparr>) s)
   }"

definition file_env_example :: "unit file_env" where
  "file_env_example = \<lparr>IoA = addr_ops, IoL = list_ops, InsertOrderedList = insert_ordered,
     ListSearchForElement = (\<lambda>c q. find (\<lambda>x. c x = 0) q), DeviceTypeMin = 1, DeviceTypeMax = 8, DeviceTypeVolume = 3,
     DeviceTypeSystem = 1, IRP_MJ_CREATE = 0, IRP_MJ_CLOSE = 1, IRP_MJ_READ = 2, IRP_MJ_WRITE = 3,
     IRP_MJ_DEVICE_CONTROL = 4, IRP_MJ_QUERY_INFORMATION = 5, IRP_MJ_DIRECTORY_CONTROL = 6, PoolHas = (\<lambda>_. True),
     DriverRoutine = (\<lambda>r call d i s. fs_routine (call d i) i s)\<rparr>"

definition file_lib_example :: file_lib where
  "file_lib_example = \<lparr>strrchr = (\<lambda>Name c. if c \<in> set Name then Some (length Name - 1 - length (takeWhile (\<lambda>x. x \<noteq> c) (rev Name))) else None),
     IRP_MN_INFORMATION_FILE_INFORMATION = 0, IRP_MN_QUERY_DIRECTORY = 1, FILE_INFORMATION_SIZE = 40\<rparr>"

interpretation fx: io_contracts file_env_example
proof unfold_locales
  fix f :: "nat \<Rightarrow> int" and k and q and x :: nat
  assume "ListSearchForElement file_env_example (\<lambda>x. k - f x) q = Some x"
  then show "x \<in> set q \<and> f x = k"
    by (auto simp: file_env_example_def find_Some_iff)
qed (auto simp: file_env_example_def list_ops_def insert_ordered_sorted insert_ordered_mset find_None_iff remove1_idem)

definition files_example :: "unit io_files_scheme" where
  "files_example = \<lparr>Devices = [1 \<mapsto> (example_device 2)\<lparr>DeviceAlignment := 1\<rparr>], Drivers = [2 \<mapsto> example_driver 3 1 0],
     Irps = Map.empty, Vpbs = [0 \<mapsto> \<lparr>VolumeLetter = 0x43, VolumeDevice = 1, VpbMounted = True, VpbSwapSpace = False,
       VpbFilesystemDevice = Some 1\<rparr>], Mdls = {}, DriverList = [2], VpbList = [0], CurrentVolumeLetter = 0x43,
     IoSystemDevice = None, Pool = {0, 1, 2, 3}, Allocations = 4, FileObjects = Map.empty, SwapFile = None, SystemDrive = []\<rparr>"

lemma fs_routine_answers:
  assumes "Irps s i = Some p" and "StackLocations p \<noteq> []" and "fs_answer (StackLocations p ! 0) = (st, ist, info)"
  shows "fs_routine call i s = Some (st, put_irp i (p\<lparr>IoStatusStatus := ist, IoStatusInformation := info\<rparr>) s)"
  using assms unfolding fs_routine_def by simp

lemma fs_answer_routine: "file_system_routine file_env_example r fs_answer"
proof -
  have "DriverRoutine file_env_example = (\<lambda>r call d i s. fs_routine (call d i) i s)"
    by (simp add: file_env_example_def)
  then have routine: "DriverRoutine file_env_example r call d i s = fs_routine (call d i) i s" for call d i s
    by (rule ssubst) (rule refl)
  show ?thesis
    unfolding file_system_routine_def
  proof (intro allI impI)
    fix call d i p and s :: "unit io_files_scheme"
    assume "Irps s i = Some p" and "StackLocations p \<noteq> []"
    moreover obtain st ist info where "fs_answer (StackLocations p ! 0) = (st, ist, info)"
      by (rule prod_cases3)
    ultimately show "case fs_answer (StackLocations p ! 0) of (st, ist, info) \<Rightarrow>
        DriverRoutine file_env_example r call d i s = Some (st, put_irp i (p\<lparr>IoStatusStatus := ist, IoStatusInformation := info\<rparr>) s)"
      by (simp only: routine prod.case) (erule (2) fs_routine_answers)
  qed
qed

lemma files_example_ready: "ready file_env_example 1 0 maj files_example"
  by (simp add: ready_def files_example_def file_env_example_def example_device_def example_driver_def addr_ops_def)

lemma files_example_typed: "volumes_typed files_example" "pool_typed files_example"
proof -
  show "volumes_typed files_example"
    by (simp add: volumes_typed_def files_example_def volume_key_def letter_of_def)
  have owned: "owned files_example x = Some b \<longleftrightarrow>
      (x, b) \<in> {(ADevice 1, 1), (ADriver 2, 2), (AName 2, 3), (AVpb 0, 0)}" for x b
    by (cases x) (auto simp: files_example_def example_device_def example_driver_def split: if_splits)
  have pool: "Pool files_example = {0, 1, 2, 3}" "Allocations files_example = 4"
    by (simp_all add: files_example_def)
  show "pool_typed files_example"
    by (rule pool_typedI; simp only: owned pool; auto)
qed

text \<open>The name of the example is c:\textbackslash a.\<close>

definition name_example :: "byte list" where
  "name_example = [0x63, 0x3A, 0x5C, 0x61]"


definition open_example :: "unit io_files_scheme" where
  "open_example = files_example\<lparr>Allocations := 6, Pool := {0, 1, 2, 3, 5}, FileObjects := [5 \<mapsto>
     \<lparr>FileName = [0x5C, 0x61], FileAsynchronous = False, FileCreate = False, FileDirectory = False, FileSystemDevice = Some 1,
      CurrentByteOffset = 0, FileSize = 0\<rparr>]\<rparr>"

lemma chunked_reads_are_contiguous_witness:
  "\<exists>ks t. read_chunks file_env_example 5 0x1000 [0x100, 0x100, 0x100] open_example = Some (ks, t) \<and> length ks = 3 \<and>
    unat (sum_list ks) = 0x250"
proof -
  have f: "FileObjects open_example 5 = Some \<lparr>FileName = [0x5C, 0x61], FileAsynchronous = False, FileCreate = False,
      FileDirectory = False, FileSystemDevice = Some 1, CurrentByteOffset = 0, FileSize = 0\<rparr>"
    by (simp add: open_example_def)
  have ready: "ready file_env_example 1 0 (IRP_MJ_READ file_env_example) open_example"
    using files_example_ready by (simp add: open_example_def ready_def)
  have serves: "serves_reads file_env_example 1 5 0 0x250 fs_answer"
    using fs_answer_routine by (simp add: serves_reads_def fs_answer_def read_location_def)
  have "owned open_example = owned files_example"
    by (rule owned_cong) (simp_all add: open_example_def)
  then have typed: "pool_typed open_example"
    using files_example_typed(2) unfolding pool_typed_def by (auto simp: open_example_def files_example_def)
  show ?thesis
    using chunked_reads_are_contiguous [OF f _ _ ready serves _ typed, where Buffer = "0x1000" and ns = "[0x100, 0x100, 0x100]"]
    by (auto simp: file_env_example_def)
qed

end
